(* ===== verification/Prelude.thy ===== *)
theory Prelude
  imports Complex_Main "HOL-Library.AList"
begin

section \<open>Shared vocabulary: Python values, dictionaries, runs\<close>

text \<open>
  What every component uses of Python: floats with their infinities and NaN, strings as lists of
  Latin-1 code points, insertion-ordered dictionaries as association lists, list slices and
  batches; and a locale for components that are driven by a sequence of events and keep an
  invariant. Identifiers (\<open>uuid.UUID\<close>) are natural numbers, instants and durations in seconds are
  rationals. Finite floats are rationals too (every double is one); sums and differences are
  taken exactly, so the rounding of IEEE arithmetic is not modelled, while the comparisons,
  which are exact in IEEE arithmetic, and the special values are.
\<close>

named_theorems float_simps \<open>comparisons and arithmetic of the float model\<close>

type_synonym uuid = nat
type_synonym time = rat

subsection \<open>Floats\<close>

datatype pyfloat = Fin rat | PosInf | NegInf | NaN

fun fl_lt :: "pyfloat \<Rightarrow> pyfloat \<Rightarrow> bool" where
  "fl_lt (Fin a) (Fin b) = (a < b)"
| "fl_lt (Fin _) PosInf = True"
| "fl_lt NegInf (Fin _) = True"
| "fl_lt NegInf PosInf = True"
| "fl_lt _ _ = False"

fun fl_le :: "pyfloat \<Rightarrow> pyfloat \<Rightarrow> bool" where
  "fl_le (Fin a) (Fin b) = (a \<le> b)"
| "fl_le NaN _ = False"
| "fl_le _ NaN = False"
| "fl_le NegInf _ = True"
| "fl_le _ PosInf = True"
| "fl_le _ _ = False"

fun fl_eq :: "pyfloat \<Rightarrow> pyfloat \<Rightarrow> bool" where
  "fl_eq NaN _ = False"
| "fl_eq a b = (a = b)"

fun fl_neg :: "pyfloat \<Rightarrow> pyfloat" where
  "fl_neg (Fin a) = Fin (- a)"
| "fl_neg PosInf = NegInf"
| "fl_neg NegInf = PosInf"
| "fl_neg NaN = NaN"

fun fl_add :: "pyfloat \<Rightarrow> pyfloat \<Rightarrow> pyfloat" where
  "fl_add (Fin a) (Fin b) = Fin (a + b)"
| "fl_add NaN _ = NaN"
| "fl_add _ NaN = NaN"
| "fl_add PosInf NegInf = NaN"
| "fl_add NegInf PosInf = NaN"
| "fl_add PosInf _ = PosInf"
| "fl_add _ PosInf = PosInf"
| "fl_add NegInf _ = NegInf"
| "fl_add _ NegInf = NegInf"

definition fl_sub :: "pyfloat \<Rightarrow> pyfloat \<Rightarrow> pyfloat" where
  "fl_sub a b = fl_add a (fl_neg b)"

fun fl_abs :: "pyfloat \<Rightarrow> pyfloat" where
  "fl_abs (Fin a) = Fin \<bar>a\<bar>"
| "fl_abs NegInf = PosInf"
| "fl_abs x = x"

fun fl_isnan :: "pyfloat \<Rightarrow> bool" where
  "fl_isnan NaN = True"
| "fl_isnan _ = False"

lemma fl_sub_Fin [simp, float_simps]: "fl_sub (Fin a) (Fin b) = Fin (a - b)"
  by (simp add: fl_sub_def)

lemma fl_neg_neg [simp]: "fl_neg (fl_neg x) = x"
  by (cases x) auto

lemma fl_lt_neg [simp]: "fl_lt (fl_neg a) (fl_neg b) = fl_lt b a"
  by (cases a; cases b) auto

lemma fl_neg_add: "fl_neg (fl_add a b) = fl_add (fl_neg a) (fl_neg b)"
  by (cases a; cases b) auto

lemma fl_lt_nan [simp, float_simps]: "\<not> fl_lt NaN b" "\<not> fl_lt a NaN"
  by (cases b; simp) (cases a; simp)

lemma fl_isnan_iff: "fl_isnan x \<longleftrightarrow> x = NaN"
  by (cases x) auto

lemma fl_not_lt_le: "x \<noteq> NaN \<Longrightarrow> y \<noteq> NaN \<Longrightarrow> (\<not> fl_lt x y) = fl_le y x"
  by (cases x; cases y) auto

subsection \<open>Strings\<close>

text \<open>
  \<open>str.lower\<close> on a code point below 256: \<open>A-Z\<close> and the accented capitals move up by 32.
\<close>

definition lower_char :: "char \<Rightarrow> char" where
  "lower_char c =
     (let n = of_char c :: nat
      in if (65 \<le> n \<and> n \<le> 90) \<or> (192 \<le> n \<and> n \<le> 222 \<and> n \<noteq> 215) then char_of (n + 32) else c)"

definition py_lower :: "string \<Rightarrow> string" where
  "py_lower s = map lower_char s"

definition starts_with :: "string \<Rightarrow> string \<Rightarrow> bool" where
  "starts_with prefix s = (take (length prefix) s = prefix)"

definition ends_with :: "string \<Rightarrow> string \<Rightarrow> bool" where
  "ends_with suffix s = starts_with (rev suffix) (rev s)"

text \<open>\<open>s.partition(sep)\<close> for a one-character separator: before, whether found, after.\<close>

fun partition_at :: "char \<Rightarrow> string \<Rightarrow> string \<times> bool \<times> string" where
  "partition_at c [] = ([], False, [])"
| "partition_at c (x # xs) =
     (if x = c then ([], True, xs)
      else let (before, found, after) = partition_at c xs in (x # before, found, after))"

lemma partition_at_found:
  "partition_at c s = (a, f, b) \<Longrightarrow> (if f then s = a @ c # b else s = a \<and> b = []) \<and> c \<notin> set a"
  by (induction s arbitrary: a f b) (auto split: if_splits prod.splits)

lemma partition_at_append [simp]: "c \<notin> set a \<Longrightarrow> partition_at c (a @ c # b) = (a, True, b)"
  by (induction a) auto

lemma partition_at_absent [simp]: "c \<notin> set a \<Longrightarrow> partition_at c a = (a, False, [])"
  by (induction a) auto

subsection \<open>Dictionaries\<close>

text \<open>
  A \<open>dict\<close> keeps insertion order: assigning to an existing key leaves it in place, a new key
  goes last. \<open>AList.update\<close> and \<open>AList.delete\<close> do exactly that.
\<close>

type_synonym ('k, 'v) dict = "('k \<times> 'v) list"

abbreviation dict_get :: "('k, 'v) dict \<Rightarrow> 'k \<Rightarrow> 'v option" where
  "dict_get d k \<equiv> map_of d k"

abbreviation dict_set :: "'k \<Rightarrow> 'v \<Rightarrow> ('k, 'v) dict \<Rightarrow> ('k, 'v) dict" where
  "dict_set k v d \<equiv> AList.update k v d"

abbreviation dict_del :: "'k \<Rightarrow> ('k, 'v) dict \<Rightarrow> ('k, 'v) dict" where
  "dict_del k d \<equiv> AList.delete k d"

abbreviation dict_keys :: "('k, 'v) dict \<Rightarrow> 'k list" where
  "dict_keys d \<equiv> map fst d"

abbreviation dict_wf :: "('k, 'v) dict \<Rightarrow> bool" where
  "dict_wf d \<equiv> distinct (map fst d)"

definition dict_setdefault :: "'k \<Rightarrow> 'v \<Rightarrow> ('k, 'v) dict \<Rightarrow> ('k, 'v) dict" where
  "dict_setdefault k v d = (case map_of d k of None \<Rightarrow> AList.update k v d | Some _ \<Rightarrow> d)"

text \<open>Lookups are kept as lookups: no rewriting to membership of the pair.\<close>

declare map_of_eq_Some_iff [simp del] Some_eq_map_of_iff [simp del]

lemma dict_get_set [simp]: "map_of (AList.update k v d) k' = (if k' = k then Some v else map_of d k')"
  by (simp add: update_conv')

lemma dict_get_del [simp]: "map_of (AList.delete k d) k' = (if k' = k then None else map_of d k')"
  by (simp add: delete_conv')

lemma dict_wf_set [simp]: "dict_wf d \<Longrightarrow> dict_wf (AList.update k v d)"
  by (rule distinct_update)

lemma dict_wf_del [simp]: "dict_wf d \<Longrightarrow> dict_wf (AList.delete k d)"
  by (rule distinct_delete)

lemma dict_get_setdefault [simp]:
  "map_of (dict_setdefault k v d) k' =
     (if k' = k \<and> map_of d k = None then Some v else map_of d k')"
  by (auto simp: dict_setdefault_def split: option.splits)

lemma dict_wf_setdefault [simp]: "dict_wf d \<Longrightarrow> dict_wf (dict_setdefault k v d)"
  by (simp add: dict_setdefault_def split: option.splits)

lemma dict_keys_set:
  "map_of d k \<noteq> None \<Longrightarrow> dict_keys (AList.update k v d) = dict_keys d"
  by (induction d) (auto split: if_splits)

lemma set_dict_set: "dict_wf d \<Longrightarrow>
    set (AList.update k v d) = insert (k, v) {kv \<in> set d. fst kv \<noteq> k}"
proof (induction d)
  case Nil
  then show ?case by simp
next
  case (Cons p d)
  then show ?case by (cases p) force
qed

text \<open>A column of a table kept as a dictionary from primary keys to rows.\<close>

definition dict_vals :: "('k, 'v) dict \<Rightarrow> 'v list" where
  "dict_vals d = map snd d"

lemma map_of_mem: "dict_wf d \<Longrightarrow> (k, v) \<in> set d \<longleftrightarrow> map_of d k = Some v"
  using map_of_is_SomeI map_of_SomeD by metis

text \<open>\<open>{k: v for k, v in pairs}\<close>: a later pair replaces an earlier one.\<close>

definition dict_of :: "('k \<times> 'v) list \<Rightarrow> ('k, 'v) dict" where
  "dict_of kvs = fold (\<lambda>(k, v). AList.update k v) kvs []"

lemma dict_update_new: "k \<notin> set (dict_keys d) \<Longrightarrow> AList.update k v d = d @ [(k, v)]"
  by (induction d) auto

lemma dict_of_distinct: "dict_wf kvs \<Longrightarrow> dict_of kvs = kvs"
proof -
  have "fold (\<lambda>(k, v). AList.update k v) kvs d = d @ kvs" if "dict_wf (d @ kvs)" for d
    using that
  proof (induction kvs arbitrary: d)
    case (Cons kv kvs)
    obtain k v where kv: "kv = (k, v)" by (cases kv)
    with Cons.prems have "AList.update k v d = d @ [(k, v)]" by (intro dict_update_new) auto
    with Cons.IH [of "d @ [(k, v)]"] Cons.prems kv show ?case by simp
  qed simp
  from this [of "[]"] show "dict_wf kvs \<Longrightarrow> ?thesis" by (simp add: dict_of_def)
qed

lemma dict_of_wf [simp]: "dict_wf (dict_of kvs)"
proof -
  have "dict_wf d \<Longrightarrow> dict_wf (fold (\<lambda>(k, v). AList.update k v) kvs d)" for d
    by (induction kvs arbitrary: d) auto
  then show ?thesis by (simp add: dict_of_def)
qed

lemma dict_of_mem: "map_of (dict_of kvs) k = Some v \<Longrightarrow> (k, v) \<in> set kvs"
proof -
  have "map_of (fold (\<lambda>(k, v). AList.update k v) kvs d) k = Some v \<Longrightarrow> (k, v) \<in> set kvs \<or> map_of d k = Some v"
    for d
    by (induction kvs arbitrary: d) (fastforce split: if_splits)+
  from this [of "[]"] show "map_of (dict_of kvs) k = Some v \<Longrightarrow> ?thesis" by (simp add: dict_of_def)
qed

subsection \<open>JSON\<close>

text \<open>What \<open>json.loads\<close> returns: a number is an int or a float, an object keeps its order.\<close>

datatype json = JNull | JBool bool | JInt int | JFloat pyfloat | JStr string
  | JList "json list" | JObj "(string \<times> json) list"

subsection \<open>Slices and batches\<close>

text \<open>\<open>xs[-n:]\<close> for a positive \<open>n\<close>: the last \<open>n\<close> elements.\<close>

definition last_n :: "nat \<Rightarrow> 'a list \<Rightarrow> 'a list" where
  "last_n n xs = drop (length xs - n) xs"

lemma length_last_n [simp]: "length (last_n n xs) = min n (length xs)"
  by (simp add: last_n_def min_def)

lemma last_n_all [simp]: "length xs \<le> n \<Longrightarrow> last_n n xs = xs"
  by (simp add: last_n_def)

text \<open>\<open>_chunks\<close>: consecutive slices of at most \<open>n\<close> elements (a step of 0 raises in Python).\<close>

function chunks :: "nat \<Rightarrow> 'a list \<Rightarrow> 'a list list" where
  "chunks n xs = (if n = 0 \<or> xs = [] then [] else take n xs # chunks n (drop n xs))"
  by pat_completeness auto
termination by (relation "measure (\<lambda>(n, xs). length xs)") auto

declare chunks.simps [simp del]

lemma concat_chunks [simp]: "0 < n \<Longrightarrow> concat (chunks n xs) = xs"
  by (induction n xs rule: chunks.induct) (subst chunks.simps, auto)

lemma chunks_length: "ch \<in> set (chunks n xs) \<Longrightarrow> 0 < length ch \<and> length ch \<le> n"
  by (induction n xs rule: chunks.induct) (subst (asm) (2) chunks.simps, auto split: if_splits)

text \<open>\<open>OFFSET k LIMIT n\<close>; the pages of one size follow each other.\<close>

definition page :: "nat \<Rightarrow> nat \<Rightarrow> 'a list \<Rightarrow> 'a list" where
  "page limit offset xs = take limit (drop offset xs)"

lemma concat_pages: "concat (map (\<lambda>k. page n (k * n) xs) [0..<m]) = take (m * n) xs"
proof (induction m)
  case (Suc m)
  have "take (Suc m * n) xs = take (m * n) xs @ page n (m * n) xs"
    using take_add [of "m * n" n xs] by (simp add: page_def add.commute)
  with Suc show ?case by simp
qed simp

lemma find_map_of: "List.find P xs = Some x \<Longrightarrow> x \<in> set xs \<and> P x"
  by (auto simp: find_Some_iff)

subsection \<open>Components driven by events\<close>

text \<open>
  Most components are a state and handlers that the service calls one after the other (the
  handlers of one object are serialised by its lock or by the single consumer loop). The locale
  states the shared contract, one step keeps the invariant, and gives what every component
  draws from it: a whole run keeps the invariant, and so does every state on the way.
\<close>

locale event_driven =
  fixes step :: "'e \<Rightarrow> 's \<Rightarrow> 's"
    and inv :: "'s \<Rightarrow> bool"
  assumes step_inv: "inv s \<Longrightarrow> inv (step e s)"
begin

lemma run_inv: "inv s \<Longrightarrow> inv (fold step es s)"
  by (induction es arbitrary: s) (auto intro: step_inv)

lemma every_state_inv: "inv s \<Longrightarrow> s' = fold step (take n es) s \<Longrightarrow> inv s'"
  using run_inv by simp

end

text \<open>A component that in addition appends to a log: entries are never rewritten.\<close>

locale logging = event_driven step inv
  for step :: "'e \<Rightarrow> 's \<Rightarrow> 's" and inv :: "'s \<Rightarrow> bool" +
  fixes log :: "'s \<Rightarrow> 'l list"
  assumes step_log: "inv s \<Longrightarrow> \<exists>ls. log (step e s) = log s @ ls"
begin

lemma run_log: "inv s \<Longrightarrow> \<exists>ls. log (fold step es s) = log s @ ls"
proof (induction es arbitrary: s)
  case Nil
  then show ?case by simp
next
  case (Cons e es)
  obtain l1 where "log (step e s) = log s @ l1"
    using step_log Cons.prems by blast
  moreover obtain l2 where "log (fold step es (step e s)) = log (step e s) @ l2"
    using Cons.IH step_inv Cons.prems by blast
  ultimately show ?case by simp
qed

end

end
