(* ===== verification/Models.thy ===== *)
theory Models
  imports Prelude
begin

section \<open>Shared enumerations and roles\<close>

text \<open>
  \<open>app/common/models.py\<close> and \<open>app/auth/permissions.py\<close>: the string enumerations stored in the
  database, with the text of each member, and the hierarchy of roles.
\<close>

datatype point_status = OK | FAULT | OVERRIDDEN | OUT_OF_SERVICE | STALE_VALUE | COMM_LOST_VALUE

datatype alarm_kind = HIGH | LOW | STATE | STALE | COMM_LOST | BACNET_EVENT

datatype severity = INFO | WARNING | CRITICAL

datatype alarm_state = NORMAL | PENDING | ACTIVE_UNACKED | ACTIVE_ACKED | CLEARED_UNACKED

datatype role_name = VIEWER | OPERATOR | ENGINEER | ADMIN

fun point_status_value :: "point_status \<Rightarrow> string" where
  "point_status_value OK = ''ok''"
| "point_status_value FAULT = ''fault''"
| "point_status_value OVERRIDDEN = ''overridden''"
| "point_status_value OUT_OF_SERVICE = ''out_of_service''"
| "point_status_value STALE_VALUE = ''stale''"
| "point_status_value COMM_LOST_VALUE = ''comm_lost''"

fun alarm_kind_value :: "alarm_kind \<Rightarrow> string" where
  "alarm_kind_value HIGH = ''high''"
| "alarm_kind_value LOW = ''low''"
| "alarm_kind_value STATE = ''state''"
| "alarm_kind_value STALE = ''stale''"
| "alarm_kind_value COMM_LOST = ''comm_lost''"
| "alarm_kind_value BACNET_EVENT = ''bacnet_event''"

fun severity_value :: "severity \<Rightarrow> string" where
  "severity_value INFO = ''info''"
| "severity_value WARNING = ''warning''"
| "severity_value CRITICAL = ''critical''"

fun alarm_state_value :: "alarm_state \<Rightarrow> string" where
  "alarm_state_value NORMAL = ''normal''"
| "alarm_state_value PENDING = ''pending''"
| "alarm_state_value ACTIVE_UNACKED = ''active_unacked''"
| "alarm_state_value ACTIVE_ACKED = ''active_acked''"
| "alarm_state_value CLEARED_UNACKED = ''cleared_unacked''"

fun role_value :: "role_name \<Rightarrow> string" where
  "role_value VIEWER = ''viewer''"
| "role_value OPERATOR = ''operator''"
| "role_value ENGINEER = ''engineer''"
| "role_value ADMIN = ''admin''"

definition alarm_states :: "alarm_state list" where
  "alarm_states = [NORMAL, PENDING, ACTIVE_UNACKED, ACTIVE_ACKED, CLEARED_UNACKED]"

definition role_names :: "role_name list" where
  "role_names = [VIEWER, OPERATOR, ENGINEER, ADMIN]"

definition role_of :: "string \<Rightarrow> role_name option" where
  "role_of s = List.find (\<lambda>r. role_value r = s) role_names"

lemma role_of_value [simp]: "role_of (role_value r) = Some r"
  by (cases r) (simp_all add: role_of_def role_names_def)

lemma role_value_inj [simp]: "role_value r = role_value r' \<longleftrightarrow> r = r'"
  by (cases r; cases r') simp_all

subsection \<open>Role levels\<close>

definition ROLE_LEVEL :: "(string, nat) dict" where
  "ROLE_LEVEL = [(''viewer'', 1), (''operator'', 2), (''engineer'', 3), (''admin'', 4)]"

text \<open>\<open>ROLE_LEVEL[minimum.value]\<close> always finds its key: the four members are the four keys.\<close>

definition level_of_min :: "role_name \<Rightarrow> nat" where
  "level_of_min r = the (dict_get ROLE_LEVEL (role_value r))"

definition has_role :: "string \<Rightarrow> role_name \<Rightarrow> bool" where
  "has_role role minimum =
     ((case dict_get ROLE_LEVEL role of None \<Rightarrow> 0 | Some n \<Rightarrow> n) \<ge> level_of_min minimum)"

lemma level_of_min_simps [simp]:
  "level_of_min VIEWER = 1" "level_of_min OPERATOR = 2"
  "level_of_min ENGINEER = 3" "level_of_min ADMIN = 4"
  by (simp_all add: level_of_min_def ROLE_LEVEL_def)

lemma role_level_member: "dict_get ROLE_LEVEL (role_value r) = Some (level_of_min r)"
  by (cases r) (simp_all add: ROLE_LEVEL_def)

lemma has_role_value: "has_role (role_value r) m \<longleftrightarrow> level_of_min m \<le> level_of_min r"
  by (simp add: has_role_def role_level_member)

lemma has_role_unknown: "role_of s = None \<Longrightarrow> \<not> has_role s m"
  by (cases m)
    (auto simp: has_role_def role_of_def role_names_def ROLE_LEVEL_def split: if_splits)

lemma has_role_cases:
  assumes "has_role s m"
  obtains r where "s = role_value r" "level_of_min m \<le> level_of_min r"
proof -
  obtain r where "role_of s = Some r"
    using assms has_role_unknown by (cases "role_of s") auto
  then have "s = role_value r"
    by (auto simp: role_of_def find_Some_iff)
  with assms that show thesis by (auto simp: has_role_value)
qed

text \<open>The hierarchy as an order: a role includes those below it.\<close>

instantiation role_name :: linorder
begin

definition less_eq_role_name :: "role_name \<Rightarrow> role_name \<Rightarrow> bool" where
  "less_eq_role_name r s \<longleftrightarrow> level_of_min r \<le> level_of_min s"

definition less_role_name :: "role_name \<Rightarrow> role_name \<Rightarrow> bool" where
  "less_role_name r s \<longleftrightarrow> level_of_min r < level_of_min s"

instance
proof
  fix r s :: role_name
  assume "r \<le> s" "s \<le> r"
  then show "r = s" by (cases r; cases s) (simp_all add: less_eq_role_name_def)
qed (auto simp: less_eq_role_name_def less_role_name_def)

end

lemma has_role_order: "has_role (role_value r) m \<longleftrightarrow> m \<le> r"
  by (simp add: has_role_value less_eq_role_name_def)

lemma rights_include: "has_role s m \<Longrightarrow> m' \<le> m \<Longrightarrow> has_role s m'"
  by (auto simp: has_role_order elim!: has_role_cases simp flip: less_eq_role_name_def)

lemma has_role_operator:
  "has_role s OPERATOR \<longleftrightarrow> s \<in> {role_value OPERATOR, role_value ENGINEER, role_value ADMIN}"
proof
  assume "has_role s OPERATOR"
  then obtain r where "s = role_value r" "level_of_min OPERATOR \<le> level_of_min r"
    by (rule has_role_cases)
  then show "s \<in> {role_value OPERATOR, role_value ENGINEER, role_value ADMIN}"
    by (cases r) auto
next
  assume "s \<in> {role_value OPERATOR, role_value ENGINEER, role_value ADMIN}"
  then show "has_role s OPERATOR" by (auto simp: has_role_def ROLE_LEVEL_def)
qed

end
