(* ===== verification/Alarm_Rules.thy ===== *)
theory Alarm_Rules
  imports Models
begin

section \<open>Alarm conditions\<close>

text \<open>
  \<open>app/alarms/rules.py\<close>: whether an observation makes a rule's condition true. \<open>None\<close> means
  that the observation says nothing (no value, no threshold, NaN, or a kind that does not look
  at values), so the condition stays what it was.
\<close>

definition VALUE_KINDS :: "alarm_kind set" where
  "VALUE_KINDS = {HIGH, LOW, STATE}"

definition THRESHOLD_KINDS :: "alarm_kind set" where
  "THRESHOLD_KINDS = {HIGH, LOW, STATE, STALE}"

definition evaluate_value ::
  "alarm_kind \<Rightarrow> pyfloat option \<Rightarrow> pyfloat option \<Rightarrow> pyfloat \<Rightarrow> bool \<Rightarrow> bool option" where
  "evaluate_value kind value threshold hysteresis previous =
     (case (value, threshold) of
        (Some v, Some t) \<Rightarrow>
          if fl_isnan v then None
          else if kind = HIGH then
            Some (fl_lt t v \<or> (previous \<and> fl_lt (fl_sub t hysteresis) v))
          else if kind = LOW then
            Some (fl_lt v t \<or> (previous \<and> fl_lt v (fl_add t hysteresis)))
          else if kind = STATE then
            Some (fl_lt (fl_abs (fl_sub v t)) (Fin (1 / 10 ^ 9)))
          else None
      | _ \<Rightarrow> None)"

definition is_stale :: "pyfloat \<Rightarrow> pyfloat \<Rightarrow> bool" where
  "is_stale age_s max_age_s = fl_lt max_age_s age_s"

definition is_abnormal_event_state :: "string \<Rightarrow> bool" where
  "is_abnormal_event_state to_state =
     (List.filter (\<lambda>c. c \<noteq> CHR ''-'' \<and> c \<noteq> CHR ''_'') (py_lower to_state) \<noteq> ''normal'')"

lemma evaluate_value_high [simp]:
  "evaluate_value HIGH (Some (Fin v)) (Some (Fin t)) (Fin h) p = Some (t < v \<or> p \<and> t - h < v)"
  by (simp add: evaluate_value_def)

lemma evaluate_value_low [simp]:
  "evaluate_value LOW (Some (Fin v)) (Some (Fin t)) (Fin h) p = Some (v < t \<or> p \<and> v < t + h)"
  by (simp add: evaluate_value_def)

lemma evaluate_value_state [simp]:
  "evaluate_value STATE (Some (Fin v)) (Some (Fin t)) (Fin h) p = Some (\<bar>v - t\<bar> < 1 / 10 ^ 9)"
  by (simp add: evaluate_value_def)

lemma evaluate_value_no_value [simp]:
  "evaluate_value k None t h p = None" "evaluate_value k v None h p = None"
  "evaluate_value k (Some NaN) t h p = None"
  by (simp_all add: evaluate_value_def split: option.splits)

lemma evaluate_value_other [simp]:
  "k \<notin> VALUE_KINDS \<Longrightarrow> evaluate_value k v t h p = None"
  by (auto simp: evaluate_value_def VALUE_KINDS_def split: option.splits)

text \<open>
  The hysteresis band of a \<open>high\<close> rule: the value has to pass the threshold to set the
  condition and to come back to \<open>threshold - hysteresis\<close> to clear it; strictly inside the band
  the condition keeps its previous value, so it cannot flutter.
\<close>

theorem high_hysteresis_band:
  assumes "0 \<le> h"
  shows "(evaluate_value HIGH (Some (Fin v)) (Some (Fin t)) (Fin h) False = Some True \<longleftrightarrow> t < v)
    \<and> (evaluate_value HIGH (Some (Fin v)) (Some (Fin t)) (Fin h) True = Some False \<longleftrightarrow> v \<le> t - h)
    \<and> (evaluate_value HIGH (Some (Fin v)) (Some (Fin t)) (Fin h) p = Some p \<longleftrightarrow>
        (if p then t - h < v else v \<le> t))"
  using assms by (cases p) auto

theorem high_hysteresis_band_witness:
  "(0::rat) \<le> 1 \<and>
   (evaluate_value HIGH (Some (Fin 27)) (Some (Fin 28)) (Fin 1) True = Some False \<longleftrightarrow>
     (27::rat) \<le> 28 - 1)"
proof -
  have h: "(0::rat) \<le> 1" by simp
  from high_hysteresis_band [OF h, of 27 28 True] h show ?thesis by blast
qed

text \<open>
  A \<open>low\<close> rule is the mirror image of a \<open>high\<close> rule: negating value and threshold turns one
  into the other, for every value, infinities and NaN included.
\<close>

theorem low_mirrors_high:
  "evaluate_value LOW v t h p =
     evaluate_value HIGH (map_option fl_neg v) (map_option fl_neg t) h p"
proof (cases v; cases t)
  fix x y assume vt: "v = Some x" "t = Some y"
  have nan: "fl_isnan (fl_neg x) = fl_isnan x"
    by (cases x) auto
  have "fl_lt (fl_sub (fl_neg y) h) (fl_neg x) = fl_lt x (fl_add y h)"
    by (metis fl_lt_neg fl_neg_add fl_sub_def)
  with vt nan show ?thesis by (simp add: evaluate_value_def)
qed simp_all

end
