(* ===== verification/Alarm_Machine.thy ===== *)
theory Alarm_Machine
  imports Models
begin

section \<open>The alarm state machine\<close>

text \<open>
  \<open>app/alarms/machine.py\<close>: the life cycle of one alarm. \<open>machine_update\<close> applies an observed
  condition at an instant, \<open>machine_acknowledge\<close> an operator's acknowledgement; both return the
  machine and the transitions made, in order. \<open>lifecycle\<close> is the state diagram of the module's
  header, the specification the two operations are checked against.
\<close>

subsection \<open>Transitions\<close>

datatype transition_kind = T_PENDING | T_CANCELLED | T_RAISED | T_CLEARED | T_ACKED | T_NORMAL

definition PERSISTENT :: "transition_kind list" where
  "PERSISTENT = [T_RAISED, T_CLEARED, T_ACKED, T_NORMAL]"

record transition =
  from_state :: alarm_state
  to_state :: alarm_state
  kind :: transition_kind

definition transition_of :: "alarm_state \<Rightarrow> alarm_state \<Rightarrow> transition_kind \<Rightarrow> transition" where
  "transition_of a b k = \<lparr>from_state = a, to_state = b, kind = k\<rparr>"

definition persistent :: "transition \<Rightarrow> bool" where
  "persistent t = (kind t \<in> set PERSISTENT)"

lemma transition_of_simps [simp]:
  "from_state (transition_of a b k) = a" "to_state (transition_of a b k) = b"
  "kind (transition_of a b k) = k"
  by (simp_all add: transition_of_def)

lemma persistent_simps [simp]:
  "persistent (transition_of a b k) \<longleftrightarrow> k \<notin> {T_PENDING, T_CANCELLED}"
  by (cases k) (simp_all add: persistent_def PERSISTENT_def)

subsection \<open>The machine\<close>

record machine =
  delay_s :: time
  mstate :: alarm_state
  pending_since :: "time option"

text \<open>A pending alarm is not restored: its delay starts again from zero.\<close>

definition machine_init :: "time \<Rightarrow> alarm_state \<Rightarrow> machine" where
  "machine_init d s =
     \<lparr>delay_s = d, mstate = (if s = PENDING then NORMAL else s), pending_since = None\<rparr>"

definition begin_pending :: "bool \<Rightarrow> time \<Rightarrow> machine \<Rightarrow> machine \<times> transition list" where
  "begin_pending condition now m =
     (if mstate m = NORMAL \<and> condition
      then (m\<lparr>mstate := PENDING, pending_since := Some now\<rparr>,
            [transition_of NORMAL PENDING T_PENDING])
      else (m, []))"

definition settle :: "bool \<Rightarrow> time \<Rightarrow> machine \<Rightarrow> machine \<times> transition list" where
  "settle condition now m =
     (case mstate m of
        PENDING \<Rightarrow>
          if \<not> condition then
            (m\<lparr>mstate := NORMAL, pending_since := None\<rparr>,
             [transition_of PENDING NORMAL T_CANCELLED])
          else if now - (case pending_since m of None \<Rightarrow> now | Some t \<Rightarrow> t) \<ge> delay_s m then
            (m\<lparr>mstate := ACTIVE_UNACKED, pending_since := None\<rparr>,
             [transition_of PENDING ACTIVE_UNACKED T_RAISED])
          else (m, [])
      | ACTIVE_UNACKED \<Rightarrow>
          if \<not> condition then
            (m\<lparr>mstate := CLEARED_UNACKED\<rparr>,
             [transition_of ACTIVE_UNACKED CLEARED_UNACKED T_CLEARED])
          else (m, [])
      | ACTIVE_ACKED \<Rightarrow>
          if \<not> condition then
            (m\<lparr>mstate := NORMAL\<rparr>, [transition_of ACTIVE_ACKED NORMAL T_NORMAL])
          else (m, [])
      | CLEARED_UNACKED \<Rightarrow>
          if condition then
            (m\<lparr>mstate := ACTIVE_UNACKED\<rparr>,
             [transition_of CLEARED_UNACKED ACTIVE_UNACKED T_RAISED])
          else (m, [])
      | NORMAL \<Rightarrow> (m, []))"

definition machine_update :: "bool \<Rightarrow> time \<Rightarrow> machine \<Rightarrow> machine \<times> transition list" where
  "machine_update condition now m =
     (let (m1, out1) = begin_pending condition now m;
          (m2, out2) = settle condition now m1
      in (m2, out1 @ out2))"

definition machine_acknowledge :: "machine \<Rightarrow> machine \<times> transition option" where
  "machine_acknowledge m =
     (if mstate m = ACTIVE_UNACKED then
        (m\<lparr>mstate := ACTIVE_ACKED\<rparr>, Some (transition_of ACTIVE_UNACKED ACTIVE_ACKED T_ACKED))
      else if mstate m = CLEARED_UNACKED then
        (m\<lparr>mstate := NORMAL\<rparr>, Some (transition_of CLEARED_UNACKED NORMAL T_ACKED))
      else (m, None))"

lemmas machine_defs = machine_update_def begin_pending_def settle_def

lemma machine_update_delay [simp]: "delay_s (fst (machine_update c now m)) = delay_s m"
  by (auto simp: machine_defs split: alarm_state.splits)

lemma machine_acknowledge_delay [simp]: "delay_s (fst (machine_acknowledge m)) = delay_s m"
  by (simp add: machine_acknowledge_def)

subsection \<open>Conformance to the state diagram\<close>

inductive lifecycle :: "alarm_state \<Rightarrow> transition_kind \<Rightarrow> alarm_state \<Rightarrow> bool" where
  condition_true: "lifecycle NORMAL T_PENDING PENDING"
| too_short: "lifecycle PENDING T_CANCELLED NORMAL"
| delay_elapsed: "lifecycle PENDING T_RAISED ACTIVE_UNACKED"
| acknowledged: "lifecycle ACTIVE_UNACKED T_ACKED ACTIVE_ACKED"
| vanished: "lifecycle ACTIVE_UNACKED T_CLEARED CLEARED_UNACKED"
| acked_vanished: "lifecycle ACTIVE_ACKED T_NORMAL NORMAL"
| cleared_acked: "lifecycle CLEARED_UNACKED T_ACKED NORMAL"
| came_back: "lifecycle CLEARED_UNACKED T_RAISED ACTIVE_UNACKED"

inductive_simps lifecycle_simps [simp]: "lifecycle a k b"

definition conforms :: "transition \<Rightarrow> bool" where
  "conforms t \<longleftrightarrow> lifecycle (from_state t) (kind t) (to_state t)"

text \<open>A list of transitions leads from one state to another along edges of the diagram.\<close>

fun path :: "alarm_state \<Rightarrow> transition list \<Rightarrow> alarm_state \<Rightarrow> bool" where
  "path a [] b = (a = b)"
| "path a (t # ts) b = (from_state t = a \<and> conforms t \<and> path (to_state t) ts b)"

lemma path_append: "path a (xs @ ys) c \<longleftrightarrow> (\<exists>b. path a xs b \<and> path b ys c)"
  by (induction xs arbitrary: a) auto

lemma update_path: "path (mstate m) (snd (machine_update c now m)) (mstate (fst (machine_update c now m)))"
  by (cases "mstate m") (auto simp: machine_defs conforms_def)

lemma acknowledge_path:
  "path (mstate m) (case snd (machine_acknowledge m) of None \<Rightarrow> [] | Some t \<Rightarrow> [t])
     (mstate (fst (machine_acknowledge m)))"
  by (auto simp: machine_acknowledge_def conforms_def)

datatype machine_event = Observe bool time | Acknowledge

fun machine_step :: "machine_event \<Rightarrow> machine \<times> transition list \<Rightarrow> machine \<times> transition list" where
  "machine_step (Observe c now) (m, ts) =
     (let (m', out) = machine_update c now m in (m', ts @ out))"
| "machine_step Acknowledge (m, ts) =
     (let (m', t) = machine_acknowledge m
      in (m', ts @ (case t of None \<Rightarrow> [] | Some t \<Rightarrow> [t])))"

definition trace_ok :: "alarm_state \<Rightarrow> machine \<times> transition list \<Rightarrow> bool" where
  "trace_ok a mt \<longleftrightarrow> path a (snd mt) (mstate (fst mt))"

lemma trace_ok_step: "trace_ok a mt \<Longrightarrow> trace_ok a (machine_step e mt)"
proof (cases mt)
  case (Pair m ts)
  assume ok: "trace_ok a mt"
  show ?thesis
  proof (cases e)
    case (Observe c now)
    with Pair ok update_path [of m c now] show ?thesis
      by (auto simp: trace_ok_def path_append split: prod.splits)
  next
    case Acknowledge
    with Pair ok acknowledge_path [of m] show ?thesis
      by (auto simp: trace_ok_def path_append split: prod.splits)
  qed
qed

interpretation life: event_driven machine_step "trace_ok a" for a
  by unfold_locales (rule trace_ok_step)

text \<open>
  C3. Every run of the machine follows the state diagram: whatever observations and
  acknowledgements arrive, in whatever order and at whatever instants, the transitions reported,
  taken in order, form a path of the documented diagram from the initial state to the current
  state. No transition is lost, invented or reported twice.
\<close>

theorem machine_refines_lifecycle:
  "case fold machine_step es (m, []) of (m', ts) \<Rightarrow> path (mstate m) ts (mstate m')"
proof -
  have "trace_ok (mstate m) (m, [])" by (simp add: trace_ok_def)
  then have "trace_ok (mstate m) (fold machine_step es (m, []))" by (rule life.run_inv)
  then show ?thesis by (simp add: trace_ok_def split_beta)
qed

subsection \<open>One report per change\<close>

text \<open>
  An observation is idempotent: observing the same condition again at the same instant
  changes nothing and reports nothing, from every machine state. This is what makes one
  notification per change possible.
\<close>

theorem machine_update_idempotent:
  "machine_update c now (fst (machine_update c now m)) = (fst (machine_update c now m), [])"
  by (cases "mstate m") (auto simp: machine_defs)

text \<open>Reported transitions and changes of state go together.\<close>

lemma update_silent_iff: "snd (machine_update c now m) = [] \<longleftrightarrow> mstate (fst (machine_update c now m)) = mstate m \<and> \<not> (mstate m = NORMAL \<and> c)"
  by (cases "mstate m") (auto simp: machine_defs)

lemma update_persistent_at_most_one:
  "length (List.filter persistent (snd (machine_update c now m))) \<le> 1"
  by (cases "mstate m") (auto simp: machine_defs)

subsection \<open>The delay before an alarm\<close>

text \<open>\<open>watch\<close> feeds a list of timed observations and keeps the machine only.\<close>

fun watch :: "machine \<Rightarrow> (bool \<times> time) list \<Rightarrow> machine" where
  "watch m [] = m"
| "watch m ((c, now) # obs) = watch (fst (machine_update c now m)) obs"

lemma watch_append: "watch m (xs @ ys) = watch (watch m xs) ys"
  by (induction m xs rule: watch.induct) auto

lemma watch_delay [simp]: "delay_s (watch m obs) = delay_s m"
  by (induction m obs rule: watch.induct) auto

text \<open>
  \<open>true_since obs t0\<close>: the latest observations, back to one at the instant \<open>t0\<close>, all saw the
  condition true.
\<close>

definition true_since :: "(bool \<times> time) list \<Rightarrow> time \<Rightarrow> bool" where
  "true_since obs t0 \<longleftrightarrow> (\<exists>pre rest. obs = pre @ (True, t0) # rest \<and> (\<forall>(c, t) \<in> set rest. c))"

lemma true_since_now: "true_since (obs @ [(True, now)]) now"
  unfolding true_since_def by (intro exI [of _ obs] exI [of _ "[]"]) simp

lemma true_since_more: "true_since obs t0 \<Longrightarrow> true_since (obs @ [(True, now)]) t0"
  unfolding true_since_def
proof (elim exE conjE)
  fix pre rest assume "obs = pre @ (True, t0) # rest" "\<forall>(c, t) \<in> set rest. c"
  then show "\<exists>pre rest'. obs @ [(True, now)] = pre @ (True, t0) # rest' \<and> (\<forall>(c, t) \<in> set rest'. c)"
    by (intro exI [of _ pre] exI [of _ "rest @ [(True, now)]"]) auto
qed

text \<open>While a machine that started normal is pending, it is so since \<open>pending_since\<close>.\<close>

definition pending_witness :: "machine \<Rightarrow> (bool \<times> time) list \<Rightarrow> bool" where
  "pending_witness m obs \<longleftrightarrow>
     (mstate m = PENDING \<longrightarrow> (\<exists>t0. pending_since m = Some t0 \<and> true_since obs t0))"

lemma pending_witness_step:
  assumes "pending_witness m obs"
  shows "pending_witness (fst (machine_update c now m)) (obs @ [(c, now)])"
  using assms true_since_now [of obs now] true_since_more [of obs _ now]
  by (cases "mstate m") (auto simp: pending_witness_def machine_defs)

lemma pending_witness_run:
  "pending_witness m pre \<Longrightarrow> pending_witness (watch m obs) (pre @ obs)"
proof (induction m obs arbitrary: pre rule: watch.induct)
  case (1 m)
  then show ?case by simp
next
  case (2 m c now obs)
  from 2(1) [OF pending_witness_step [OF 2(2)]] show ?case by simp
qed

lemma raised_from_pending:
  assumes "transition_of PENDING ACTIVE_UNACKED T_RAISED \<in> set (snd (machine_update c now m))"
  shows "c" "mstate m = NORMAL \<and> delay_s m \<le> 0 \<or>
    mstate m = PENDING \<and> now - (case pending_since m of None \<Rightarrow> now | Some t \<Rightarrow> t) \<ge> delay_s m"
  using assms by (auto simp: machine_defs transition_of_def split: alarm_state.splits if_splits)

text \<open>
  C5. No alarm before its delay: if a machine that started in the normal state raises an alarm
  from the pending state, then the latest observations, back to one at an instant \<open>t0\<close> with
  \<open>now - t0 \<ge> delay_s\<close>, all saw the condition true. A condition that drops in between restarts
  the delay.
\<close>

theorem raised_only_after_delay:
  assumes "mstate m = NORMAL"
    and "transition_of PENDING ACTIVE_UNACKED T_RAISED
      \<in> set (snd (machine_update c now (watch m obs)))"
  shows "\<exists>t0. true_since (obs @ [(c, now)]) t0 \<and> now - t0 \<ge> delay_s m"
proof -
  have w: "pending_witness (watch m obs) obs"
    using pending_witness_run [of m "[]" obs] assms(1) by (simp add: pending_witness_def)
  note r = raised_from_pending [OF assms(2)]
  from r(2) show ?thesis
  proof
    assume "mstate (watch m obs) = NORMAL \<and> delay_s (watch m obs) \<le> 0"
    with r(1) true_since_now [of obs now] show ?thesis by (intro exI [of _ now]) simp
  next
    assume "mstate (watch m obs) = PENDING \<and>
      now - (case pending_since (watch m obs) of None \<Rightarrow> now | Some t \<Rightarrow> t) \<ge> delay_s (watch m obs)"
    with w r(1) show ?thesis by (auto simp: pending_witness_def intro: true_since_more)
  qed
qed

theorem raised_only_after_delay_witness:
  "\<exists>t0. true_since ([(True, 10)] @ [(True, 40)]) t0 \<and>
    (40::time) - t0 \<ge> delay_s (machine_init 30 NORMAL)"
  by (rule raised_only_after_delay)
    (simp_all add: machine_init_def machine_defs transition_of_def)

subsection \<open>No alarm is missed\<close>

lemma active_stays:
  "mstate m = ACTIVE_UNACKED \<Longrightarrow> \<forall>(c, t) \<in> set obs. c \<Longrightarrow> mstate (watch m obs) = ACTIVE_UNACKED"
  by (induction m obs rule: watch.induct) (auto simp: machine_defs)

lemma pending_raises:
  assumes "mstate m = PENDING" "pending_since m = Some t0" "\<forall>(c, t) \<in> set obs. c"
    and "\<exists>(c, t) \<in> set obs. t - t0 \<ge> delay_s m"
  shows "mstate (watch m obs) = ACTIVE_UNACKED"
  using assms
proof (induction m obs rule: watch.induct)
  case (2 m c now obs)
  show ?case
  proof (cases "now - t0 \<ge> delay_s m")
    case True
    with 2 have "mstate (fst (machine_update c now m)) = ACTIVE_UNACKED"
      by (simp add: machine_defs)
    with 2 active_stays show ?thesis by simp
  next
    case False
    with 2 have "fst (machine_update c now m) = m" by (simp add: machine_defs)
    with 2 False show ?thesis by auto
  qed
qed simp

text \<open>
  C4. No alarm is missed: a machine in the normal state that sees the condition true at every
  observation, the first at \<open>t0\<close> and one of them at least \<open>delay_s\<close> later, is active and
  unacknowledged at the end of the run.
\<close>

theorem raised_after_delay:
  assumes "mstate m = NORMAL" "\<forall>(c, t) \<in> set obs. c"
    and "\<exists>(c, t) \<in> set ((True, t0) # obs). t - t0 \<ge> delay_s m"
  shows "mstate (watch m ((True, t0) # obs)) = ACTIVE_UNACKED"
proof (cases "delay_s m \<le> 0")
  case True
  with assms(1) have "mstate (fst (machine_update True t0 m)) = ACTIVE_UNACKED"
    by (simp add: machine_defs)
  with assms(2) active_stays show ?thesis by simp
next
  case False
  with assms(1) have "mstate (fst (machine_update True t0 m)) = PENDING"
    "pending_since (fst (machine_update True t0 m)) = Some t0"
    by (simp_all add: machine_defs)
  with assms False pending_raises [of "fst (machine_update True t0 m)" t0 obs] show ?thesis
    by auto
qed

theorem raised_after_delay_witness:
  "mstate (watch (machine_init 30 NORMAL) [(True, 5), (True, 20), (True, 36)]) = ACTIVE_UNACKED"
  by (rule raised_after_delay) (simp_all add: machine_init_def)

subsection \<open>A pending machine that has lost its start\<close>

text \<open>
  A pending machine without \<open>pending_since\<close> measures the delay from the current observation
  itself. The engine puts the machine in that state when it undoes a raise it could not record
  (see \<open>Alarm_Engine\<close>).
\<close>

lemma lost_start_stuck:
  assumes "mstate m = PENDING" "pending_since m = None" "0 < delay_s m"
  shows "machine_update True now m = (m, [])"
  using assms by (simp add: machine_defs)

end
