(* ===== verification/Database.thy ===== *)
theory Database
  imports Models
begin

section \<open>The database schema\<close>

text \<open>
  \<open>app/db/models.py\<close>: one record per table, a table being a dictionary from primary keys to
  rows (the key is not repeated in the row, except where the code carries it along). The unique
  constraints and foreign keys the code relies on are the predicates at the end; an operation
  that would break one is refused, as PostgreSQL does. Texts of the enumerations are kept as
  members of the enumerations.
\<close>

record user_row =
  us_login :: string
  us_password_hash :: string
  us_role_id :: nat
  us_active :: bool

record network_row =
  nw_name :: string
  nw_bind_ip :: string
  nw_port :: int
  nw_bbmd_ip :: "string option"
  nw_bbmd_ttl :: "int option"

record device_row =
  dv_network_id :: uuid
  dv_instance :: int
  dv_name :: string
  dv_address :: string
  dv_online :: bool
  dv_last_seen :: "time option"
  dv_vendor :: "string option"
  dv_model :: "string option"

record point_row =
  pt_device_id :: uuid
  pt_object_type :: string
  pt_object_instance :: int
  pt_name :: string
  pt_description :: "string option"
  pt_unit :: "string option"
  pt_writable :: bool
  pt_cov_capable :: bool
  pt_poll_interval_s :: "int option"
  pt_path :: "string option"
  pt_missing :: bool
  pt_deadband :: pyfloat
  pt_max_interval_s :: int
  pt_write_min :: "pyfloat option"
  pt_write_max :: "pyfloat option"
  pt_state_text :: "string list option"

record sample_row =
  sa_point_id :: uuid
  sa_ts :: time
  sa_value :: "pyfloat option"
  sa_status :: point_status

record latest_row =
  pl_ts :: time
  pl_value :: "pyfloat option"
  pl_status :: point_status

record alarm_rule_row =
  ar_point_id :: uuid
  ar_name :: "string option"
  ar_kind :: alarm_kind
  ar_threshold :: "pyfloat option"
  ar_hysteresis :: pyfloat
  ar_delay_s :: int
  ar_severity :: severity
  ar_notify :: "string list"
  ar_enabled :: bool

record alarm_event_row =
  ae_rule_id :: uuid
  ae_raised_at :: time
  ae_acked_at :: "time option"
  ae_acked_by :: "string option"
  ae_cleared_at :: "time option"
  ae_state :: alarm_state
  ae_raised_value :: "pyfloat option"

record synoptic_row =
  sy_name :: string
  sy_slug :: string
  sy_owner_id :: "uuid option"

record synoptic_version_row =
  sv_synoptic_id :: uuid
  sv_version :: int
  sv_content :: json
  sv_created_by :: "uuid option"
  sv_created_at :: time

record audit_row =
  au_ts :: time
  au_user_id :: "uuid option"
  au_action :: string
  au_target :: "string option"
  au_before :: "json option"
  au_after :: "json option"
  au_ip :: "string option"

record database =
  db_roles :: "(nat, string) dict"
  db_users :: "(uuid, user_row) dict"
  db_networks :: "(uuid, network_row) dict"
  db_devices :: "(uuid, device_row) dict"
  db_points :: "(uuid, point_row) dict"
  db_tags :: "(uuid \<times> string) list"
  db_samples :: "sample_row list"
  db_latest :: "(uuid, latest_row) dict"
  db_rules :: "(uuid, alarm_rule_row) dict"
  db_events :: "(uuid, alarm_event_row) dict"
  db_synoptics :: "(uuid, synoptic_row) dict"
  db_versions :: "synoptic_version_row list"
  db_audit :: "audit_row list"

definition empty_db :: database where
  "empty_db =
     \<lparr>db_roles = [(1, ''viewer''), (2, ''operator''), (3, ''engineer''), (4, ''admin'')],
      db_users = [], db_networks = [], db_devices = [], db_points = [], db_tags = [],
      db_samples = [], db_latest = [], db_rules = [], db_events = [], db_synoptics = [],
      db_versions = [], db_audit = []\<rparr>"

subsection \<open>Constraints\<close>

text \<open>\<open>uq_alarm_event_open_rule\<close>: one open alarm per rule.\<close>

definition is_open :: "alarm_event_row \<Rightarrow> bool" where
  "is_open e \<longleftrightarrow> ae_state e \<noteq> NORMAL"

definition open_rules :: "(uuid, alarm_event_row) dict \<Rightarrow> uuid list" where
  "open_rules evs = map (\<lambda>kv. ae_rule_id (snd kv)) (List.filter (\<lambda>kv. is_open (snd kv)) evs)"

definition uq_alarm_event_open_rule :: "(uuid, alarm_event_row) dict \<Rightarrow> bool" where
  "uq_alarm_event_open_rule evs \<longleftrightarrow> distinct (open_rules evs)"

text \<open>\<open>uq_device_network_id_instance\<close>, \<open>uq_point_device_object\<close>, \<open>user.login\<close>,
  \<open>synoptic.slug\<close> and \<open>uq_synoptic_version_synoptic_id_version\<close>.\<close>

definition uq_device :: "(uuid, device_row) dict \<Rightarrow> bool" where
  "uq_device ds \<longleftrightarrow> distinct (map (\<lambda>d. (dv_network_id d, dv_instance d)) (dict_vals ds))"

definition point_key :: "point_row \<Rightarrow> uuid \<times> string \<times> int" where
  "point_key p = (pt_device_id p, pt_object_type p, pt_object_instance p)"

definition uq_point :: "(uuid, point_row) dict \<Rightarrow> bool" where
  "uq_point ps \<longleftrightarrow> distinct (map point_key (dict_vals ps))"

definition uq_login :: "(uuid, user_row) dict \<Rightarrow> bool" where
  "uq_login us \<longleftrightarrow> distinct (map us_login (dict_vals us))"

definition uq_slug :: "(uuid, synoptic_row) dict \<Rightarrow> bool" where
  "uq_slug ss \<longleftrightarrow> distinct (map sy_slug (dict_vals ss))"

definition uq_version :: "synoptic_version_row list \<Rightarrow> bool" where
  "uq_version vs \<longleftrightarrow> distinct (map (\<lambda>v. (sv_synoptic_id v, sv_version v)) vs)"

subsection \<open>Columns\<close>

text \<open>
  \<open>VARCHAR(n)\<close> columns refuse longer texts; a JSONB column refuses the numbers that are not JSON
  (infinities and NaN).
\<close>

definition fits :: "nat \<Rightarrow> string \<Rightarrow> bool" where
  "fits n s \<longleftrightarrow> length s \<le> n"

definition fits_opt :: "nat \<Rightarrow> string option \<Rightarrow> bool" where
  "fits_opt n s \<longleftrightarrow> (case s of None \<Rightarrow> True | Some t \<Rightarrow> fits n t)"

fun jsonb_ok :: "json \<Rightarrow> bool" where
  "jsonb_ok (JFloat (Fin _)) = True"
| "jsonb_ok (JFloat _) = False"
| "jsonb_ok (JList xs) = list_all jsonb_ok xs"
| "jsonb_ok (JObj kvs) = list_all (\<lambda>kv. jsonb_ok (snd kv)) kvs"
| "jsonb_ok _ = True"

definition jsonb_opt :: "json option \<Rightarrow> bool" where
  "jsonb_opt j = (case j of None \<Rightarrow> True | Some v \<Rightarrow> jsonb_ok v)"

text \<open>A row of the audit log the database accepts: its texts, its JSON and its user.\<close>

definition audit_accepted :: "database \<Rightarrow> audit_row \<Rightarrow> bool" where
  "audit_accepted db row \<longleftrightarrow>
     fits 64 (au_action row) \<and> fits_opt 255 (au_target row) \<and> fits_opt 45 (au_ip row) \<and>
     jsonb_opt (au_before row) \<and> jsonb_opt (au_after row) \<and>
     (case au_user_id row of None \<Rightarrow> True | Some u \<Rightarrow> map_of (db_users db) u \<noteq> None)"

subsection \<open>Rows of a dictionary table\<close>

lemma dict_vals_simps [simp]:
  "dict_vals [] = []" "dict_vals ((k, v) # d) = v # dict_vals d"
  by (simp_all add: dict_vals_def)

lemma set_dict_vals: "dict_wf d \<Longrightarrow> v \<in> set (dict_vals d) \<longleftrightarrow> (\<exists>k. map_of d k = Some v)"
proof -
  assume wf: "dict_wf d"
  have "v \<in> set (dict_vals d) \<longleftrightarrow> (\<exists>k. (k, v) \<in> set d)"
    by (force simp: dict_vals_def)
  then show ?thesis by (simp only: map_of_mem [OF wf])
qed

lemma dict_set_new: "k \<notin> set (dict_keys d) \<Longrightarrow> AList.update k v d = d @ [(k, v)]"
  by (induction d) auto

lemma dict_vals_append [simp]: "dict_vals (d @ d') = dict_vals d @ dict_vals d'"
  by (simp add: dict_vals_def)

text \<open>A column is unique when equal values are of the same row.\<close>

lemma unique_column_iff:
  assumes "dict_wf d"
  shows "distinct (map f (dict_vals d)) \<longleftrightarrow>
    (\<forall>i j u v. map_of d i = Some u \<and> map_of d j = Some v \<and> f u = f v \<longrightarrow> i = j)"
proof -
  have "distinct d" using assms by (simp add: distinct_map)
  then have "distinct (map f (dict_vals d)) \<longleftrightarrow> inj_on (f \<circ> snd) (set d)"
    by (simp add: dict_vals_def distinct_map comp_def)
  also have "\<dots> \<longleftrightarrow> (\<forall>i j u v. (i, u) \<in> set d \<and> (j, v) \<in> set d \<and> f u = f v \<longrightarrow> i = j \<and> u = v)"
    by (force simp: inj_on_def)
  also have "\<dots> \<longleftrightarrow> (\<forall>i j u v. map_of d i = Some u \<and> map_of d j = Some v \<and> f u = f v \<longrightarrow> i = j)"
    unfolding map_of_mem [OF assms] by (metis option.inject)
  finally show ?thesis .
qed

text \<open>
  Open events are unique per rule exactly when two open rows of the same rule are the same row.
\<close>

lemma open_unique_iff:
  assumes "dict_wf evs"
  shows "uq_alarm_event_open_rule evs \<longleftrightarrow>
    (\<forall>i j e f. map_of evs i = Some e \<and> map_of evs j = Some f \<and> is_open e \<and> is_open f \<and>
       ae_rule_id e = ae_rule_id f \<longrightarrow> i = j)"
proof -
  have "distinct (List.filter (\<lambda>kv. is_open (snd kv)) evs)"
    using assms by (simp add: distinct_map)
  then have "uq_alarm_event_open_rule evs \<longleftrightarrow>
      inj_on (\<lambda>kv. ae_rule_id (snd kv)) {kv \<in> set evs. is_open (snd kv)}"
    by (simp add: uq_alarm_event_open_rule_def open_rules_def distinct_map)
  also have "\<dots> \<longleftrightarrow> (\<forall>i j e f. (i, e) \<in> set evs \<and> (j, f) \<in> set evs \<and> is_open e \<and> is_open f \<and>
      ae_rule_id e = ae_rule_id f \<longrightarrow> i = j \<and> e = f)"
    by (auto simp: inj_on_def)
  also have "\<dots> \<longleftrightarrow> (\<forall>i j e f. map_of evs i = Some e \<and> map_of evs j = Some f \<and> is_open e \<and>
      is_open f \<and> ae_rule_id e = ae_rule_id f \<longrightarrow> i = j)"
    unfolding map_of_mem [OF assms] by (metis option.inject)
  finally show ?thesis .
qed

end
