(* ===== verification/Alarm_Store.thy ===== *)
theory Alarm_Store
  imports Alarm_Machine Database
begin

section \<open>The alarm store\<close>

text \<open>
  \<open>app/alarms/store.py\<close>: what the engine reads and writes in the database, and the messages it
  hands on (\<open>app/alarms/messages.py\<close>). \<open>alarm_world\<close> is everything outside the engine's memory:
  the database, the supply of fresh identifiers, the published and submitted messages, and
  \<open>aw_faults\<close>, which decides for each access to the database or to Redis, in order, whether it
  raises (an exhausted list means that nothing fails any more). A run under an arbitrary list is
  a run under arbitrary failures.
\<close>

subsection \<open>Records\<close>

record rule_record =
  rr_id :: uuid
  rr_point_id :: uuid
  rr_name :: "string option"
  rr_kind :: alarm_kind
  rr_threshold :: "pyfloat option"
  rr_hysteresis :: pyfloat
  rr_delay_s :: int
  rr_severity :: severity
  rr_notify :: "string list"
  rr_point_name :: string
  rr_path :: "string option"
  rr_unit :: "string option"
  rr_object_type :: string
  rr_object_instance :: int
  rr_device_id :: uuid
  rr_device_instance :: int

text \<open>\<open>OpenEvent\<close> is the row of \<open>alarm_event\<close> with its key.\<close>

type_synonym open_event = "uuid \<times> alarm_event_row"

subsection \<open>Messages\<close>

record alarm_info =
  ai_event_id :: uuid
  ai_rule_id :: uuid
  ai_rule_name :: "string option"
  ai_kind :: alarm_kind
  ai_severity :: severity
  ai_state :: alarm_state
  ai_point_id :: uuid
  ai_point_name :: string
  ai_path :: "string option"
  ai_unit :: "string option"
  ai_threshold :: "pyfloat option"
  ai_value :: "pyfloat option"
  ai_raised_at :: time
  ai_acked_at :: "time option"
  ai_acked_by :: "string option"
  ai_cleared_at :: "time option"

text \<open>
  A notification is determined by the alarm, the transition and the channels; its subject and
  body are texts computed from the payload (theory Alarm_Messages).
\<close>

record notification =
  no_event_id :: uuid
  no_kind :: transition_kind
  no_severity :: severity
  no_payload :: alarm_info
  no_channels :: "string list"

definition build_notification :: "alarm_info \<Rightarrow> transition_kind \<Rightarrow> string list \<Rightarrow> notification" where
  "build_notification info k channels =
     \<lparr>no_event_id = ai_event_id info, no_kind = k, no_severity = ai_severity info,
      no_payload = info, no_channels = channels\<rparr>"

text \<open>Messages on the Redis channel \<open>alarm.event\<close>; an orphan carries its identifier only.\<close>

datatype bus_message = Alarm_Message transition_kind alarm_info | Orphan_Closed uuid

subsection \<open>The world\<close>

record alarm_world =
  aw_db :: database
  aw_next :: uuid
  aw_bus :: "bus_message list"
  aw_sent :: "notification list"
  aw_faults :: "bool list"

text \<open>One access to the database or to Redis: whether it raises, and what is left.\<close>

definition io :: "alarm_world \<Rightarrow> bool \<times> alarm_world" where
  "io w = (case aw_faults w of
             [] \<Rightarrow> (False, w)
           | f # fs \<Rightarrow> (f, w\<lparr>aw_faults := fs\<rparr>))"

abbreviation events :: "alarm_world \<Rightarrow> uuid \<Rightarrow> alarm_event_row option" where
  "events w \<equiv> map_of (db_events (aw_db w))"

lemma io_frame [simp]:
  "aw_db (snd (io w)) = aw_db w" "aw_next (snd (io w)) = aw_next w"
  "aw_bus (snd (io w)) = aw_bus w" "aw_sent (snd (io w)) = aw_sent w"
  by (simp_all add: io_def split: list.splits)

lemma io_no_fault [simp]: "aw_faults w = [] \<Longrightarrow> io w = (False, w)"
  by (simp add: io_def)

lemma io_cases:
  assumes "io w = (f, w')"
  shows "aw_db w' = aw_db w" "aw_next w' = aw_next w" "aw_bus w' = aw_bus w"
    "aw_sent w' = aw_sent w" "aw_faults w = [] \<Longrightarrow> \<not> f \<and> w' = w"
  using io_frame [of w] assms by (auto simp: io_def split: list.splits)

subsection \<open>Reading\<close>

definition rule_record_of :: "uuid \<Rightarrow> alarm_rule_row \<Rightarrow> point_row \<Rightarrow> device_row \<Rightarrow> rule_record" where
  "rule_record_of rid r p d =
     \<lparr>rr_id = rid, rr_point_id = ar_point_id r, rr_name = ar_name r, rr_kind = ar_kind r,
      rr_threshold = ar_threshold r, rr_hysteresis = ar_hysteresis r, rr_delay_s = ar_delay_s r,
      rr_severity = ar_severity r, rr_notify = ar_notify r, rr_point_name = pt_name p,
      rr_path = pt_path p, rr_unit = pt_unit p, rr_object_type = pt_object_type p,
      rr_object_instance = pt_object_instance p, rr_device_id = pt_device_id p,
      rr_device_instance = dv_instance d\<rparr>"

text \<open>The enabled rules joined with their point and device.\<close>

definition load_rules :: "database \<Rightarrow> rule_record list" where
  "load_rules db =
     concat (map (\<lambda>(rid, r).
       if ar_enabled r then
         (case map_of (db_points db) (ar_point_id r) of
            None \<Rightarrow> []
          | Some p \<Rightarrow>
             (case map_of (db_devices db) (pt_device_id p) of
                None \<Rightarrow> []
              | Some d \<Rightarrow> [rule_record_of rid r p d]))
       else []) (db_rules db))"

definition open_events :: "database \<Rightarrow> open_event list" where
  "open_events db = List.filter (\<lambda>(eid, e). ae_state e \<noteq> NORMAL) (db_events db)"

definition latest_values :: "uuid list \<Rightarrow> database \<Rightarrow> uuid \<Rightarrow> latest_row option" where
  "latest_values point_ids db pid =
     (if pid \<in> set point_ids then map_of (db_latest db) pid else None)"

definition devices_online :: "database \<Rightarrow> uuid \<Rightarrow> bool option" where
  "devices_online db did = map_option dv_online (map_of (db_devices db) did)"

definition user_login :: "database \<Rightarrow> uuid \<Rightarrow> string option" where
  "user_login db uid = map_option us_login (map_of (db_users db) uid)"

text \<open>The role of an active user.\<close>

definition user_role :: "database \<Rightarrow> uuid \<Rightarrow> string option" where
  "user_role db uid =
     (case map_of (db_users db) uid of
        None \<Rightarrow> None
      | Some u \<Rightarrow> if us_active u then map_of (db_roles db) (us_role_id u) else None)"

subsection \<open>Writing\<close>

definition new_event :: "uuid \<Rightarrow> time \<Rightarrow> pyfloat option \<Rightarrow> alarm_event_row" where
  "new_event rid raised_at raised_value =
     \<lparr>ae_rule_id = rid, ae_raised_at = raised_at, ae_acked_at = None, ae_acked_by = None,
      ae_cleared_at = None, ae_state = ACTIVE_UNACKED, ae_raised_value = raised_value\<rparr>"

text \<open>
  \<open>INSERT\<close>: refused by the foreign key to the rule or by the partial unique index
  (\<open>IntegrityError\<close>).
\<close>

definition insert_event :: "uuid \<Rightarrow> alarm_event_row \<Rightarrow> database \<Rightarrow> database option" where
  "insert_event eid row db =
     (let evs = AList.update eid row (db_events db)
      in if map_of (db_rules db) (ae_rule_id row) \<noteq> None \<and> uq_alarm_event_open_rule evs
         then Some (db\<lparr>db_events := evs\<rparr>) else None)"

definition existing_open :: "uuid \<Rightarrow> database \<Rightarrow> uuid option" where
  "existing_open rid db =
     map_option fst
       (List.find (\<lambda>(eid, e). ae_rule_id e = rid \<and> ae_state e \<noteq> NORMAL) (db_events db))"

text \<open>
  \<open>create_event\<close>: \<open>None\<close> when the database cannot be reached or the insertion is refused and no
  open alarm of the rule explains it; the alarm that is already open otherwise.
\<close>

definition create_event ::
  "uuid \<Rightarrow> time \<Rightarrow> pyfloat option \<Rightarrow> alarm_world \<Rightarrow> uuid option \<times> alarm_world" where
  "create_event rid raised_at raised_value w =
     (let (failed, w1) = io w in
      if failed then (None, w1)
      else case insert_event (aw_next w1) (new_event rid raised_at raised_value) (aw_db w1) of
          Some db \<Rightarrow> (Some (aw_next w1), w1\<lparr>aw_db := db, aw_next := Suc (aw_next w1)\<rparr>)
        | None \<Rightarrow>
            (let (failed2, w2) = io w1 in
             if failed2 then (None, w2) else (existing_open rid (aw_db w2), w2)))"

definition modify_event ::
  "uuid \<Rightarrow> (alarm_event_row \<Rightarrow> alarm_event_row) \<Rightarrow> (uuid, alarm_event_row) dict \<Rightarrow>
   (uuid, alarm_event_row) dict" where
  "modify_event eid f evs =
     (case map_of evs eid of None \<Rightarrow> evs | Some e \<Rightarrow> AList.update eid (f e) evs)"

definition update_event ::
  "uuid \<Rightarrow> (alarm_event_row \<Rightarrow> alarm_event_row) \<Rightarrow> alarm_world \<Rightarrow> bool \<times> alarm_world" where
  "update_event eid f w =
     (let (failed, w1) = io w;
          evs = modify_event eid f (db_events (aw_db w1))
      in if failed \<or> \<not> uq_alarm_event_open_rule evs then (False, w1)
         else (True, w1\<lparr>aw_db := (aw_db w1)\<lparr>db_events := evs\<rparr>\<rparr>))"

lemma modify_event_get: "map_of (modify_event eid f evs) = (map_of evs)(eid := map_option f (map_of evs eid))"
  by (auto simp: modify_event_def fun_eq_iff split: option.splits)

lemma modify_event_wf [simp]: "dict_wf evs \<Longrightarrow> dict_wf (modify_event eid f evs)"
  by (simp add: modify_event_def split: option.splits)

lemma existing_open_Some:
  assumes "dict_wf (db_events db)" "existing_open rid db = Some eid"
  shows "\<exists>e. map_of (db_events db) eid = Some e \<and> ae_rule_id e = rid \<and> is_open e"
proof -
  from assms(2) obtain e where
    "List.find (\<lambda>(eid, e). ae_rule_id e = rid \<and> ae_state e \<noteq> NORMAL) (db_events db) = Some (eid, e)"
    by (auto simp: existing_open_def)
  from find_map_of [OF this] assms(1) show ?thesis
    by (auto simp: is_open_def)
qed

subsection \<open>The in-memory store\<close>

text \<open>
  \<open>MemoryAlarmStore\<close>, the store of the unit tests: it fails as long as \<open>ms_fail\<close> is set, has no
  unique index and raises \<open>KeyError\<close> on an unknown alarm.
\<close>

record memory_store =
  ms_events :: "(uuid, alarm_event_row) dict"
  ms_next :: uuid
  ms_fail :: bool

definition mem_create_event ::
  "uuid \<Rightarrow> time \<Rightarrow> pyfloat option \<Rightarrow> memory_store \<Rightarrow> uuid option \<times> memory_store" where
  "mem_create_event rid raised_at raised_value s =
     (if ms_fail s then (None, s)
      else (Some (ms_next s),
            s\<lparr>ms_events := AList.update (ms_next s) (new_event rid raised_at raised_value) (ms_events s),
              ms_next := Suc (ms_next s)\<rparr>))"

definition mem_update_event ::
  "uuid \<Rightarrow> (alarm_event_row \<Rightarrow> alarm_event_row) \<Rightarrow> memory_store \<Rightarrow> bool \<times> memory_store" where
  "mem_update_event eid f s =
     (if ms_fail s \<or> map_of (ms_events s) eid = None then (False, s)
      else (True, s\<lparr>ms_events := modify_event eid f (ms_events s)\<rparr>))"

subsection \<open>The protocol\<close>

text \<open>
  \<open>AlarmStore\<close>, the protocol the engine relies on, as far as alarms are concerned: what an
  operation promises about the events when it succeeds, and that a failed one changes none.
\<close>

locale alarm_store =
  fixes create :: "uuid \<Rightarrow> time \<Rightarrow> pyfloat option \<Rightarrow> 'w \<Rightarrow> uuid option \<times> 'w"
    and upd :: "uuid \<Rightarrow> (alarm_event_row \<Rightarrow> alarm_event_row) \<Rightarrow> 'w \<Rightarrow> bool \<times> 'w"
    and evs :: "'w \<Rightarrow> uuid \<Rightarrow> alarm_event_row option"
    and wf :: "'w \<Rightarrow> bool"
  assumes create_failed: "wf w \<Longrightarrow> create r t v w = (None, w') \<Longrightarrow> evs w' = evs w"
    and create_ok: "wf w \<Longrightarrow> create r t v w = (Some e, w') \<Longrightarrow>
      \<exists>row. evs w' = (evs w)(e \<mapsto> row) \<and> ae_rule_id row = r \<and> is_open row"
    and upd_failed: "wf w \<Longrightarrow> upd e f w = (False, w') \<Longrightarrow> evs w' = evs w"
    and upd_ok: "wf w \<Longrightarrow> upd e f w = (True, w') \<Longrightarrow> evs w' = (evs w)(e := map_option f (evs w e))"
    and create_wf: "wf w \<Longrightarrow> wf (snd (create r t v w))"
    and upd_wf: "wf w \<Longrightarrow> wf (snd (upd e f w))"
begin

text \<open>An event that an operation does not name is left alone.\<close>

lemma upd_other: "wf w \<Longrightarrow> e' \<noteq> e \<Longrightarrow> evs (snd (upd e f w)) e' = evs w e'"
  using upd_ok [of w e f] upd_failed [of w e f] by (cases "upd e f w"; cases "fst (upd e f w)") auto

text \<open>An alarm that was raised and then closed is closed, whatever else happened to it.\<close>

lemma create_close:
  assumes "wf w" "create r t v w = (Some e, w1)" "upd e f w1 = (True, w2)"
    and "\<And>row. \<not> is_open (f row)"
  shows "\<exists>row. evs w2 e = Some row \<and> \<not> is_open row"
proof -
  have "wf w1" using create_wf [OF assms(1), of r t v] assms(2) by simp
  then have "evs w2 = (evs w1)(e := map_option f (evs w1 e))" using assms(3) by (rule upd_ok)
  moreover obtain row where "evs w1 e = Some row"
    using create_ok [OF assms(1,2)] by auto
  ultimately show ?thesis using assms(4) by auto
qed

end

definition world_wf :: "alarm_world \<Rightarrow> bool" where
  "world_wf w \<longleftrightarrow> dict_wf (db_events (aw_db w))"

lemma create_event_cases:
  assumes "create_event r t v w = (res, w')"
  shows "res = None \<and> aw_db w' = aw_db w \<and> aw_next w' = aw_next w
    \<or> (\<exists>db. insert_event (aw_next w) (new_event r t v) (aw_db w) = Some db \<and>
        res = Some (aw_next w) \<and> aw_db w' = db \<and> aw_next w' = Suc (aw_next w))
    \<or> (\<exists>e. insert_event (aw_next w) (new_event r t v) (aw_db w) = None \<and>
        existing_open r (aw_db w) = Some e \<and> res = Some e \<and> aw_db w' = aw_db w \<and>
        aw_next w' = aw_next w)"
  using assms
  by (cases "existing_open r (aw_db w)")
    (auto simp: create_event_def Let_def split_beta split: if_splits option.splits)

lemma update_event_cases:
  assumes "update_event e f w = (res, w')"
  shows "aw_next w' = aw_next w \<and>
    (if res then aw_db w' = (aw_db w)\<lparr>db_events := modify_event e f (db_events (aw_db w))\<rparr> \<and>
        uq_alarm_event_open_rule (modify_event e f (db_events (aw_db w)))
     else aw_db w' = aw_db w)"
  using assms by (auto simp: update_event_def Let_def split_beta split: if_splits)

lemma insert_event_Some:
  assumes "insert_event e row db = Some db'"
  shows "db' = db\<lparr>db_events := AList.update e row (db_events db)\<rparr>"
    "uq_alarm_event_open_rule (AList.update e row (db_events db))"
  using assms by (auto simp: insert_event_def Let_def split: if_splits)

interpretation dbs: alarm_store create_event update_event events world_wf
proof (unfold_locales, goal_cases)
  case (1 w r t v w')
  then show ?case by (auto dest: create_event_cases)
next
  case (2 w r t v e w')
  from create_event_cases [OF 2(2)] show ?case
  proof (elim disjE exE conjE)
    fix db assume i: "insert_event (aw_next w) (new_event r t v) (aw_db w) = Some db"
      and eqs: "Some e = Some (aw_next w)" "aw_db w' = db"
    have "events w' = (events w)(e \<mapsto> new_event r t v)"
      using insert_event_Some(1) [OF i] eqs by (simp add: update_conv')
    then show ?thesis by (auto simp: new_event_def is_open_def)
  next
    fix e' assume x: "existing_open r (aw_db w) = Some e'" and eqs: "Some e = Some e'" "aw_db w' = aw_db w"
    obtain row where "events w e = Some row" "ae_rule_id row = r" "is_open row"
      using existing_open_Some [OF 2(1) [unfolded world_wf_def] x] eqs by auto
    with eqs show ?thesis by (intro exI [of _ row]) (auto simp: fun_eq_iff)
  qed simp
next
  case (3 w e f w')
  then show ?case by (auto dest: update_event_cases)
next
  case (4 w e f w')
  then show ?case by (auto dest!: update_event_cases simp: modify_event_get)
next
  case (5 w r t v)
  then show ?case
    using create_event_cases [of r t v w "fst (create_event r t v w)" "snd (create_event r t v w)"]
    by (auto simp: world_wf_def dest: insert_event_Some(1))
next
  case (6 w e f)
  then show ?case
    using update_event_cases [of e f w "fst (update_event e f w)" "snd (update_event e f w)"]
    by (auto simp: world_wf_def split: if_splits)
qed

interpretation mems: alarm_store mem_create_event mem_update_event "\<lambda>s. map_of (ms_events s)"
    "\<lambda>s. dict_wf (ms_events s)"
proof (unfold_locales, goal_cases)
  case (2 w r t v e w')
  then show ?case
    by (auto simp: mem_create_event_def new_event_def is_open_def update_conv' split: if_splits)
next
  case (4 w e f w')
  then show ?case by (auto simp: mem_update_event_def modify_event_get split: if_splits)
qed (auto simp: mem_create_event_def mem_update_event_def split: if_splits)

end
