(* ===== verification/Alarm_Engine.thy ===== *)
theory Alarm_Engine
  imports Alarm_Rules Alarm_Store
begin

section \<open>The alarm engine\<close>

text \<open>
  \<open>app/alarms/engine.py\<close>: one runtime per active rule, the three indexes by point, device and
  BACnet object, and the handlers (values, device status, BACnet events, the tick, operator
  acknowledgements, reloading). All handlers run under the engine's lock, so a run is a sequence
  of handlers. Within one handler the monotonic clock and the wall clock are read once.
  Accesses to the database and to Redis fail as \<open>aw_faults\<close> says.
\<close>

subsection \<open>State\<close>

record rule_runtime =
  rt_rec :: rule_record
  rt_machine :: machine
  rt_condition :: bool
  rt_event_id :: "uuid option"
  rt_raised_at :: "time option"
  rt_acked_at :: "time option"
  rt_acked_by :: "string option"
  rt_cleared_at :: "time option"
  rt_value :: "pyfloat option"
  rt_raised_value :: "pyfloat option"
  rt_last_valid :: time

record engine =
  en_rules :: "(uuid, rule_runtime) dict"
  en_by_point :: "(uuid, uuid list) dict"
  en_by_device :: "(uuid, uuid list) dict"
  en_by_object :: "(int \<times> string \<times> int, uuid list) dict"
  en_world :: alarm_world

abbreviation rt_state :: "rule_runtime \<Rightarrow> alarm_state" where
  "rt_state rt \<equiv> mstate (rt_machine rt)"

definition set_state :: "alarm_state \<Rightarrow> rule_runtime \<Rightarrow> rule_runtime" where
  "set_state s rt = rt\<lparr>rt_machine := (rt_machine rt)\<lparr>mstate := s\<rparr>\<rparr>"

subsection \<open>Recording a transition\<close>

text \<open>\<open>_info\<close>: its assertion fails without an open alarm and the instant of its raise.\<close>

definition info :: "rule_runtime \<Rightarrow> alarm_state \<Rightarrow> alarm_info option" where
  "info rt s =
     (case (rt_event_id rt, rt_raised_at rt) of
        (Some eid, Some raised) \<Rightarrow> Some
          \<lparr>ai_event_id = eid, ai_rule_id = rr_id (rt_rec rt), ai_rule_name = rr_name (rt_rec rt),
           ai_kind = rr_kind (rt_rec rt), ai_severity = rr_severity (rt_rec rt), ai_state = s,
           ai_point_id = rr_point_id (rt_rec rt), ai_point_name = rr_point_name (rt_rec rt),
           ai_path = rr_path (rt_rec rt), ai_unit = rr_unit (rt_rec rt),
           ai_threshold = rr_threshold (rt_rec rt),
           ai_value = (if rt_raised_value rt \<noteq> None then rt_raised_value rt else rt_value rt),
           ai_raised_at = raised, ai_acked_at = rt_acked_at rt, ai_acked_by = rt_acked_by rt,
           ai_cleared_at = rt_cleared_at rt\<rparr>
      | _ \<Rightarrow> None)"

text \<open>The first half of \<open>_persist\<close>: the row of \<open>alarm_event\<close>. \<open>False\<close> is an exception.\<close>

definition persist_row ::
  "time \<Rightarrow> transition \<Rightarrow> string option \<Rightarrow> rule_runtime \<Rightarrow> alarm_world \<Rightarrow>
   bool \<times> rule_runtime \<times> alarm_world" where
  "persist_row now t acked_by rt w =
     (case kind t of
        T_RAISED \<Rightarrow>
          (case rt_event_id rt of
             None \<Rightarrow>
               (case create_event (rr_id (rt_rec rt)) now (rt_value rt) w of
                  (None, w1) \<Rightarrow> (False, rt, w1)
                | (Some eid, w1) \<Rightarrow>
                    (True, rt\<lparr>rt_event_id := Some eid, rt_raised_at := Some now,
                       rt_raised_value := rt_value rt, rt_acked_at := None, rt_acked_by := None,
                       rt_cleared_at := None\<rparr>, w1))
           | Some eid \<Rightarrow>
               (case update_event eid (\<lambda>e. e\<lparr>ae_state := to_state t, ae_cleared_at := None\<rparr>) w of
                  (False, w1) \<Rightarrow> (False, rt, w1)
                | (True, w1) \<Rightarrow> (True, rt\<lparr>rt_cleared_at := None\<rparr>, w1)))
      | k \<Rightarrow>
          (case rt_event_id rt of
             None \<Rightarrow> (False, rt, w)
           | Some eid \<Rightarrow>
               if k = T_CLEARED \<or> k = T_NORMAL then
                 (case update_event eid (\<lambda>e. e\<lparr>ae_state := to_state t, ae_cleared_at := Some now\<rparr>) w of
                    (ok, w1) \<Rightarrow> (ok, rt\<lparr>rt_cleared_at := Some now\<rparr>, w1))
               else if k = T_ACKED then
                 (case update_event eid (\<lambda>e. e\<lparr>ae_state := to_state t, ae_acked_at := Some now,
                         ae_acked_by := acked_by\<rparr>) w of
                    (False, w1) \<Rightarrow> (False, rt, w1)
                  | (True, w1) \<Rightarrow> (True, rt\<lparr>rt_acked_at := Some now, rt_acked_by := acked_by\<rparr>, w1))
               else (True, rt, w)))"

definition persist ::
  "time \<Rightarrow> transition \<Rightarrow> string option \<Rightarrow> rule_runtime \<Rightarrow> alarm_world \<Rightarrow>
   bool \<times> rule_runtime \<times> alarm_world" where
  "persist now t acked_by rt w =
     (case persist_row now t acked_by rt w of
        (False, rt1, w1) \<Rightarrow> (False, rt1, w1)
      | (True, rt1, w1) \<Rightarrow>
          (case info rt1 (to_state t) of
             None \<Rightarrow> (False, rt1, w1)
           | Some msg \<Rightarrow>
               (case io w1 of
                  (True, w2) \<Rightarrow> (False, rt1, w2)
                | (False, w2) \<Rightarrow>
                    (let w3 = w2\<lparr>aw_bus := aw_bus w2 @ [Alarm_Message (kind t) msg]\<rparr>;
                         w4 = (if rr_notify (rt_rec rt1) = [] then w3
                               else w3\<lparr>aw_sent := aw_sent w3 @
                                 [build_notification msg (kind t) (rr_notify (rt_rec rt1))]\<rparr>);
                         rt2 = (if to_state t = NORMAL then rt1\<lparr>rt_event_id := None\<rparr> else rt1)
                     in (True, rt2, w4)))))"

text \<open>
  The loop of \<open>_update\<close> over the transitions: internal ones are skipped, and the first one that
  cannot be recorded is undone and ends the loop.
\<close>

fun persist_all ::
  "time \<Rightarrow> transition list \<Rightarrow> rule_runtime \<Rightarrow> alarm_world \<Rightarrow> rule_runtime \<times> alarm_world" where
  "persist_all now [] rt w = (rt, w)"
| "persist_all now (t # ts) rt w =
     (if \<not> persistent t then persist_all now ts rt w
      else case persist now t None rt w of
          (True, rt1, w1) \<Rightarrow> persist_all now ts rt1 w1
        | (False, rt1, w1) \<Rightarrow> (set_state (from_state t) rt1, w1))"

definition rule_update ::
  "time \<Rightarrow> time \<Rightarrow> bool \<Rightarrow> pyfloat option \<Rightarrow> rule_runtime \<Rightarrow> alarm_world \<Rightarrow>
   rule_runtime \<times> alarm_world" where
  "rule_update clock wall condition value rt w =
     (let rt1 = rt\<lparr>rt_condition := condition,
            rt_value := (case value of None \<Rightarrow> rt_value rt | Some v \<Rightarrow> Some v)\<rparr>;
          (m, ts) = machine_update condition clock (rt_machine rt1)
      in persist_all wall ts (rt1\<lparr>rt_machine := m\<rparr>) w)"

subsection \<open>Handlers\<close>

definition on_rule ::
  "(rule_runtime \<Rightarrow> alarm_world \<Rightarrow> rule_runtime \<times> alarm_world) \<Rightarrow> uuid \<Rightarrow> engine \<Rightarrow> engine" where
  "on_rule f rid en =
     (case map_of (en_rules en) rid of
        None \<Rightarrow> en
      | Some rt \<Rightarrow>
          (case f rt (en_world en) of
             (rt', w') \<Rightarrow> en\<lparr>en_rules := AList.update rid rt' (en_rules en), en_world := w'\<rparr>))"

definition listed :: "('k, uuid list) dict \<Rightarrow> 'k \<Rightarrow> uuid list" where
  "listed idx k = (case map_of idx k of None \<Rightarrow> [] | Some rids \<Rightarrow> rids)"

definition observe_value ::
  "time \<Rightarrow> time \<Rightarrow> pyfloat option \<Rightarrow> rule_runtime \<Rightarrow> alarm_world \<Rightarrow> rule_runtime \<times> alarm_world" where
  "observe_value clock wall value rt w =
     (let rec = rt_rec rt;
          rt1 = (if value = None then rt else rt\<lparr>rt_last_valid := clock\<rparr>)
      in if rr_kind rec \<in> VALUE_KINDS then
           (case evaluate_value (rr_kind rec) value (rr_threshold rec) (rr_hysteresis rec)
                   (rt_condition rt1) of
              None \<Rightarrow> (rt1, w)
            | Some c \<Rightarrow> rule_update clock wall c value rt1 w)
         else if rr_kind rec = STALE \<and> value \<noteq> None then
           rule_update clock wall False value rt1 w
         else (rt1, w))"

definition on_value :: "time \<Rightarrow> time \<Rightarrow> uuid \<Rightarrow> pyfloat option \<Rightarrow> engine \<Rightarrow> engine" where
  "on_value clock wall point_id value en =
     fold (on_rule (observe_value clock wall value)) (listed (en_by_point en) point_id) en"

definition on_device_status :: "time \<Rightarrow> time \<Rightarrow> uuid \<Rightarrow> bool \<Rightarrow> engine \<Rightarrow> engine" where
  "on_device_status clock wall device_id online en =
     fold (on_rule (rule_update clock wall (\<not> online) None)) (listed (en_by_device en) device_id) en"

definition on_bacnet_event ::
  "time \<Rightarrow> time \<Rightarrow> int \<Rightarrow> string \<Rightarrow> int \<Rightarrow> string \<Rightarrow> engine \<Rightarrow> engine" where
  "on_bacnet_event clock wall device_instance object_type object_instance st en =
     fold (on_rule (rule_update clock wall (is_abnormal_event_state st) None))
       (listed (en_by_object en) (device_instance, object_type, object_instance)) en"

definition tick_rule :: "time \<Rightarrow> time \<Rightarrow> rule_runtime \<Rightarrow> alarm_world \<Rightarrow> rule_runtime \<times> alarm_world" where
  "tick_rule clock wall rt w =
     (case (rr_kind (rt_rec rt), rr_threshold (rt_rec rt)) of
        (STALE, Some limit) \<Rightarrow>
          rule_update clock wall (is_stale (Fin (clock - rt_last_valid rt)) limit) None rt w
      | _ \<Rightarrow>
          if rt_state rt = PENDING then rule_update clock wall (rt_condition rt) None rt w
          else (rt, w))"

definition tick :: "time \<Rightarrow> time \<Rightarrow> engine \<Rightarrow> engine" where
  "tick clock wall en = fold (on_rule (tick_rule clock wall)) (dict_keys (en_rules en)) en"

datatype ack_error = Unknown_Alarm | Not_Ackable alarm_state | Store_Error

type_synonym ack_result = "ack_error + unit"

text \<open>
  The acknowledgement of one rule's alarm; \<open>str(user_id)\<close> stands in for a missing login. An
  exception puts the machine back, so that the operator can try again.
\<close>

definition ack_rule ::
  "(uuid \<Rightarrow> string) \<Rightarrow> time \<Rightarrow> uuid \<Rightarrow> rule_runtime \<Rightarrow> alarm_world \<Rightarrow>
   ack_result \<times> rule_runtime \<times> alarm_world" where
  "ack_rule uuid_str wall user_id rt w =
     (case machine_acknowledge (rt_machine rt) of
        (m, None) \<Rightarrow> (Inl (Not_Ackable (mstate m)), rt, w)
      | (m, Some t) \<Rightarrow>
          (case io w of
             (True, w1) \<Rightarrow> (Inl Store_Error, set_state (from_state t) (rt\<lparr>rt_machine := m\<rparr>), w1)
           | (False, w1) \<Rightarrow>
               (let login = (case user_login (aw_db w1) user_id of
                               None \<Rightarrow> uuid_str user_id
                             | Some l \<Rightarrow> if l = [] then uuid_str user_id else l)
                in case persist wall t (Some login) (rt\<lparr>rt_machine := m\<rparr>) w1 of
                     (True, rt2, w2) \<Rightarrow> (Inr (), rt2, w2)
                   | (False, rt2, w2) \<Rightarrow> (Inl Store_Error, set_state (from_state t) rt2, w2))))"

definition acknowledge ::
  "(uuid \<Rightarrow> string) \<Rightarrow> time \<Rightarrow> uuid \<Rightarrow> uuid \<Rightarrow> engine \<Rightarrow> ack_result \<times> engine" where
  "acknowledge uuid_str wall eid user_id en =
     (case List.find (\<lambda>(rid, rt). rt_event_id rt = Some eid) (en_rules en) of
        None \<Rightarrow> (Inl Unknown_Alarm, en)
      | Some (rid, rt) \<Rightarrow>
          (case ack_rule uuid_str wall user_id rt (en_world en) of
             (res, rt', w') \<Rightarrow>
               (res, en\<lparr>en_rules := AList.update rid rt' (en_rules en), en_world := w'\<rparr>)))"

subsection \<open>Loading the rules\<close>

definition restore :: "time \<Rightarrow> rule_record \<Rightarrow> open_event option \<Rightarrow> rule_runtime" where
  "restore clock rec ev =
     (let s = (case ev of None \<Rightarrow> NORMAL | Some (eid, e) \<Rightarrow> ae_state e);
          rt = \<lparr>rt_rec = rec, rt_machine = machine_init (of_int (rr_delay_s rec)) s,
                rt_condition = False, rt_event_id = None, rt_raised_at = None, rt_acked_at = None,
                rt_acked_by = None, rt_cleared_at = None, rt_value = None, rt_raised_value = None,
                rt_last_valid = clock\<rparr>
      in case ev of
           None \<Rightarrow> rt
         | Some (eid, e) \<Rightarrow>
             rt\<lparr>rt_event_id := Some eid, rt_raised_at := Some (ae_raised_at e),
               rt_acked_at := ae_acked_at e, rt_acked_by := ae_acked_by e,
               rt_cleared_at := ae_cleared_at e, rt_raised_value := ae_raised_value e,
               rt_value := ae_raised_value e,
               rt_condition := s \<in> {ACTIVE_UNACKED, ACTIVE_ACKED}\<rparr>)"

definition refresh :: "rule_record \<Rightarrow> rule_runtime \<Rightarrow> rule_runtime" where
  "refresh rec rt =
     rt\<lparr>rt_rec := rec, rt_machine := (rt_machine rt)\<lparr>delay_s := of_int (rr_delay_s rec)\<rparr>\<rparr>"

text \<open>\<open>{e.rule_id: e for e in open_events}\<close>\<close>

definition events_by_rule :: "open_event list \<Rightarrow> (uuid, open_event) dict" where
  "events_by_rule es = fold (\<lambda>(eid, e). AList.update (ae_rule_id e) (eid, e)) es []"

definition next_rules ::
  "time \<Rightarrow> (uuid, open_event) dict \<Rightarrow> (uuid, rule_runtime) dict \<Rightarrow> rule_record list \<Rightarrow>
   (uuid, rule_runtime) dict" where
  "next_rules clock evs old records =
     fold (\<lambda>rec. AList.update (rr_id rec)
        (case map_of old (rr_id rec) of
           Some rt \<Rightarrow> refresh rec rt
         | None \<Rightarrow> restore clock rec (map_of evs (rr_id rec)))) records []"

definition fresh_ids :: "(uuid, rule_runtime) dict \<Rightarrow> rule_record list \<Rightarrow> uuid list" where
  "fresh_ids old records = List.filter (\<lambda>rid. map_of old rid = None) (map rr_id records)"

text \<open>The runtimes of the old dictionary, as the loop over the records leaves them: shared
  objects, so a load that is interrupted afterwards has already refreshed them.\<close>

definition refreshed :: "rule_record list \<Rightarrow> (uuid, rule_runtime) dict \<Rightarrow> (uuid, rule_runtime) dict" where
  "refreshed records old =
     map (\<lambda>(rid, rt). (rid, fold (\<lambda>rec rt. if rr_id rec = rid then refresh rec rt else rt) records rt)) old"

definition index_by :: "('a \<Rightarrow> 'k option) \<Rightarrow> (uuid, 'a) dict \<Rightarrow> ('k, uuid list) dict" where
  "index_by key d =
     fold (\<lambda>(rid, x) idx. case key x of
         None \<Rightarrow> idx
       | Some k \<Rightarrow> AList.update k (listed idx k @ [rid]) idx) d []"

definition reindex :: "engine \<Rightarrow> engine" where
  "reindex en =
     en\<lparr>en_by_point := index_by (\<lambda>rt. Some (rr_point_id (rt_rec rt))) (en_rules en),
       en_by_device := index_by (\<lambda>rt. if rr_kind (rt_rec rt) = COMM_LOST
          then Some (rr_device_id (rt_rec rt)) else None) (en_rules en),
       en_by_object := index_by (\<lambda>rt. if rr_kind (rt_rec rt) = BACNET_EVENT
          then Some (rr_device_instance (rt_rec rt), rr_object_type (rt_rec rt),
                     rr_object_instance (rt_rec rt)) else None) (en_rules en)\<rparr>"

definition close_orphan :: "time \<Rightarrow> open_event \<Rightarrow> alarm_world \<Rightarrow> bool \<times> alarm_world" where
  "close_orphan wall ev w =
     (case update_event (fst ev)
             (\<lambda>e. e\<lparr>ae_state := NORMAL,
                ae_cleared_at := Some (case ae_cleared_at (snd ev) of None \<Rightarrow> wall | Some c \<Rightarrow> c)\<rparr>) w of
        (False, w1) \<Rightarrow> (False, w1)
      | (True, w1) \<Rightarrow>
          (case io w1 of
             (True, w2) \<Rightarrow> (False, w2)
           | (False, w2) \<Rightarrow> (True, w2\<lparr>aw_bus := aw_bus w2 @ [Orphan_Closed (fst ev)]\<rparr>)))"

fun close_orphans :: "time \<Rightarrow> open_event list \<Rightarrow> alarm_world \<Rightarrow> bool \<times> alarm_world" where
  "close_orphans wall [] w = (True, w)"
| "close_orphans wall (ev # evs) w =
     (case close_orphan wall ev w of
        (False, w1) \<Rightarrow> (False, w1)
      | (True, w1) \<Rightarrow> close_orphans wall evs w1)"

text \<open>The evaluation of one fresh rule on what the database already knows.\<close>

definition evaluate_fresh ::
  "time \<Rightarrow> time \<Rightarrow> (uuid \<Rightarrow> latest_row option) \<Rightarrow> (uuid \<Rightarrow> bool option) \<Rightarrow>
   rule_runtime \<Rightarrow> alarm_world \<Rightarrow> rule_runtime \<times> alarm_world" where
  "evaluate_fresh clock wall latest online rt w =
     (let rec = rt_rec rt; last = latest (rr_point_id rec);
          rt1 = (case last of
                   None \<Rightarrow> rt
                 | Some l \<Rightarrow> rt\<lparr>rt_last_valid := clock - max 0 (wall - pl_ts l)\<rparr>)
      in case last of
           Some l \<Rightarrow>
             if rr_kind rec \<in> VALUE_KINDS then
               (case evaluate_value (rr_kind rec) (pl_value l) (rr_threshold rec)
                       (rr_hysteresis rec) (rt_condition rt1) of
                  None \<Rightarrow> (rt1, w)
                | Some c \<Rightarrow> rule_update clock wall c (pl_value l) rt1 w)
             else if rr_kind rec = COMM_LOST \<and> online (rr_device_id rec) = Some False then
               rule_update clock wall True None rt1 w
             else (rt1, w)
         | None \<Rightarrow>
             if rr_kind rec = COMM_LOST \<and> online (rr_device_id rec) = Some False then
               rule_update clock wall True None rt1 w
             else (rt1, w))"

definition initial_evaluation :: "time \<Rightarrow> time \<Rightarrow> uuid list \<Rightarrow> engine \<Rightarrow> bool \<times> engine" where
  "initial_evaluation clock wall fresh en =
     (if fresh = [] then (True, en)
      else case io (en_world en) of
          (True, w1) \<Rightarrow> (False, en\<lparr>en_world := w1\<rparr>)
        | (False, w1) \<Rightarrow>
            (case io w1 of
               (True, w2) \<Rightarrow> (False, en\<lparr>en_world := w2\<rparr>)
             | (False, w2) \<Rightarrow>
                 (let pids = concat (map (\<lambda>rid. case map_of (en_rules en) rid of
                                None \<Rightarrow> [] | Some rt \<Rightarrow> [rr_point_id (rt_rec rt)]) fresh);
                      latest = latest_values pids (aw_db w2);
                      online = devices_online (aw_db w2)
                  in (True, fold (on_rule (evaluate_fresh clock wall latest online)) fresh
                              (en\<lparr>en_world := w2\<rparr>)))))"

text \<open>\<open>load\<close>: \<open>False\<close> is an exception, which its callers log.\<close>

definition load :: "time \<Rightarrow> time \<Rightarrow> engine \<Rightarrow> bool \<times> engine" where
  "load clock wall en =
     (case io (en_world en) of
        (True, w1) \<Rightarrow> (False, en\<lparr>en_world := w1\<rparr>)
      | (False, w1) \<Rightarrow>
          (case io w1 of
             (True, w2) \<Rightarrow> (False, en\<lparr>en_world := w2\<rparr>)
           | (False, w2) \<Rightarrow>
               (let records = load_rules (aw_db w1);
                    evs = events_by_rule (open_events (aw_db w2));
                    rules = next_rules clock evs (en_rules en) records;
                    orphans = map snd (List.filter (\<lambda>(rid, ev). map_of rules rid = None) evs)
                in case close_orphans wall orphans w2 of
                     (False, w3) \<Rightarrow>
                       (False, en\<lparr>en_rules := refreshed records (en_rules en), en_world := w3\<rparr>)
                   | (True, w3) \<Rightarrow>
                       initial_evaluation clock wall (fresh_ids (en_rules en) records)
                         (reindex (en\<lparr>en_rules := rules, en_world := w3\<rparr>)))))"

end
