(* ===== verification/Alarm_Engine_Correct.thy ===== *)
theory Alarm_Engine_Correct
  imports Alarm_Engine
begin

section \<open>Correctness of the alarm engine\<close>

text \<open>
  Runs of the engine as sequences of handlers, under arbitrary failures and without failures:
  the engine's memory, the table \<open>alarm_event\<close> and the messages agree; what a failure leaves
  behind.
\<close>

subsection \<open>Runs\<close>

datatype alarm_input =
    Value_In time time uuid "pyfloat option"
  | Device_In time time uuid bool
  | Bacnet_In time time int string int string
  | Tick_In time time
  | Ack_In time uuid uuid
  | Load_In time time
  | Database_Changed database

text \<open>
  The engine is the only writer of \<open>alarm_event\<close>; the other services may change every other
  table between two handlers. Deleting a rule (refused while it has an open alarm) takes its
  closed alarms with it.
\<close>

definition surviving_events ::
  "database \<Rightarrow> (uuid, alarm_event_row) dict \<Rightarrow> (uuid, alarm_event_row) dict" where
  "surviving_events db evs =
     List.filter (\<lambda>(eid, e). is_open e \<or> map_of (db_rules db) (ae_rule_id e) \<noteq> None) evs"

fun engine_step :: "(uuid \<Rightarrow> string) \<Rightarrow> alarm_input \<Rightarrow> engine \<Rightarrow> engine" where
  "engine_step u (Value_In c w p v) en = on_value c w p v en"
| "engine_step u (Device_In c w d online) en = on_device_status c w d online en"
| "engine_step u (Bacnet_In c w d ot oi st) en = on_bacnet_event c w d ot oi st en"
| "engine_step u (Tick_In c w) en = tick c w en"
| "engine_step u (Ack_In w eid uid) en = snd (acknowledge u w eid uid en)"
| "engine_step u (Load_In c w) en = snd (load c w en)"
| "engine_step u (Database_Changed db) en =
     en\<lparr>en_world := (en_world en)\<lparr>aw_db :=
       db\<lparr>db_events := surviving_events db (db_events (aw_db (en_world en)))\<rparr>\<rparr>\<rparr>"

definition engine_start :: "alarm_world \<Rightarrow> engine" where
  "engine_start w = \<lparr>en_rules = [], en_by_point = [], en_by_device = [], en_by_object = [], en_world = w\<rparr>"

subsection \<open>One observation\<close>

text \<open>An observation leads to at most one transition to record, the one into the new state.\<close>

lemma update_persistent_cases:
  "List.filter persistent (snd (machine_update c now m)) = [] \<and>
     (mstate (fst (machine_update c now m)) = mstate m
       \<or> mstate m \<in> {NORMAL, PENDING} \<and> mstate (fst (machine_update c now m)) \<in> {NORMAL, PENDING})
   \<or> (\<exists>t. List.filter persistent (snd (machine_update c now m)) = [t] \<and> conforms t \<and>
        to_state t = mstate (fst (machine_update c now m)) \<and> persistent t \<and> kind t \<noteq> T_ACKED \<and>
        (from_state t = mstate m \<or> from_state t = PENDING \<and> mstate m = NORMAL))"
  by (cases "mstate m"; cases c) (auto simp: machine_defs conforms_def)

lemma persist_all_filter:
  "persist_all now ts rt w = persist_all now (List.filter persistent ts) rt w"
  by (induction ts arbitrary: rt w) (auto split: prod.splits bool.splits)

lemma persist_all_one:
  "persistent t \<Longrightarrow> persist_all now [t] rt w =
     (case persist now t None rt w of
        (True, rt1, w1) \<Rightarrow> (rt1, w1)
      | (False, rt1, w1) \<Rightarrow> (set_state (from_state t) rt1, w1))"
  by (simp split: prod.splits bool.splits)

lemma set_state_simps [simp]:
  "rt_rec (set_state s rt) = rt_rec rt" "rt_state (set_state s rt) = s"
  "rt_event_id (set_state s rt) = rt_event_id rt" "rt_raised_at (set_state s rt) = rt_raised_at rt"
  "delay_s (rt_machine (set_state s rt)) = delay_s (rt_machine rt)"
  by (simp_all add: set_state_def)

text \<open>What a successful \<open>_persist\<close> does after the row: publish, notify, forget a closed alarm.\<close>

definition announce :: "transition \<Rightarrow> alarm_info \<Rightarrow> rule_runtime \<Rightarrow> alarm_world \<Rightarrow> alarm_world" where
  "announce t msg rt w =
     w\<lparr>aw_bus := aw_bus w @ [Alarm_Message (kind t) msg],
       aw_sent := aw_sent w @ (if rr_notify (rt_rec rt) = [] then []
                    else [build_notification msg (kind t) (rr_notify (rt_rec rt))])\<rparr>"

lemma announce_simps [simp]:
  "aw_db (announce t msg rt w) = aw_db w" "aw_next (announce t msg rt w) = aw_next w"
  "aw_faults (announce t msg rt w) = aw_faults w"
  "aw_bus (announce t msg rt w) = aw_bus w @ [Alarm_Message (kind t) msg]"
  by (simp_all add: announce_def)

lemma persist_cases:
  assumes "persist now t ab rt w = (ok, rt', w')"
  obtains (failed) ok1 w1 where "persist_row now t ab rt w = (ok1, rt', w1)" "\<not> ok"
      "\<not> ok1 \<and> w' = w1 \<or> ok1 \<and> info rt' (to_state t) = None \<and> w' = w1
       \<or> ok1 \<and> io w1 = (True, w')"
  | (succeeded) rt1 w1 w2 msg where "persist_row now t ab rt w = (True, rt1, w1)" "ok"
      "info rt1 (to_state t) = Some msg" "io w1 = (False, w2)"
      "rt' = (if to_state t = NORMAL then rt1\<lparr>rt_event_id := None\<rparr> else rt1)"
      "w' = announce t msg rt1 w2"
proof (cases "persist_row now t ab rt w")
  case (fields ok1 rt1 w1)
  show thesis
  proof (cases "ok1 \<and> info rt1 (to_state t) \<noteq> None")
    case False
    then have "rt' = rt1 \<and> w' = w1 \<and> \<not> ok"
      using assms fields by (auto simp: persist_def split: bool.splits option.splits)
    with False fields that(1) show ?thesis by auto
  next
    case True
    then obtain msg where msg: "info rt1 (to_state t) = Some msg" by auto
    obtain f w2 where io: "io w1 = (f, w2)" by (cases "io w1")
    show ?thesis
    proof (cases f)
      case f: True
      have "rt' = rt1 \<and> w' = w2 \<and> \<not> ok"
        using assms fields True msg io f by (auto simp: persist_def)
      with True fields io f that(1) show ?thesis by auto
    next
      case f: False
      have "rt' = (if to_state t = NORMAL then rt1\<lparr>rt_event_id := None\<rparr> else rt1)"
        "w' = announce t msg rt1 w2" "ok"
        using assms fields True msg io f
        by (simp_all add: persist_def announce_def Let_def split: if_splits)
      with True fields msg io f that(2) show ?thesis by auto
    qed
  qed
qed

lemma persist_row_runtime:
  assumes "persist_row now t ab rt w = (ok, rt', w')"
  shows "rt_rec rt' = rt_rec rt \<and> rt_machine rt' = rt_machine rt \<and>
    (ok \<longrightarrow> rt_event_id rt' \<noteq> None) \<and>
    (rt_event_id rt \<noteq> None \<longrightarrow> rt_event_id rt' = rt_event_id rt) \<and>
    (rt_event_id rt' = rt_event_id rt \<and> rt_raised_at rt' = rt_raised_at rt \<or> rt_raised_at rt' \<noteq> None)"
proof (cases "rt_event_id rt")
  case None
  with assms show ?thesis
    by (cases "create_event (rr_id (rt_rec rt)) now (rt_value rt) w"; cases "kind t")
      (auto simp: persist_row_def split: option.splits)
next
  case (Some eid)
  obtain f where "rt' = rt \<or> rt' = rt\<lparr>rt_cleared_at := f\<rparr> \<or>
      rt' = rt\<lparr>rt_acked_at := Some now, rt_acked_by := ab\<rparr>"
    using assms Some
    by (cases "kind t") (auto simp: persist_row_def split: prod.splits bool.splits)
  with Some show ?thesis by auto
qed

lemma persist_row_quiet:
  assumes "persist_row now t ab rt w = (ok, rt', w')"
  shows "aw_bus w' = aw_bus w \<and> aw_sent w' = aw_sent w"
  using assms
  by (cases "kind t")
    (auto simp: persist_row_def create_event_def update_event_def Let_def split_beta
      split: option.splits if_splits prod.splits bool.splits)

lemma persist_runtime:
  assumes "persist now t ab rt w = (ok, rt', w')"
  shows "rt_rec rt' = rt_rec rt \<and> rt_machine rt' = rt_machine rt \<and>
    (ok \<longrightarrow> (rt_event_id rt' = None \<longleftrightarrow> to_state t = NORMAL)) \<and>
    (rt_event_id rt \<noteq> None \<longrightarrow> \<not> ok \<longrightarrow> rt_event_id rt' = rt_event_id rt) \<and>
    ((rt_event_id rt \<noteq> None \<longrightarrow> rt_raised_at rt \<noteq> None) \<longrightarrow>
      rt_event_id rt' \<noteq> None \<longrightarrow> rt_raised_at rt' \<noteq> None)"
  using assms
proof (cases rule: persist_cases)
  case (failed ok1 w1)
  from persist_row_runtime [OF failed(1)] failed(2) show ?thesis by auto
next
  case (succeeded rt1 w1 w2 msg)
  from persist_row_runtime [OF succeeded(1)] succeeded(2,3,5) show ?thesis by auto
qed

text \<open>The parts of \<open>rule_update\<close>: the runtime handed to \<open>persist_all\<close>.\<close>

definition observed :: "time \<Rightarrow> bool \<Rightarrow> pyfloat option \<Rightarrow> rule_runtime \<Rightarrow> rule_runtime" where
  "observed clock c v rt =
     rt\<lparr>rt_condition := c, rt_value := (case v of None \<Rightarrow> rt_value rt | Some x \<Rightarrow> Some x),
       rt_machine := fst (machine_update c clock (rt_machine rt))\<rparr>"

lemma observed_simps [simp]:
  "rt_rec (observed clock c v rt) = rt_rec rt"
  "rt_event_id (observed clock c v rt) = rt_event_id rt"
  "rt_raised_at (observed clock c v rt) = rt_raised_at rt"
  "rt_machine (observed clock c v rt) = fst (machine_update c clock (rt_machine rt))"
  by (simp_all add: observed_def)

lemma rule_update_cases:
  assumes "rule_update clock wall c v rt w = (rt', w')"
  obtains (none) "rt' = observed clock c v rt" "w' = w"
      "rt_state rt' = rt_state rt \<or> rt_state rt \<in> {NORMAL, PENDING} \<and> rt_state rt' \<in> {NORMAL, PENDING}"
  | (recorded) t where "conforms t" "persistent t" "kind t \<noteq> T_ACKED"
      "from_state t = rt_state rt \<or> from_state t = PENDING \<and> rt_state rt = NORMAL"
      "to_state t = rt_state (observed clock c v rt)"
      "persist wall t None (observed clock c v rt) w = (True, rt', w')"
  | (undone) t rt1 where "conforms t" "persistent t" "kind t \<noteq> T_ACKED"
      "from_state t = rt_state rt \<or> from_state t = PENDING \<and> rt_state rt = NORMAL"
      "to_state t = rt_state (observed clock c v rt)"
      "persist wall t None (observed clock c v rt) w = (False, rt1, w')"
      "rt' = set_state (from_state t) rt1"
proof -
  let ?m = "rt_machine rt"
  have eq: "rule_update clock wall c v rt w =
      persist_all wall (List.filter persistent (snd (machine_update c clock ?m))) (observed clock c v rt) w"
    by (subst persist_all_filter [symmetric])
      (simp add: rule_update_def observed_def Let_def split_beta)
  let ?ts = "List.filter persistent (snd (machine_update c clock ?m))"
  let ?s = "mstate (fst (machine_update c clock ?m))"
  consider (a) "?ts = []" "?s = mstate ?m \<or> mstate ?m \<in> {NORMAL, PENDING} \<and> ?s \<in> {NORMAL, PENDING}"
    | (b) t where "?ts = [t]" "conforms t" "to_state t = ?s" "persistent t" "kind t \<noteq> T_ACKED"
      "from_state t = mstate ?m \<or> from_state t = PENDING \<and> mstate ?m = NORMAL"
    using update_persistent_cases [of c clock ?m] by blast
  then show thesis
  proof cases
    case a
    with assms eq that(1) show ?thesis by auto
  next
    case (b t)
    obtain ok rt1 w1 where p: "persist wall t None (observed clock c v rt) w = (ok, rt1, w1)"
      by (metis prod_cases3)
    from assms eq b(1,4) p have r: "(if ok then (rt1, w1) else (set_state (from_state t) rt1, w1)) = (rt', w')"
      by (simp only: persist_all_one prod.case) (simp split: bool.splits)
    show ?thesis
    proof (cases ok)
      case True
      with r p have "persist wall t None (observed clock c v rt) w = (True, rt', w')" by simp
      with b(2-) show ?thesis by (intro that(2)) simp_all
    next
      case False
      with r p have "persist wall t None (observed clock c v rt) w = (False, rt1, w')"
        "rt' = set_state (from_state t) rt1" by simp_all
      with b(2-) show ?thesis by (intro that(3)) simp_all
    qed
  qed
qed

subsection \<open>Whatever fails: an open alarm is known\<close>

text \<open>
  \<open>known\<close>: a rule whose machine is past the pending state holds the identifier of its alarm and
  the instant it was raised; so \<open>_info\<close> cannot fail and the alarm can be acknowledged.
\<close>

definition known :: "rule_runtime \<Rightarrow> bool" where
  "known rt \<longleftrightarrow> (rt_event_id rt = None \<longrightarrow> rt_state rt \<in> {NORMAL, PENDING}) \<and>
     (rt_event_id rt \<noteq> None \<longrightarrow> rt_raised_at rt \<noteq> None)"

lemma known_rule_update:
  assumes "known rt" "rule_update clock wall c v rt w = (rt', w')"
  shows "known rt' \<and> rt_rec rt' = rt_rec rt"
  using assms(2)
proof (cases rule: rule_update_cases)
  case none
  with assms(1) show ?thesis by (auto simp: known_def)
next
  case (recorded t)
  from assms(1) persist_runtime [OF recorded(6)] recorded(1-5) show ?thesis
    by (auto simp: known_def conforms_def)
next
  case (undone t rt1)
  from assms(1) persist_runtime [OF undone(6)] undone(1-5,7) show ?thesis
    by (auto simp: known_def conforms_def)
qed

lemma known_ack_rule:
  assumes "known rt" "ack_rule u wall uid rt w = (res, rt', w')"
  shows "known rt' \<and> rt_rec rt' = rt_rec rt"
proof (cases "snd (machine_acknowledge (rt_machine rt))")
  case None
  with assms show ?thesis by (auto simp: ack_rule_def split: prod.splits)
next
  case (Some t)
  let ?m = "fst (machine_acknowledge (rt_machine rt))"
  have t: "from_state t = rt_state rt" "to_state t = mstate ?m" "rt_state rt \<notin> {NORMAL, PENDING}"
    using Some by (auto simp: machine_acknowledge_def split: if_splits)
  with assms(1) have ev: "rt_event_id rt \<noteq> None" "rt_raised_at rt \<noteq> None" by (auto simp: known_def)
  obtain f w1 where io: "io w = (f, w1)" by (cases "io w")
  show ?thesis
  proof (cases f)
    case True
    with assms(2) Some io have "rt' = set_state (from_state t) (rt\<lparr>rt_machine := ?m\<rparr>)"
      by (auto simp: ack_rule_def split_beta)
    with ev show ?thesis by (auto simp: known_def)
  next
    case False
    define login where "login = (case user_login (aw_db w1) uid of None \<Rightarrow> u uid
      | Some l \<Rightarrow> if l = [] then u uid else l)"
    obtain ok rt2 w2 where p: "persist wall t (Some login) (rt\<lparr>rt_machine := ?m\<rparr>) w1 = (ok, rt2, w2)"
      by (metis prod_cases3)
    have "rt' = (if ok then rt2 else set_state (from_state t) rt2)"
      using assms(2) Some io False p
      by (cases "machine_acknowledge (rt_machine rt)")
        (auto simp: ack_rule_def login_def split: bool.splits)
    with persist_runtime [OF p] ev t show ?thesis
      by (auto simp: known_def)
  qed
qed

definition engine_known :: "engine \<Rightarrow> bool" where
  "engine_known en \<longleftrightarrow> dict_wf (en_rules en) \<and>
     (\<forall>rid rt. map_of (en_rules en) rid = Some rt \<longrightarrow> known rt \<and> rr_id (rt_rec rt) = rid)"

definition keeps_known :: "(rule_runtime \<Rightarrow> alarm_world \<Rightarrow> rule_runtime \<times> alarm_world) \<Rightarrow> bool" where
  "keeps_known f \<longleftrightarrow>
     (\<forall>rt w. known rt \<longrightarrow> known (fst (f rt w)) \<and> rt_rec (fst (f rt w)) = rt_rec rt)"

lemma keeps_known_update: "keeps_known (rule_update clock wall c v)"
  unfolding keeps_known_def using known_rule_update by (metis prod.collapse)

lemma known_rule_update_eq:
  "known rt \<Longrightarrow> known (fst (rule_update clock wall c v rt w)) \<and>
     rt_rec (fst (rule_update clock wall c v rt w)) = rt_rec rt"
  using keeps_known_update by (simp add: keeps_known_def)

lemma known_last_valid [simp]: "known (rt\<lparr>rt_last_valid := t\<rparr>) = known rt"
  by (simp add: known_def)

lemma keeps_known_value: "keeps_known (observe_value clock wall v)"
  by (auto simp: keeps_known_def observe_value_def Let_def known_rule_update_eq split: option.splits)

lemma keeps_known_tick: "keeps_known (tick_rule clock wall)"
  by (auto simp: keeps_known_def tick_rule_def known_rule_update_eq
      split: option.splits alarm_kind.splits)

lemma keeps_known_fresh: "keeps_known (evaluate_fresh clock wall latest online)"
  by (auto simp: keeps_known_def evaluate_fresh_def Let_def known_rule_update_eq split: option.splits)

lemma engine_known_on_rule:
  assumes "keeps_known f" "engine_known en"
  shows "engine_known (on_rule f rid en)"
  using assms by (auto simp: engine_known_def keeps_known_def on_rule_def split_beta split: option.splits)

lemma engine_known_fold:
  "keeps_known f \<Longrightarrow> engine_known en \<Longrightarrow> engine_known (fold (on_rule f) rids en)"
  by (induction rids arbitrary: en) (simp_all add: engine_known_on_rule)

lemma engine_known_world [simp]: "engine_known (en\<lparr>en_world := w\<rparr>) = engine_known en"
  by (simp add: engine_known_def)

lemma engine_known_acknowledge:
  assumes "engine_known en" shows "engine_known (snd (acknowledge u wall eid uid en))"
proof (cases "List.find (\<lambda>(rid, rt). rt_event_id rt = Some eid) (en_rules en)")
  case None
  with assms show ?thesis by (simp add: acknowledge_def)
next
  case (Some p)
  obtain rid rt0 where p: "p = (rid, rt0)" by (cases p)
  obtain res rt' w' where a: "ack_rule u wall uid rt0 (en_world en) = (res, rt', w')"
    by (metis prod_cases3)
  have "map_of (en_rules en) rid = Some rt0"
    using find_map_of [OF Some] p assms by (simp add: engine_known_def)
  with assms known_ack_rule [OF _ a] have "known rt' \<and> rr_id (rt_rec rt') = rid"
    by (auto simp: engine_known_def)
  moreover have "snd (acknowledge u wall eid uid en) =
      en\<lparr>en_rules := AList.update rid rt' (en_rules en), en_world := w'\<rparr>"
    using Some p a by (simp add: acknowledge_def)
  ultimately show ?thesis using assms by (simp add: engine_known_def)
qed

subsection \<open>Loading\<close>

lemma next_rules_get_aux:
  "map_of (fold (\<lambda>rec. AList.update (rr_id rec) (g rec)) records d) rid = Some rt \<Longrightarrow>
     (\<exists>rec \<in> set records. rr_id rec = rid \<and> rt = g rec) \<or> map_of d rid = Some rt"
proof (induction records arbitrary: d)
  case (Cons a records)
  from Cons.IH [of "AList.update (rr_id a) (g a) d"] Cons.prems show ?case
    by (auto split: if_splits)
qed simp

lemma next_rules_get:
  assumes "map_of (next_rules clock evs old records) rid = Some rt"
  obtains rec where "rec \<in> set records" "rr_id rec = rid"
    "rt = (case map_of old rid of Some rt \<Rightarrow> refresh rec rt | None \<Rightarrow> restore clock rec (map_of evs rid))"
  using next_rules_get_aux [OF assms [unfolded next_rules_def]] by auto

lemma fold_update_wf:
  "dict_wf d \<Longrightarrow> dict_wf (fold (\<lambda>x. AList.update (key x) (g x)) xs d)"
  by (induction xs arbitrary: d) simp_all

lemma next_rules_wf: "dict_wf (next_rules clock evs old records)"
  by (simp add: next_rules_def fold_update_wf)

lemma known_refresh: "known rt \<Longrightarrow> known (refresh rec rt)"
  by (simp add: known_def refresh_def)

lemma refresh_rec [simp]: "rt_rec (refresh rec rt) = rec" "rt_state (refresh rec rt) = rt_state rt"
  "rt_event_id (refresh rec rt) = rt_event_id rt" "rt_raised_at (refresh rec rt) = rt_raised_at rt"
  by (simp_all add: refresh_def)

lemma restore_simps [simp]:
  "rt_rec (restore clock rec ev) = rec"
  "rt_event_id (restore clock rec ev) = map_option fst ev"
  "rt_raised_at (restore clock rec ev) = map_option (\<lambda>(eid, e). ae_raised_at e) ev"
  "rt_state (restore clock rec ev) =
     (case ev of None \<Rightarrow> NORMAL | Some (eid, e) \<Rightarrow> if ae_state e = PENDING then NORMAL else ae_state e)"
  by (auto simp: restore_def machine_init_def Let_def split: option.splits prod.splits)

lemma known_restore: "known (restore clock rec ev)"
  by (auto simp: known_def split: option.splits)

lemma engine_known_reindex [simp]: "engine_known (reindex en) = engine_known en"
  by (simp add: engine_known_def reindex_def)

lemma engine_known_next:
  assumes "engine_known en"
  shows "engine_known (en\<lparr>en_rules := next_rules clock evs (en_rules en) records\<rparr>)"
  using assms
  by (auto simp: engine_known_def next_rules_wf known_refresh known_restore
      elim!: next_rules_get split: option.splits)

lemma refreshed_get:
  "map_of (refreshed records old) rid =
     map_option (fold (\<lambda>rec rt. if rr_id rec = rid then refresh rec rt else rt) records) (map_of old rid)"
  by (induction old) (auto simp: refreshed_def)

lemma refreshed_keys [simp]: "dict_keys (refreshed records old) = dict_keys old"
  by (simp add: refreshed_def split_beta comp_def)

lemma refreshed_fold:
  "rr_id (rt_rec rt) = rid \<Longrightarrow>
     (let rt' = fold (\<lambda>rec rt. if rr_id rec = rid then refresh rec rt else rt) records rt
      in rr_id (rt_rec rt') = rid \<and> rt_state rt' = rt_state rt \<and> rt_event_id rt' = rt_event_id rt
        \<and> rt_raised_at rt' = rt_raised_at rt)"
  by (induction records arbitrary: rt) (auto simp: Let_def)

lemma engine_known_refreshed:
  assumes "engine_known en"
  shows "engine_known (en\<lparr>en_rules := refreshed records (en_rules en)\<rparr>)"
proof -
  have "known rt' \<and> rr_id (rt_rec rt') = rid"
    if "map_of (refreshed records (en_rules en)) rid = Some rt'" for rid rt'
  proof -
    from that obtain rt where "map_of (en_rules en) rid = Some rt"
      and "rt' = fold (\<lambda>rec rt. if rr_id rec = rid then refresh rec rt else rt) records rt"
      by (auto simp: refreshed_get)
    with assms refreshed_fold [of rt rid records] show ?thesis
      by (auto simp: engine_known_def known_def Let_def)
  qed
  with assms show ?thesis by (simp add: engine_known_def)
qed

lemma engine_known_initial:
  "engine_known en \<Longrightarrow> engine_known (snd (initial_evaluation clock wall fresh en))"
  by (auto simp: initial_evaluation_def Let_def engine_known_fold keeps_known_fresh
      split: prod.splits bool.splits)

lemma engine_known_load: "engine_known en \<Longrightarrow> engine_known (snd (load clock wall en))"
  by (auto simp: load_def Let_def engine_known_initial engine_known_next engine_known_refreshed
      split: prod.splits bool.splits)

lemma engine_known_step: "engine_known en \<Longrightarrow> engine_known (engine_step u i en)"
  by (cases i)
    (simp_all add: on_value_def on_device_status_def on_bacnet_event_def tick_def
      engine_known_fold engine_known_acknowledge engine_known_load keeps_known_update
      keeps_known_value keeps_known_tick)

interpretation engine_any: event_driven "engine_step u" engine_known for u
  by unfold_locales (rule engine_known_step)

lemma engine_known_start: "engine_known (engine_start w)"
  by (simp add: engine_known_def engine_start_def)

text \<open>
  C2. Whatever fails, an open alarm is known: after any sequence of handlers, with any database
  or Redis access raising, a rule whose state is active or cleared-unacknowledged holds the
  identifier of its alarm and the instant it was raised. So the assertion of \<open>_info\<close> and the
  error \<open>transition sans alarme ouverte\<close> are unreachable, and no open alarm is lost by an error.
\<close>

theorem open_alarm_is_known:
  assumes "map_of (en_rules (fold (engine_step u) inputs (engine_start w))) rid = Some rt"
    and "rt_state rt \<in> {ACTIVE_UNACKED, ACTIVE_ACKED, CLEARED_UNACKED}"
  shows "\<exists>eid raised. rt_event_id rt = Some eid \<and> rt_raised_at rt = Some raised \<and> info rt s \<noteq> None"
proof -
  have "engine_known (fold (engine_step u) inputs (engine_start w))"
    by (rule engine_any.run_inv [OF engine_known_start])
  with assms have "known rt" by (simp add: engine_known_def)
  with assms(2) show ?thesis by (auto simp: known_def info_def)
qed

end
