(* ===== verification/Alarm_Engine_Sync.thy ===== *)
theory Alarm_Engine_Sync
  imports Alarm_Engine_Correct
begin

section \<open>The engine and the table of alarms agree\<close>

text \<open>
  While the database and Redis answer, the open rows of \<open>alarm_event\<close> mirror the machines: a rule
  has an open row exactly when its machine is past the pending state, only one, in that state.
\<close>

subsection \<open>The invariant\<close>

definition world_ok :: "alarm_world \<Rightarrow> bool" where
  "world_ok w \<longleftrightarrow> aw_faults w = [] \<and> world_wf w \<and>
     uq_alarm_event_open_rule (db_events (aw_db w)) \<and>
     (\<forall>eid e. events w eid = Some e \<longrightarrow> eid < aw_next w \<and> ae_state e \<noteq> PENDING)"

definition no_open :: "alarm_world \<Rightarrow> uuid \<Rightarrow> bool" where
  "no_open w rid \<longleftrightarrow> (\<forall>eid e. events w eid = Some e \<and> ae_rule_id e = rid \<longrightarrow> \<not> is_open e)"

definition open_as :: "alarm_world \<Rightarrow> uuid \<Rightarrow> uuid \<Rightarrow> alarm_state \<Rightarrow> bool" where
  "open_as w rid eid s \<longleftrightarrow>
     (\<exists>e. events w eid = Some e \<and> ae_rule_id e = rid \<and> is_open e \<and> ae_state e = s)"

definition synced :: "alarm_world \<Rightarrow> rule_runtime \<Rightarrow> bool" where
  "synced w rt \<longleftrightarrow>
     (case rt_event_id rt of
        None \<Rightarrow> rt_state rt \<in> {NORMAL, PENDING} \<and> no_open w (rr_id (rt_rec rt))
      | Some eid \<Rightarrow> rt_raised_at rt \<noteq> None \<and> open_as w (rr_id (rt_rec rt)) eid (rt_state rt))"

text \<open>A handler of one rule touches rows of that rule only.\<close>

definition only_rule :: "uuid \<Rightarrow> alarm_world \<Rightarrow> alarm_world \<Rightarrow> bool" where
  "only_rule rid w w' \<longleftrightarrow>
     (\<forall>eid e. ae_rule_id e \<noteq> rid \<longrightarrow> (events w' eid = Some e \<longleftrightarrow> events w eid = Some e))"

lemma only_rule_refl [simp]: "only_rule rid w w"
  by (simp add: only_rule_def)

lemma only_rule_trans: "only_rule r w w' \<Longrightarrow> only_rule r w' w'' \<Longrightarrow> only_rule r w w''"
  by (simp add: only_rule_def)

lemma only_rule_no_open: "only_rule r w w' \<Longrightarrow> rid \<noteq> r \<Longrightarrow> no_open w' rid = no_open w rid"
  unfolding only_rule_def no_open_def by metis

lemma only_rule_open_as: "only_rule r w w' \<Longrightarrow> rid \<noteq> r \<Longrightarrow> open_as w' rid eid s = open_as w rid eid s"
  unfolding only_rule_def open_as_def by metis

lemma only_rule_synced:
  "only_rule r w w' \<Longrightarrow> rr_id (rt_rec rt) \<noteq> r \<Longrightarrow> synced w' rt = synced w rt"
  by (simp add: synced_def only_rule_no_open only_rule_open_as split: option.splits)

lemma synced_open:
  assumes "synced w rt" "rt_state rt \<notin> {NORMAL, PENDING}"
  obtains eid where "rt_event_id rt = Some eid" "open_as w (rr_id (rt_rec rt)) eid (rt_state rt)"
    "rt_raised_at rt \<noteq> None"
  using assms by (auto simp: synced_def split: option.splits)

lemma synced_not_open:
  assumes "synced w rt" "world_ok w" "rt_state rt \<in> {NORMAL, PENDING}"
  shows "rt_event_id rt = None \<and> no_open w (rr_id (rt_rec rt))"
  using assms by (auto simp: synced_def open_as_def world_ok_def is_open_def split: option.splits)

text \<open>With one open row per rule, closing it leaves none.\<close>

lemma other_rows_closed:
  assumes "world_ok w" "open_as w rid eid s" "events w eid' = Some e'" "ae_rule_id e' = rid"
    "eid' \<noteq> eid"
  shows "\<not> is_open e'"
  using assms unfolding world_ok_def world_wf_def open_as_def
  by (metis open_unique_iff)

subsection \<open>The two store operations\<close>

lemma uq_modify:
  assumes wf: "dict_wf evs" and uq: "uq_alarm_event_open_rule evs"
    and "\<And>e. map_of evs eid = Some e \<Longrightarrow> ae_rule_id (f e) = ae_rule_id e \<and> (is_open (f e) \<longrightarrow> is_open e)"
  shows "uq_alarm_event_open_rule (modify_event eid f evs)"
proof -
  have *: "\<exists>e0. map_of evs i = Some e0 \<and> ae_rule_id e0 = ae_rule_id e \<and> is_open e0"
    if "map_of (modify_event eid f evs) i = Some e" "is_open e" for i e
    using that assms(3) by (auto simp: modify_event_get split: if_splits)
  show ?thesis
    unfolding open_unique_iff [OF modify_event_wf [OF wf]]
    using * uq [unfolded open_unique_iff [OF wf]] by metis
qed

lemma update_event_open:
  assumes ok: "world_ok w" and op: "open_as w rid eid s"
    and f: "\<And>e. ae_rule_id (f e) = ae_rule_id e" "\<And>e. ae_state (f e) = s'" and s': "s' \<noteq> PENDING"
  shows "\<exists>w'. update_event eid f w = (True, w') \<and> world_ok w' \<and> only_rule rid w w' \<and>
    (if s' = NORMAL then no_open w' rid else open_as w' rid eid s') \<and>
    aw_bus w' = aw_bus w \<and> aw_sent w' = aw_sent w"
proof -
  obtain e where e: "events w eid = Some e" "ae_rule_id e = rid" "is_open e"
    using op by (auto simp: open_as_def)
  have wf: "dict_wf (db_events (aw_db w))" and uq: "uq_alarm_event_open_rule (db_events (aw_db w))"
    and nf: "aw_faults w = []"
    using ok by (simp_all add: world_ok_def world_wf_def)
  let ?evs = "modify_event eid f (db_events (aw_db w))"
  let ?w' = "w\<lparr>aw_db := (aw_db w)\<lparr>db_events := ?evs\<rparr>\<rparr>"
  have uq': "uq_alarm_event_open_rule ?evs"
    using e f by (intro uq_modify [OF wf uq]) auto
  then have run: "update_event eid f w = (True, ?w')"
    using nf by (simp add: update_event_def Let_def)
  have ev: "events ?w' = (events w)(eid \<mapsto> f e)"
    using e by (simp add: modify_event_get fun_eq_iff)
  have okw: "world_ok ?w'"
    using ok uq' wf f(2) s' e unfolding world_ok_def world_wf_def ev by auto
  have fr: "only_rule rid w ?w'"
    using e f(1) unfolding only_rule_def ev by auto
  have res: "if s' = NORMAL then no_open ?w' rid else open_as ?w' rid eid s'"
  proof (cases "s' = NORMAL")
    case True
    have "\<not> is_open e'" if "events ?w' i = Some e'" "ae_rule_id e' = rid" for i e'
      using that other_rows_closed [OF ok op] True f(2) unfolding ev
      by (auto simp: is_open_def split: if_splits)
    with True show ?thesis by (auto simp: no_open_def)
  next
    case False
    with e f show ?thesis unfolding open_as_def ev by (auto simp: is_open_def)
  qed
  from run okw fr res show ?thesis by (intro exI [of _ ?w']) simp
qed

lemma create_event_fresh:
  assumes ok: "world_ok w" and no: "no_open w rid"
  shows "(\<exists>w' eid. create_event rid now v w = (Some eid, w') \<and> world_ok w' \<and> only_rule rid w w' \<and>
      open_as w' rid eid ACTIVE_UNACKED \<and> aw_bus w' = aw_bus w \<and> aw_sent w' = aw_sent w) \<or>
    create_event rid now v w = (None, w)"
proof -
  have wf: "dict_wf (db_events (aw_db w))" and nf: "aw_faults w = []"
    and lt: "\<And>i e. events w i = Some e \<Longrightarrow> i < aw_next w \<and> ae_state e \<noteq> PENDING"
    using ok by (simp_all add: world_ok_def world_wf_def)
  show ?thesis
  proof (cases "insert_event (aw_next w) (new_event rid now v) (aw_db w)")
    case None
    have "existing_open rid (aw_db w) = None"
      using existing_open_Some [OF wf, of rid] no by (cases "existing_open rid (aw_db w)")
        (auto simp: no_open_def)
    with None nf show ?thesis by (simp add: create_event_def)
  next
    case (Some db)
    let ?w' = "w\<lparr>aw_db := db, aw_next := Suc (aw_next w)\<rparr>"
    note ins = insert_event_Some [OF Some]
    have ev: "events ?w' = (events w)(aw_next w \<mapsto> new_event rid now v)"
      by (simp add: ins(1) fun_eq_iff)
    have fresh: "events w (aw_next w) = None" using lt by (cases "events w (aw_next w)") auto
    have "create_event rid now v w = (Some (aw_next w), ?w')"
      using Some nf by (simp add: create_event_def)
    moreover have "world_ok ?w'"
      using nf wf lt ins(2) unfolding world_ok_def world_wf_def ev
      by (auto simp: ins(1) new_event_def less_SucI)
    moreover have "only_rule rid w ?w'"
      using fresh unfolding only_rule_def ev by (auto simp: new_event_def)
    moreover have "open_as ?w' rid (aw_next w) ACTIVE_UNACKED"
      unfolding open_as_def ev by (auto simp: new_event_def is_open_def)
    ultimately show ?thesis by simp
  qed
qed

subsection \<open>Recording a transition\<close>

text \<open>Recording a transition of a rule whose rows agree with the state it leaves.\<close>

lemma persist_row_open:
  assumes ok: "world_ok w" and t: "conforms t" "persistent t" "from_state t \<notin> {NORMAL, PENDING}"
    and ev: "rt_event_id rt = Some eid" "open_as w (rr_id (rt_rec rt)) eid (from_state t)"
  shows "\<exists>rt1 w1. persist_row now t ab rt w = (True, rt1, w1) \<and> world_ok w1 \<and>
    only_rule (rr_id (rt_rec rt)) w w1 \<and> rt_event_id rt1 = Some eid \<and>
    rt_raised_at rt1 = rt_raised_at rt \<and>
    (if to_state t = NORMAL then no_open w1 (rr_id (rt_rec rt))
     else open_as w1 (rr_id (rt_rec rt)) eid (to_state t)) \<and>
    aw_bus w1 = aw_bus w \<and> aw_sent w1 = aw_sent w"
proof -
  note upd = update_event_open [OF ok ev(2), where s' = "to_state t"]
  have np: "to_state t \<noteq> PENDING" using t by (auto simp: conforms_def)
  consider "kind t = T_RAISED" | "kind t = T_CLEARED \<or> kind t = T_NORMAL" | "kind t = T_ACKED"
    using t by (auto simp: conforms_def)
  then show ?thesis
  proof cases
    case 1
    with ev upd [of "\<lambda>e. e\<lparr>ae_state := to_state t, ae_cleared_at := None\<rparr>"] np show ?thesis
      by (cases "to_state t = NORMAL") (auto simp: persist_row_def)
  next
    case 2
    with ev upd [of "\<lambda>e. e\<lparr>ae_state := to_state t, ae_cleared_at := Some now\<rparr>"] np show ?thesis
      by (cases "to_state t = NORMAL") (auto simp: persist_row_def)
  next
    case 3
    with ev upd [of "\<lambda>e. e\<lparr>ae_state := to_state t, ae_acked_at := Some now, ae_acked_by := ab\<rparr>"] np
    show ?thesis by (cases "to_state t = NORMAL") (auto simp: persist_row_def)
  qed
qed

lemma announce_ok [simp]:
  "world_ok (announce t msg rt w) = world_ok w" "only_rule r w0 (announce t msg rt w) = only_rule r w0 w"
  "no_open (announce t msg rt w) r = no_open w r" "open_as (announce t msg rt w) r eid s = open_as w r eid s"
  by (simp_all add: world_ok_def world_wf_def only_rule_def no_open_def open_as_def)

lemma announce_sent [simp]:
  "length (aw_sent (announce t msg rt w)) =
     length (aw_sent w) + (if rr_notify (rt_rec rt) = [] then 0 else 1)"
  by (simp add: announce_def)

lemma persist_finish:
  assumes "persist_row now t ab rt w = (True, rt1, w1)" "world_ok w1"
    "rt_event_id rt1 = Some eid" "rt_raised_at rt1 \<noteq> None"
  shows "\<exists>msg. info rt1 (to_state t) = Some msg \<and>
    persist now t ab rt w =
      (True, if to_state t = NORMAL then rt1\<lparr>rt_event_id := None\<rparr> else rt1, announce t msg rt1 w1)"
  using assms by (auto simp: persist_def announce_def info_def world_ok_def Let_def)

definition messages_of :: "bus_message list \<Rightarrow> transition_kind list" where
  "messages_of ms = concat (map (\<lambda>m. case m of Alarm_Message k _ \<Rightarrow> [k] | Orphan_Closed _ \<Rightarrow> []) ms)"

lemma messages_of_simps [simp]:
  "messages_of [] = []" "messages_of (xs @ ys) = messages_of xs @ messages_of ys"
  "messages_of [Alarm_Message k msg] = [k]"
  by (simp_all add: messages_of_def)

lemma persist_sync:
  assumes ok: "world_ok w" and t: "conforms t" "persistent t"
    and sync: "synced w (set_state (from_state t) rt)"
    and p: "persist now t ab rt w = (res, rt', w')"
  shows "world_ok w' \<and> only_rule (rr_id (rt_rec rt)) w w' \<and>
    synced w' (set_state (if res then to_state t else from_state t) rt') \<and>
    messages_of (aw_bus w') = messages_of (aw_bus w) @ (if res then [kind t] else []) \<and>
    length (aw_sent w') = length (aw_sent w) + (if res \<and> rr_notify (rt_rec rt) \<noteq> [] then 1 else 0) \<and>
    (from_state t \<notin> {NORMAL, PENDING} \<longrightarrow> res)"
proof (cases "from_state t \<in> {NORMAL, PENDING}")
  case False
  let ?r = "rr_id (rt_rec rt)"
  obtain eid where ev: "rt_event_id rt = Some eid" "open_as w ?r eid (from_state t)" "rt_raised_at rt \<noteq> None"
    using synced_open [OF sync] False by auto
  obtain rt1 w1 where row: "persist_row now t ab rt w = (True, rt1, w1)" "world_ok w1"
    "only_rule ?r w w1" "rt_event_id rt1 = Some eid" "rt_raised_at rt1 = rt_raised_at rt"
    "if to_state t = NORMAL then no_open w1 ?r else open_as w1 ?r eid (to_state t)"
    "aw_bus w1 = aw_bus w" "aw_sent w1 = aw_sent w"
    using persist_row_open [OF ok t False ev(1,2), of now ab] by blast
  have rec: "rt_rec rt1 = rt_rec rt" using persist_row_runtime [OF row(1)] by simp
  obtain msg where "res" "rt' = (if to_state t = NORMAL then rt1\<lparr>rt_event_id := None\<rparr> else rt1)"
    "w' = announce t msg rt1 w1"
    using persist_finish [OF row(1,2,4)] row(5) ev(3) p by auto
  with row rec ev(3) show ?thesis
    by (auto simp: synced_def)
next
  case True
  with t have t': "kind t = T_RAISED" "from_state t = PENDING" "to_state t = ACTIVE_UNACKED"
    by (auto simp: conforms_def persistent_def PERSISTENT_def)
  let ?r = "rr_id (rt_rec rt)"
  have pre: "rt_event_id rt = None" "no_open w ?r"
    using synced_not_open [OF sync ok] t' by auto
  from create_event_fresh [OF ok pre(2), of now "rt_value rt"] show ?thesis
  proof (elim disjE exE conjE)
    fix w1 eid assume c: "create_event ?r now (rt_value rt) w = (Some eid, w1)" and ok1: "world_ok w1"
      and fr: "only_rule ?r w w1" and op: "open_as w1 ?r eid ACTIVE_UNACKED"
      and bus: "aw_bus w1 = aw_bus w" "aw_sent w1 = aw_sent w"
    let ?rt1 = "rt\<lparr>rt_event_id := Some eid, rt_raised_at := Some now, rt_raised_value := rt_value rt,
      rt_acked_at := None, rt_acked_by := None, rt_cleared_at := None\<rparr>"
    have row: "persist_row now t ab rt w = (True, ?rt1, w1)"
      using c pre t' by (simp add: persist_row_def)
    obtain msg where "res" "rt' = ?rt1" "w' = announce t msg ?rt1 w1"
      using persist_finish [OF row ok1] t' p by auto
    with ok1 fr op bus t' show ?thesis by (auto simp: synced_def)
  next
    assume "create_event ?r now (rt_value rt) w = (None, w)"
    with pre t' p have "\<not> res" "rt' = rt" "w' = w"
      by (auto simp: persist_def persist_row_def)
    with ok sync t' show ?thesis by simp
  qed
qed

text \<open>\<open>synced\<close> looks at the state, the alarm and the rule only.\<close>

lemma synced_cong:
  "rt_event_id rt = rt_event_id rt' \<Longrightarrow> rt_raised_at rt = rt_raised_at rt' \<Longrightarrow>
   rr_id (rt_rec rt) = rr_id (rt_rec rt') \<Longrightarrow> rt_state rt = rt_state rt' \<Longrightarrow> synced w rt = synced w rt'"
  by (simp add: synced_def split: option.splits)

lemma synced_quiet: "synced w (set_state NORMAL rt) = synced w (set_state PENDING rt)" if "world_ok w"
  using that by (auto simp: synced_def open_as_def world_ok_def is_open_def split: option.splits)

lemma synced_waiting:
  assumes "world_ok w" "synced w rt" "rt_state rt \<in> {NORMAL, PENDING}" "s \<in> {NORMAL, PENDING}"
  shows "synced w (set_state s rt)"
proof -
  have "synced w (set_state (rt_state rt) rt)"
    using assms(2) synced_cong [of rt "set_state (rt_state rt) rt" w] by simp
  with assms synced_quiet [OF assms(1), of rt] show ?thesis by auto
qed


subsection \<open>The handlers of one rule\<close>

text \<open>What a handler of one rule owes to the invariant.\<close>

definition handled :: "alarm_world \<Rightarrow> rule_runtime \<Rightarrow> alarm_world \<Rightarrow> rule_runtime \<Rightarrow> bool" where
  "handled w rt w' rt' \<longleftrightarrow> world_ok w' \<and> only_rule (rr_id (rt_rec rt)) w w' \<and> synced w' rt' \<and>
     rt_rec rt' = rt_rec rt"

lemma rule_update_handled:
  assumes ok: "world_ok w" and sync: "synced w rt" and u: "rule_update clock wall c v rt w = (rt', w')"
  shows "handled w rt w' rt' \<and>
    (messages_of (aw_bus w') = messages_of (aw_bus w) \<and> length (aw_sent w') = length (aw_sent w) \<or>
     (\<exists>t. conforms t \<and> persistent t \<and> to_state t = rt_state rt' \<and>
       (from_state t = rt_state rt \<or> from_state t = PENDING \<and> rt_state rt = NORMAL) \<and>
       messages_of (aw_bus w') = messages_of (aw_bus w) @ [kind t] \<and>
       length (aw_sent w') = length (aw_sent w) + (if rr_notify (rt_rec rt) \<noteq> [] then 1 else 0)))"
  using u
proof (cases rule: rule_update_cases)
  case none
  have "synced w rt'"
  proof (cases "rt_state rt' = rt_state rt")
    case True
    with none sync synced_cong [of rt rt' w] show ?thesis by simp
  next
    case False
    with none sync synced_waiting [OF ok sync, of "rt_state rt'"]
      synced_cong [of "set_state (rt_state rt') rt" rt' w] show ?thesis by auto
  qed
  with none ok show ?thesis by (simp add: handled_def)
next
  case (recorded t)
  let ?o = "observed clock c v rt"
  have pre: "synced w (set_state (from_state t) ?o)"
    using recorded(4) sync synced_waiting [OF ok sync, of PENDING]
      synced_cong [of rt "set_state (from_state t) ?o" w]
      synced_cong [of "set_state PENDING rt" "set_state (from_state t) ?o" w] by auto
  have r: "rt_rec rt' = rt_rec rt" "rt_machine rt' = rt_machine ?o"
    using persist_runtime [OF recorded(6)] by simp_all
  note p = persist_sync [OF ok recorded(1,2) pre recorded(6)]
  have "synced w' rt'"
    using p recorded(5) r synced_cong [of "set_state (to_state t) rt'" rt' w'] by simp
  with p r recorded show ?thesis by (auto simp: handled_def intro!: exI [of _ t])
next
  case (undone t rt1)
  let ?o = "observed clock c v rt"
  have pre: "synced w (set_state (from_state t) ?o)"
    using undone(4) sync synced_waiting [OF ok sync, of PENDING]
      synced_cong [of rt "set_state (from_state t) ?o" w]
      synced_cong [of "set_state PENDING rt" "set_state (from_state t) ?o" w] by auto
  have r: "rt_rec rt1 = rt_rec rt"
    using persist_runtime [OF undone(6)] by simp
  note p = persist_sync [OF ok undone(1,2) pre undone(6)]
  with undone(7) r show ?thesis by (simp add: handled_def)
qed

lemma ack_rule_handled:
  assumes ok: "world_ok w" and sync: "synced w rt" and a: "ack_rule u wall uid rt w = (res, rt', w')"
  shows "handled w rt w' rt' \<and>
    (if rt_state rt \<in> {ACTIVE_UNACKED, CLEARED_UNACKED}
     then res = Inr () \<and>
       rt_state rt' = (if rt_state rt = ACTIVE_UNACKED then ACTIVE_ACKED else NORMAL) \<and>
       messages_of (aw_bus w') = messages_of (aw_bus w) @ [T_ACKED]
     else res = Inl (Not_Ackable (rt_state rt)) \<and> rt' = rt \<and> w' = w)"
proof (cases "rt_state rt \<in> {ACTIVE_UNACKED, CLEARED_UNACKED}")
  case False
  with a have "res = Inl (Not_Ackable (rt_state rt))" "rt' = rt" "w' = w"
    by (auto simp: ack_rule_def machine_acknowledge_def)
  with False ok sync show ?thesis by (simp add: handled_def)
next
  case True
  let ?to = "if rt_state rt = ACTIVE_UNACKED then ACTIVE_ACKED else NORMAL"
  let ?t = "transition_of (rt_state rt) ?to T_ACKED"
  let ?rt1 = "set_state ?to rt"
  have ack: "machine_acknowledge (rt_machine rt) = (rt_machine ?rt1, Some ?t)"
    "rt\<lparr>rt_machine := rt_machine ?rt1\<rparr> = ?rt1"
    using True by (auto simp: machine_acknowledge_def set_state_def)
  define login where "login = (case user_login (aw_db w) uid of None \<Rightarrow> u uid
      | Some l \<Rightarrow> if l = [] then u uid else l)"
  obtain okp rt2 w2 where p: "persist wall ?t (Some login) ?rt1 w = (okp, rt2, w2)"
    by (metis prod_cases3)
  have t: "conforms ?t" "persistent ?t" using True by (auto simp: conforms_def)
  have pre: "synced w (set_state (from_state ?t) ?rt1)"
    using sync synced_cong [of rt "set_state (rt_state rt) ?rt1" w] by simp
  note s = persist_sync [OF ok t pre p]
  have okp using s True by auto
  have res: "res = Inr () \<and> rt' = rt2 \<and> w' = w2"
    using a ok p \<open>okp\<close> by (simp add: ack_rule_def ack login_def [symmetric] world_ok_def)
  have r: "rt_rec rt2 = rt_rec rt" "rt_machine rt2 = rt_machine ?rt1"
    using persist_runtime [OF p] by simp_all
  have "rt_state rt2 = ?to" by (simp add: r)
  moreover have "synced w2 rt2"
    using s \<open>okp\<close> \<open>rt_state rt2 = ?to\<close> synced_cong [of "set_state ?to rt2" rt2 w2] by simp
  ultimately show ?thesis using s \<open>okp\<close> res r True by (auto simp: handled_def)
qed

end
