(* ===== verification/Alarm_Engine_Run.thy ===== *)
theory Alarm_Engine_Run
  imports Alarm_Engine_Sync
begin

section \<open>Runs of the engine without failures\<close>

text \<open>
  The invariant of a run during which the database and Redis answer: every runtime agrees with
  the open rows of its rule, and, once the rules have been loaded, every open row belongs to a
  runtime. From it: at any moment the open alarms of the database are exactly those of the
  machines that are past the pending state.
\<close>

definition engine_synced :: "engine \<Rightarrow> bool" where
  "engine_synced en \<longleftrightarrow> world_ok (en_world en) \<and> dict_wf (en_rules en) \<and>
     (\<forall>rid rt. map_of (en_rules en) rid = Some rt \<longrightarrow>
        rr_id (rt_rec rt) = rid \<and> synced (en_world en) rt)"

definition covered :: "engine \<Rightarrow> bool" where
  "covered en \<longleftrightarrow>
     (\<forall>eid e. events (en_world en) eid = Some e \<longrightarrow> is_open e \<longrightarrow>
        map_of (en_rules en) (ae_rule_id e) \<noteq> None)"

lemma engine_syncedI:
  "world_ok (en_world en) \<Longrightarrow> dict_wf (en_rules en) \<Longrightarrow>
   (\<And>rid rt. map_of (en_rules en) rid = Some rt \<Longrightarrow> rr_id (rt_rec rt) = rid \<and> synced (en_world en) rt) \<Longrightarrow>
   engine_synced en"
  by (simp add: engine_synced_def)

lemma engine_syncedD:
  assumes "engine_synced en"
  shows "world_ok (en_world en)" "dict_wf (en_rules en)"
    "map_of (en_rules en) rid = Some rt \<Longrightarrow> rr_id (rt_rec rt) = rid \<and> synced (en_world en) rt"
  using assms by (simp_all add: engine_synced_def)

lemma only_rule_covered:
  assumes "only_rule rid w w'" "map_of rules rid \<noteq> None"
    and "\<forall>eid e. events w eid = Some e \<longrightarrow> is_open e \<longrightarrow> map_of rules (ae_rule_id e) \<noteq> None"
  shows "\<forall>eid e. events w' eid = Some e \<longrightarrow> is_open e \<longrightarrow> map_of rules (ae_rule_id e) \<noteq> None"
  using assms unfolding only_rule_def by metis

subsection \<open>Handlers of one rule, lifted\<close>

definition keeps_sync :: "(rule_runtime \<Rightarrow> alarm_world \<Rightarrow> rule_runtime \<times> alarm_world) \<Rightarrow> bool" where
  "keeps_sync f \<longleftrightarrow>
     (\<forall>rt w. world_ok w \<longrightarrow> synced w rt \<longrightarrow> handled w rt (snd (f rt w)) (fst (f rt w)))"

lemma keeps_sync_update: "keeps_sync (rule_update clock wall c v)"
  unfolding keeps_sync_def using rule_update_handled by (metis prod.collapse)

lemma handled_refl: "world_ok w \<Longrightarrow> synced w rt \<Longrightarrow> handled w rt w rt"
  by (simp add: handled_def)

lemma synced_last_valid [simp]: "synced w (rt\<lparr>rt_last_valid := t\<rparr>) = synced w rt"
  by (rule synced_cong) simp_all

lemma handled_last_valid' [simp]: "handled w rt w' (rt'\<lparr>rt_last_valid := t\<rparr>) = handled w rt w' rt'"
  "handled w (rt\<lparr>rt_last_valid := t\<rparr>) w' rt' = handled w rt w' rt'"
  by (simp_all add: handled_def)

lemma update_handled:
  "world_ok w \<Longrightarrow> synced w rt \<Longrightarrow>
     handled w rt (snd (rule_update clock wall c v rt w)) (fst (rule_update clock wall c v rt w))"
  using keeps_sync_update by (simp add: keeps_sync_def)

lemma update_handled_valid:
  "world_ok w \<Longrightarrow> synced w rt \<Longrightarrow>
     handled w rt (snd (rule_update clock wall c v (rt\<lparr>rt_last_valid := t\<rparr>) w))
       (fst (rule_update clock wall c v (rt\<lparr>rt_last_valid := t\<rparr>) w))"
  using update_handled [of w "rt\<lparr>rt_last_valid := t\<rparr>"] by simp

lemma keeps_sync_value: "keeps_sync (observe_value clock wall v)"
  by (auto simp: keeps_sync_def observe_value_def Let_def handled_refl update_handled
      update_handled_valid split: option.splits)

lemma keeps_sync_tick: "keeps_sync (tick_rule clock wall)"
  by (auto simp: keeps_sync_def tick_rule_def handled_refl update_handled
      split: option.splits alarm_kind.splits)

lemma keeps_sync_fresh: "keeps_sync (evaluate_fresh clock wall latest online)"
  by (auto simp: keeps_sync_def evaluate_fresh_def Let_def handled_refl update_handled
      update_handled_valid split: option.splits)

lemma engine_synced_set:
  assumes en: "engine_synced en" and rt: "map_of (en_rules en) rid = Some rt"
    and h: "handled (en_world en) rt w' rt'"
  shows "engine_synced (en\<lparr>en_rules := AList.update rid rt' (en_rules en), en_world := w'\<rparr>) \<and>
    (covered en \<longrightarrow> covered (en\<lparr>en_rules := AList.update rid rt' (en_rules en), en_world := w'\<rparr>))"
proof -
  have id: "rr_id (rt_rec rt) = rid" using engine_syncedD(3) [OF en rt] by simp
  have fr: "only_rule rid (en_world en) w'" using h id by (simp add: handled_def)
  have each: "rr_id (rt_rec x) = r \<and> synced w' x"
    if "map_of (AList.update rid rt' (en_rules en)) r = Some x" for r x
  proof (cases "r = rid")
    case True
    with that h id show ?thesis by (auto simp: handled_def)
  next
    case False
    with that have "map_of (en_rules en) r = Some x" by simp
    from engine_syncedD(3) [OF en this] False only_rule_synced [OF fr, of x] show ?thesis by simp
  qed
  have "engine_synced (en\<lparr>en_rules := AList.update rid rt' (en_rules en), en_world := w'\<rparr>)"
  proof (rule engine_syncedI, goal_cases)
    case 1
    show ?case using h by (simp add: handled_def)
  next
    case 2
    show ?case using engine_syncedD(2) [OF en] by simp
  next
    case (3 r x)
    with each show ?case by simp
  qed
  moreover have "covered (en\<lparr>en_rules := AList.update rid rt' (en_rules en), en_world := w'\<rparr>)"
    if "covered en"
  proof -
    have "map_of (en_rules en) rid \<noteq> None" using rt by simp
    from only_rule_covered [OF fr this that [unfolded covered_def]] show ?thesis
      unfolding covered_def by simp
  qed
  ultimately show ?thesis by blast
qed

text \<open>The two invariants travel together: one predicate that says which of them is meant.\<close>

definition engine_inv :: "bool \<Rightarrow> engine \<Rightarrow> bool" where
  "engine_inv loaded en \<longleftrightarrow> engine_synced en \<and> (loaded \<longrightarrow> covered en)"

lemma engine_inv_on_rule:
  assumes f: "keeps_sync f" and en: "engine_inv l en"
  shows "engine_inv l (on_rule f rid en)"
proof (cases "map_of (en_rules en) rid")
  case None
  with en show ?thesis by (simp add: on_rule_def)
next
  case (Some rt)
  have "handled (en_world en) rt (snd (f rt (en_world en))) (fst (f rt (en_world en)))"
    using f en Some by (simp add: keeps_sync_def engine_inv_def engine_synced_def)
  from engine_synced_set [OF _ Some this] en Some show ?thesis
    by (simp add: engine_inv_def on_rule_def split_beta)
qed

lemma engine_inv_fold:
  "keeps_sync f \<Longrightarrow> engine_inv l en \<Longrightarrow> engine_inv l (fold (on_rule f) rids en)"
  by (induction rids arbitrary: en) (simp_all add: engine_inv_on_rule)

lemma engine_inv_acknowledge:
  assumes en: "engine_inv l en" shows "engine_inv l (snd (acknowledge u wall eid uid en))"
proof (cases "List.find (\<lambda>(rid, rt). rt_event_id rt = Some eid) (en_rules en)")
  case None
  with en show ?thesis by (simp add: acknowledge_def)
next
  case (Some p)
  obtain rid rt where p: "p = (rid, rt)" by (cases p)
  obtain res rt' w' where a: "ack_rule u wall uid rt (en_world en) = (res, rt', w')"
    by (metis prod_cases3)
  have rt: "map_of (en_rules en) rid = Some rt"
    using find_map_of [OF Some] p en by (simp add: engine_inv_def engine_synced_def)
  with en have "world_ok (en_world en)" "synced (en_world en) rt"
    by (simp_all add: engine_inv_def engine_synced_def)
  from ack_rule_handled [OF this a] have "handled (en_world en) rt w' rt'" by simp
  from engine_synced_set [OF _ rt this] en Some p a show ?thesis
    by (simp add: engine_inv_def acknowledge_def)
qed


subsection \<open>Loading\<close>

text \<open>Of the open alarms of a rule the last one of the list counts; there is one at most.\<close>

lemma events_by_rule_aux:
  "map_of (fold (\<lambda>(eid, e). AList.update (ae_rule_id e) (eid, e)) es d) rid = Some ev \<Longrightarrow>
     (ev \<in> set es \<and> ae_rule_id (snd ev) = rid) \<or> map_of d rid = Some ev"
proof (induction es arbitrary: d)
  case (Cons a es)
  from Cons.IH [of "AList.update (ae_rule_id (snd a)) a d"] Cons.prems show ?case
    by (auto simp: split_beta split: if_splits)
qed simp

lemma events_by_rule_dom_aux:
  "map_of (fold (\<lambda>(eid, e). AList.update (ae_rule_id e) (eid, e)) es d) rid = None \<longleftrightarrow>
     (\<forall>ev \<in> set es. ae_rule_id (snd ev) \<noteq> rid) \<and> map_of d rid = None"
proof (induction es arbitrary: d)
  case (Cons a es)
  from Cons.IH [of "AList.update (ae_rule_id (snd a)) a d"] show ?case
    by (auto simp: split_beta)
qed simp

lemma in_open_events:
  "dict_wf (db_events db) \<Longrightarrow> (eid, e) \<in> set (open_events db) \<longleftrightarrow>
     map_of (db_events db) eid = Some e \<and> is_open e"
  by (simp add: open_events_def is_open_def) (metis map_of_mem)

lemma by_rule_Some:
  assumes "world_ok w" "map_of (events_by_rule (open_events (aw_db w))) rid = Some (eid, e)"
  shows "events w eid = Some e \<and> ae_rule_id e = rid \<and> is_open e \<and> ae_state e \<noteq> PENDING"
proof -
  have "(eid, e) \<in> set (open_events (aw_db w)) \<and> ae_rule_id e = rid"
    using events_by_rule_aux [OF assms(2) [unfolded events_by_rule_def]] by simp
  moreover have "dict_wf (db_events (aw_db w))"
    using assms(1) by (simp add: world_ok_def world_wf_def)
  ultimately have "events w eid = Some e \<and> ae_rule_id e = rid \<and> is_open e"
    using in_open_events [of "aw_db w" eid e] by simp
  then show ?thesis using assms(1) unfolding world_ok_def by blast
qed

lemma by_rule_None:
  assumes "world_ok w" "map_of (events_by_rule (open_events (aw_db w))) rid = None"
  shows "no_open w rid"
proof -
  from assms(2) have "\<forall>ev \<in> set (open_events (aw_db w)). ae_rule_id (snd ev) \<noteq> rid"
    by (simp add: events_by_rule_def events_by_rule_dom_aux)
  moreover have "(eid, e) \<in> set (open_events (aw_db w))" if "events w eid = Some e" "is_open e" for eid e
    using that in_open_events [of "aw_db w" eid e] assms(1) by (simp add: world_ok_def world_wf_def)
  ultimately show ?thesis by (force simp: no_open_def)
qed

lemma synced_restored:
  assumes "world_ok w"
  shows "synced w (restore clock rec (map_of (events_by_rule (open_events (aw_db w))) (rr_id rec)))"
proof (cases "map_of (events_by_rule (open_events (aw_db w))) (rr_id rec)")
  case None
  with by_rule_None [OF assms None] show ?thesis by (simp add: synced_def)
next
  case (Some ev)
  obtain eid e where ev: "ev = (eid, e)" by (cases ev)
  with by_rule_Some [OF assms, of "rr_id rec" eid e] Some show ?thesis
    by (auto simp: synced_def open_as_def)
qed

lemma synced_refresh: "rr_id rec = rr_id (rt_rec rt) \<Longrightarrow> synced w (refresh rec rt) = synced w rt"
  by (rule synced_cong) simp_all

text \<open>Closing an orphan touches rows of its rule only, and leaves no open row of it.\<close>

lemma close_orphan_ok:
  assumes ok: "world_ok w" and row: "\<forall>e. events w (fst ev) = Some e \<longrightarrow> ae_rule_id e = rid"
  shows "\<exists>w'. close_orphan wall ev w = (True, w') \<and> world_ok w' \<and> only_rule rid w w' \<and>
    (\<forall>i. events w' i \<noteq> None \<longleftrightarrow> events w i \<noteq> None) \<and>
    (\<forall>i e. events w' i = Some e \<longrightarrow> (\<exists>e0. events w i = Some e0 \<and> ae_rule_id e0 = ae_rule_id e \<and>
        (is_open e \<longrightarrow> e0 = e \<and> i \<noteq> fst ev)))"
proof -
  let ?f = "\<lambda>e. e\<lparr>ae_state := NORMAL,
    ae_cleared_at := Some (case ae_cleared_at (snd ev) of None \<Rightarrow> wall | Some c \<Rightarrow> c)\<rparr>"
  let ?evs = "modify_event (fst ev) ?f (db_events (aw_db w))"
  let ?w1 = "w\<lparr>aw_db := (aw_db w)\<lparr>db_events := ?evs\<rparr>\<rparr>"
  let ?w' = "?w1\<lparr>aw_bus := aw_bus w @ [Orphan_Closed (fst ev)]\<rparr>"
  have wf: "dict_wf (db_events (aw_db w))" and nf: "aw_faults w = []"
    and uq0: "uq_alarm_event_open_rule (db_events (aw_db w))"
    using ok by (simp_all add: world_ok_def world_wf_def)
  have uq: "uq_alarm_event_open_rule ?evs"
    by (rule uq_modify [OF wf uq0]) (auto simp: is_open_def)
  have run: "close_orphan wall ev w = (True, ?w')"
    using nf uq by (simp add: close_orphan_def update_event_def Let_def)
  have ev: "events ?w' = (events w)(fst ev := map_option ?f (events w (fst ev)))"
    by (simp add: modify_event_get)
  have "world_ok ?w'"
    using ok uq wf unfolding world_ok_def world_wf_def ev by (auto split: if_splits)
  moreover have "only_rule rid w ?w'"
    using row unfolding only_rule_def ev by (auto split: if_splits)
  moreover have "\<forall>i. events ?w' i \<noteq> None \<longleftrightarrow> events w i \<noteq> None"
    unfolding ev by simp
  moreover have "\<forall>i e. events ?w' i = Some e \<longrightarrow> (\<exists>e0. events w i = Some e0 \<and>
      ae_rule_id e0 = ae_rule_id e \<and> (is_open e \<longrightarrow> e0 = e \<and> i \<noteq> fst ev))"
    unfolding ev by (auto simp: is_open_def)
  ultimately show ?thesis using run by (intro exI [of _ ?w']) simp
qed


text \<open>Rows of the rules in \<open>R\<close> are left alone.\<close>

definition spares :: "(uuid \<Rightarrow> bool) \<Rightarrow> alarm_world \<Rightarrow> alarm_world \<Rightarrow> bool" where
  "spares R w w' \<longleftrightarrow>
     (\<forall>eid e. R (ae_rule_id e) \<longrightarrow> (events w' eid = Some e \<longleftrightarrow> events w eid = Some e))"

lemma spares_synced: "spares R w w' \<Longrightarrow> R (rr_id (rt_rec rt)) \<Longrightarrow> synced w' rt = synced w rt"
proof -
  assume s: "spares R w w'" and r: "R (rr_id (rt_rec rt))"
  have "no_open w' (rr_id (rt_rec rt)) = no_open w (rr_id (rt_rec rt))"
    using s r unfolding spares_def no_open_def by metis
  moreover have "open_as w' (rr_id (rt_rec rt)) eid st = open_as w (rr_id (rt_rec rt)) eid st" for eid st
    using s r unfolding spares_def open_as_def by metis
  ultimately show ?thesis by (simp add: synced_def split: option.splits)
qed

lemma close_orphans_ok:
  assumes "world_ok w"
    and "\<forall>ev e. ev \<in> set evs \<longrightarrow> events w (fst ev) = Some e \<longrightarrow> \<not> R (ae_rule_id e)"
  shows "\<exists>w'. close_orphans wall evs w = (True, w') \<and> world_ok w' \<and> spares R w w' \<and>
    (\<forall>i e. events w' i = Some e \<longrightarrow> (\<exists>e0. events w i = Some e0 \<and> ae_rule_id e0 = ae_rule_id e \<and>
        (is_open e \<longrightarrow> e0 = e \<and> i \<notin> fst ` set evs)))"
  using assms
proof (induction evs arbitrary: w)
  case Nil
  then show ?case by (auto simp: spares_def)
next
  case (Cons ev evs)
  define rid where "rid = (case events w (fst ev) of None \<Rightarrow> undefined | Some e \<Rightarrow> ae_rule_id e)"
  have row: "\<forall>e. events w (fst ev) = Some e \<longrightarrow> ae_rule_id e = rid" by (simp add: rid_def)
  obtain w1 where c: "close_orphan wall ev w = (True, w1)" "world_ok w1" "only_rule rid w w1"
    and same: "\<forall>i. events w1 i \<noteq> None \<longleftrightarrow> events w i \<noteq> None"
    and prev: "\<forall>i e. events w1 i = Some e \<longrightarrow> (\<exists>e0. events w i = Some e0 \<and>
      ae_rule_id e0 = ae_rule_id e \<and> (is_open e \<longrightarrow> e0 = e \<and> i \<noteq> fst ev))"
    using close_orphan_ok [OF Cons.prems(1) row, where wall = wall] by (elim exE conjE) (rule that)
  have sp: "spares R w w1"
  proof (cases "events w (fst ev)")
    case None
    have "close_orphan wall ev w = (True, w\<lparr>aw_bus := aw_bus w @ [Orphan_Closed (fst ev)]\<rparr>)"
      using Cons.prems(1) None
      by (simp add: close_orphan_def update_event_def modify_event_def world_ok_def Let_def)
    with c(1) show ?thesis by (auto simp: spares_def)
  next
    case (Some e)
    then have "rid = ae_rule_id e" by (simp add: rid_def)
    with Some Cons.prems(2) [rule_format, of ev e] have "\<not> R rid" by simp
    with c(3) show ?thesis unfolding spares_def only_rule_def by metis
  qed
  have "\<forall>x e. x \<in> set evs \<longrightarrow> events w1 (fst x) = Some e \<longrightarrow> \<not> R (ae_rule_id e)"
    using prev Cons.prems(2) by (metis list.set_intros(2))
  from Cons.IH [OF c(2) this] obtain w2 where w2: "close_orphans wall evs w1 = (True, w2)"
    "world_ok w2" "spares R w1 w2"
    and back2: "\<forall>i e. events w2 i = Some e \<longrightarrow> (\<exists>e0. events w1 i = Some e0 \<and>
      ae_rule_id e0 = ae_rule_id e \<and> (is_open e \<longrightarrow> e0 = e \<and> i \<notin> fst ` set evs))"
    by blast
  have "spares R w w2" using sp w2(3) by (simp add: spares_def)
  moreover have "\<exists>e0. events w i = Some e0 \<and> ae_rule_id e0 = ae_rule_id e \<and>
      (is_open e \<longrightarrow> e0 = e \<and> i \<notin> fst ` set (ev # evs))" if i: "events w2 i = Some e" for i e
  proof -
    from back2 i obtain e1 where e1: "events w1 i = Some e1" "ae_rule_id e1 = ae_rule_id e"
      "is_open e \<longrightarrow> e1 = e \<and> i \<notin> fst ` set evs" by blast
    from prev e1(1) obtain e0 where "events w i = Some e0" "ae_rule_id e0 = ae_rule_id e1"
      "is_open e1 \<longrightarrow> e0 = e1 \<and> i \<noteq> fst ev" by blast
    with e1 show ?thesis by auto
  qed
  ultimately show ?case using c(1) w2(1,2) by simp
qed

lemma events_by_rule_wf: "dict_wf (events_by_rule es)"
  using fold_update_wf [of "[]" "\<lambda>x. ae_rule_id (snd x)" "\<lambda>x. x" es]
  by (simp add: events_by_rule_def case_prod_unfold)

lemma engine_inv_initial:
  assumes "engine_inv l en" shows "fst (initial_evaluation clock wall fresh en) \<and>
    engine_inv l (snd (initial_evaluation clock wall fresh en))"
proof -
  have "aw_faults (en_world en) = []"
    using assms engine_syncedD(1) [of en] by (simp add: engine_inv_def world_ok_def)
  then show ?thesis
    using assms by (simp add: initial_evaluation_def Let_def engine_inv_fold keeps_sync_fresh)
qed

lemma engine_inv_reindex [simp]: "engine_inv l (reindex en) = engine_inv l en"
  by (simp add: engine_inv_def engine_synced_def covered_def reindex_def)

lemma engine_inv_load:
  assumes inv: "engine_inv l en"
  shows "fst (load clock wall en) \<and> engine_inv True (snd (load clock wall en))"
proof -
  let ?w = "en_world en"
  have syn: "engine_synced en" using inv by (simp add: engine_inv_def)
  have ok: "world_ok ?w" by (rule engine_syncedD(1) [OF syn])
  define evs where "evs = events_by_rule (open_events (aw_db ?w))"
  define rules where "rules = next_rules clock evs (en_rules en) (load_rules (aw_db ?w))"
  define R where "R rid \<longleftrightarrow> map_of rules rid \<noteq> None" for rid
  define orphans where "orphans = map snd (List.filter (\<lambda>(rid, ev). map_of rules rid = None) evs)"
  have orph: "events ?w (fst ev) = Some (snd ev) \<and> \<not> R (ae_rule_id (snd ev))"
    if ev: "ev \<in> set orphans" for ev
  proof -
    from ev obtain rid where r: "(rid, ev) \<in> set evs" "\<not> R rid" by (auto simp: orphans_def R_def)
    then have "map_of (events_by_rule (open_events (aw_db ?w))) rid = Some (fst ev, snd ev)"
      using events_by_rule_wf by (simp add: evs_def)
    from by_rule_Some [OF ok this] r show ?thesis by simp
  qed
  obtain w3 where c: "close_orphans wall orphans ?w = (True, w3)" "world_ok w3" "spares R ?w w3"
    and prev: "\<forall>i e. events w3 i = Some e \<longrightarrow> (\<exists>e0. events ?w i = Some e0 \<and>
      ae_rule_id e0 = ae_rule_id e \<and> (is_open e \<longrightarrow> e0 = e \<and> i \<notin> fst ` set orphans))"
  proof -
    have "\<forall>ev e. ev \<in> set orphans \<longrightarrow> events ?w (fst ev) = Some e \<longrightarrow> \<not> R (ae_rule_id e)"
      using orph by force
    from close_orphans_ok [OF ok this, where wall = wall] show ?thesis
      by (elim exE conjE) (rule that)
  qed
  let ?en = "en\<lparr>en_rules := rules, en_world := w3\<rparr>"
  have each: "rr_id (rt_rec rt) = rid \<and> synced w3 rt" if rt: "map_of rules rid = Some rt" for rid rt
  proof -
    obtain rec where rec: "rr_id rec = rid" "rt = (case map_of (en_rules en) rid of
        Some rt \<Rightarrow> refresh rec rt | None \<Rightarrow> restore clock rec (map_of evs rid))"
      using next_rules_get [OF rt [unfolded rules_def]] by metis
    have "rr_id (rt_rec rt) = rid \<and> synced ?w rt"
    proof (cases "map_of (en_rules en) rid")
      case None
      with rec synced_restored [OF ok, of clock rec] show ?thesis by (simp add: evs_def)
    next
      case (Some rt0)
      with rec engine_syncedD(3) [OF syn Some] show ?thesis by (simp add: synced_refresh)
    qed
    with spares_synced [OF c(3), of rt] rt show ?thesis by (simp add: R_def)
  qed
  have "engine_synced ?en"
    by (rule engine_syncedI) (simp_all add: c(2) rules_def next_rules_wf each [unfolded rules_def])
  moreover have "covered ?en"
    unfolding covered_def
  proof (intro allI impI)
    fix i e assume "events (en_world ?en) i = Some e" "is_open e"
    with prev have i: "events ?w i = Some e" "i \<notin> fst ` set orphans" by auto
    have "\<not> no_open ?w (ae_rule_id e)" using i \<open>is_open e\<close> unfolding no_open_def by blast
    then have "map_of evs (ae_rule_id e) \<noteq> None"
      using by_rule_None [OF ok] unfolding evs_def by blast
    then obtain i' e' where ev: "map_of evs (ae_rule_id e) = Some (i', e')" by auto
    with by_rule_Some [OF ok] have "events ?w i' = Some e'" "ae_rule_id e' = ae_rule_id e" "is_open e'"
      by (auto simp: evs_def)
    with i \<open>is_open e\<close> ok have "i' = i"
      unfolding world_ok_def world_wf_def by (metis open_unique_iff)
    with i(2) map_of_SomeD [OF ev] have "map_of rules (ae_rule_id e) \<noteq> None"
      by (force simp: orphans_def)
    then show "map_of (en_rules ?en) (ae_rule_id e) \<noteq> None" by simp
  qed
  ultimately have "engine_inv True ?en" by (simp add: engine_inv_def)
  then have "engine_inv True (reindex ?en)" by simp
  from engine_inv_initial [OF this] ok c(1) show ?thesis
    by (simp add: load_def Let_def world_ok_def evs_def rules_def orphans_def)
qed


subsection \<open>Whole runs\<close>

lemma surviving_get:
  "dict_wf evs \<Longrightarrow> map_of (surviving_events db evs) eid = Some e \<longleftrightarrow>
     map_of evs eid = Some e \<and> (is_open e \<or> map_of (db_rules db) (ae_rule_id e) \<noteq> None)"
proof -
  assume wf: "dict_wf evs"
  have wf': "dict_wf (surviving_events db evs)"
    using wf by (simp add: surviving_events_def distinct_map_filter)
  have "(eid, e) \<in> set (surviving_events db evs) \<longleftrightarrow>
      (eid, e) \<in> set evs \<and> (is_open e \<or> map_of (db_rules db) (ae_rule_id e) \<noteq> None)"
    by (simp add: surviving_events_def)
  then show ?thesis by (simp only: map_of_mem [OF wf] map_of_mem [OF wf'])
qed

lemma surviving_wf: "dict_wf evs \<Longrightarrow> dict_wf (surviving_events db evs)"
  by (simp add: surviving_events_def distinct_map_filter)

lemma engine_inv_database:
  assumes "engine_inv l en"
  shows "engine_inv l (engine_step u (Database_Changed db) en)"
proof -
  let ?w = "en_world en"
  let ?w' = "en_world (engine_step u (Database_Changed db) en)"
  have syn: "engine_synced en" using assms by (simp add: engine_inv_def)
  have ok: "world_ok ?w" by (rule engine_syncedD(1) [OF syn])
  then have wf: "dict_wf (db_events (aw_db ?w))" by (simp add: world_ok_def world_wf_def)
  have ev: "events ?w' i = Some e \<longleftrightarrow>
      events ?w i = Some e \<and> (is_open e \<or> map_of (db_rules db) (ae_rule_id e) \<noteq> None)" for i e
    by (simp add: surviving_get [OF wf])
  have wf': "dict_wf (db_events (aw_db ?w'))" by (simp add: surviving_wf [OF wf])
  have op: "events ?w' i = Some e \<and> is_open e \<longleftrightarrow> events ?w i = Some e \<and> is_open e" for i e
    using ev by blast
  have "uq_alarm_event_open_rule (db_events (aw_db ?w'))"
    using ok op unfolding world_ok_def open_unique_iff [OF wf] open_unique_iff [OF wf'] by metis
  moreover have "\<forall>i e. events ?w' i = Some e \<longrightarrow> i < aw_next ?w' \<and> ae_state e \<noteq> PENDING"
    using ok ev unfolding world_ok_def by fastforce
  ultimately have ok': "world_ok ?w'"
    using ok wf' by (simp add: world_ok_def world_wf_def)
  have same: "no_open ?w' r = no_open ?w r" "open_as ?w' r i s = open_as ?w r i s" for r i s
    using op unfolding no_open_def open_as_def by metis+
  have sync: "synced ?w' rt = synced ?w rt" for rt
    by (simp only: synced_def same)
  have rules: "en_rules (engine_step u (Database_Changed db) en) = en_rules en" by simp
  have "engine_synced (engine_step u (Database_Changed db) en)"
  proof (rule engine_syncedI, goal_cases)
    case 1
    show ?case by (rule ok')
  next
    case 2
    show ?case using engine_syncedD(2) [OF syn] by simp
  next
    case (3 rid rt)
    then show ?case using engine_syncedD(3) [OF syn] unfolding rules sync by blast
  qed
  moreover have "covered en \<longrightarrow> covered (engine_step u (Database_Changed db) en)"
    using op unfolding covered_def rules by blast
  ultimately show ?thesis using assms by (simp only: engine_inv_def) blast
qed

lemma engine_inv_step:
  assumes "engine_inv l en" shows "engine_inv l (engine_step u i en)"
proof (cases i)
  case (Load_In c w)
  with engine_inv_load [OF assms, of c w] show ?thesis by (simp add: engine_inv_def)
next
  case (Database_Changed db)
  with engine_inv_database [OF assms] show ?thesis by simp
qed (use assms in \<open>simp_all add: on_value_def on_device_status_def on_bacnet_event_def tick_def
    engine_inv_fold engine_inv_acknowledge keeps_sync_update keeps_sync_value keeps_sync_tick\<close>)

interpretation engine_run: event_driven "engine_step u" "engine_inv l" for u l
  by unfold_locales (rule engine_inv_step)

lemma engine_inv_start: "world_ok w \<Longrightarrow> engine_inv False (engine_start w)"
  by (simp add: engine_inv_def engine_start_def engine_synced_def)

lemma engine_run_loaded:
  assumes "world_ok w"
  shows "engine_inv True (fold (engine_step u) (Load_In c wl # inputs) (engine_start w))"
proof -
  have "engine_inv True (engine_step u (Load_In c wl) (engine_start w))"
    using engine_inv_load [OF engine_inv_start [OF assms]] by simp
  from engine_run.run_inv [OF this] show ?thesis by simp
qed

text \<open>The open rows of a rule.\<close>

definition open_states :: "engine \<Rightarrow> uuid \<Rightarrow> alarm_state list" where
  "open_states en rid =
     map (\<lambda>kv. ae_state (snd kv))
       (List.filter (\<lambda>kv. ae_rule_id (snd kv) = rid \<and> is_open (snd kv)) (db_events (aw_db (en_world en))))"

definition expected_rows :: "engine \<Rightarrow> uuid \<Rightarrow> alarm_state list" where
  "expected_rows en rid =
     (case map_of (en_rules en) rid of
        None \<Rightarrow> []
      | Some rt \<Rightarrow> if rt_state rt \<in> {NORMAL, PENDING} then [] else [rt_state rt])"

lemma filter_none: "dict_wf evs \<Longrightarrow> (\<And>i e. map_of evs i = Some e \<Longrightarrow> \<not> P (i, e)) \<Longrightarrow>
    List.filter P evs = []"
  by (auto simp: filter_empty_conv)

lemma filter_one:
  "dict_wf evs \<Longrightarrow> map_of evs i = Some e \<Longrightarrow> P (i, e) \<Longrightarrow>
     (\<And>j f. map_of evs j = Some f \<Longrightarrow> P (j, f) \<Longrightarrow> j = i) \<Longrightarrow> List.filter P evs = [(i, e)]"
proof (induction evs)
  case (Cons a evs)
  obtain k v where a: "a = (k, v)" by (cases a)
  show ?case
  proof (cases "k = i")
    case True
    with Cons.prems(2) a have "v = e" by simp
    moreover have "List.filter P evs = []"
    proof (rule filter_none)
      show "dict_wf evs" using Cons.prems(1) by simp
      fix j f assume jf: "map_of evs j = Some f"
      then have "j \<in> set (dict_keys evs)" by (force dest: map_of_SomeD)
      then have "j \<noteq> k" using Cons.prems(1) a by auto
      then have "map_of (a # evs) j = Some f" using jf a by simp
      with Cons.prems(4) \<open>j \<noteq> k\<close> True show "\<not> P (j, f)" by blast
    qed
    ultimately show ?thesis using True a Cons.prems(3) by simp
  next
    case False
    have "map_of (a # evs) k = Some v" using a by simp
    with Cons.prems(4) [of k v] False have "\<not> P (k, v)" by blast
    moreover have "List.filter P evs = [(i, e)]"
    proof (rule Cons.IH)
      fix j f assume jf: "map_of evs j = Some f" "P (j, f)"
      then have "j \<in> set (dict_keys evs)" by (force dest: map_of_SomeD)
      then have "j \<noteq> k" using Cons.prems(1) a by auto
      then have "map_of (a # evs) j = Some f" using jf(1) a by simp
      with Cons.prems(4) jf(2) show "j = i" by blast
    qed (use Cons.prems(1-3) a False in auto)
    ultimately show ?thesis using a by simp
  qed
qed simp

lemma open_states_expected:
  assumes "engine_inv True en"
  shows "open_states en rid = expected_rows en rid"
proof -
  let ?w = "en_world en"
  let ?evs = "db_events (aw_db ?w)"
  let ?P = "\<lambda>kv. ae_rule_id (snd kv) = rid \<and> is_open (snd kv)"
  have syn: "engine_synced en" and cov: "covered en" using assms by (simp_all add: engine_inv_def)
  have ok: "world_ok ?w" by (rule engine_syncedD(1) [OF syn])
  then have wf: "dict_wf ?evs" by (simp add: world_ok_def world_wf_def)
  have uq: "\<And>i j e f. events ?w i = Some e \<Longrightarrow> events ?w j = Some f \<Longrightarrow> is_open e \<Longrightarrow> is_open f \<Longrightarrow>
      ae_rule_id e = ae_rule_id f \<Longrightarrow> i = j"
    using ok unfolding world_ok_def open_unique_iff [OF wf] by blast
  have empty: "open_states en rid = []" if "no_open ?w rid"
  proof -
    have "List.filter ?P ?evs = []"
      by (rule filter_none [OF wf]) (use that in \<open>auto simp: no_open_def\<close>)
    then show ?thesis by (simp only: open_states_def list.map)
  qed
  show ?thesis
  proof (cases "map_of (en_rules en) rid")
    case None
    with cov have "no_open ?w rid" unfolding no_open_def covered_def by blast
    with empty None show ?thesis by (simp add: expected_rows_def)
  next
    case (Some rt)
    note rt = engine_syncedD(3) [OF syn Some]
    show ?thesis
    proof (cases "rt_state rt \<in> {NORMAL, PENDING}")
      case True
      with rt ok synced_not_open have "no_open ?w rid" by blast
      with empty Some True show ?thesis by (simp add: expected_rows_def)
    next
      case False
      with rt obtain eid where "open_as ?w rid eid (rt_state rt)" by (metis synced_open)
      then obtain e where e: "events ?w eid = Some e" "ae_rule_id e = rid" "is_open e"
        "ae_state e = rt_state rt" by (auto simp: open_as_def)
      have "List.filter ?P ?evs = [(eid, e)]"
      proof (rule filter_one [OF wf e(1)])
        fix j f assume "map_of ?evs j = Some f" "?P (j, f)"
        then have f: "events ?w j = Some f" "is_open f" "ae_rule_id f = ae_rule_id e"
          using e(2) by simp_all
        show "j = eid" by (rule uq [OF f(1) e(1) f(2) e(3) f(3)])
      qed (use e in simp)
      with e Some False show ?thesis by (simp add: open_states_def expected_rows_def)
    qed
  qed
qed


subsection \<open>An example\<close>

text \<open>One high-threshold rule (30, without delay) on one point of one device.\<close>

definition example_db :: database where
  "example_db = empty_db
     \<lparr>db_networks := [(1, \<lparr>nw_name = ''net'', nw_bind_ip = ''10.0.0.1'', nw_port = 47808,
         nw_bbmd_ip = None, nw_bbmd_ttl = None\<rparr>)],
      db_devices := [(2, \<lparr>dv_network_id = 1, dv_instance = 100, dv_name = ''cta'',
         dv_address = ''10.0.0.2'', dv_online = True, dv_last_seen = None, dv_vendor = None,
         dv_model = None\<rparr>)],
      db_points := [(3, \<lparr>pt_device_id = 2, pt_object_type = ''analog-input'',
         pt_object_instance = 1, pt_name = ''temp'', pt_description = None, pt_unit = None,
         pt_writable = False, pt_cov_capable = True, pt_poll_interval_s = None, pt_path = None,
         pt_missing = False, pt_deadband = Fin 0, pt_max_interval_s = 900, pt_write_min = None,
         pt_write_max = None, pt_state_text = None\<rparr>)],
      db_rules := [(4, \<lparr>ar_point_id = 3, ar_name = None, ar_kind = HIGH,
         ar_threshold = Some (Fin 30), ar_hysteresis = Fin 1, ar_delay_s = 0, ar_severity = CRITICAL,
         ar_notify = [''ops''], ar_enabled = True\<rparr>)]\<rparr>"

definition example_world :: alarm_world where
  "example_world = \<lparr>aw_db = example_db, aw_next = 10, aw_bus = [], aw_sent = [], aw_faults = []\<rparr>"

lemma example_world_ok: "world_ok example_world"
  by (simp add: world_ok_def world_wf_def example_world_def example_db_def empty_db_def
      uq_alarm_event_open_rule_def open_rules_def)

definition example_run :: "engine" where
  "example_run = fold (engine_step (\<lambda>_. [])) [Load_In 0 0, Value_In 1 1 3 (Some (Fin 31))] (engine_start example_world)"


subsection \<open>The properties\<close>

text \<open>
  C1. The open alarms are those of the machines: in a run that starts by loading the rules and
  during which the database and Redis answer, whatever the observations, acknowledgements,
  reloads and changes of the other tables, a rule has an open row in \<open>alarm_event\<close> exactly when
  its machine is past the pending state; it has one such row, in the state of the machine.
\<close>

theorem open_rows_match_machines:
  assumes "world_ok w"
  shows "open_states (fold (engine_step u) (Load_In c wl # inputs) (engine_start w)) rid =
    expected_rows (fold (engine_step u) (Load_In c wl # inputs) (engine_start w)) rid"
  by (rule open_states_expected [OF engine_run_loaded [OF assms]])

theorem open_rows_match_machines_witness:
  "world_ok example_world \<and>
   open_states (fold (engine_step (\<lambda>_. [])) [Load_In 0 0, Value_In 1 1 3 (Some (Fin 31))]
     (engine_start example_world)) 4 = [ACTIVE_UNACKED] \<and>
   expected_rows (fold (engine_step (\<lambda>_. [])) [Load_In 0 0, Value_In 1 1 3 (Some (Fin 31))]
     (engine_start example_world)) 4 = [ACTIVE_UNACKED]"
proof -
  have "open_states (fold (engine_step (\<lambda>_. [])) [Load_In 0 0, Value_In 1 1 3 (Some (Fin 31))]
      (engine_start example_world)) 4 = [ACTIVE_UNACKED]" by code_simp
  with open_rows_match_machines [OF example_world_ok, where c = 0 and wl = 0 and rid = 4
      and u = "\<lambda>_. []" and inputs = "[Value_In 1 1 3 (Some (Fin 31))]"] example_world_ok
  show ?thesis by simp
qed

text \<open>The answer to an acknowledgement, read off the table of alarms.\<close>

definition ack_answer :: "alarm_event_row option \<Rightarrow> ack_result" where
  "ack_answer row =
     (case row of
        None \<Rightarrow> Inl Unknown_Alarm
      | Some e \<Rightarrow>
          (case ae_state e of
             NORMAL \<Rightarrow> Inl Unknown_Alarm
           | ACTIVE_ACKED \<Rightarrow> Inl (Not_Ackable ACTIVE_ACKED)
           | PENDING \<Rightarrow> Inl (Not_Ackable PENDING)
           | _ \<Rightarrow> Inr ()))"

lemma acknowledge_answer:
  assumes inv: "engine_inv True en"
  shows "fst (acknowledge u wall eid uid en) = ack_answer (events (en_world en) eid)"
proof -
  let ?w = "en_world en"
  have syn: "engine_synced en" and cov: "covered en" using inv by (simp_all add: engine_inv_def)
  have ok: "world_ok ?w" by (rule engine_syncedD(1) [OF syn])
  then have wf: "dict_wf (db_events (aw_db ?w))" by (simp add: world_ok_def world_wf_def)
  show ?thesis
  proof (cases "List.find (\<lambda>(rid, rt). rt_event_id rt = Some eid) (en_rules en)")
    case (Some p)
    obtain rid rt where p: "p = (rid, rt)" by (cases p)
    have ev: "rt_event_id rt = Some eid" and rt: "map_of (en_rules en) rid = Some rt"
      using find_map_of [OF Some] p engine_syncedD(2) [OF syn] by simp_all
    have sy: "synced ?w rt" using engine_syncedD(3) [OF syn rt] by simp
    then obtain e where e: "events ?w eid = Some e" "is_open e" "ae_state e = rt_state rt"
      using ev by (auto simp: synced_def open_as_def)
    obtain res rt' w' where a: "ack_rule u wall uid rt ?w = (res, rt', w')" by (metis prod_cases3)
    have np: "rt_state rt \<noteq> PENDING" "rt_state rt \<noteq> NORMAL"
      using ok e unfolding world_ok_def is_open_def by metis+
    have "fst (acknowledge u wall eid uid en) = res"
      using Some p a by (simp add: acknowledge_def)
    also have "\<dots> = ack_answer (Some e)"
      using ack_rule_handled [OF ok sy a] np e(3)
      by (cases "rt_state rt") (auto simp: ack_answer_def)
    finally show ?thesis using e(1) by simp
  next
    case None
    have "\<not> is_open e" if e: "events ?w eid = Some e" for e
    proof
      assume op: "is_open e"
      with cov e obtain rt where rt: "map_of (en_rules en) (ae_rule_id e) = Some rt"
        unfolding covered_def by blast
      note s = engine_syncedD(3) [OF syn rt]
      have "rt_event_id rt = Some eid"
      proof (cases "rt_event_id rt")
        case None
        with s have "no_open ?w (ae_rule_id e)" by (auto simp: synced_def)
        with e op show ?thesis unfolding no_open_def by blast
      next
        case (Some eid')
        with s have "open_as ?w (ae_rule_id e) eid' (rt_state rt)" by (auto simp: synced_def)
        with other_rows_closed [OF ok this e] op Some show ?thesis by blast
      qed
      with map_of_SomeD [OF rt] None show False by (auto simp: find_None_iff)
    qed
    then have "ack_answer (events ?w eid) = Inl Unknown_Alarm"
      by (cases "events ?w eid") (auto simp: ack_answer_def is_open_def)
    with None show ?thesis by (simp add: acknowledge_def)
  qed
qed

text \<open>
  An acknowledgement is accepted exactly for the open alarms nobody has acknowledged: in a
  run without failures the answer to an operator depends on the row of the alarm only; an
  unknown or closed alarm is unknown, an acknowledged one is refused with its state, and an
  unacknowledged one, still active or already cleared, is accepted.
\<close>

theorem acknowledge_by_row:
  assumes "world_ok w"
    and "en = fold (engine_step u) (Load_In c wl # inputs) (engine_start w)"
  shows "fst (acknowledge u wall eid uid en) = ack_answer (events (en_world en) eid)"
  unfolding assms(2) by (rule acknowledge_answer [OF engine_run_loaded [OF assms(1)]])

theorem acknowledge_by_row_witness:
  "fst (acknowledge (\<lambda>_. []) 2 10 7 example_run) = Inr () \<and>
   fst (acknowledge (\<lambda>_. []) 2 11 7 example_run) = Inl Unknown_Alarm"
proof -
  have a: "ack_answer (events (en_world example_run) 10) = Inr ()" by code_simp
  have b: "ack_answer (events (en_world example_run) 11) = Inl Unknown_Alarm" by code_simp
  show ?thesis
    using acknowledge_by_row [OF example_world_ok example_run_def, of 2 10 7]
      acknowledge_by_row [OF example_world_ok example_run_def, of 2 11 7] a b by simp
qed

subsection \<open>What a failure leaves behind\<close>

lemma set_state_same: "rt_state rt = s \<Longrightarrow> set_state s rt = rt"
  by (simp add: set_state_def)

text \<open>
  A transition that is not recorded is not announced: whatever the database and Redis do, one
  observation of a rule either publishes and notifies nothing, or makes exactly one step of the
  state diagram, into the new state of the machine, publishes it once with that state, and hands
  exactly one notification to the notifier if the rule has channels.
\<close>

theorem observation_announces_once:
  assumes "rule_update clock wall condition v rt w = (rt', w')"
  shows "aw_bus w' = aw_bus w \<and> aw_sent w' = aw_sent w \<or>
    (\<exists>t msg. conforms t \<and> to_state t = rt_state rt' \<and> ai_state msg = rt_state rt' \<and>
       aw_bus w' = aw_bus w @ [Alarm_Message (kind t) msg] \<and>
       aw_sent w' = aw_sent w @ (if rr_notify (rt_rec rt) = [] then []
         else [build_notification msg (kind t) (rr_notify (rt_rec rt))]))"
  using assms
proof (cases rule: rule_update_cases)
  case (recorded t)
  from recorded(6) show ?thesis
  proof (cases rule: persist_cases)
    case (succeeded rt1 w1 w2 msg)
    have r: "rt_rec rt1 = rt_rec rt" using persist_row_runtime [OF succeeded(1)] by simp
    have w1: "aw_bus w1 = aw_bus w" "aw_sent w1 = aw_sent w"
      using persist_row_quiet [OF succeeded(1)] by simp_all
    have w2: "aw_bus w2 = aw_bus w" "aw_sent w2 = aw_sent w"
      using io_cases [OF succeeded(4)] w1 by simp_all
    have st: "ai_state msg = to_state t"
      using succeeded(3) by (auto simp: info_def split: option.splits)
    have "rt_state rt' = to_state t"
      using persist_runtime [OF recorded(6)] recorded(5) by simp
    then show ?thesis
      using recorded(1) succeeded(6) r w2 st
      by (intro disjI2 exI [of _ t] exI [of _ msg]) (simp add: announce_def)
  qed simp
next
  case (undone t rt1)
  from undone(6) show ?thesis
  proof (cases rule: persist_cases)
    case (failed ok1 w1)
    have w1: "aw_bus w1 = aw_bus w" "aw_sent w1 = aw_sent w"
      using persist_row_quiet [OF failed(1)] by simp_all
    from failed(3) have "aw_bus w' = aw_bus w1 \<and> aw_sent w' = aw_sent w1"
      by (elim disjE conjE) (simp_all add: io_cases(3,4))
    with w1 show ?thesis by simp
  qed simp
qed simp

theorem observation_announces_once_witness:
  "\<exists>rt' w'. rule_update 1 1 True (Some (Fin 31)) (restore 0 (hd (load_rules example_db)) None)
      example_world = (rt', w') \<and> length (aw_bus w') = 1 \<and> length (aw_sent w') = 1"
proof -
  obtain rt' w' where u: "rule_update 1 1 True (Some (Fin 31))
      (restore 0 (hd (load_rules example_db)) None) example_world = (rt', w')" by fastforce
  have one: "length (aw_bus (snd (rule_update 1 1 True (Some (Fin 31))
      (restore 0 (hd (load_rules example_db)) None) example_world))) = 1" by code_simp
  have none: "aw_bus example_world = []" "aw_sent example_world = []" by (simp_all add: example_world_def)
  have notify: "rr_notify (rt_rec (restore 0 (hd (load_rules example_db)) None)) \<noteq> []" by code_simp
  have "aw_bus w' \<noteq> []" using one u by (cases "aw_bus w'") simp_all
  with observation_announces_once [OF u] none notify have "length (aw_sent w') = 1"
    by (elim disjE exE conjE) simp_all
  moreover have "length (aw_bus w') = 1" using one u by simp
  ultimately show ?thesis using u by blast
qed

lemma io_next: "io (w\<lparr>aw_faults := f # fs\<rparr>) = (f, w\<lparr>aw_faults := fs\<rparr>)"
  by (simp add: io_def)

lemma undone_raise:
  assumes "rt_state rt = PENDING" "rt_event_id rt = None" "aw_faults w = True # fs"
    and "pending_since (rt_machine rt) = Some since" "delay_s (rt_machine rt) \<le> clock - since"
  shows "rule_update clock wall True None rt w =
    (rt\<lparr>rt_condition := True, rt_machine := (rt_machine rt)\<lparr>pending_since := None\<rparr>\<rparr>,
     w\<lparr>aw_faults := fs\<rparr>)"
  using assms
  by (simp add: rule_update_def machine_defs persist_def persist_row_def create_event_def io_def
      set_state_def Let_def)

lemma stuck_pending:
  assumes "rt_state rt = PENDING" "pending_since (rt_machine rt) = None" "0 < delay_s (rt_machine rt)"
    "rt_condition rt"
  shows "fold (\<lambda>(clock, wall) (rt, w). rule_update clock wall True None rt w) obs (rt, w) = (rt, w)"
proof (induction obs)
  case (Cons o obs)
  have "rule_update clock wall True None rt w = (rt, w)" for clock wall
    using assms lost_start_stuck [OF assms(1-3), of clock] by (simp add: rule_update_def)
  with Cons show ?case by (simp add: split_beta)
qed simp

text \<open>
  C39. A raise that could not be recorded is lost, not retried: when the database fails once at
  the moment a delayed alarm should be raised, the alarm is never raised as long as the
  condition stays true, however many times it is observed afterwards and although nothing fails
  any more. (The comment in \<open>_update\<close> says the transition is tried again at the next
  observation; but the undone machine has lost \<open>pending_since\<close>.)
\<close>

theorem failed_raise_is_never_retried:
  assumes "rt_state rt = PENDING" "rt_event_id rt = None" "aw_faults w = [True]"
    and "pending_since (rt_machine rt) = Some since" "delay_s (rt_machine rt) \<le> clock - since"
    and "0 < delay_s (rt_machine rt)"
    and "fold (\<lambda>(clock, wall) (rt, w). rule_update clock wall True None rt w) ((clock, wall) # later) (rt, w)
      = (rt', w')"
  shows "rt_state rt' = PENDING \<and> rt_event_id rt' = None \<and> aw_faults w' = [] \<and>
    aw_bus w' = aw_bus w \<and> aw_sent w' = aw_sent w \<and> aw_db w' = aw_db w"
proof -
  let ?rt = "rt\<lparr>rt_condition := True, rt_machine := (rt_machine rt)\<lparr>pending_since := None\<rparr>\<rparr>"
  let ?w = "w\<lparr>aw_faults := []\<rparr>"
  have "(rt', w') = fold (\<lambda>(clock, wall) (rt, w). rule_update clock wall True None rt w) later (?rt, ?w)"
    using assms(7) undone_raise [OF assms(1-5), of wall] by simp
  also have "\<dots> = (?rt, ?w)"
    using assms(1,6) by (intro stuck_pending) simp_all
  finally show ?thesis using assms(1,2) by simp
qed


definition example_pending :: rule_runtime where
  "example_pending = (restore 0 (hd (load_rules example_db)) None)
     \<lparr>rt_machine := \<lparr>delay_s = 5, mstate = PENDING, pending_since = Some 0\<rparr>\<rparr>"

theorem failed_raise_is_never_retried_witness:
  "rt_state (fst (fold (\<lambda>(clock, wall) (rt, w). rule_update clock wall True None rt w)
     [(6, 6), (7, 7), (1000, 1000)] (example_pending, example_world\<lparr>aw_faults := [True]\<rparr>))) = PENDING"
proof -
  let ?run = "fold (\<lambda>(clock, wall) (rt, w). rule_update clock wall True None rt w)
     [(6, 6), (7, 7), (1000, 1000)] (example_pending, example_world\<lparr>aw_faults := [True]\<rparr>)"
  have "rt_event_id example_pending = None" "rt_machine example_pending =
      \<lparr>delay_s = 5, mstate = PENDING, pending_since = Some 0\<rparr>"
    by (simp_all add: example_pending_def)
  then show ?thesis
    using failed_raise_is_never_retried [of example_pending "example_world\<lparr>aw_faults := [True]\<rparr>" 0 6 6
        "[(7, 7), (1000, 1000)]" "fst ?run" "snd ?run"]
    by simp
qed

theorem open_alarm_is_known_witness:
  "\<exists>rt. map_of (en_rules example_run) 4 = Some rt \<and> rt_state rt = ACTIVE_UNACKED \<and>
     rt_event_id rt = Some 10 \<and> rt_raised_at rt = Some 1"
proof -
  obtain rt where rt: "map_of (en_rules example_run) 4 = Some rt"
    "rt_state rt = ACTIVE_UNACKED" "rt_event_id rt = Some 10" "rt_raised_at rt = Some 1"
  proof -
    have "map_option (\<lambda>rt. (rt_state rt, rt_event_id rt, rt_raised_at rt)) (map_of (en_rules example_run) 4)
        = Some (ACTIVE_UNACKED, Some 10, Some 1)" by code_simp
    with that show ?thesis by auto
  qed
  from open_alarm_is_known [OF rt(1) [unfolded example_run_def]] rt show ?thesis by auto
qed

end
