(* ===== verification/Py_Values.thy ===== *)
theory Py_Values
  imports Prelude
begin

section \<open>Conversions of Python values\<close>

text \<open>
  What the code uses of the standard library to read the messages of the bus: \<open>str\<close>, \<open>int\<close> and
  \<open>float\<close> on decoded JSON, and \<open>uuid.UUID\<close>. A conversion that raises is \<open>None\<close>. The texts of
  floats and containers (their \<open>repr\<close>) are a parameter \<open>rp\<close>. The underscores Python also accepts
  between digits and the \<open>urn:\<close> form of identifiers are not modelled.
\<close>

subsection \<open>Digits\<close>

definition digit_of :: "char \<Rightarrow> nat option" where
  "digit_of c = (let n = of_char c :: nat in if 48 \<le> n \<and> n \<le> 57 then Some (n - 48) else None)"

definition hex_digit_of :: "char \<Rightarrow> nat option" where
  "hex_digit_of c =
     (let n = of_char c :: nat in
      if 48 \<le> n \<and> n \<le> 57 then Some (n - 48)
      else if 97 \<le> n \<and> n \<le> 102 then Some (n - 87)
      else if 65 \<le> n \<and> n \<le> 70 then Some (n - 55)
      else None)"

definition hex_char :: "nat \<Rightarrow> char" where
  "hex_char d = (if d < 10 then char_of (d + 48) else char_of (d + 87))"

lemma hex_digit_char [simp]: "d < 16 \<Longrightarrow> hex_digit_of (hex_char d) = Some d"
  by (auto simp: hex_digit_of_def hex_char_def Let_def)

lemma hex_char_dash [simp]: "d < 16 \<Longrightarrow> hex_char d \<noteq> CHR ''-''"
proof -
  assume d: "d < 16"
  have "hex_digit_of (CHR ''-'') = None" by (simp add: hex_digit_of_def)
  with hex_digit_char [OF d] show ?thesis by auto
qed

text \<open>The value of a list of digits, most significant first; \<open>None\<close> at a character that is none.\<close>

fun digits_value :: "(char \<Rightarrow> nat option) \<Rightarrow> nat \<Rightarrow> nat \<Rightarrow> string \<Rightarrow> nat option" where
  "digits_value digit base acc [] = Some acc"
| "digits_value digit base acc (c # cs) =
     (case digit c of None \<Rightarrow> None | Some d \<Rightarrow> digits_value digit base (acc * base + d) cs)"

fun nat_str :: "nat \<Rightarrow> string" where
  "nat_str n = (if n < 10 then [char_of (n + 48)] else nat_str (n div 10) @ [char_of (n mod 10 + 48)])"

declare nat_str.simps [simp del]

definition int_str :: "int \<Rightarrow> string" where
  "int_str i = (if i < 0 then CHR ''-'' # nat_str (nat (- i)) else nat_str (nat i))"

subsection \<open>Identifiers\<close>

text \<open>\<open>str\<close> of an identifier below \<open>2 ^ 128\<close>: 32 hexadecimal digits in five groups.\<close>

fun hex_digits :: "nat \<Rightarrow> nat \<Rightarrow> string" where
  "hex_digits 0 n = []"
| "hex_digits (Suc k) n = hex_digits k (n div 16) @ [hex_char (n mod 16)]"

definition dashed :: "string \<Rightarrow> string" where
  "dashed h = take 8 h @ ''-'' @ take 4 (drop 8 h) @ ''-'' @ take 4 (drop 12 h) @ ''-'' @
     take 4 (drop 16 h) @ ''-'' @ drop 20 h"

definition uuid_str :: "uuid \<Rightarrow> string" where
  "uuid_str u = dashed (hex_digits 32 u)"

text \<open>\<open>uuid.UUID(s)\<close>: braces at the ends and dashes anywhere are dropped, 32 digits must be left.\<close>

definition strip_chars :: "char set \<Rightarrow> string \<Rightarrow> string" where
  "strip_chars cs s = rev (dropWhile (\<lambda>c. c \<in> cs) (rev (dropWhile (\<lambda>c. c \<in> cs) s)))"

definition uuid_of_str :: "string \<Rightarrow> uuid option" where
  "uuid_of_str s =
     (let h = List.filter (\<lambda>c. c \<noteq> CHR ''-'') (strip_chars {CHR ''{'', CHR ''}''} s)
      in if length h = 32 then digits_value hex_digit_of 16 0 h else None)"

lemma length_hex_digits [simp]: "length (hex_digits k n) = k"
  by (induction k arbitrary: n) simp_all

lemma digits_value_append:
  "digits_value digit base acc (xs @ ys) =
     (case digits_value digit base acc xs of None \<Rightarrow> None | Some v \<Rightarrow> digits_value digit base v ys)"
  by (induction xs arbitrary: acc) (simp_all split: option.splits)

lemma nat_str_value: "digits_value digit_of 10 0 (nat_str n) = Some n"
proof (induction n rule: nat_str.induct)
  case (1 n)
  have digit: "d < 10 \<Longrightarrow> digit_of (char_of (d + 48)) = Some d" for d :: nat
    by (simp add: digit_of_def Let_def)
  show ?case
    using 1 digit [of n] digit [of "n mod 10"] by (subst nat_str.simps) (simp add: digits_value_append)
qed

lemma nat_str_inj [simp]: "nat_str m = nat_str n \<longleftrightarrow> m = n"
  using nat_str_value by (metis option.inject)

lemma digits_value_hex:
  "digits_value hex_digit_of 16 acc (hex_digits k n) = Some (acc * 16 ^ k + n mod 16 ^ k)"
proof (induction k arbitrary: n)
  case (Suc k)
  have "n mod 16 ^ Suc k = n div 16 mod 16 ^ k * 16 + n mod 16"
    by (metis mult.commute power_Suc mod_mult2_eq)
  with Suc show ?case
    by (simp add: digits_value_append algebra_simps)
qed simp

lemma hex_digits_chars: "c \<in> set (hex_digits k n) \<Longrightarrow> \<exists>d < 16. c = hex_char d"
proof (induction k arbitrary: n)
  case (Suc k)
  have "n mod 16 < 16" by simp
  moreover have "c \<in> set (hex_digits k (n div 16)) \<or> c = hex_char (n mod 16)" using Suc.prems by auto
  ultimately show ?case using Suc.IH by blast
qed simp

lemma hex_digits_no_dash: "List.filter (\<lambda>c. c \<noteq> CHR ''-'') (hex_digits k n) = hex_digits k n"
  using hex_digits_chars hex_char_dash by (fastforce simp: filter_id_conv)

lemma filter_dashed:
  "List.filter (\<lambda>c. c \<noteq> CHR ''-'') (dashed h) = List.filter (\<lambda>c. c \<noteq> CHR ''-'') h"
proof -
  let ?f = "List.filter (\<lambda>c. c \<noteq> CHR ''-'')"
  have split: "?f (drop m h) = ?f (take n (drop m h)) @ ?f (drop (m + n) h)" for m n
    by (metis append_take_drop_id drop_drop add.commute filter_append)
  have "?f h = ?f (take 8 h) @ ?f (drop 8 h)" using split [of 0 8] by simp
  with split [of 8 4] split [of 12 4] split [of 16 4] show ?thesis
    by (simp add: dashed_def)
qed

lemma strip_chars_id:
  "s \<noteq> [] \<Longrightarrow> hd s \<notin> cs \<Longrightarrow> last s \<notin> cs \<Longrightarrow> strip_chars cs s = s"
proof -
  assume s: "s \<noteq> []" "hd s \<notin> cs" "last s \<notin> cs"
  have "dropWhile (\<lambda>c. c \<in> cs) s = s" using s by (simp add: dropWhile_eq_self_iff)
  moreover have "dropWhile (\<lambda>c. c \<in> cs) (rev s) = rev s"
    using s by (simp add: dropWhile_eq_self_iff hd_rev)
  ultimately show ?thesis by (simp add: strip_chars_def)
qed

lemma strip_chars_part: "\<exists>a b. s = a @ strip_chars C s @ b"
proof -
  let ?P = "\<lambda>c. c \<in> C"
  let ?m = "dropWhile ?P s"
  have "rev ?m = takeWhile ?P (rev ?m) @ dropWhile ?P (rev ?m)" by simp
  then have "rev (rev ?m) = rev (takeWhile ?P (rev ?m) @ dropWhile ?P (rev ?m))" by (rule arg_cong)
  then have m: "?m = rev (dropWhile ?P (rev ?m)) @ rev (takeWhile ?P (rev ?m))"
    by (simp only: rev_rev_ident rev_append)
  show ?thesis unfolding strip_chars_def
    by (intro exI [of _ "takeWhile ?P s"] exI [of _ "rev (takeWhile ?P (rev ?m))"])
      (rule trans [OF _ arg_cong [where f = "append (takeWhile ?P s)", OF m]], simp)
qed

lemma strip_chars_ends:
  assumes "strip_chars C s \<noteq> []"
  shows "hd (strip_chars C s) \<notin> C \<and> last (strip_chars C s) \<notin> C"
proof
  let ?P = "\<lambda>c. c \<in> C"
  let ?m = "dropWhile ?P s"
  let ?r = "dropWhile ?P (rev ?m)"
  have r: "?r \<noteq> []" using assms by (simp add: strip_chars_def)
  then show "last (strip_chars C s) \<notin> C"
    using hd_dropWhile [OF r] by (simp add: strip_chars_def last_rev)
  have m: "?m \<noteq> []"
  proof
    assume "?m = []"
    then have "?r = dropWhile ?P (rev [])" by (rule arg_cong)
    with r show False by simp
  qed
  have "last ?r = last (rev ?m)"
    using r by (metis last_appendR takeWhile_dropWhile_id)
  then show "hd (strip_chars C s) \<notin> C"
    using hd_dropWhile [OF m] m r by (simp add: strip_chars_def hd_rev last_rev)
qed

lemma strip_chars_length: "length (strip_chars C s) \<le> length s"
proof -
  obtain a b where "s = a @ strip_chars C s @ b" using strip_chars_part by blast
  then have "length s = length a + length (strip_chars C s) + length b" by (metis add.assoc length_append)
  then show ?thesis by simp
qed

lemma hex_char_brace: "d < 16 \<Longrightarrow> hex_char d \<notin> {CHR ''{'', CHR ''}''}"
proof -
  assume d: "d < 16"
  have "hex_digit_of (CHR ''{'') = None" "hex_digit_of (CHR ''}'') = None"
    by (simp_all add: hex_digit_of_def)
  with hex_digit_char [OF d] show ?thesis by auto
qed

lemma uuid_str_roundtrip: "u < 2 ^ 128 \<Longrightarrow> uuid_of_str (uuid_str u) = Some u"
proof -
  assume u: "u < 2 ^ 128"
  let ?h = "hex_digits 32 u"
  have all: "\<forall>c \<in> set ?h. c \<notin> {CHR ''{'', CHR ''}''}"
    using hex_digits_chars hex_char_brace by metis
  have ne: "take 8 ?h \<noteq> []" "drop 20 ?h \<noteq> []"
    by (simp_all flip: length_greater_0_conv del: length_0_conv)
  have "hd (uuid_str u) \<in> set ?h"
    using ne(1) hd_in_set [OF ne(1)] in_set_takeD by (fastforce simp: uuid_str_def dashed_def)
  moreover have "last (uuid_str u) \<in> set ?h"
    using ne(2) last_in_set [OF ne(2)] in_set_dropD by (fastforce simp: uuid_str_def dashed_def)
  moreover have "uuid_str u \<noteq> []" using ne by (simp add: uuid_str_def dashed_def)
  ultimately have "strip_chars {CHR ''{'', CHR ''}''} (uuid_str u) = uuid_str u"
    using all by (intro strip_chars_id) auto
  moreover have "List.filter (\<lambda>c. c \<noteq> CHR ''-'') (uuid_str u) = ?h"
    by (simp add: uuid_str_def filter_dashed hex_digits_no_dash)
  moreover have "digits_value hex_digit_of 16 0 ?h = Some u"
    using u by (simp add: digits_value_hex)
  ultimately show ?thesis by (simp add: uuid_of_str_def)
qed

subsection \<open>Splitting\<close>

text \<open>\<open>str.split\<close> for a separator of one character.\<close>

fun pieces :: "'a \<Rightarrow> 'a list \<Rightarrow> 'a list list" where
  "pieces c [] = [[]]"
| "pieces c (x # xs) =
     (if x = c then [] # pieces c xs else (x # hd (pieces c xs)) # tl (pieces c xs))"

lemma pieces_ne [simp]: "pieces c xs \<noteq> []"
  by (cases xs) auto

lemma pieces_part: "c \<notin> set l \<Longrightarrow> pieces c (l @ c # xs) = l # pieces c xs"
  by (induction l) auto

lemma pieces_whole: "c \<notin> set l \<Longrightarrow> pieces c l = [l]"
  by (induction l) auto

subsection \<open>Patterns\<close>

definition newline :: char where "newline = CHR 0x0A"

text \<open>In Python a final \<open>$\<close> also matches before a newline that ends the text.\<close>

definition upto_end :: "(string \<Rightarrow> bool) \<Rightarrow> string \<Rightarrow> bool" where
  "upto_end p s \<longleftrightarrow> p s \<or> (s \<noteq> [] \<and> last s = newline \<and> p (butlast s))"

lemma hex_digit_less: "hex_digit_of c = Some d \<Longrightarrow> d < 16"
  by (auto simp: hex_digit_of_def Let_def split: if_splits)

lemma digits_value_less:
  "digits_value hex_digit_of 16 acc s = Some v \<Longrightarrow> v < (acc + 1) * 16 ^ length s"
proof (induction s arbitrary: acc)
  case (Cons c cs)
  then obtain d where d: "hex_digit_of c = Some d" "digits_value hex_digit_of 16 (acc * 16 + d) cs = Some v"
    by (auto split: option.splits)
  have "v < (acc * 16 + d + 1) * 16 ^ length cs" by (rule Cons.IH [OF d(2)])
  also have "\<dots> \<le> ((acc + 1) * 16) * 16 ^ length cs"
    using hex_digit_less [OF d(1)] by (intro mult_right_mono) simp_all
  finally show ?case by (simp add: algebra_simps)
qed simp

lemma uuid_of_str_less: "uuid_of_str s = Some u \<Longrightarrow> u < 2 ^ 128"
  using digits_value_less [of 0 "List.filter (\<lambda>c. c \<noteq> CHR ''-'') (strip_chars {CHR ''{'', CHR ''}''} s)" u]
  by (auto simp: uuid_of_str_def Let_def split: if_splits)

subsection \<open>\<open>str\<close>, \<open>int\<close>, \<open>float\<close>\<close>

definition py_str :: "(json \<Rightarrow> string) \<Rightarrow> json \<Rightarrow> string" where
  "py_str rp v =
     (case v of
        JStr s \<Rightarrow> s
      | JInt i \<Rightarrow> int_str i
      | JBool b \<Rightarrow> if b then ''True'' else ''False''
      | JNull \<Rightarrow> ''None''
      | _ \<Rightarrow> rp v)"

definition is_space :: "char \<Rightarrow> bool" where
  "is_space c =
     (let n = of_char c :: nat
      in (9 \<le> n \<and> n \<le> 13) \<or> (28 \<le> n \<and> n \<le> 32) \<or> n = 133 \<or> n = 160)"

definition py_strip :: "string \<Rightarrow> string" where
  "py_strip s = rev (dropWhile is_space (rev (dropWhile is_space s)))"

definition split_sign :: "string \<Rightarrow> bool \<times> string" where
  "split_sign s =
     (case s of
        [] \<Rightarrow> (False, [])
      | c # cs \<Rightarrow> if c = CHR ''-'' then (True, cs) else if c = CHR ''+'' then (False, cs) else (False, s))"

definition int_of_str :: "string \<Rightarrow> int option" where
  "int_of_str s =
     (let (neg, ds) = split_sign (py_strip s)
      in if ds = [] then None
         else map_option (\<lambda>n. if neg then - int n else int n) (digits_value digit_of 10 0 ds))"

definition is_digit :: "char \<Rightarrow> bool" where
  "is_digit c \<longleftrightarrow> digit_of c \<noteq> None"

text \<open>Digits, an optional fraction, an optional exponent, and nothing after.\<close>

definition exponent_of :: "string \<Rightarrow> int option" where
  "exponent_of s =
     (case s of
        [] \<Rightarrow> Some 0
      | c # cs \<Rightarrow>
          if c = CHR ''e'' \<or> c = CHR ''E'' then
            (let (neg, ds) = split_sign cs
             in if ds = [] then None
                else map_option (\<lambda>n. if neg then - int n else int n) (digits_value digit_of 10 0 ds))
          else None)"

definition scale :: "nat \<Rightarrow> int \<Rightarrow> rat" where
  "scale n e = (if 0 \<le> e then of_nat n * 10 ^ nat e else of_nat n / 10 ^ nat (- e))"

definition decimal_of :: "string \<Rightarrow> rat option" where
  "decimal_of s =
     (let ip = takeWhile is_digit s; r1 = dropWhile is_digit s;
          (fp, r2) = (case r1 of
             c # cs \<Rightarrow> if c = CHR ''.'' then (takeWhile is_digit cs, dropWhile is_digit cs) else ([], r1)
           | [] \<Rightarrow> ([], []))
      in if ip = [] \<and> fp = [] then None
         else (case (digits_value digit_of 10 0 (ip @ fp), exponent_of r2) of
            (Some n, Some e) \<Rightarrow> Some (scale n (e - int (length fp)))
          | _ \<Rightarrow> None))"

definition float_of_str :: "string \<Rightarrow> pyfloat option" where
  "float_of_str s =
     (let (neg, body) = split_sign (py_strip s); word = py_lower body;
          signed = (\<lambda>x. if neg then fl_neg x else x)
      in if word = ''inf'' \<or> word = ''infinity'' then Some (signed PosInf)
         else if word = ''nan'' then Some NaN
         else map_option (\<lambda>q. signed (Fin q)) (decimal_of body))"

definition py_float :: "json \<Rightarrow> pyfloat option" where
  "py_float v =
     (case v of
        JInt i \<Rightarrow> Some (Fin (of_int i))
      | JFloat x \<Rightarrow> Some x
      | JBool b \<Rightarrow> Some (Fin (if b then 1 else 0))
      | JStr s \<Rightarrow> float_of_str s
      | _ \<Rightarrow> None)"

text \<open>\<open>int\<close> of a float truncates towards zero and raises on the infinities and NaN.\<close>

definition trunc :: "rat \<Rightarrow> int" where
  "trunc q = (if 0 \<le> q then \<lfloor>q\<rfloor> else \<lceil>q\<rceil>)"

definition py_int :: "json \<Rightarrow> int option" where
  "py_int v =
     (case v of
        JInt i \<Rightarrow> Some i
      | JFloat (Fin q) \<Rightarrow> Some (trunc q)
      | JBool b \<Rightarrow> Some (if b then 1 else 0)
      | JStr s \<Rightarrow> int_of_str s
      | _ \<Rightarrow> None)"

definition py_bool :: "json \<Rightarrow> bool" where
  "py_bool v =
     (case v of
        JNull \<Rightarrow> False
      | JBool b \<Rightarrow> b
      | JInt i \<Rightarrow> i \<noteq> 0
      | JFloat x \<Rightarrow> x \<noteq> Fin 0
      | JStr s \<Rightarrow> s \<noteq> []
      | JList xs \<Rightarrow> xs \<noteq> []
      | JObj d \<Rightarrow> d \<noteq> [])"

text \<open>\<open>d[key]\<close> and \<open>d.get(key)\<close> of a decoded message: both raise unless it is an object.\<close>

definition json_item :: "json \<Rightarrow> string \<Rightarrow> json option" where
  "json_item v key = (case v of JObj d \<Rightarrow> map_of d key | _ \<Rightarrow> None)"

definition json_get :: "json \<Rightarrow> string \<Rightarrow> json option" where
  "json_get v key =
     (case v of
        JObj d \<Rightarrow> Some (case map_of d key of None \<Rightarrow> JNull | Some x \<Rightarrow> x)
      | _ \<Rightarrow> None)"

definition json_uuid :: "(json \<Rightarrow> string) \<Rightarrow> json \<Rightarrow> uuid option" where
  "json_uuid rp v = uuid_of_str (py_str rp v)"

lemma json_simps [simp]:
  "json_item (JObj d) key = map_of d key"
  "json_get (JObj d) key = Some (case map_of d key of None \<Rightarrow> JNull | Some x \<Rightarrow> x)"
  "py_str rp (JStr s) = s" "py_float (JInt i) = Some (Fin (of_int i))" "py_float (JFloat x) = Some x"
  "py_int (JInt i) = Some i"
  by (simp_all add: json_item_def json_get_def py_str_def py_float_def py_int_def)

lemma json_uuid_str [simp]: "u < 2 ^ 128 \<Longrightarrow> json_uuid rp (JStr (uuid_str u)) = Some u"
  by (simp add: json_uuid_def uuid_str_roundtrip)

end
