(* ===== verification/Command_Stream.thy ===== *)
theory Command_Stream
  imports Py_Values
begin

section \<open>Commands read from a Redis stream\<close>

text \<open>
  \<open>AlarmCommands\<close> (\<open>app/alarms/commands.py\<close>) and \<open>Writer\<close> (\<open>app/collector/writer.py\<close>) share the
  shape of \<open>run\<close> and \<open>process\<close>: a consumer group reads the stream, first what an earlier process
  read and never acknowledged, then the new entries; each command is executed, its result
  published if it has an identifier, and the entry acknowledged. The operations are stated once,
  over the handler \<open>execute\<close> and its state \<open>'a\<close>; the two services are instances.

  A message is its identifier in the stream and the decoded field \<open>data\<close> (\<open>None\<close> when the field
  is missing or is not JSON). \<open>execute\<close> answers \<open>None\<close> when it raises, keeping what it did before.
  \<open>sv_faults\<close> decides which calls to Redis raise; such an error ends \<open>run\<close>, and the process is
  started again by its supervisor.
\<close>

type_synonym message = "nat \<times> json option"

type_synonym ('e, 'a) execute = "json \<Rightarrow> 'a \<Rightarrow> ('e + unit) option \<times> 'a"

datatype cursor = Unacked | New

record ('e, 'a) service =
  sv_app :: 'a
  sv_entries :: "message list"
  sv_pending :: "message list"
  sv_acked :: "message list"
  sv_answers :: "(string \<times> ('e + unit) option) list"
  sv_cursor :: cursor
  sv_faults :: "bool list"

definition sv_io :: "('e, 'a) service \<Rightarrow> bool \<times> ('e, 'a) service" where
  "sv_io sv = (case sv_faults sv of [] \<Rightarrow> (False, sv) | f # fs \<Rightarrow> (f, sv\<lparr>sv_faults := fs\<rparr>))"

text \<open>\<open>process\<close> up to the result: the command's identifier (empty if unreadable) and the outcome.\<close>

definition command_result ::
  "(json \<Rightarrow> string) \<Rightarrow> ('e, 'a) execute \<Rightarrow> json option \<Rightarrow> 'a \<Rightarrow> (string \<times> ('e + unit) option) \<times> 'a" where
  "command_result rp execute data a =
     (case data of
        None \<Rightarrow> (([], None), a)
      | Some command \<Rightarrow>
          (case json_item command ''command_id'' of
             None \<Rightarrow> (([], None), a)
           | Some cid \<Rightarrow> (case execute command a of (res, a') \<Rightarrow> ((py_str rp cid, res), a'))))"

text \<open>\<open>process\<close>: \<open>True\<close> when a call to Redis raised.\<close>

definition process_command ::
  "(json \<Rightarrow> string) \<Rightarrow> ('e, 'a) execute \<Rightarrow> message \<Rightarrow> ('e, 'a) service \<Rightarrow> bool \<times> ('e, 'a) service" where
  "process_command rp execute m sv =
     (let ((cid, res), a) = command_result rp execute (snd m) (sv_app sv);
          sv1 = sv\<lparr>sv_app := a\<rparr>;
          (failed, sv2) = (if cid = [] then (False, sv1) else sv_io sv1)
      in if failed then (True, sv2)
         else let sv3 = (if cid = [] then sv2 else sv2\<lparr>sv_answers := sv_answers sv2 @ [(cid, res)]\<rparr>);
                  (failed', sv4) = sv_io sv3
              in if failed' then (True, sv4)
                 else (False, sv4\<lparr>sv_pending := remove1 m (sv_pending sv4), sv_acked := sv_acked sv4 @ [m]\<rparr>))"

fun process_batch ::
  "(json \<Rightarrow> string) \<Rightarrow> ('e, 'a) execute \<Rightarrow> message list \<Rightarrow> ('e, 'a) service \<Rightarrow> ('e, 'a) service" where
  "process_batch rp execute [] sv = sv"
| "process_batch rp execute (m # ms) sv =
     (case process_command rp execute m sv of
        (True, sv1) \<Rightarrow> sv1\<lparr>sv_cursor := Unacked\<rparr>
      | (False, sv1) \<Rightarrow> process_batch rp execute ms sv1)"

text \<open>\<open>xreadgroup(..., count=10)\<close>: new entries become pending.\<close>

definition read_group :: "('e, 'a) service \<Rightarrow> message list \<times> ('e, 'a) service" where
  "read_group sv =
     (case sv_cursor sv of
        Unacked \<Rightarrow> (take 10 (sv_pending sv), sv)
      | New \<Rightarrow> (take 10 (sv_entries sv),
               sv\<lparr>sv_entries := drop 10 (sv_entries sv),
                 sv_pending := sv_pending sv @ take 10 (sv_entries sv)\<rparr>))"

text \<open>One turn of the loop of \<open>run\<close>; after an error the next turn is the first of a new process.\<close>

definition service_round ::
  "(json \<Rightarrow> string) \<Rightarrow> ('e, 'a) execute \<Rightarrow> ('e, 'a) service \<Rightarrow> ('e, 'a) service" where
  "service_round rp execute sv =
     (case sv_io sv of
        (True, sv1) \<Rightarrow> sv1\<lparr>sv_cursor := Unacked\<rparr>
      | (False, sv1) \<Rightarrow>
          (let (messages, sv2) = read_group sv1
           in if sv_cursor sv2 = Unacked \<and> messages = [] then sv2\<lparr>sv_cursor := New\<rparr>
              else process_batch rp execute messages sv2))"

definition service_start :: "'a \<Rightarrow> bool list \<Rightarrow> ('e, 'a) service" where
  "service_start a faults =
     \<lparr>sv_app = a, sv_entries = [], sv_pending = [], sv_acked = [], sv_answers = [],
      sv_cursor = Unacked, sv_faults = faults\<rparr>"

lemma service_start_simps [simp]:
  "sv_app (service_start a faults) = a" "sv_acked (service_start a faults) = []"
  "sv_answers (service_start a faults) = []" "sv_faults (service_start a faults) = faults"
  by (simp_all add: service_start_def)

text \<open>The outside world: the API adds entries, the service runs.\<close>

datatype stream_event = Added message | Round

fun stream_step ::
  "(json \<Rightarrow> string) \<Rightarrow> ('e, 'a) execute \<Rightarrow> stream_event \<Rightarrow> ('e, 'a) service \<Rightarrow> ('e, 'a) service" where
  "stream_step rp execute (Added m) sv = sv\<lparr>sv_entries := sv_entries sv @ [m]\<rparr>"
| "stream_step rp execute Round sv = service_round rp execute sv"

definition added :: "stream_event list \<Rightarrow> message list" where
  "added es = concat (map (\<lambda>e. case e of Added m \<Rightarrow> [m] | Round \<Rightarrow> []) es)"

subsection \<open>No command is lost\<close>

definition ledger :: "('e, 'a) service \<Rightarrow> message list" where
  "ledger sv = sv_acked sv @ sv_pending sv @ sv_entries sv"

lemma sv_io_frame [simp]:
  "sv_app (snd (sv_io sv)) = sv_app sv" "sv_entries (snd (sv_io sv)) = sv_entries sv"
  "sv_pending (snd (sv_io sv)) = sv_pending sv" "sv_acked (snd (sv_io sv)) = sv_acked sv"
  "sv_answers (snd (sv_io sv)) = sv_answers sv" "sv_cursor (snd (sv_io sv)) = sv_cursor sv"
  by (simp_all add: sv_io_def split: list.splits)

lemma sv_io_no_fault [simp]: "sv_faults sv = [] \<Longrightarrow> sv_io sv = (False, sv)"
  by (simp add: sv_io_def)

lemma process_command_cases:
  assumes "process_command rp execute m sv = (failed, sv')"
  shows "sv_app sv' = snd (command_result rp execute (snd m) (sv_app sv)) \<and>
    sv_entries sv' = sv_entries sv \<and> sv_cursor sv' = sv_cursor sv \<and>
    (if failed then sv_pending sv' = sv_pending sv \<and> sv_acked sv' = sv_acked sv
     else sv_pending sv' = remove1 m (sv_pending sv) \<and> sv_acked sv' = sv_acked sv @ [m])"
  using assms
  by (auto simp: process_command_def Let_def split_beta split: if_splits)

lemma process_batch_ledger:
  "sv_pending sv = ms @ rest \<Longrightarrow> ledger (process_batch rp execute ms sv) = ledger sv"
proof (induction ms arbitrary: sv)
  case (Cons m ms)
  obtain failed sv1 where p: "process_command rp execute m sv = (failed, sv1)" by fastforce
  note c = process_command_cases [OF p]
  show ?case
  proof (cases failed)
    case True
    with p c show ?thesis by (simp add: ledger_def)
  next
    case False
    with c Cons.prems have "sv_pending sv1 = ms @ rest" "ledger sv1 = ledger sv"
      by (simp_all add: ledger_def)
    with Cons.IH [of sv1] p False show ?thesis by simp
  qed
qed simp

lemma service_round_ledger: "sv_cursor sv = Unacked \<or> sv_pending sv = [] \<Longrightarrow>
    ledger (service_round rp execute sv) = ledger sv"
proof -
  assume c: "sv_cursor sv = Unacked \<or> sv_pending sv = []"
  obtain failed sv1 where io: "sv_io sv = (failed, sv1)" by fastforce
  have s1: "sv_entries sv1 = sv_entries sv" "sv_pending sv1 = sv_pending sv"
    "sv_acked sv1 = sv_acked sv" "sv_cursor sv1 = sv_cursor sv"
    using sv_io_frame [of sv] io by simp_all
  show ?thesis
  proof (cases failed)
    case True
    with io s1 show ?thesis by (simp add: service_round_def ledger_def)
  next
    case f: False
    show ?thesis
    proof (cases "sv_cursor sv")
      case Unacked
      have "ledger (process_batch rp execute (take 10 (sv_pending sv1)) sv1) = ledger sv1"
        by (rule process_batch_ledger [where rest = "drop 10 (sv_pending sv1)"]) simp
      with Unacked io f s1 show ?thesis
        by (simp add: service_round_def read_group_def ledger_def)
    next
      case New
      let ?sv2 = "sv1\<lparr>sv_entries := drop 10 (sv_entries sv1),
        sv_pending := sv_pending sv1 @ take 10 (sv_entries sv1)\<rparr>"
      have "ledger (process_batch rp execute (take 10 (sv_entries sv1)) ?sv2) = ledger ?sv2"
        by (rule process_batch_ledger [where rest = "[]"]) (use c New s1 in simp)
      moreover have "ledger ?sv2 = ledger sv" by (simp add: ledger_def s1)
      ultimately show ?thesis using New io f s1 by (simp add: service_round_def read_group_def)
    qed
  qed
qed

lemma process_batch_cursor:
  "sv_pending sv = ms @ rest \<Longrightarrow>
     sv_cursor (process_batch rp execute ms sv) = Unacked \<or>
     (sv_cursor (process_batch rp execute ms sv) = sv_cursor sv \<and>
      sv_pending (process_batch rp execute ms sv) = rest)"
proof (induction ms arbitrary: sv)
  case (Cons m ms)
  obtain failed sv1 where p: "process_command rp execute m sv = (failed, sv1)" by fastforce
  note c = process_command_cases [OF p]
  show ?case
  proof (cases failed)
    case False
    with c Cons.prems have "sv_pending sv1 = ms @ rest" "sv_cursor sv1 = sv_cursor sv" by simp_all
    with Cons.IH [of sv1] p False show ?thesis by simp
  qed (use p in simp)
qed simp

text \<open>Once the old entries are done, nothing read is left unacknowledged between two turns.\<close>

definition cursor_ok :: "('e, 'a) service \<Rightarrow> bool" where
  "cursor_ok sv \<longleftrightarrow> sv_cursor sv = Unacked \<or> sv_pending sv = []"

lemma service_round_cursor: "cursor_ok sv \<Longrightarrow> cursor_ok (service_round rp execute sv)"
proof -
  assume c: "cursor_ok sv"
  obtain failed sv1 where io: "sv_io sv = (failed, sv1)" by fastforce
  have s1: "sv_pending sv1 = sv_pending sv" "sv_cursor sv1 = sv_cursor sv"
    using sv_io_frame [of sv] io by simp_all
  show ?thesis
  proof (cases failed)
    case True
    with io show ?thesis by (simp add: service_round_def cursor_ok_def)
  next
    case f: False
    show ?thesis
    proof (cases "sv_cursor sv")
      case Unacked
      have "sv_cursor (process_batch rp execute (take 10 (sv_pending sv1)) sv1) = Unacked"
        using process_batch_cursor [of sv1 "take 10 (sv_pending sv1)" "drop 10 (sv_pending sv1)" rp execute]
          s1 Unacked by auto
      with Unacked io f s1 show ?thesis
        by (auto simp: service_round_def read_group_def cursor_ok_def take_eq_Nil)
    next
      case New
      let ?sv2 = "sv1\<lparr>sv_entries := drop 10 (sv_entries sv1),
        sv_pending := sv_pending sv1 @ take 10 (sv_entries sv1)\<rparr>"
      have "cursor_ok (process_batch rp execute (take 10 (sv_entries sv1)) ?sv2)"
        using process_batch_cursor [of ?sv2 "take 10 (sv_entries sv1)" "[]" rp execute] c New s1
        by (auto simp: cursor_ok_def)
      with New io f s1 show ?thesis by (simp add: service_round_def read_group_def)
    qed
  qed
qed

lemma stream_ledger:
  "cursor_ok sv \<Longrightarrow>
     ledger (fold (stream_step rp execute) es sv) = ledger sv @ added es \<and>
     cursor_ok (fold (stream_step rp execute) es sv)"
proof (induction es arbitrary: sv)
  case (Cons e es)
  have "ledger (stream_step rp execute e sv) = ledger sv @ added [e] \<and>
      cursor_ok (stream_step rp execute e sv)"
    using Cons.prems service_round_ledger [of sv rp execute] service_round_cursor [of sv rp execute]
    by (cases e) (auto simp: ledger_def added_def cursor_ok_def)
  with Cons.IH [of "stream_step rp execute e sv"] show ?case by (simp add: added_def)
qed (simp add: added_def)

lemma stream_complete:
  "ledger (fold (stream_step rp execute) es (service_start a faults)) = added es"
  using stream_ledger [of "service_start a faults" rp execute es]
  by (simp add: service_start_def cursor_ok_def ledger_def)

subsection \<open>The answers\<close>

text \<open>What the messages are answered, executed one after the other.\<close>

fun answers_of ::
  "(json \<Rightarrow> string) \<Rightarrow> ('e, 'a) execute \<Rightarrow> message list \<Rightarrow> 'a \<Rightarrow> (string \<times> ('e + unit) option) list \<times> 'a" where
  "answers_of rp execute [] a = ([], a)"
| "answers_of rp execute (m # ms) a =
     (let (ans, a1) = command_result rp execute (snd m) a; (rest, a2) = answers_of rp execute ms a1
      in (if fst ans = [] then rest else ans # rest, a2))"

lemma answers_of_append:
  "answers_of rp execute (xs @ ys) a =
     (let (r1, a1) = answers_of rp execute xs a; (r2, a2) = answers_of rp execute ys a1 in (r1 @ r2, a2))"
  by (induction xs arbitrary: a) (simp_all add: Let_def split_beta)

lemma process_command_ok:
  assumes "sv_faults sv = []"
  shows "process_command rp execute m sv =
    (False, sv\<lparr>sv_app := snd (answers_of rp execute [m] (sv_app sv)),
      sv_answers := sv_answers sv @ fst (answers_of rp execute [m] (sv_app sv)),
      sv_pending := remove1 m (sv_pending sv), sv_acked := sv_acked sv @ [m]\<rparr>)"
  using assms by (simp add: process_command_def Let_def split_beta)

text \<open>\<open>answered\<close>: the answers and the state are those of the acknowledged messages, in order.\<close>

definition answered ::
  "(json \<Rightarrow> string) \<Rightarrow> ('e, 'a) execute \<Rightarrow> 'a \<Rightarrow> ('e, 'a) service \<Rightarrow> bool" where
  "answered rp execute a0 sv \<longleftrightarrow> sv_faults sv = [] \<and>
     answers_of rp execute (sv_acked sv) a0 = (sv_answers sv, sv_app sv)"

lemma process_batch_answered:
  "answered rp execute a0 sv \<Longrightarrow> answered rp execute a0 (process_batch rp execute ms sv)"
proof (induction ms arbitrary: sv)
  case (Cons m ms)
  have nf: "sv_faults sv = []" using Cons.prems by (simp add: answered_def)
  have "answered rp execute a0 (snd (process_command rp execute m sv))"
    using Cons.prems
    by (simp add: answered_def process_command_ok [OF nf] answers_of_append Let_def split_beta)
  with Cons.IH process_command_ok [OF nf, of rp execute m] show ?case by simp
qed simp

lemma stream_answered:
  "answered rp execute a0 sv \<Longrightarrow> answered rp execute a0 (fold (stream_step rp execute) es sv)"
proof (induction es arbitrary: sv)
  case (Cons e es)
  have "answered rp execute a0 (service_round rp execute sv)"
    using Cons.prems process_batch_answered [of rp execute a0]
    by (auto simp: service_round_def read_group_def answered_def split_beta split: cursor.splits)
  with Cons show ?case by (cases e) (simp_all add: answered_def)
qed simp

lemma stream_answers:
  "answers_of rp execute (sv_acked (fold (stream_step rp execute) es (service_start a []))) a =
     (sv_answers (fold (stream_step rp execute) es (service_start a [])),
      sv_app (fold (stream_step rp execute) es (service_start a [])))"
  using stream_answered [of rp execute a "service_start a []" es]
  by (simp add: answered_def service_start_def)

subsection \<open>Services\<close>

text \<open>
  What a command handler owes to the component behind it: every command, even one that raises
  half way, keeps the component's invariant. Then so does the service, whatever fails.
\<close>

locale command_service =
  fixes execute :: "('e, 'a) execute"
    and inv :: "'a \<Rightarrow> bool"
  assumes execute_inv: "inv a \<Longrightarrow> inv (snd (execute command a))"
begin

lemma command_result_inv: "inv a \<Longrightarrow> inv (snd (command_result rp execute data a))"
  by (auto simp: command_result_def split_beta execute_inv split: option.splits)

lemma process_batch_inv: "inv (sv_app sv) \<Longrightarrow> inv (sv_app (process_batch rp execute ms sv))"
proof (induction ms arbitrary: sv)
  case (Cons m ms)
  obtain failed sv1 where p: "process_command rp execute m sv = (failed, sv1)" by fastforce
  with Cons process_command_cases [OF p] command_result_inv show ?case by (cases failed) auto
qed simp

lemma stream_step_inv: "inv (sv_app sv) \<Longrightarrow> inv (sv_app (stream_step rp execute e sv))"
proof (cases e)
  case Round
  assume i: "inv (sv_app sv)"
  obtain failed sv1 where io: "sv_io sv = (failed, sv1)" by fastforce
  have a: "sv_app sv1 = sv_app sv" using sv_io_frame(1) [of sv] io by simp
  with i have "inv (sv_app (process_batch rp execute (fst (read_group sv1)) (snd (read_group sv1))))"
    by (intro process_batch_inv) (simp add: read_group_def split: cursor.splits)
  with i io a Round show ?thesis
    by (cases failed) (auto simp: service_round_def read_group_def split_beta split: cursor.splits)
qed simp

end

sublocale command_service \<subseteq> served: event_driven "stream_step rp execute" "\<lambda>sv. inv (sv_app sv)" for rp
  by unfold_locales (rule stream_step_inv)

end
