(* ===== verification/Alarm_Commands.thy ===== *)
theory Alarm_Commands
  imports Alarm_Engine_Run Command_Stream
begin

section \<open>Commands and messages for the alarm engine\<close>

text \<open>
  \<open>app/alarms/commands.py\<close>: operator acknowledgements from the stream \<open>cmd.alarm\<close>, and
  \<open>app/alarms/runner.py\<close>: the messages of the other services, turned into calls of the engine.
\<close>

subsection \<open>Acknowledgements\<close>

definition MAX_COMMAND_AGE_S :: rat where
  "MAX_COMMAND_AGE_S = 30"

definition ACK_ROLES :: "string list" where
  "ACK_ROLES = [role_value OPERATOR, role_value ENGINEER, role_value ADMIN]"

datatype alarm_refusal = Unknown_Action | Expired | No_Rights | Engine_Refusal ack_error

text \<open>The service's state: the engine and the successive readings of the clock, one per command.\<close>

record alarm_app =
  aa_engine :: engine
  aa_clock :: "time list"

definition aa_now :: "alarm_app \<Rightarrow> time" where
  "aa_now a = (case aa_clock a of [] \<Rightarrow> 0 | t # _ \<Rightarrow> t)"

text \<open>\<open>time.time() - float(issued_at) > max_age\<close>; \<open>None\<close> when the conversion raises.\<close>

definition command_expired :: "rat \<Rightarrow> time \<Rightarrow> json \<Rightarrow> bool option" where
  "command_expired max_age now issued_at =
     (if issued_at = JNull then Some False
      else map_option (\<lambda>t. fl_lt (Fin max_age) (fl_sub (Fin now) t)) (py_float issued_at))"

definition alarm_execute ::
  "(json \<Rightarrow> string) \<Rightarrow> rat \<Rightarrow> (alarm_refusal, alarm_app) execute" where
  "alarm_execute rp max_age command a =
     (let now = aa_now a; a1 = a\<lparr>aa_clock := tl (aa_clock a)\<rparr>; en = aa_engine a in
      case json_get command ''action'' of
        None \<Rightarrow> (None, a1)
      | Some action \<Rightarrow>
          if action \<noteq> JStr ''ack'' then (Some (Inl Unknown_Action), a1)
          else case json_get command ''issued_at'' of
            None \<Rightarrow> (None, a1)
          | Some issued_at \<Rightarrow>
              (case command_expired max_age now issued_at of
                 None \<Rightarrow> (None, a1)
               | Some True \<Rightarrow> (Some (Inl Expired), a1)
               | Some False \<Rightarrow>
                   (case Option.bind (json_item command ''user_id'') (json_uuid rp) of
                      None \<Rightarrow> (None, a1)
                    | Some user_id \<Rightarrow>
                        (case io (en_world en) of
                           (True, w1) \<Rightarrow> (None, a1\<lparr>aa_engine := en\<lparr>en_world := w1\<rparr>\<rparr>)
                         | (False, w1) \<Rightarrow>
                             (let en1 = en\<lparr>en_world := w1\<rparr> in
                              if \<not> (case user_role (aw_db w1) user_id of
                                      None \<Rightarrow> False | Some r \<Rightarrow> r \<in> set ACK_ROLES)
                              then (Some (Inl No_Rights), a1\<lparr>aa_engine := en1\<rparr>)
                              else (case Option.bind (json_item command ''event_id'') (json_uuid rp) of
                                  None \<Rightarrow> (None, a1\<lparr>aa_engine := en1\<rparr>)
                                | Some event_id \<Rightarrow>
                                    (case acknowledge uuid_str now event_id user_id en1 of
                                       (res, en2) \<Rightarrow>
                                         (Some (case res of Inl e \<Rightarrow> Inl (Engine_Refusal e) | Inr u \<Rightarrow> Inr u),
                                          a1\<lparr>aa_engine := en2\<rparr>))))))))"

definition alarm_process ::
  "(json \<Rightarrow> string) \<Rightarrow> rat \<Rightarrow> message \<Rightarrow> (alarm_refusal, alarm_app) service \<Rightarrow>
   bool \<times> (alarm_refusal, alarm_app) service" where
  "alarm_process rp max_age = process_command rp (alarm_execute rp max_age)"

definition alarm_service ::
  "(json \<Rightarrow> string) \<Rightarrow> rat \<Rightarrow> stream_event list \<Rightarrow> alarm_app \<Rightarrow> bool list \<Rightarrow>
   (alarm_refusal, alarm_app) service" where
  "alarm_service rp max_age es a faults =
     fold (stream_step rp (alarm_execute rp max_age)) es (service_start a faults)"

lemma alarm_execute_known:
  "engine_known (aa_engine a) \<Longrightarrow> engine_known (aa_engine (snd (alarm_execute rp max_age command a)))"
  using engine_known_acknowledge
  by (auto simp: alarm_execute_def Let_def split_beta split: option.splits bool.splits)

interpretation alarm_acks: command_service "alarm_execute rp max_age" "\<lambda>a. engine_known (aa_engine a)"
  for rp max_age
  by unfold_locales (rule alarm_execute_known)


subsection \<open>Who may acknowledge\<close>

definition engine_db :: "alarm_app \<Rightarrow> database" where
  "engine_db a = aw_db (en_world (aa_engine a))"

lemma role_in_ack_roles: "r \<in> set ACK_ROLES \<longleftrightarrow> r = ''operator'' \<or> r = ''engineer'' \<or> r = ''admin''"
  by (simp add: ACK_ROLES_def)

text \<open>
  Only operators acknowledge: a command that the service accepts names an active user whose
  role, read again in the database, is operator, engineer or admin, and was issued at most
  \<open>max_age\<close> seconds ago if it says when; any other command leaves the machines, the table of
  alarms and the published messages unchanged.
\<close>

theorem acknowledgement_authorised:
  assumes "alarm_execute rp max_age command a = (res, a')"
  shows "(\<exists>user_id u r. json_uuid rp (the (json_item command ''user_id'')) = Some user_id \<and>
       map_of (db_users (engine_db a)) user_id = Some u \<and> us_active u \<and>
       map_of (db_roles (engine_db a)) (us_role_id u) = Some r \<and>
       r \<in> {''operator'', ''engineer'', ''admin''} \<and>
       json_get command ''action'' = Some (JStr ''ack'') \<and>
       command_expired max_age (aa_now a) (the (json_get command ''issued_at'')) = Some False)
   \<or> (res \<noteq> Some (Inr ()) \<and> en_rules (aa_engine a') = en_rules (aa_engine a) \<and>
      engine_db a' = engine_db a \<and> aw_bus (en_world (aa_engine a')) = aw_bus (en_world (aa_engine a)) \<and>
      aw_sent (en_world (aa_engine a')) = aw_sent (en_world (aa_engine a)))"
proof (rule ccontr)
  assume n: "\<not> ?thesis"
  obtain f w1 where io: "io (en_world (aa_engine a)) = (f, w1)" by fastforce
  have w1: "aw_db w1 = engine_db a" "aw_bus w1 = aw_bus (en_world (aa_engine a))"
    "aw_sent w1 = aw_sent (en_world (aa_engine a))"
    using io_cases [OF io] by (simp_all add: engine_db_def)
  from n assms io w1 show False
    by (auto simp: alarm_execute_def Let_def engine_db_def user_role_def role_in_ack_roles
        bind_eq_Some_conv split: option.splits bool.splits if_splits)
qed

subsection \<open>Messages of the other services\<close>

definition VALUE_PREFIX :: string where
  "VALUE_PREFIX = ''point.value.''"

definition point_value_channel :: "uuid \<Rightarrow> string" where
  "point_value_channel p = VALUE_PREFIX @ uuid_str p"

definition CHANNEL_DEVICE_STATUS :: string where "CHANNEL_DEVICE_STATUS = ''device.status''"
definition CHANNEL_BACNET_EVENT :: string where "CHANNEL_BACNET_EVENT = ''bacnet.event''"
definition CHANNEL_ALARM_RULES :: string where "CHANNEL_ALARM_RULES = ''alarm.rules''"

text \<open>
  The value of a message: a number or null (a boolean counts as 0 or 1 in comparisons). The
  collector publishes nothing else; a text or a container, on which the comparisons of the engine
  would raise, is treated as an unreadable message.
\<close>

definition value_of :: "json \<Rightarrow> pyfloat option option" where
  "value_of v =
     (case v of
        JNull \<Rightarrow> Some None
      | JStr _ \<Rightarrow> None | JList _ \<Rightarrow> None | JObj _ \<Rightarrow> None
      | _ \<Rightarrow> map_option Some (py_float v))"

text \<open>
  \<open>dispatch\<close>: the handler a message calls, \<open>None\<close> when it raises before calling one (the loop
  logs it and goes on) or when the channel is unknown. \<open>data\<close> is the decoded payload.
\<close>

definition dispatch ::
  "(json \<Rightarrow> string) \<Rightarrow> time \<Rightarrow> time \<Rightarrow> string \<Rightarrow> json option \<Rightarrow> alarm_input option" where
  "dispatch rp clock wall channel data =
     (if starts_with VALUE_PREFIX channel then
        Option.bind data (\<lambda>payload.
        Option.bind (uuid_of_str (drop (length VALUE_PREFIX) channel)) (\<lambda>pid.
        Option.bind (json_get payload ''value'') (\<lambda>v.
        Option.bind (value_of v) (\<lambda>value. Some (Value_In clock wall pid value)))))
      else if channel = CHANNEL_DEVICE_STATUS then
        Option.bind data (\<lambda>payload.
        Option.bind (json_item payload ''device_id'') (\<lambda>d.
        Option.bind (case d of JStr s \<Rightarrow> uuid_of_str s | _ \<Rightarrow> None) (\<lambda>did.
        Option.bind (json_item payload ''online'') (\<lambda>online.
          Some (Device_In clock wall did (py_bool online))))))
      else if channel = CHANNEL_BACNET_EVENT then
        Option.bind data (\<lambda>payload.
        Option.bind (Option.bind (json_item payload ''device_instance'') py_int) (\<lambda>di.
        Option.bind (map_option (py_str rp) (json_item payload ''object_type'')) (\<lambda>ot.
        Option.bind (Option.bind (json_item payload ''object_instance'') py_int) (\<lambda>oi.
        Option.bind (map_option (py_str rp) (json_item payload ''to_state'')) (\<lambda>st.
          Some (Bacnet_In clock wall di ot oi st))))))
      else if channel = CHANNEL_ALARM_RULES then Some (Load_In clock wall)
      else None)"

definition dispatched ::
  "(json \<Rightarrow> string) \<Rightarrow> time \<Rightarrow> time \<Rightarrow> string \<Rightarrow> json option \<Rightarrow> engine \<Rightarrow> engine" where
  "dispatched rp clock wall channel data en =
     (case dispatch rp clock wall channel data of None \<Rightarrow> en | Some i \<Rightarrow> engine_step uuid_str i en)"

lemma value_dispatched:
  assumes "p < 2 ^ 128" and "map_of payload ''value'' = Some (case v of None \<Rightarrow> JNull | Some x \<Rightarrow> JFloat x)"
  shows "dispatched rp clock wall (point_value_channel p) (Some (JObj payload)) en =
    on_value clock wall p v en"
proof -
  have "uuid_of_str (drop (length VALUE_PREFIX) (point_value_channel p)) = Some p"
    using assms(1) by (simp add: point_value_channel_def uuid_str_roundtrip)
  moreover have "starts_with VALUE_PREFIX (point_value_channel p)"
    by (simp add: starts_with_def point_value_channel_def)
  ultimately show ?thesis
    using assms(2) by (cases v) (simp_all add: dispatched_def dispatch_def value_of_def)
qed

text \<open>
  What the collector publishes for a point reaches the rules of that point: on the channel
  named after the point, a payload with a value or null is handed to \<open>on_value\<close> with this point
  and this value.
\<close>

theorem published_value_reaches_rules:
  assumes "p < 2 ^ 128" and "map_of payload ''value'' = Some (case v of None \<Rightarrow> JNull | Some x \<Rightarrow> JFloat x)"
  shows "dispatched rp clock wall (point_value_channel p) (Some (JObj payload)) en =
    on_value clock wall p v en"
  using assms by (rule value_dispatched)

definition example_users :: "database \<Rightarrow> database" where
  "example_users db = db\<lparr>db_roles := [(5, ''operator'')],
     db_users := [(6, \<lparr>us_login = ''ops'', us_password_hash = ''x'', us_role_id = 5, us_active = True\<rparr>)]\<rparr>"

definition example_app :: alarm_app where
  "example_app = \<lparr>aa_engine = fold (engine_step uuid_str) [Load_In 0 0, Value_In 1 1 3 (Some (Fin 31))]
     (engine_start (example_world\<lparr>aw_db := example_users example_db\<rparr>)), aa_clock = [2]\<rparr>"

definition example_ack :: json where
  "example_ack = JObj [(''action'', JStr ''ack''), (''event_id'', JStr (uuid_str 10)),
     (''user_id'', JStr (uuid_str 6)), (''issued_at'', JInt 1)]"

theorem acknowledgement_authorised_witness:
  "fst (alarm_execute (\<lambda>_. []) MAX_COMMAND_AGE_S example_ack example_app) = Some (Inr ()) \<and>
   (\<exists>user_id u r. json_uuid (\<lambda>_. []) (the (json_item example_ack ''user_id'')) = Some user_id \<and>
       map_of (db_users (engine_db example_app)) user_id = Some u \<and> us_active u \<and>
       map_of (db_roles (engine_db example_app)) (us_role_id u) = Some r \<and>
       r \<in> {''operator'', ''engineer'', ''admin''})"
proof
  show a: "fst (alarm_execute (\<lambda>_. []) MAX_COMMAND_AGE_S example_ack example_app) = Some (Inr ())"
    by code_simp
  obtain res a' where e: "alarm_execute (\<lambda>_. []) MAX_COMMAND_AGE_S example_ack example_app = (res, a')"
    by (metis surj_pair)
  with a have "res = Some (Inr ())" by simp
  with acknowledgement_authorised [OF e]
  show "\<exists>user_id u r. json_uuid (\<lambda>_. []) (the (json_item example_ack ''user_id'')) = Some user_id \<and>
       map_of (db_users (engine_db example_app)) user_id = Some u \<and> us_active u \<and>
       map_of (db_roles (engine_db example_app)) (us_role_id u) = Some r \<and>
       r \<in> {''operator'', ''engineer'', ''admin''}"
    by blast
qed

theorem published_value_reaches_rules_witness:
  "dispatched (\<lambda>_. []) 1 1 (point_value_channel 3) (Some (JObj [(''value'', JFloat (Fin 31))]))
      (engine_start example_world) = on_value 1 1 3 (Some (Fin 31)) (engine_start example_world)"
  by (rule published_value_reaches_rules) simp_all

end
