(* ===== verification/Alarm_Notifier.thy ===== *)
theory Alarm_Notifier
  imports Alarm_Store
begin

section \<open>Notifications\<close>

text \<open>
  \<open>app/alarms/notifier.py\<close> and \<open>senders.py\<close>: from a notification to the messages sent. A
  notification goes to the targets of its channels; per target, \<open>threshold\<close> of them per window
  leave alone, the others are gathered in a digest that leaves when the window closes. The queue
  is kept as the list of all jobs ever queued, in order; \<open>deliver\<close> is what the consumer does with
  one of them. The sender itself (SMTP, HTTP) is a parameter: whether its n-th attempt raises.
\<close>

type_synonym target = "string \<times> string"

record job =
  jb_target :: target
  jb_items :: "notification list"
  jb_digest :: bool

record digest =
  dg_due_at :: time
  dg_items :: "notification list"

record notifier =
  nf_default_email :: "string list"
  nf_threshold :: int
  nf_window_s :: time
  nf_recent :: "(target, time list) dict"
  nf_digests :: "(target, digest) dict"
  nf_queue :: "job list"

definition notifier_init :: "string list \<Rightarrow> int \<Rightarrow> time \<Rightarrow> notifier" where
  "notifier_init emails threshold window =
     \<lparr>nf_default_email = emails, nf_threshold = threshold, nf_window_s = window, nf_recent = [],
      nf_digests = [], nf_queue = []\<rparr>"

definition targets :: "string list \<Rightarrow> string \<Rightarrow> target list" where
  "targets default_email channel =
     (let (k, _, target) = partition_at (CHR '':'') channel in
      if k = ''email'' \<and> target = [] then map (\<lambda>address. (''email'', address)) default_email
      else if target \<noteq> [] then [(k, target)] else [])"

definition route :: "target \<Rightarrow> notification \<Rightarrow> time \<Rightarrow> notifier \<Rightarrow> notifier" where
  "route key n now nf =
     (let recent = dropWhile (\<lambda>t. now - t \<ge> nf_window_s nf)
            (case map_of (nf_recent nf) key of None \<Rightarrow> [] | Some ts \<Rightarrow> ts);
          nf1 = nf\<lparr>nf_recent := AList.update key recent (nf_recent nf)\<rparr>
      in case map_of (nf_digests nf) key of
           Some d \<Rightarrow>
             nf1\<lparr>nf_digests := AList.update key (d\<lparr>dg_items := dg_items d @ [n]\<rparr>) (nf_digests nf)\<rparr>
         | None \<Rightarrow>
             if int (length recent) \<ge> nf_threshold nf then
               nf1\<lparr>nf_digests := AList.update key
                 \<lparr>dg_due_at = (case recent of [] \<Rightarrow> now | t # _ \<Rightarrow> t) + nf_window_s nf,
                  dg_items = [n]\<rparr> (nf_digests nf)\<rparr>
             else
               nf1\<lparr>nf_recent := AList.update key (recent @ [now]) (nf_recent nf1),
                 nf_queue := nf_queue nf @ [\<lparr>jb_target = key, jb_items = [n], jb_digest = False\<rparr>]\<rparr>)"

definition submit :: "notification \<Rightarrow> time \<Rightarrow> notifier \<Rightarrow> notifier" where
  "submit n now nf =
     fold (\<lambda>key. route key n now) (concat (map (targets (nf_default_email nf)) (no_channels n))) nf"

definition flush_one :: "target \<Rightarrow> notifier \<Rightarrow> notifier" where
  "flush_one key nf =
     (case map_of (nf_digests nf) key of
        None \<Rightarrow> nf
      | Some d \<Rightarrow>
          nf\<lparr>nf_digests := AList.delete key (nf_digests nf),
            nf_queue := nf_queue nf @ [\<lparr>jb_target = key, jb_items = dg_items d, jb_digest = True\<rparr>]\<rparr>)"

definition flush_due :: "time \<Rightarrow> notifier \<Rightarrow> nat \<times> notifier" where
  "flush_due now nf =
     (let due = map fst (List.filter (\<lambda>(key, d). now \<ge> dg_due_at d) (nf_digests nf))
      in (length due, fold flush_one due nf))"

subsection \<open>Delivery\<close>

text \<open>The calls of one delivery, in order: an attempt to send, and the pauses between them.\<close>

datatype delivery_step = Attempt job | Sleep time

fun attempts_from ::
  "nat \<Rightarrow> nat \<Rightarrow> nat \<Rightarrow> time \<Rightarrow> (nat \<Rightarrow> bool) \<Rightarrow> job \<Rightarrow> bool \<times> delivery_step list" where
  "attempts_from 0 attempt n delay raises job = (False, [])"
| "attempts_from (Suc left) attempt n delay raises job =
     (if \<not> raises attempt then (True, [Attempt job])
      else let (sent, steps) = attempts_from left (Suc attempt) n delay raises job
           in (sent, Attempt job # (if attempt < n then [Sleep (delay * 2 ^ (attempt - 1))] else []) @ steps))"

definition deliver ::
  "string set \<Rightarrow> nat \<Rightarrow> time \<Rightarrow> (nat \<Rightarrow> bool) \<Rightarrow> job \<Rightarrow> bool \<times> delivery_step list" where
  "deliver senders n delay raises job =
     (if fst (jb_target job) \<notin> senders then (False, [])
      else attempts_from n 1 n delay raises job)"

lemma attempts_from_sent:
  "fst (attempts_from left attempt n delay raises job) \<longleftrightarrow>
     (\<exists>k \<in> {attempt..<attempt + left}. \<not> raises k)"
proof (induction left arbitrary: attempt)
  case (Suc left)
  have "{attempt..<attempt + Suc left} = insert attempt {Suc attempt..<Suc attempt + left}" by auto
  with Suc.IH [of "Suc attempt"] show ?case by (auto simp: split_beta)
qed simp

lemma attempts_from_steps:
  "length (List.filter (\<lambda>s. case s of Attempt _ \<Rightarrow> True | Sleep _ \<Rightarrow> False)
     (snd (attempts_from left attempt n delay raises job))) \<le> left"
  by (induction left arbitrary: attempt) (auto simp: split_beta)


subsection \<open>Nothing is lost, order is kept\<close>

datatype notifier_input = Submit time notification | Flush time

fun notifier_step :: "notifier_input \<Rightarrow> notifier \<Rightarrow> notifier" where
  "notifier_step (Submit now n) nf = submit n now nf"
| "notifier_step (Flush now) nf = snd (flush_due now nf)"

definition queued_for :: "target \<Rightarrow> notifier \<Rightarrow> notification list" where
  "queued_for key nf =
     concat (map jb_items (List.filter (\<lambda>j. jb_target j = key) (nf_queue nf)))"

definition waiting_for :: "target \<Rightarrow> notifier \<Rightarrow> notification list" where
  "waiting_for key nf = (case map_of (nf_digests nf) key of None \<Rightarrow> [] | Some d \<Rightarrow> dg_items d)"

definition routed_to :: "string list \<Rightarrow> target \<Rightarrow> notifier_input list \<Rightarrow> notification list" where
  "routed_to emails key inputs =
     concat (map (\<lambda>i. case i of
         Flush _ \<Rightarrow> []
       | Submit _ n \<Rightarrow>
           map (\<lambda>_. n) (List.filter (\<lambda>k. k = key) (concat (map (targets emails) (no_channels n))))) inputs)"

lemma route_account:
  "queued_for key (route k n now nf) @ waiting_for key (route k n now nf) =
     queued_for key nf @ waiting_for key nf @ (if k = key then [n] else [])"
  by (auto simp: route_def queued_for_def waiting_for_def Let_def split: option.splits)

lemma route_const [simp]:
  "nf_default_email (route k n now nf) = nf_default_email nf"
  "nf_threshold (route k n now nf) = nf_threshold nf" "nf_window_s (route k n now nf) = nf_window_s nf"
  by (auto simp: route_def Let_def split: option.splits)

lemma fold_route_account:
  "queued_for key (fold (\<lambda>k. route k n now) ks nf) @ waiting_for key (fold (\<lambda>k. route k n now) ks nf) =
     queued_for key nf @ waiting_for key nf @ map (\<lambda>_. n) (List.filter (\<lambda>k. k = key) ks)"
proof (induction ks arbitrary: nf)
  case (Cons k ks)
  have "queued_for key (route k n now nf) @ waiting_for key (route k n now nf) @ xs =
      queued_for key nf @ waiting_for key nf @ (if k = key then [n] else []) @ xs" for xs
    using route_account [of key k n now nf] by (metis append_assoc)
  then show ?case using Cons.IH [of "route k n now nf"] by auto
qed simp

lemma fold_route_const [simp]:
  "nf_default_email (fold (\<lambda>k. route k n now) ks nf) = nf_default_email nf"
  "nf_threshold (fold (\<lambda>k. route k n now) ks nf) = nf_threshold nf"
  "nf_window_s (fold (\<lambda>k. route k n now) ks nf) = nf_window_s nf"
  by (induction ks arbitrary: nf) simp_all

lemma flush_one_account:
  "queued_for key (flush_one k nf) @ waiting_for key (flush_one k nf) =
     queued_for key nf @ waiting_for key nf"
  by (auto simp: flush_one_def queued_for_def waiting_for_def split: option.splits)

lemma flush_one_const [simp]:
  "nf_default_email (flush_one k nf) = nf_default_email nf"
  "nf_threshold (flush_one k nf) = nf_threshold nf" "nf_window_s (flush_one k nf) = nf_window_s nf"
  "nf_recent (flush_one k nf) = nf_recent nf"
  by (auto simp: flush_one_def split: option.splits)

lemma fold_flush_account:
  "queued_for key (fold flush_one ks nf) @ waiting_for key (fold flush_one ks nf) =
     queued_for key nf @ waiting_for key nf"
  by (induction ks arbitrary: nf) (simp_all add: flush_one_account)

lemma fold_flush_const [simp]:
  "nf_default_email (fold flush_one ks nf) = nf_default_email nf"
  "nf_threshold (fold flush_one ks nf) = nf_threshold nf"
  "nf_window_s (fold flush_one ks nf) = nf_window_s nf"
  "nf_recent (fold flush_one ks nf) = nf_recent nf"
  by (induction ks arbitrary: nf) simp_all

lemma notifier_step_const [simp]:
  "nf_default_email (notifier_step i nf) = nf_default_email nf"
  "nf_threshold (notifier_step i nf) = nf_threshold nf"
  "nf_window_s (notifier_step i nf) = nf_window_s nf"
  by (cases i; simp add: submit_def flush_due_def Let_def)+

lemma notifier_step_account:
  "queued_for key (notifier_step i nf) @ waiting_for key (notifier_step i nf) =
     queued_for key nf @ waiting_for key nf @ routed_to (nf_default_email nf) key [i]"
  by (cases i)
    (simp_all add: submit_def flush_due_def fold_route_account fold_flush_account routed_to_def Let_def)

text \<open>
  No notification is lost and the order is kept: for every target, the notifications queued
  (alone or in a digest), followed by those that wait in the current digest, are exactly the
  ones routed to the target, in the order in which they were submitted.
\<close>

theorem notifications_conserved:
  "queued_for key (fold notifier_step inputs (notifier_init emails threshold window)) @
     waiting_for key (fold notifier_step inputs (notifier_init emails threshold window)) =
   routed_to emails key inputs"
proof -
  have "queued_for key (fold notifier_step inputs nf) @ waiting_for key (fold notifier_step inputs nf) =
      queued_for key nf @ waiting_for key nf @ routed_to (nf_default_email nf) key inputs" for nf
  proof (induction inputs arbitrary: nf)
    case Nil
    then show ?case by (simp add: routed_to_def)
  next
    case (Cons i inputs)
    have "routed_to e key (i # inputs) = routed_to e key [i] @ routed_to e key inputs" for e
      by (simp add: routed_to_def)
    moreover have "queued_for key (notifier_step i nf) @ waiting_for key (notifier_step i nf) @ xs =
        queued_for key nf @ waiting_for key nf @ routed_to (nf_default_email nf) key [i] @ xs" for xs
      using notifier_step_account [of key i nf] by (metis append_assoc)
    ultimately show ?case using Cons.IH [of "notifier_step i nf"] by simp
  qed
  then show ?thesis
    by (simp add: notifier_init_def queued_for_def waiting_for_def)
qed

subsection \<open>The rate limit\<close>

definition singles_for :: "target \<Rightarrow> notifier \<Rightarrow> nat" where
  "singles_for key nf =
     length (List.filter (\<lambda>j. jb_target j = key \<and> \<not> jb_digest j) (nf_queue nf))"

definition recent_for :: "target \<Rightarrow> notifier \<Rightarrow> time list" where
  "recent_for key nf = (case map_of (nf_recent nf) key of None \<Rightarrow> [] | Some ts \<Rightarrow> ts)"

fun input_time :: "notifier_input \<Rightarrow> time" where
  "input_time (Submit now _) = now"
| "input_time (Flush now) = now"

text \<open>\<open>paced t0 c nf\<close>: since the instant \<open>t0\<close> of a window that began with \<open>c\<close> singles.\<close>

definition paced :: "target \<Rightarrow> time \<Rightarrow> nat \<Rightarrow> notifier \<Rightarrow> bool" where
  "paced key t0 c nf \<longleftrightarrow> c \<le> singles_for key nf \<and>
     (\<exists>old new. recent_for key nf = old @ new \<and> (\<forall>t \<in> set new. t0 \<le> t) \<and>
        length new = singles_for key nf - c) \<and>
     int (length (recent_for key nf)) \<le> max 0 (nf_threshold nf)"

lemma dropWhile_tail:
  "\<forall>t \<in> set new. \<not> P t \<Longrightarrow> \<exists>old'. dropWhile P (old @ new) = old' @ new \<and> length old' \<le> length old"
proof (induction old)
  case Nil
  then show ?case by (cases new) auto
next
  case (Cons a old)
  then obtain old' where "dropWhile P (old @ new) = old' @ new" "length old' \<le> length old" by blast
  then show ?case
    by (cases "P a") (auto intro: exI [of _ old'] exI [of _ "a # old"])
qed

lemma paced_route:
  assumes p: "paced key t0 c nf" and now: "t0 \<le> now" "now < t0 + nf_window_s nf"
  shows "paced key t0 c (route k n now nf)"
proof (cases "k = key")
  case False
  then have "singles_for key (route k n now nf) = singles_for key nf"
    "recent_for key (route k n now nf) = recent_for key nf"
    by (auto simp: singles_for_def recent_for_def route_def Let_def split: option.splits)
  with p show ?thesis by (simp add: paced_def)
next
  case True
  obtain old new where s: "recent_for key nf = old @ new" "\<forall>t \<in> set new. t0 \<le> t"
    "length new = singles_for key nf - c" and c: "c \<le> singles_for key nf"
    and len: "int (length (old @ new)) \<le> max 0 (nf_threshold nf)"
    using p by (auto simp: paced_def)
  let ?recent = "dropWhile (\<lambda>t. now - t \<ge> nf_window_s nf) (old @ new)"
  have "\<forall>t \<in> set new. \<not> now - t \<ge> nf_window_s nf"
    using s(2) now(2) by fastforce
  from dropWhile_tail [OF this, of old] obtain old' where
    r: "?recent = old' @ new" "length old' \<le> length old" by blast
  have rec: "(case map_of (nf_recent nf) key of None \<Rightarrow> [] | Some ts \<Rightarrow> ts) = old @ new"
    using s(1) by (simp add: recent_for_def)
  show ?thesis
  proof (cases "map_of (nf_digests nf) key = None \<and> \<not> int (length ?recent) \<ge> nf_threshold nf")
    case single: True
    then have "singles_for key (route k n now nf) = Suc (singles_for key nf)"
      "recent_for key (route k n now nf) = old' @ new @ [now]"
      using True rec r(1) by (simp_all add: singles_for_def recent_for_def route_def Let_def)
    with single s(2,3) c now(1) r(1) show ?thesis
      unfolding paced_def by (intro conjI exI [of _ old'] exI [of _ "new @ [now]"]) auto
  next
    case False
    then have "singles_for key (route k n now nf) = singles_for key nf"
      "recent_for key (route k n now nf) = old' @ new"
      using True rec r(1)
      by (auto simp: singles_for_def recent_for_def route_def Let_def split: option.splits)
    with s(2,3) c r(2) len show ?thesis by (auto simp: paced_def)
  qed
qed

lemma paced_fold_route:
  "paced key t0 c nf \<Longrightarrow> t0 \<le> now \<Longrightarrow> now < t0 + nf_window_s nf \<Longrightarrow>
     paced key t0 c (fold (\<lambda>k. route k n now) ks nf)"
  by (induction ks arbitrary: nf) (simp_all add: paced_route)

lemma singles_flush [simp]: "singles_for key (fold flush_one ks nf) = singles_for key nf"
proof (induction ks arbitrary: nf)
  case (Cons k ks)
  have "singles_for key (flush_one k nf) = singles_for key nf"
    by (auto simp: singles_for_def flush_one_def split: option.splits)
  with Cons show ?case by simp
qed simp

lemma paced_step:
  assumes "paced key t0 c nf" "t0 \<le> input_time i" "input_time i < t0 + nf_window_s nf"
  shows "paced key t0 c (notifier_step i nf)"
proof (cases i)
  case (Submit now n)
  with assms show ?thesis by (simp add: submit_def paced_fold_route)
next
  case (Flush now)
  with assms show ?thesis
    by (simp add: flush_due_def Let_def paced_def recent_for_def)
qed

lemma recent_bounded:
  "int (length (recent_for key (fold notifier_step inputs (notifier_init e threshold w))))
     \<le> max 0 threshold"
proof -
  have r: "int (length (recent_for key (route k n now nf))) \<le> max 0 (nf_threshold nf)"
    if "int (length (recent_for key nf)) \<le> max 0 (nf_threshold nf)" for k n now nf
    using that length_dropWhile_le [of "\<lambda>t. now - t \<ge> nf_window_s nf" "recent_for key nf"]
    by (auto simp: recent_for_def route_def Let_def split: option.splits)
  have f: "int (length (recent_for key (fold (\<lambda>k. route k n now) ks nf))) \<le> max 0 (nf_threshold nf)"
    if "int (length (recent_for key nf)) \<le> max 0 (nf_threshold nf)" for n now ks nf
    using that
  proof (induction ks arbitrary: nf)
    case (Cons k ks)
    from Cons.IH [of "route k n now nf"] r [OF Cons.prems, of k n now] show ?case by simp
  qed simp
  have s: "int (length (recent_for key (notifier_step i nf))) \<le> max 0 (nf_threshold nf)"
    if "int (length (recent_for key nf)) \<le> max 0 (nf_threshold nf)" for i nf
  proof (cases i)
    case (Submit now n)
    with f [OF that] show ?thesis by (simp add: submit_def)
  next
    case (Flush now)
    with that show ?thesis by (simp add: flush_due_def Let_def recent_for_def)
  qed
  have "int (length (recent_for key (fold notifier_step inputs nf))) \<le> max 0 (nf_threshold nf)"
    if "int (length (recent_for key nf)) \<le> max 0 (nf_threshold nf)" for nf
    using that
  proof (induction inputs arbitrary: nf)
    case (Cons i inputs)
    from Cons.IH [of "notifier_step i nf"] s [OF Cons.prems, of i] show ?case by simp
  qed simp
  from this [of "notifier_init e threshold w"] show ?thesis
    by (simp add: notifier_init_def recent_for_def)
qed


definition example_notification :: notification where
  "example_notification =
     build_notification
       \<lparr>ai_event_id = 10, ai_rule_id = 4, ai_rule_name = None, ai_kind = HIGH, ai_severity = CRITICAL,
        ai_state = ACTIVE_UNACKED, ai_point_id = 3, ai_point_name = ''temp'', ai_path = None,
        ai_unit = None, ai_threshold = Some (Fin 30), ai_value = Some (Fin 31),
        ai_raised_at = 1, ai_acked_at = None, ai_acked_by = None, ai_cleared_at = None\<rparr>
       T_RAISED [''email'']"

definition example_notifier :: notifier where
  "example_notifier = fold notifier_step [] (notifier_init [''ops''] 2 60)"

definition example_inputs :: "notifier_input list" where
  "example_inputs = map (\<lambda>t. Submit t example_notification) [1, 2, 3]"


end
