(* ===== verification/Alarm_Delivery.thy ===== *)
theory Alarm_Delivery
  imports Alarm_Notifier
begin

section \<open>The running notifier\<close>

text \<open>
  \<open>Notifier.run\<close> of \<open>app/alarms/notifier.py\<close>: one consumer takes the jobs of the queue one after the other and
  delivers each before it takes the next, while notifications are submitted and digests leave at
  any moment in between.
\<close>

record running_notifier =
  rn_notifier :: notifier
  rn_done :: "(job \<times> bool) list"
  rn_calls :: "delivery_step list"

text \<open>\<open>Consume raises\<close> is a turn of the loop of \<open>run\<close>; \<open>raises k\<close> says whether the k-th attempt of the sender raises.\<close>

datatype delivery_event = Notify_Input notifier_input | Consume "nat \<Rightarrow> bool"

definition consume :: "string set \<Rightarrow> nat \<Rightarrow> time \<Rightarrow> (nat \<Rightarrow> bool) \<Rightarrow> running_notifier \<Rightarrow> running_notifier" where
  "consume senders n delay raises rn =
     (case nf_queue (rn_notifier rn) of
        [] \<Rightarrow> rn
      | job # jobs \<Rightarrow>
          (let (sent, steps) = deliver senders n delay raises job
           in rn\<lparr>rn_notifier := (rn_notifier rn)\<lparr>nf_queue := jobs\<rparr>, rn_done := rn_done rn @ [(job, sent)],
                rn_calls := rn_calls rn @ steps\<rparr>))"

fun delivery_run_step ::
  "string set \<Rightarrow> nat \<Rightarrow> time \<Rightarrow> delivery_event \<Rightarrow> running_notifier \<Rightarrow> running_notifier" where
  "delivery_run_step senders n delay (Notify_Input i) rn = rn\<lparr>rn_notifier := notifier_step i (rn_notifier rn)\<rparr>"
| "delivery_run_step senders n delay (Consume raises) rn = consume senders n delay raises rn"

definition running_init :: "string list \<Rightarrow> int \<Rightarrow> time \<Rightarrow> running_notifier" where
  "running_init emails threshold window =
     \<lparr>rn_notifier = notifier_init emails threshold window, rn_done = [], rn_calls = []\<rparr>"

text \<open>The notifications that reached a target, and those taken from the queue for it, in order.\<close>

definition delivered_to :: "target \<Rightarrow> running_notifier \<Rightarrow> notification list" where
  "delivered_to key rn =
     concat (map (\<lambda>(j, sent). jb_items j) (List.filter (\<lambda>(j, sent). jb_target j = key \<and> sent) (rn_done rn)))"

definition taken_for :: "target \<Rightarrow> running_notifier \<Rightarrow> notification list" where
  "taken_for key rn =
     concat (map (\<lambda>(j, sent). jb_items j) (List.filter (\<lambda>(j, sent). jb_target j = key) (rn_done rn)))"

definition inputs_of :: "delivery_event list \<Rightarrow> notifier_input list" where
  "inputs_of es = concat (map (\<lambda>e. case e of Notify_Input i \<Rightarrow> [i] | Consume _ \<Rightarrow> []) es)"

text \<open>Every notification routed to a target is taken, in a job of the queue, or waits for a digest.\<close>

definition accounted :: "string list \<Rightarrow> target \<Rightarrow> notification list \<Rightarrow> running_notifier \<Rightarrow> bool" where
  "accounted emails key ns rn \<longleftrightarrow> nf_default_email (rn_notifier rn) = emails \<and>
     taken_for key rn @ queued_for key (rn_notifier rn) @ waiting_for key (rn_notifier rn) = ns"

lemma accounted_step:
  assumes "accounted emails key ns rn"
  shows "accounted emails key (ns @ routed_to emails key (inputs_of [e])) (delivery_run_step senders n delay e rn)"
proof (cases e)
  case (Notify_Input i)
  have "taken_for key rn @ queued_for key (rn_notifier rn) @ waiting_for key (rn_notifier rn) @ xs = ns @ xs" for xs
    using assms unfolding accounted_def by (metis append_assoc)
  with Notify_Input assms show ?thesis
    by (simp add: accounted_def inputs_of_def notifier_step_account) (simp add: taken_for_def)
next
  case (Consume raises)
  then show ?thesis
    using assms
    by (cases "nf_queue (rn_notifier rn)")
      (auto simp: accounted_def inputs_of_def routed_to_def consume_def taken_for_def queued_for_def waiting_for_def
        split_beta Let_def)
qed

lemma accounted_run:
  "accounted emails key ns rn \<Longrightarrow>
     accounted emails key (ns @ routed_to emails key (inputs_of es)) (fold (delivery_run_step senders n delay) es rn)"
proof (induction es arbitrary: ns rn)
  case Nil
  then show ?case by (simp add: inputs_of_def routed_to_def)
next
  case (Cons e es)
  from Cons.IH [OF accounted_step [OF Cons.prems]] show ?case by (simp add: inputs_of_def routed_to_def)
qed

text \<open>A job is sent as soon as one of the attempts made for it does not raise.\<close>

lemma consumed_sent:
  assumes "list_all (\<lambda>d. fst (jb_target (fst d)) \<in> senders \<longrightarrow> snd d) (rn_done rn)"
    and "\<And>raises. Consume raises \<in> set es \<Longrightarrow> \<exists>k \<in> {1..n}. \<not> raises k"
  shows "list_all (\<lambda>d. fst (jb_target (fst d)) \<in> senders \<longrightarrow> snd d)
    (rn_done (fold (delivery_run_step senders n delay) es rn))"
  using assms
proof (induction es arbitrary: rn)
  case (Cons e es)
  have "list_all (\<lambda>d. fst (jb_target (fst d)) \<in> senders \<longrightarrow> snd d) (rn_done (delivery_run_step senders n delay e rn))"
  proof (cases e)
    case (Consume raises)
    then have "\<exists>k \<in> {1..<1 + n}. \<not> raises k" using Cons.prems(2) [of raises] by auto
    then have "fst (attempts_from n 1 n delay raises j)" for j by (simp add: attempts_from_sent)
    with Consume Cons.prems(1) show ?thesis
      by (auto simp: consume_def deliver_def split_beta Let_def split: list.split)
  qed (use Cons.prems(1) in simp)
  from Cons.IH [OF this] Cons.prems(2) show ?case by simp
qed simp


definition example_deliveries :: "delivery_event list" where
  "example_deliveries = map Notify_Input example_inputs @ [Consume (\<lambda>k. k < 2), Consume (\<lambda>_. False)]"


end
