(* ===== verification/Collector_Model.thy ===== *)
theory Collector_Model
  imports Database Py_Values
begin

section \<open>The collector: data, normalisation, registry\<close>

text \<open>
  \<open>app/collector/driver_base.py\<close>, \<open>normalizer.py\<close>, \<open>config.py\<close>, \<open>registry.py\<close>: what the
  collector exchanges with the protocol driver, how raw BACnet values become readings, and the
  registry of devices and points kept in memory.
\<close>

subsection \<open>Types exchanged with the driver\<close>

datatype driver_error = Device_Unreachable | Request_Rejected string | Driver_Error

record device_info =
  di_instance :: int
  di_address :: string
  di_name :: "string option"
  di_vendor :: "string option"
  di_model :: "string option"
  di_supports_rpm :: bool
  di_supports_cov :: bool

record point_ref =
  pr_point_id :: uuid
  pr_device_instance :: int
  pr_address :: string
  pr_object_type :: string
  pr_object_instance :: int

record object_info =
  oi_object_type :: string
  oi_object_instance :: int
  oi_name :: string
  oi_description :: "string option"
  oi_unit :: "string option"
  oi_writable :: bool
  oi_state_text :: "string list option"
  oi_value :: "pyfloat option"
  oi_status :: point_status

text \<open>A raw value: what bacpypes decodes; for the other classes only their text matters.\<close>

datatype raw = Raw_None | Raw_Bool bool | Raw_Int int | Raw_Float pyfloat | Raw_Other string

record reading =
  rd_point_id :: uuid
  rd_ts :: time
  rd_value :: "pyfloat option"
  rd_status :: point_status
  rd_raw :: raw

record write_result =
  wr_ok :: bool
  wr_error :: "string option"

subsection \<open>Normalisation\<close>

definition IMPORTED_TYPES :: "string list" where
  "IMPORTED_TYPES =
     [''analog-input'', ''analog-output'', ''analog-value'',
      ''binary-input'', ''binary-output'', ''binary-value'',
      ''multi-state-input'', ''multi-state-output'', ''multi-state-value'']"

abbreviation degree :: char where "degree \<equiv> CHR 0xB0"
abbreviation cubed :: char where "cubed \<equiv> CHR 0xB3"

definition UNITS :: "(string, string) dict" where
  "UNITS =
     [(''degrees-celsius'', degree # ''C''), (''degrees-fahrenheit'', degree # ''F''),
      (''kelvin'', ''K''), (''percent'', ''%''), (''percent-relative-humidity'', ''%HR''),
      (''watts'', ''W''), (''kilowatts'', ''kW''), (''megawatts'', ''MW''),
      (''watt-hours'', ''Wh''), (''kilowatt-hours'', ''kWh''), (''kilojoules'', ''kJ''),
      (''megajoules'', ''MJ''), (''pascals'', ''Pa''), (''kilopascals'', ''kPa''),
      (''hectopascals'', ''hPa''), (''bars'', ''bar''), (''volts'', ''V''), (''amperes'', ''A''),
      (''milliamperes'', ''mA''), (''hertz'', ''Hz''), (''kilovolt-amperes'', ''kVA''),
      (''kilovolt-amperes-reactive'', ''kvar''), (''cubic-meters-per-hour'', ''m'' @ [cubed] @ ''/h''),
      (''cubic-meters-per-second'', ''m'' @ [cubed] @ ''/s''), (''liters-per-second'', ''L/s''),
      (''liters'', ''L''), (''cubic-meters'', ''m'' @ [cubed]), (''meters'', ''m''),
      (''kilograms'', ''kg''), (''revolutions-per-minute'', ''tr/min''),
      (''parts-per-million'', ''ppm''), (''seconds'', ''s''), (''minutes'', ''min''),
      (''hours'', ''h''), (''degrees-angular'', [degree]), (''lux'', ''lx''), (''ohms'', ''ohm'')]"

definition unit_label :: "string option \<Rightarrow> string option" where
  "unit_label name =
     (case name of
        None \<Rightarrow> None
      | Some n \<Rightarrow>
          if n = [] \<or> n = ''no-units'' then None
          else Some (case map_of UNITS n of None \<Rightarrow> n | Some l \<Rightarrow> l))"

definition is_writable :: "string \<Rightarrow> bool" where
  "is_writable object_type = (ends_with ''-output'' object_type \<or> ends_with ''-value'' object_type)"

definition is_multistate :: "string \<Rightarrow> bool" where
  "is_multistate object_type = starts_with ''multi-state'' object_type"

definition normalize_present_value :: "raw \<Rightarrow> pyfloat option" where
  "normalize_present_value v =
     (case v of
        Raw_None \<Rightarrow> None
      | Raw_Bool b \<Rightarrow> Some (Fin (if b then 1 else 0))
      | Raw_Other s \<Rightarrow>
          (let text = py_lower s in
           if text = ''active'' then Some (Fin 1)
           else if text = ''inactive'' then Some (Fin 0)
           else float_of_str text)
      | Raw_Int i \<Rightarrow> Some (Fin (of_int i))
      | Raw_Float x \<Rightarrow> Some x)"

definition normalize_status :: "int list option \<Rightarrow> point_status" where
  "normalize_status flags =
     (case flags of
        None \<Rightarrow> OK
      | Some fs \<Rightarrow>
          if length fs < 4 then OK
          else if fs ! 3 \<noteq> 0 then OUT_OF_SERVICE
          else if fs ! 1 \<noteq> 0 then FAULT
          else if fs ! 2 \<noteq> 0 then OVERRIDDEN
          else OK)"

definition build_reading :: "uuid \<Rightarrow> raw \<Rightarrow> int list option \<Rightarrow> time \<Rightarrow> reading" where
  "build_reading pid v flags ts =
     \<lparr>rd_point_id = pid, rd_ts = ts, rd_value = normalize_present_value v,
      rd_status = normalize_status flags, rd_raw = v\<rparr>"

definition comm_lost_reading :: "uuid \<Rightarrow> time \<Rightarrow> reading" where
  "comm_lost_reading pid ts =
     \<lparr>rd_point_id = pid, rd_ts = ts, rd_value = None, rd_status = COMM_LOST_VALUE, rd_raw = Raw_None\<rparr>"

definition fault_reading :: "uuid \<Rightarrow> time \<Rightarrow> reading" where
  "fault_reading pid ts =
     \<lparr>rd_point_id = pid, rd_ts = ts, rd_value = None, rd_status = FAULT, rd_raw = Raw_None\<rparr>"

subsection \<open>Discovery targets\<close>

text \<open>\<open>s.rpartition(sep)\<close>: split at the last separator; all of it after, if there is none.\<close>

definition rpartition_at :: "char \<Rightarrow> string \<Rightarrow> string \<times> bool \<times> string" where
  "rpartition_at c s =
     (let (a, found, b) = partition_at c (rev s)
      in if found then (rev b, True, rev a) else ([], False, s))"

text \<open>\<open>host:low-high\<close> stands for one address per port; \<open>None\<close> is a \<open>ValueError\<close>.\<close>

definition expand_target :: "string \<Rightarrow> string list option" where
  "expand_target target =
     (let (host, _, ports) = rpartition_at (CHR '':'') target in
      if CHR ''-'' \<in> set ports then
        (let (l, _, h) = partition_at (CHR ''-'') ports in
         case (int_of_str l, int_of_str h) of
           (Some low, Some high) \<Rightarrow>
             Some (map (\<lambda>port. host @ '':'' @ int_str port) [low..high])
         | _ \<Rightarrow> None)
      else Some [target])"

fun expand_targets :: "string list \<Rightarrow> string list option" where
  "expand_targets [] = Some []"
| "expand_targets (t # ts) =
     (case (expand_target t, expand_targets ts) of
        (Some xs, Some ys) \<Rightarrow> Some (xs @ ys)
      | _ \<Rightarrow> None)"

subsection \<open>Configuration\<close>

record polling_config =
  pc_default_interval_s :: time
  pc_batch_size :: nat
  pc_offline_after_cycles :: int

record cov_config =
  cc_lifetime_s :: int
  cc_renew_before_s :: int
  cc_safety_poll_s :: time
  cc_retry_s :: time

definition default_polling :: polling_config where
  "default_polling = \<lparr>pc_default_interval_s = 30, pc_batch_size = 20, pc_offline_after_cycles = 3\<rparr>"

definition default_cov :: cov_config where
  "default_cov = \<lparr>cc_lifetime_s = 3600, cc_renew_before_s = 300, cc_safety_poll_s = 300, cc_retry_s = 300\<rparr>"

subsection \<open>The registry\<close>

record point_state =
  ps_ref :: point_ref
  ps_name :: string
  ps_path :: "string option"
  ps_deadband :: pyfloat
  ps_max_interval_s :: int
  ps_poll_interval_s :: time
  ps_cov_capable :: bool
  ps_next_due :: time
  ps_cov_active :: bool
  ps_cov_expires :: "time option"
  ps_cov_retry_at :: time
  ps_stored :: bool
  ps_stored_value :: "pyfloat option"
  ps_stored_status :: "point_status option"
  ps_stored_ts :: "time option"

record device_state =
  ds_instance :: int
  ds_address :: string
  ds_name :: string
  ds_supports_cov :: bool
  ds_online :: bool
  ds_points :: "(uuid, point_state) dict"
  ds_failures :: int
  ds_last_contact :: time
  ds_last_attempt :: time
  ds_last_seen_written :: time

text \<open>
  The devices by identifier; the index of points of the code is the points of all devices, and a
  point's \<open>device\<close> is the one that holds it. \<open>cov_expires = None\<close> is \<open>inf\<close>.
\<close>

type_synonym registry = "(uuid, device_state) dict"

definition point_index :: "registry \<Rightarrow> (uuid, uuid \<times> point_state) dict" where
  "point_index reg =
     dict_of (concat (map (\<lambda>(did, d). map (\<lambda>(pid, p). (pid, did, p)) (ds_points d)) reg))"

definition registry_point :: "registry \<Rightarrow> uuid \<Rightarrow> (uuid \<times> point_state) option" where
  "registry_point reg pid = map_of (point_index reg) pid"

definition all_points :: "registry \<Rightarrow> point_state list" where
  "all_points reg = map (\<lambda>(pid, did, p). p) (point_index reg)"

definition keep_device :: "device_state option \<Rightarrow> device_state \<Rightarrow> device_state" where
  "keep_device previous d =
     (case previous of
        None \<Rightarrow> d
      | Some old \<Rightarrow>
          d\<lparr>ds_failures := ds_failures old, ds_last_contact := ds_last_contact old,
            ds_last_attempt := ds_last_attempt old,
            ds_last_seen_written := ds_last_seen_written old, ds_online := ds_online old\<rparr>)"

definition keep_point :: "point_state option \<Rightarrow> point_state \<Rightarrow> point_state" where
  "keep_point previous p =
     (case previous of
        None \<Rightarrow> p
      | Some old \<Rightarrow>
          p\<lparr>ps_next_due := ps_next_due old, ps_cov_active := ps_cov_active old,
            ps_cov_expires := ps_cov_expires old, ps_cov_retry_at := ps_cov_retry_at old,
            ps_stored := ps_stored old, ps_stored_value := ps_stored_value old,
            ps_stored_status := ps_stored_status old, ps_stored_ts := ps_stored_ts old\<rparr>)"

definition replaced_device :: "registry \<Rightarrow> uuid \<Rightarrow> device_state \<Rightarrow> device_state" where
  "replaced_device old did d =
     (let d1 = keep_device (map_of old did) d
      in d1\<lparr>ds_points := map (\<lambda>(pid, p). (pid, keep_point (map_option snd (registry_point old pid)) p))
              (ds_points d1)\<rparr>)"

definition registry_replace :: "registry \<Rightarrow> (uuid \<times> device_state) list \<Rightarrow> registry" where
  "registry_replace old devices = dict_of (map (\<lambda>(did, d). (did, replaced_device old did d)) devices)"

text \<open>Identifiers are primary keys: a point belongs to one device.\<close>

definition point_ids :: "registry \<Rightarrow> uuid list" where
  "point_ids reg = concat (map (\<lambda>kv. dict_keys (ds_points (snd kv))) reg)"

definition registry_wf :: "registry \<Rightarrow> bool" where
  "registry_wf reg \<longleftrightarrow> dict_wf reg \<and> distinct (point_ids reg)"

definition set_device :: "uuid \<Rightarrow> (device_state \<Rightarrow> device_state) \<Rightarrow> registry \<Rightarrow> registry" where
  "set_device did f reg = map (\<lambda>(k, d). (k, if k = did then f d else d)) reg"

definition set_point :: "uuid \<Rightarrow> uuid \<Rightarrow> (point_state \<Rightarrow> point_state) \<Rightarrow> registry \<Rightarrow> registry" where
  "set_point did pid f =
     set_device did (\<lambda>d. d\<lparr>ds_points := map (\<lambda>(k, p). (k, if k = pid then f p else p)) (ds_points d)\<rparr>)"

subsection \<open>Lookups in the registry\<close>

lemma map_of_map_if:
  "map_of (map (\<lambda>(k, x). (k, if k = a then f x else x)) d) k =
     (if k = a then map_option f (map_of d k) else map_of d k)"
  by (induction d) auto

lemma set_device_get [simp]:
  "map_of (set_device did f reg) k = (if k = did then map_option f (map_of reg k) else map_of reg k)"
  by (simp add: set_device_def map_of_map_if)

lemma set_device_keys [simp]: "dict_keys (set_device did f reg) = dict_keys reg"
  by (simp add: set_device_def split_beta comp_def)

lemma point_ids_set_device:
  "(\<And>d. dict_keys (ds_points (f d)) = dict_keys (ds_points d)) \<Longrightarrow>
     point_ids (set_device did f reg) = point_ids reg"
  unfolding point_ids_def set_device_def by (induction reg) auto

lemma registry_wf_set_device:
  "registry_wf reg \<Longrightarrow> (\<And>d. dict_keys (ds_points (f d)) = dict_keys (ds_points d)) \<Longrightarrow>
     registry_wf (set_device did f reg)"
  by (simp add: registry_wf_def point_ids_set_device)

lemma registry_wf_set_point [simp]: "registry_wf reg \<Longrightarrow> registry_wf (set_point did pid f reg)"
  unfolding set_point_def by (rule registry_wf_set_device) (simp_all add: split_beta comp_def)

lemma point_index_wf:
  "registry_wf reg \<Longrightarrow>
     point_index reg = concat (map (\<lambda>(did, d). map (\<lambda>(pid, p). (pid, did, p)) (ds_points d)) reg)"
  unfolding point_index_def
  by (rule dict_of_distinct)
    (simp add: registry_wf_def point_ids_def map_concat split_beta comp_def)

lemma registry_point_iff:
  assumes "registry_wf reg"
  shows "registry_point reg pid = Some (did, p) \<longleftrightarrow>
    (\<exists>d. map_of reg did = Some d \<and> map_of (ds_points d) pid = Some p)"
proof -
  let ?xs = "concat (map (\<lambda>(did, d). map (\<lambda>(pid, p). (pid, did, p)) (ds_points d)) reg)"
  have wf: "dict_wf ?xs"
    using assms by (simp add: registry_wf_def point_ids_def map_concat split_beta comp_def)
  have each: "dict_wf (ds_points d)" if "(did, d) \<in> set reg" for did d
    using assms that by (force simp: registry_wf_def point_ids_def distinct_concat_iff)
  have "registry_point reg pid = Some (did, p) \<longleftrightarrow> (pid, did, p) \<in> set ?xs"
    by (simp only: registry_point_def point_index_wf [OF assms] map_of_mem [OF wf])
  also have "\<dots> \<longleftrightarrow> (\<exists>d. (did, d) \<in> set reg \<and> (pid, p) \<in> set (ds_points d))"
    by (auto intro!: bexI)
  also have "\<dots> \<longleftrightarrow> (\<exists>d. map_of reg did = Some d \<and> map_of (ds_points d) pid = Some p)"
    using each assms unfolding registry_wf_def by (metis map_of_mem)
  finally show ?thesis .
qed

lemma registry_point_set_point:
  assumes wf: "registry_wf reg" and p: "registry_point reg pid = Some (did, p)"
  shows "registry_point (set_point did pid f reg) pid' =
    (if pid' = pid then Some (did, f p) else registry_point reg pid')"
proof -
  have wf': "registry_wf (set_point did pid f reg)" using wf by simp
  obtain d where d: "map_of reg did = Some d" "map_of (ds_points d) pid = Some p"
    using p registry_point_iff [OF wf] by blast
  have "registry_point (set_point did pid f reg) pid' = Some (k, q) \<longleftrightarrow>
      (if pid' = pid then Some (did, f p) else registry_point reg pid') = Some (k, q)" for k q
  proof (cases "pid' = pid")
    case True
    have "registry_point reg pid = Some (k, r) \<longleftrightarrow> k = did \<and> r = p" for r
      using p by auto
    then show ?thesis
      unfolding registry_point_iff [OF wf'] registry_point_iff [OF wf]
      using True d by (auto simp: set_point_def map_of_map_if) 
  next
    case False
    then show ?thesis
      unfolding registry_point_iff [OF wf'] if_not_P [OF False] registry_point_iff [OF wf]
      by (auto simp: set_point_def map_of_map_if)
  qed
  then show ?thesis by (metis not_None_eq surj_pair)
qed

lemma registry_point_set_device:
  assumes wf: "registry_wf reg" and f: "\<And>d. ds_points (f d) = ds_points d"
  shows "registry_point (set_device did f reg) pid = registry_point reg pid"
proof -
  have wf': "registry_wf (set_device did f reg)" using wf f by (intro registry_wf_set_device) simp_all
  have "registry_point (set_device did f reg) pid = Some (k, q) \<longleftrightarrow> registry_point reg pid = Some (k, q)"
    for k q
    unfolding registry_point_iff [OF wf'] registry_point_iff [OF wf] using f by auto
  then show ?thesis by (metis not_None_eq surj_pair)
qed

end
