(* ===== verification/Collector_Writer.thy ===== *)
theory Collector_Writer
  imports Collector_Model Command_Stream Alarm_Store
begin

section \<open>Writing set points\<close>

text \<open>
  \<open>app/collector/writer.py\<close>: commands from the stream \<open>cmd.write\<close>, checked again, written through
  the driver and audited. The driver's \<open>write\<close> is a parameter: its result, or \<open>None\<close> when it
  raises. \<open>wa_writes\<close> are the writes handed to the driver, \<open>wa_reads\<close> the points read again
  afterwards (an error there is ignored).
\<close>

definition DEFAULT_PRIORITY :: int where "DEFAULT_PRIORITY = 8"

definition MAX_WRITE_AGE_S :: rat where "MAX_WRITE_AGE_S = 30"

definition WRITER_ROLES :: "string list" where
  "WRITER_ROLES = [role_value OPERATOR, role_value ENGINEER, role_value ADMIN]"

record write_target =
  wt_ref :: point_ref
  wt_writable :: bool
  wt_min :: "pyfloat option"
  wt_max :: "pyfloat option"
  wt_path :: "string option"
  wt_last_value :: "pyfloat option"

type_synonym write_request = "point_ref \<times> pyfloat option \<times> int"

record write_app =
  wa_db :: database
  wa_clock :: "time list"
  wa_faults :: "bool list"
  wa_writes :: "write_request list"
  wa_reads :: "point_ref list"

datatype write_refusal = W_Expired | W_No_User | W_No_Rights | W_Unknown_Point | W_Not_Writable
  | W_Priority | W_Below_Min pyfloat | W_Above_Max pyfloat | W_Driver string

definition wa_now :: "write_app \<Rightarrow> time" where
  "wa_now a = (case wa_clock a of [] \<Rightarrow> 0 | t # _ \<Rightarrow> t)"

definition wa_io :: "write_app \<Rightarrow> bool \<times> write_app" where
  "wa_io a = (case wa_faults a of [] \<Rightarrow> (False, a) | f # fs \<Rightarrow> (f, a\<lparr>wa_faults := fs\<rparr>))"

subsection \<open>The store\<close>

definition get_write_target :: "database \<Rightarrow> uuid \<Rightarrow> write_target option" where
  "get_write_target db pid =
     (case map_of (db_points db) pid of
        None \<Rightarrow> None
      | Some p \<Rightarrow>
          (case map_of (db_devices db) (pt_device_id p) of
             None \<Rightarrow> None
           | Some d \<Rightarrow> Some
               \<lparr>wt_ref = \<lparr>pr_point_id = pid, pr_device_instance = dv_instance d, pr_address = dv_address d,
                          pr_object_type = pt_object_type p, pr_object_instance = pt_object_instance p\<rparr>,
                wt_writable = pt_writable p, wt_min = pt_write_min p, wt_max = pt_write_max p,
                wt_path = pt_path p,
                wt_last_value = Option.bind (map_of (db_latest db) pid) pl_value\<rparr>))"

definition get_user_role :: "database \<Rightarrow> uuid \<Rightarrow> string option" where
  "get_user_role = user_role"

definition json_opt :: "pyfloat option \<Rightarrow> json" where
  "json_opt v = (case v of None \<Rightarrow> JNull | Some x \<Rightarrow> JFloat x)"

definition add_audit :: "audit_row \<Rightarrow> write_app \<Rightarrow> bool \<times> write_app" where
  "add_audit row a =
     (let (failed, a1) = wa_io a
      in if failed \<or> \<not> audit_accepted (wa_db a1) row then (True, a1)
         else (False, a1\<lparr>wa_db := (wa_db a1)\<lparr>db_audit := db_audit (wa_db a1) @ [row]\<rparr>\<rparr>))"

subsection \<open>Checking\<close>

text \<open>\<open>_refusal\<close>, for the role read in the database; \<open>None\<close> accepts.\<close>

definition refusal ::
  "write_target option \<Rightarrow> pyfloat option \<Rightarrow> int \<Rightarrow> uuid option \<Rightarrow> string option \<Rightarrow> write_refusal option" where
  "refusal target vl priority user_id role =
     (if user_id = None then Some W_No_User
      else if \<not> (case role of None \<Rightarrow> False | Some r \<Rightarrow> r \<in> set WRITER_ROLES) then Some W_No_Rights
      else case target of
        None \<Rightarrow> Some W_Unknown_Point
      | Some t \<Rightarrow>
          if \<not> wt_writable t then Some W_Not_Writable
          else if \<not> (1 \<le> priority \<and> priority \<le> 16) then Some W_Priority
          else (case vl of
                  None \<Rightarrow> None
                | Some v \<Rightarrow>
                    (case (wt_min t, wt_max t) of
                       (Some lo, hi) \<Rightarrow>
                         if fl_lt v lo then Some (W_Below_Min lo)
                         else (case hi of None \<Rightarrow> None
                               | Some h \<Rightarrow> if fl_lt h v then Some (W_Above_Max h) else None)
                     | (None, Some h) \<Rightarrow> if fl_lt h v then Some (W_Above_Max h) else None
                     | (None, None) \<Rightarrow> None)))"

text \<open>The fields of a command, read in the code's order; \<open>None\<close> is an exception.\<close>

definition command_fields ::
  "(json \<Rightarrow> string) \<Rightarrow> json \<Rightarrow> (uuid \<times> pyfloat option \<times> int \<times> uuid option) option" where
  "command_fields rp c =
     Option.bind (Option.bind (json_item c ''point_id'') (json_uuid rp)) (\<lambda>pid.
     Option.bind (json_get c ''value'') (\<lambda>raw.
     Option.bind (if raw = JNull then Some None else map_option Some (py_float raw)) (\<lambda>vl.
     Option.bind (json_get c ''priority'') (\<lambda>p.
     Option.bind (if p = JNull then Some DEFAULT_PRIORITY else py_int p) (\<lambda>priority.
     Option.bind (json_get c ''user_id'') (\<lambda>u.
     Option.bind (if py_bool u then map_option Some (json_uuid rp u) else Some None) (\<lambda>user_id.
       Some (pid, vl, priority, user_id))))))))"

text \<open>Whether the command is refused: its age first, then \<open>_refusal\<close>, which reads the role.\<close>

definition check_command ::
  "rat \<Rightarrow> time \<Rightarrow> json \<Rightarrow> write_target option \<Rightarrow> pyfloat option \<Rightarrow> int \<Rightarrow> uuid option \<Rightarrow> write_app \<Rightarrow>
   write_refusal option option \<times> write_app" where
  "check_command max_age now c target vl priority user_id a =
     (case Option.bind (json_get c ''issued_at'') (\<lambda>i.
             if i = JNull then Some False
             else map_option (\<lambda>t. fl_lt (Fin max_age) (fl_sub (Fin now) t)) (py_float i)) of
        None \<Rightarrow> (None, a)
      | Some True \<Rightarrow> (Some (Some W_Expired), a)
      | Some False \<Rightarrow>
          (case user_id of
             None \<Rightarrow> (Some (refusal target vl priority None None), a)
           | Some u \<Rightarrow>
               (let (failed, a1) = wa_io a
                in if failed then (None, a1)
                   else (Some (refusal target vl priority user_id (get_user_role (wa_db a1) u)), a1))))"

definition audit_of ::
  "time \<Rightarrow> uuid \<Rightarrow> write_target option \<Rightarrow> pyfloat option \<Rightarrow> int \<Rightarrow> uuid option \<Rightarrow> string \<Rightarrow> audit_row" where
  "audit_of now pid target vl priority user_id outcome =
     \<lparr>au_ts = now, au_user_id = user_id, au_action = ''point.write'',
      au_target = Some (case target of
          None \<Rightarrow> uuid_str pid
        | Some t \<Rightarrow> (case wt_path t of None \<Rightarrow> uuid_str pid | Some p \<Rightarrow> if p = [] then uuid_str pid else p)),
      au_before = map_option (\<lambda>t. JObj [(''value'', json_opt (wt_last_value t))]) target,
      au_after = Some (JObj [(''value'', json_opt vl), (''priority'', JInt priority), (''result'', JStr outcome)]),
      au_ip = None\<rparr>"

subsection \<open>Executing\<close>

text \<open>\<open>text_of\<close> stands for the messages of refusals (accented French texts).\<close>

definition write_execute ::
  "(json \<Rightarrow> string) \<Rightarrow> (write_refusal \<Rightarrow> string) \<Rightarrow> (write_request \<Rightarrow> write_result option) \<Rightarrow> rat \<Rightarrow>
   (write_refusal, write_app) execute" where
  "write_execute rp text_of driver_write max_age c a =
     (let now = wa_now a; a0 = a\<lparr>wa_clock := tl (wa_clock a)\<rparr> in
      case command_fields rp c of
        None \<Rightarrow> (None, a0)
      | Some (pid, vl, priority, user_id) \<Rightarrow>
          (let (failed, a1) = wa_io a0 in
           if failed then (None, a1)
           else let target = get_write_target (wa_db a1) pid in
             case check_command max_age now c target vl priority user_id a1 of
               (None, a2) \<Rightarrow> (None, a2)
             | (Some (Some reason), a2) \<Rightarrow>
                 (case add_audit (audit_of now pid target vl priority user_id (text_of reason)) a2 of
                    (True, a3) \<Rightarrow> (None, a3)
                  | (False, a3) \<Rightarrow> (Some (Inl reason), a3))
             | (Some None, a2) \<Rightarrow>
                 (case target of
                    None \<Rightarrow> (None, a2)
                  | Some t \<Rightarrow>
                      (let a3 = a2\<lparr>wa_writes := wa_writes a2 @ [(wt_ref t, vl, priority)]\<rparr> in
                       case driver_write (wt_ref t, vl, priority) of
                         None \<Rightarrow> (None, a3)
                       | Some r \<Rightarrow>
                           (let outcome = (if wr_ok r then ''ok''
                                  else case wr_error r of None \<Rightarrow> ''error'' | Some e \<Rightarrow> if e = [] then ''error'' else e)
                            in case add_audit (audit_of now pid target vl priority user_id outcome) a3 of
                                 (True, a4) \<Rightarrow> (None, a4)
                               | (False, a4) \<Rightarrow>
                                   if wr_ok r then (Some (Inr ()), a4\<lparr>wa_reads := wa_reads a4 @ [wt_ref t]\<rparr>)
                                   else (Some (Inl (W_Driver outcome)), a4))))))"

definition write_service ::
  "(json \<Rightarrow> string) \<Rightarrow> (write_refusal \<Rightarrow> string) \<Rightarrow> (write_request \<Rightarrow> write_result option) \<Rightarrow> rat \<Rightarrow>
   stream_event list \<Rightarrow> write_app \<Rightarrow> bool list \<Rightarrow> (write_refusal, write_app) service" where
  "write_service rp text_of driver_write max_age es a faults =
     fold (stream_step rp (write_execute rp text_of driver_write max_age)) es (service_start a faults)"

subsection \<open>Every write is within the limits of its point\<close>

text \<open>What a write that reaches the driver must satisfy.\<close>

definition in_limits :: "pyfloat option \<Rightarrow> pyfloat option \<Rightarrow> pyfloat \<Rightarrow> bool" where
  "in_limits lo hi v \<longleftrightarrow> (\<forall>l. lo = Some l \<longrightarrow> \<not> fl_lt v l) \<and> (\<forall>h. hi = Some h \<longrightarrow> \<not> fl_lt h v)"

definition permitted :: "database \<Rightarrow> write_request \<Rightarrow> bool" where
  "permitted db req \<longleftrightarrow>
     (case req of (ref, vl, priority) \<Rightarrow>
        \<exists>p. map_of (db_points db) (pr_point_id ref) = Some p \<and> pt_writable p \<and>
          pr_object_type ref = pt_object_type p \<and> pr_object_instance ref = pt_object_instance p \<and>
          1 \<le> priority \<and> priority \<le> 16 \<and>
          (\<forall>v. vl = Some v \<longrightarrow> in_limits (pt_write_min p) (pt_write_max p) v))"

definition writes_permitted :: "write_app \<Rightarrow> bool" where
  "writes_permitted a \<longleftrightarrow> (\<forall>req \<in> set (wa_writes a). permitted (wa_db a) req)"

lemma refusal_None:
  "refusal target vl priority user_id role = None \<longleftrightarrow>
     (\<exists>u r t. user_id = Some u \<and> role = Some r \<and> r \<in> set WRITER_ROLES \<and> target = Some t \<and>
        wt_writable t \<and> 1 \<le> priority \<and> priority \<le> 16 \<and>
        (\<forall>v. vl = Some v \<longrightarrow> in_limits (wt_min t) (wt_max t) v))"
  by (auto simp: refusal_def in_limits_def split: option.splits)

lemma wa_io_frame:
  "wa_io a = (f, a') \<Longrightarrow> wa_db a' = wa_db a \<and> wa_writes a' = wa_writes a \<and> wa_reads a' = wa_reads a"
  by (auto simp: wa_io_def split: list.splits)

lemma add_audit_cases:
  assumes "add_audit row a = (failed, a')"
  shows "wa_writes a' = wa_writes a \<and> wa_reads a' = wa_reads a \<and>
    wa_db a' = (if failed then wa_db a else (wa_db a)\<lparr>db_audit := db_audit (wa_db a) @ [row]\<rparr>)"
  using assms wa_io_frame [of a]
  by (auto simp: add_audit_def Let_def split: prod.splits if_splits)

lemma check_command_frame:
  assumes "check_command max_age now c target vl priority user_id a = (res, a')"
  shows "wa_db a' = wa_db a \<and> wa_writes a' = wa_writes a \<and> wa_reads a' = wa_reads a"
proof (cases user_id)
  case None
  with assms show ?thesis by (auto simp: check_command_def split: option.splits bool.splits)
next
  case (Some u)
  obtain f a1 where io: "wa_io a = (f, a1)" by fastforce
  with assms Some have "a' = a \<or> a' = a1"
    by (auto simp: check_command_def Let_def split: option.splits bool.splits if_splits)
  with wa_io_frame [OF io] show ?thesis by auto
qed

lemma check_command_accepted:
  assumes "check_command max_age now c target vl priority user_id a = (Some None, a')"
  shows "\<exists>u r t. user_id = Some u \<and> get_user_role (wa_db a) u = Some r \<and> r \<in> set WRITER_ROLES \<and>
    target = Some t \<and> wt_writable t \<and> 1 \<le> priority \<and> priority \<le> 16 \<and>
    (\<forall>v. vl = Some v \<longrightarrow> in_limits (wt_min t) (wt_max t) v)"
proof (cases user_id)
  case None
  with assms show ?thesis
    by (auto simp: check_command_def refusal_def split: option.splits bool.splits)
next
  case (Some u)
  obtain f a1 where io: "wa_io a = (f, a1)" by fastforce
  with assms Some have "refusal target vl priority user_id (get_user_role (wa_db a1) u) = None"
    by (auto simp: check_command_def Let_def split: option.splits bool.splits if_splits)
  with wa_io_frame [OF io] Some show ?thesis by (auto simp: refusal_None)
qed

lemma write_target_point:
  assumes "get_write_target db pid = Some t"
  shows "\<exists>p. map_of (db_points db) pid = Some p \<and> pr_point_id (wt_ref t) = pid \<and>
    wt_writable t = pt_writable p \<and> wt_min t = pt_write_min p \<and> wt_max t = pt_write_max p \<and>
    pr_object_type (wt_ref t) = pt_object_type p \<and> pr_object_instance (wt_ref t) = pt_object_instance p"
  using assms by (auto simp: get_write_target_def split: option.splits)

text \<open>One command: what it adds to the writes, and where.\<close>

lemma write_execute_cases:
  assumes x: "write_execute rp text_of dw max_age c a = (res, a')"
  shows "db_points (wa_db a') = db_points (wa_db a) \<and>
    (wa_writes a' = wa_writes a \<and> res \<noteq> Some (Inr ()) \<or>
     (\<exists>pid vl priority u r t. command_fields rp c = Some (pid, vl, priority, Some u) \<and>
        get_user_role (wa_db a) u = Some r \<and> r \<in> set WRITER_ROLES \<and>
        get_write_target (wa_db a) pid = Some t \<and> permitted (wa_db a) (wt_ref t, vl, priority) \<and>
        wa_writes a' = wa_writes a @ [(wt_ref t, vl, priority)]))"
proof (cases "command_fields rp c")
  case None
  with x show ?thesis by (auto simp: write_execute_def)
next
  case (Some fs)
  obtain pid vl priority user_id where fs: "fs = (pid, vl, priority, user_id)" by (cases fs)
  obtain f a1 where io: "wa_io (a\<lparr>wa_clock := tl (wa_clock a)\<rparr>) = (f, a1)" by fastforce
  have a1: "wa_db a1 = wa_db a" "wa_writes a1 = wa_writes a" using wa_io_frame [OF io] by simp_all
  show ?thesis
  proof (cases f)
    case True
    with x Some fs io a1 show ?thesis by (auto simp: write_execute_def)
  next
    case False
    let ?target = "get_write_target (wa_db a) pid"
    obtain ch a2 where ch: "check_command max_age (wa_now a) c ?target vl priority user_id a1 = (ch, a2)"
      by fastforce
    have a2: "wa_db a2 = wa_db a" "wa_writes a2 = wa_writes a"
      using check_command_frame [OF ch] a1 by simp_all
    show ?thesis
    proof (cases "ch = Some None")
      case rej: False
      have "wa_writes a' = wa_writes a \<and> res \<noteq> Some (Inr ()) \<and> db_points (wa_db a') = db_points (wa_db a)"
      proof (cases ch)
        case None
        with x Some fs io False a1 a2 ch show ?thesis by (auto simp: write_execute_def)
      next
        case (Some rs)
        with rej obtain reason where rs: "ch = Some (Some reason)" by (cases rs) auto
        obtain af a3 where au: "add_audit (audit_of (wa_now a) pid ?target vl priority user_id (text_of reason)) a2 = (af, a3)"
          by fastforce
        have "a' = a3 \<and> res \<noteq> Some (Inr ())"
          using x \<open>command_fields rp c = Some fs\<close> fs io False a1 ch rs au
          by (auto simp: write_execute_def Let_def split: bool.splits)
        with add_audit_cases [OF au] a2 show ?thesis by (auto split: if_splits)
      qed
      then show ?thesis by blast
    next
      case acc: True
      from check_command_accepted [OF ch [unfolded acc]] a1 obtain u r t where
        acc': "user_id = Some u" "get_user_role (wa_db a) u = Some r" "r \<in> set WRITER_ROLES"
        "?target = Some t" "wt_writable t" "1 \<le> priority" "priority \<le> 16"
        "\<forall>v. vl = Some v \<longrightarrow> in_limits (wt_min t) (wt_max t) v" by auto
      have perm: "permitted (wa_db a) (wt_ref t, vl, priority)"
        using write_target_point [OF acc'(4)] acc'(5-8) by (auto simp: permitted_def)
      let ?a3 = "a2\<lparr>wa_writes := wa_writes a2 @ [(wt_ref t, vl, priority)]\<rparr>"
      have "wa_writes a' = wa_writes a @ [(wt_ref t, vl, priority)] \<and> db_points (wa_db a') = db_points (wa_db a)"
      proof (cases "dw (wt_ref t, vl, priority)")
        case None
        with x Some fs io False a1 a2 ch acc acc' show ?thesis
          by (auto simp: write_execute_def Let_def)
      next
        case (Some r)
        define row where "row = audit_of (wa_now a) pid ?target vl priority user_id
          (if wr_ok r then ''ok'' else case wr_error r of None \<Rightarrow> ''error'' | Some e \<Rightarrow> if e = [] then ''error'' else e)"
        obtain af a4 where au: "add_audit row ?a3 = (af, a4)" by fastforce
        have "wa_writes a' = wa_writes a4 \<and> wa_db a' = wa_db a4"
          using x \<open>command_fields rp c = Some fs\<close> fs io False a1 ch acc acc'(4) Some au
          by (auto simp: write_execute_def Let_def row_def split: bool.splits if_splits)
        with add_audit_cases [OF au] a2 show ?thesis by (auto split: if_splits)
      qed
      with perm acc' Some fs show ?thesis by auto
    qed
  qed
qed

lemma permitted_points: "db_points db' = db_points db \<Longrightarrow> permitted db' req = permitted db req"
  by (simp add: permitted_def split_beta)

lemma write_execute_permitted:
  assumes "writes_permitted a"
  shows "writes_permitted (snd (write_execute rp text_of dw max_age c a))"
proof -
  obtain res a' where x: "write_execute rp text_of dw max_age c a = (res, a')" by fastforce
  note w = write_execute_cases [OF x]
  have "permitted (wa_db a') req = permitted (wa_db a) req" for req
    using w by (intro permitted_points) simp
  with w assms x show ?thesis by (auto simp: writes_permitted_def)
qed

interpretation write_commands: command_service "write_execute rp text_of dw max_age" writes_permitted
  for rp text_of dw max_age
  by unfold_locales (rule write_execute_permitted)

text \<open>
  C6. No write outside the limits of its point: in any run of the service, whatever the commands,
  the errors of the database, of Redis and of the driver, and the restarts, every value handed to
  the driver goes to a point the database declares writable, with a priority from 1 to 16 and a
  value that is neither below the minimum nor above the maximum of the point; and no command is
  lost in the stream.
\<close>

theorem writes_within_limits:
  assumes "wa_writes a = []"
  shows "(\<forall>req \<in> set (wa_writes (sv_app (write_service rp text_of dw max_age es a faults))).
      permitted (wa_db (sv_app (write_service rp text_of dw max_age es a faults))) req) \<and>
    ledger (write_service rp text_of dw max_age es a faults) = added es"
proof -
  have "writes_permitted a" using assms by (simp add: writes_permitted_def)
  then have "writes_permitted (sv_app (write_service rp text_of dw max_age es a faults))"
    unfolding write_service_def by (intro write_commands.served.run_inv) simp
  then show ?thesis by (simp add: writes_permitted_def write_service_def stream_complete)
qed

text \<open>
  C7. Only operators write: a command that reaches the driver comes from an active user whose role,
  read again in the database, is operator, engineer or admin, and one that reports success has
  reached the driver.
\<close>

theorem write_authorised:
  assumes "write_execute rp text_of dw max_age c a = (res, a')"
    and "wa_writes a' \<noteq> wa_writes a \<or> res = Some (Inr ())"
  shows "\<exists>pid vl priority user_id u r. command_fields rp c = Some (pid, vl, priority, Some user_id) \<and>
    map_of (db_users (wa_db a)) user_id = Some u \<and> us_active u \<and>
    map_of (db_roles (wa_db a)) (us_role_id u) = Some r \<and> r \<in> {''operator'', ''engineer'', ''admin''} \<and>
    (\<exists>ref. pr_point_id ref = pid \<and> wa_writes a' = wa_writes a @ [(ref, vl, priority)])"
proof -
  obtain pid vl priority u r t where w: "command_fields rp c = Some (pid, vl, priority, Some u)"
    "get_user_role (wa_db a) u = Some r" "r \<in> set WRITER_ROLES" "get_write_target (wa_db a) pid = Some t"
    "wa_writes a' = wa_writes a @ [(wt_ref t, vl, priority)]"
    using write_execute_cases [OF assms(1)] assms(2) by blast
  with write_target_point [OF w(4)] show ?thesis
    by (auto simp: get_user_role_def user_role_def WRITER_ROLES_def split: option.splits if_splits)
qed

subsection \<open>NaN passes\<close>

lemma in_limits_nan: "in_limits lo hi NaN"
  by (simp add: in_limits_def)

text \<open>The audit entry of a write that the database refuses: NaN is not JSON, or the path is too long.\<close>

definition unauditable :: "write_target \<Rightarrow> pyfloat \<Rightarrow> bool" where
  "unauditable t v \<longleftrightarrow> v = NaN \<or> (\<exists>path. wt_path t = Some path \<and> 255 < length path)"

lemma audit_refused: "unauditable t v \<Longrightarrow> \<not> audit_accepted db (audit_of now pid (Some t) (Some v) priority u s)"
  by (auto simp: unauditable_def audit_accepted_def audit_of_def json_opt_def jsonb_opt_def fits_def fits_opt_def
      split: if_splits)

text \<open>
  Some writes leave no trace: a command within the limits of a writable point, from an
  operator, is handed to the driver; if its value is \<open>NaN\<close> (which \<open>json.loads\<close> accepts and no
  limit excludes), or if the path of the point is longer than the 255 characters of the column
  \<open>audit_log.target\<close> (a path may have 512), the audit entry is refused by the database, so
  nothing is audited and the operator is told that the command is invalid although it has been
  carried out.
\<close>

theorem write_unaudited:
  assumes "command_fields rp c = Some (pid, Some v, priority, Some u)"
    and "get_user_role (wa_db a) u = Some r" "r \<in> set WRITER_ROLES"
    and "get_write_target (wa_db a) pid = Some t" "wt_writable t" "1 \<le> priority" "priority \<le> 16"
    and "v = NaN \<or> in_limits (wt_min t) (wt_max t) v" "unauditable t v"
    and "json_get c ''issued_at'' = Some JNull" "wa_faults a = []"
    and "dw (wt_ref t, Some v, priority) = Some \<lparr>wr_ok = True, wr_error = None\<rparr>"
    and "write_execute rp text_of dw max_age c a = (res, a')"
  shows "res = None \<and> wa_writes a' = wa_writes a @ [(wt_ref t, Some v, priority)] \<and>
    db_audit (wa_db a') = db_audit (wa_db a)"
proof -
  let ?a0 = "a\<lparr>wa_clock := tl (wa_clock a)\<rparr>"
  have "in_limits (wt_min t) (wt_max t) v" using assms(8) in_limits_nan by auto
  then have "refusal (Some t) (Some v) priority (Some u) (Some r) = None"
    using assms(3,5-7) by (simp add: refusal_None)
  then have ch: "check_command max_age (wa_now a) c (Some t) (Some v) priority (Some u) ?a0 = (Some None, ?a0)"
    using assms(2,10,11) by (simp add: check_command_def wa_io_def)
  have au: "add_audit (audit_of now pid (Some t) (Some v) priority (Some u) s) x = (True, x)"
    if "wa_faults x = []" for now s x
    using that audit_refused [OF assms(9)] by (simp add: add_audit_def wa_io_def)
  show ?thesis
    using assms(13) assms(1,4,11,12) ch au
    by (auto simp: write_execute_def wa_io_def Let_def)
qed

definition example_target :: "pyfloat option \<Rightarrow> database" where
  "example_target hi = empty_db
     \<lparr>db_devices := [(2, \<lparr>dv_network_id = 1, dv_instance = 100, dv_name = ''cta'',
         dv_address = ''10.0.0.2'', dv_online = True, dv_last_seen = None, dv_vendor = None,
         dv_model = None\<rparr>)],
      db_points := [(3, \<lparr>pt_device_id = 2, pt_object_type = ''analog-value'',
         pt_object_instance = 1, pt_name = ''setpoint'', pt_description = None, pt_unit = None,
         pt_writable = True, pt_cov_capable = True, pt_poll_interval_s = None, pt_path = None,
         pt_missing = False, pt_deadband = Fin 0, pt_max_interval_s = 900, pt_write_min = Some (Fin 15),
         pt_write_max = hi, pt_state_text = None\<rparr>)],
      db_roles := [(5, ''operator'')],
      db_users := [(6, \<lparr>us_login = ''ops'', us_password_hash = ''x'', us_role_id = 5, us_active = True\<rparr>)]\<rparr>"

definition example_write_app :: write_app where
  "example_write_app = \<lparr>wa_db = example_target (Some (Fin 25)), wa_clock = [2], wa_faults = [], wa_writes = [],
     wa_reads = []\<rparr>"

definition example_write :: "json \<Rightarrow> json" where
  "example_write v = JObj [(''point_id'', JStr (uuid_str 3)), (''value'', v), (''user_id'', JStr (uuid_str 6)),
     (''id'', JStr ''c1'')]"

definition example_ok :: "write_request \<Rightarrow> write_result option" where
  "example_ok = (\<lambda>_. Some \<lparr>wr_ok = True, wr_error = None\<rparr>)"

theorem write_authorised_witness:
  "fst (write_execute (\<lambda>_. []) (\<lambda>_. ''no'') example_ok MAX_WRITE_AGE_S (example_write (JInt 20)) example_write_app) =
     Some (Inr ()) \<and>
   (\<exists>pid vl priority user_id u. command_fields (\<lambda>_. []) (example_write (JInt 20)) = Some (pid, vl, priority, Some user_id) \<and>
      map_of (db_users (wa_db example_write_app)) user_id = Some u \<and> us_active u)"
proof (rule conjI)
  show a: "fst (write_execute (\<lambda>_. []) (\<lambda>_. ''no'') example_ok MAX_WRITE_AGE_S (example_write (JInt 20))
      example_write_app) = Some (Inr ())"
    by code_simp
  obtain res a' where e: "write_execute (\<lambda>_. []) (\<lambda>_. ''no'') example_ok MAX_WRITE_AGE_S
      (example_write (JInt 20)) example_write_app = (res, a')"
    by (metis surj_pair)
  with a have "wa_writes a' \<noteq> wa_writes example_write_app \<or> res = Some (Inr ())" by simp
  from write_authorised [OF e this]
  show "\<exists>pid vl priority user_id u. command_fields (\<lambda>_. []) (example_write (JInt 20)) =
      Some (pid, vl, priority, Some user_id) \<and>
      map_of (db_users (wa_db example_write_app)) user_id = Some u \<and> us_active u"
    by blast
qed

theorem write_unaudited_witness:
  "wa_writes (snd (write_execute (\<lambda>_. []) (\<lambda>_. ''no'') example_ok MAX_WRITE_AGE_S (example_write (JFloat NaN))
       example_write_app)) \<noteq> [] \<and>
   db_audit (wa_db (snd (write_execute (\<lambda>_. []) (\<lambda>_. ''no'') example_ok MAX_WRITE_AGE_S (example_write (JFloat NaN))
       example_write_app))) = []"
proof -
  obtain res a' where e: "write_execute (\<lambda>_. []) (\<lambda>_. ''no'') example_ok MAX_WRITE_AGE_S
      (example_write (JFloat NaN)) example_write_app = (res, a')"
    by (metis surj_pair)
  have f: "command_fields (\<lambda>_. []) (example_write (JFloat NaN)) = Some (3, Some NaN, 8, Some 6)"
    by code_simp
  have r: "get_user_role (wa_db example_write_app) 6 = Some ''operator''" by code_simp
  have m: "''operator'' \<in> set WRITER_ROLES" by code_simp
  obtain t where t: "get_write_target (wa_db example_write_app) 3 = Some t" "wt_writable t"
    by (simp add: get_write_target_def example_write_app_def example_target_def)
  have i: "json_get (example_write (JFloat NaN)) ''issued_at'' = Some JNull" by code_simp
  have w: "wa_faults example_write_app = []" "wa_writes example_write_app = []" "db_audit (wa_db example_write_app) = []"
    by (simp_all add: example_write_app_def example_target_def empty_db_def)
  have d: "example_ok (wt_ref t, Some NaN, 8) = Some \<lparr>wr_ok = True, wr_error = None\<rparr>"
    by (simp add: example_ok_def)
  have n: "NaN = NaN \<or> in_limits (wt_min t) (wt_max t) NaN" by simp
  have x: "unauditable t NaN" by (simp add: unauditable_def)
  from write_unaudited [OF f r m t _ _ n x i w(1) d e] w(2,3) e show ?thesis by simp
qed

theorem writes_within_limits_witness:
  "ledger (write_service (\<lambda>_. []) (\<lambda>_. ''no'') example_ok MAX_WRITE_AGE_S
     [Added (1, Some (example_write (JInt 20))), Round] example_write_app []) =
   [(1, Some (example_write (JInt 20)))]"
  using writes_within_limits [of example_write_app "\<lambda>_. []" "\<lambda>_. ''no''" example_ok MAX_WRITE_AGE_S
      "[Added (1, Some (example_write (JInt 20))), Round]" "[]"]
  by (simp add: example_write_app_def added_def)

end
