(* ===== verification/Collector_Recorder.thy ===== *)
theory Collector_Recorder
  imports Collector_Model
begin

section \<open>The recorder\<close>

text \<open>
  \<open>app/collector/recorder.py\<close> and the part of \<open>store.py\<close> it writes with: every reading is
  published and remembered as the latest of its point; it becomes a sample when it differs enough
  from the last sample of its point. Samples and latest values are written by batches; a batch is
  in flight between \<open>flush_begin\<close> (under the lock, the buffers are taken) and \<open>flush_end\<close> (the
  database answered or raised), and readings go on arriving in between.
\<close>

definition MAX_BUFFERED_ROWS :: nat where
  "MAX_BUFFERED_ROWS = 200000"

record recorder =
  rc_reg :: registry
  rc_samples :: "sample_row list"
  rc_latest :: "(uuid, sample_row) dict"
  rc_inflight :: "(sample_row list \<times> sample_row list) option"
  rc_published :: "reading list"
  rc_db :: database

definition recorder_init :: "registry \<Rightarrow> database \<Rightarrow> recorder" where
  "recorder_init reg db =
     \<lparr>rc_reg = reg, rc_samples = [], rc_latest = [], rc_inflight = None, rc_published = [], rc_db = db\<rparr>"

subsection \<open>Which readings are stored\<close>

definition should_store :: "point_state \<Rightarrow> reading \<Rightarrow> bool" where
  "should_store p r =
     (case ps_stored_ts p of
        None \<Rightarrow> True
      | Some ts \<Rightarrow>
          if \<not> ps_stored p then True
          else if Some (rd_status r) \<noteq> ps_stored_status p then True
          else if (rd_value r = None) \<noteq> (ps_stored_value p = None) then True
          else if (case (rd_value r, ps_stored_value p) of
                     (Some v, Some s) \<Rightarrow> fl_lt (ps_deadband p) (fl_abs (fl_sub v s))
                   | _ \<Rightarrow> False) then True
          else rd_ts r - ts \<ge> of_int (ps_max_interval_s p))"

definition row_of :: "reading \<Rightarrow> sample_row" where
  "row_of r = \<lparr>sa_point_id = rd_point_id r, sa_ts = rd_ts r, sa_value = rd_value r, sa_status = rd_status r\<rparr>"

definition mark_stored :: "reading \<Rightarrow> point_state \<Rightarrow> point_state" where
  "mark_stored r p =
     p\<lparr>ps_stored := True, ps_stored_value := rd_value r, ps_stored_status := Some (rd_status r),
       ps_stored_ts := Some (rd_ts r)\<rparr>"

text \<open>\<open>handle\<close>: whether the batch is full, so that the caller flushes, and the new state.\<close>

definition handle :: "nat \<Rightarrow> time \<Rightarrow> reading \<Rightarrow> recorder \<Rightarrow> bool \<times> recorder" where
  "handle batch_rows now r rc =
     (case registry_point (rc_reg rc) (rd_point_id r) of
        None \<Rightarrow> (False, rc)
      | Some (did, p) \<Rightarrow>
          (let reg1 = (if rd_status r \<noteq> COMM_LOST_VALUE
                       then set_device did (\<lambda>d. d\<lparr>ds_last_contact := now\<rparr>) (rc_reg rc) else rc_reg rc);
               store = should_store p r;
               reg2 = (if store then set_point did (rd_point_id r) (mark_stored r) reg1 else reg1);
               samples = (if store then rc_samples rc @ [row_of r] else rc_samples rc);
               latest = AList.update (rd_point_id r) (row_of r) (rc_latest rc)
           in (length samples \<ge> batch_rows \<or> length latest \<ge> batch_rows,
               rc\<lparr>rc_reg := reg2, rc_samples := samples, rc_latest := latest,
                 rc_published := rc_published rc @ [r]\<rparr>)))"

subsection \<open>Writing to the database\<close>

definition sample_key :: "sample_row \<Rightarrow> uuid \<times> time" where
  "sample_key s = (sa_point_id s, sa_ts s)"

text \<open>\<open>INSERT ... ON CONFLICT DO NOTHING\<close>: the primary key is (point, instant).\<close>

definition insert_sample :: "sample_row \<Rightarrow> sample_row list \<Rightarrow> sample_row list" where
  "insert_sample s ss = (if sample_key s \<in> set (map sample_key ss) then ss else ss @ [s])"

text \<open>\<open>INSERT ... ON CONFLICT DO UPDATE ... WHERE point_latest.ts <= excluded.ts\<close>\<close>

definition upsert_latest :: "sample_row \<Rightarrow> (uuid, latest_row) dict \<Rightarrow> (uuid, latest_row) dict" where
  "upsert_latest s ls =
     (let row = \<lparr>pl_ts = sa_ts s, pl_value = sa_value s, pl_status = sa_status s\<rparr> in
      case map_of ls (sa_point_id s) of
        None \<Rightarrow> AList.update (sa_point_id s) row ls
      | Some old \<Rightarrow> if pl_ts old \<le> sa_ts s then AList.update (sa_point_id s) row ls else ls)"

definition SAMPLE_CHUNK :: nat where "SAMPLE_CHUNK = 1000"

text \<open>One transaction; a row of an unknown point breaks a foreign key and undoes it all.\<close>

definition write_samples :: "sample_row list \<Rightarrow> sample_row list \<Rightarrow> database \<Rightarrow> database option" where
  "write_samples samples latest db =
     (if \<forall>s \<in> set (samples @ latest). map_of (db_points db) (sa_point_id s) \<noteq> None then
        Some (db\<lparr>db_samples := fold (fold insert_sample) (chunks SAMPLE_CHUNK samples) (db_samples db),
                 db_latest := fold (fold upsert_latest) (chunks SAMPLE_CHUNK latest) (db_latest db)\<rparr>)
      else None)"

subsection \<open>Flushing\<close>

definition flush_begin :: "recorder \<Rightarrow> recorder" where
  "flush_begin rc =
     (if rc_inflight rc \<noteq> None \<or> (rc_samples rc = [] \<and> rc_latest rc = []) then rc
      else rc\<lparr>rc_inflight := Some (rc_samples rc, map snd (rc_latest rc)), rc_samples := [],
             rc_latest := []\<rparr>)"

definition flush_end :: "bool \<Rightarrow> recorder \<Rightarrow> recorder" where
  "flush_end up rc =
     (case rc_inflight rc of
        None \<Rightarrow> rc
      | Some (samples, latest) \<Rightarrow>
          (case (if up then write_samples samples latest (rc_db rc) else None) of
             Some db \<Rightarrow> rc\<lparr>rc_inflight := None, rc_db := db\<rparr>
           | None \<Rightarrow>
               rc\<lparr>rc_inflight := None,
                 rc_samples := last_n MAX_BUFFERED_ROWS (samples @ rc_samples rc),
                 rc_latest := fold (\<lambda>row. dict_setdefault (sa_point_id row) row) latest (rc_latest rc)\<rparr>))"

datatype recorder_event = Handle time reading | Flush_Begin | Flush_End bool

fun recorder_step :: "nat \<Rightarrow> recorder_event \<Rightarrow> recorder \<Rightarrow> recorder" where
  "recorder_step batch_rows (Handle now r) rc = snd (handle batch_rows now r rc)"
| "recorder_step batch_rows Flush_Begin rc = flush_begin rc"
| "recorder_step batch_rows (Flush_End up) rc = flush_end up rc"

subsection \<open>The history follows the readings\<close>

text \<open>The last stored sample of a point stands for a reading.\<close>

definition stands_for :: "point_state \<Rightarrow> reading \<Rightarrow> bool" where
  "stands_for p r \<longleftrightarrow> ps_stored p \<and> ps_stored_status p = Some (rd_status r) \<and>
     (rd_value r = None \<longleftrightarrow> ps_stored_value p = None) \<and>
     (\<forall>v s. rd_value r = Some v \<and> ps_stored_value p = Some s \<longrightarrow>
        v = s \<or> \<not> fl_lt (ps_deadband p) (fl_abs (fl_sub v s))) \<and>
     (\<exists>ts. ps_stored_ts p = Some ts \<and> (rd_ts r = ts \<or> rd_ts r - ts < of_int (ps_max_interval_s p)))"

lemma stands_for_stored: "stands_for (mark_stored r p) r"
  by (auto simp: stands_for_def mark_stored_def)

lemma stands_for_kept: "\<not> should_store p r \<Longrightarrow> stands_for p r"
  by (auto simp: should_store_def stands_for_def split: option.splits if_splits)

lemma handle_point:
  assumes wf: "registry_wf (rc_reg rc)" and p: "registry_point (rc_reg rc) (rd_point_id r) = Some (did, p)"
  shows "registry_wf (rc_reg (snd (handle n now r rc))) \<and>
    registry_point (rc_reg (snd (handle n now r rc))) pid =
      (if pid = rd_point_id r then Some (did, if should_store p r then mark_stored r p else p)
       else registry_point (rc_reg rc) pid)"
proof -
  let ?reg1 = "if rd_status r \<noteq> COMM_LOST_VALUE
    then set_device did (\<lambda>d. d\<lparr>ds_last_contact := now\<rparr>) (rc_reg rc) else rc_reg rc"
  have wf1: "registry_wf ?reg1" using wf registry_wf_set_device by simp
  have same: "registry_point ?reg1 q = registry_point (rc_reg rc) q" for q
    using registry_point_set_device [OF wf, of "\<lambda>d. d\<lparr>ds_last_contact := now\<rparr>"] by simp
  have p1: "registry_point ?reg1 (rd_point_id r) = Some (did, p)" using p same by simp
  have reg: "rc_reg (snd (handle n now r rc)) =
      (if should_store p r then set_point did (rd_point_id r) (mark_stored r) ?reg1 else ?reg1)"
    using p by (simp add: handle_def Let_def)
  show ?thesis
  proof (cases "should_store p r")
    case True
    with reg registry_point_set_point [OF wf1 p1, of "mark_stored r" pid] same wf1 show ?thesis
      by simp
  next
    case False
    with reg same wf1 p show ?thesis by simp
  qed
qed

text \<open>
  The history follows the readings within the dead band: after the recorder has handled a
  reading of a known point, the last sample kept for the point has the status of the reading,
  a value (or none) within the dead band of the reading's, and is more recent than
  \<open>max_interval_s\<close> or is the reading itself.
\<close>

theorem history_within_deadband:
  assumes "registry_wf (rc_reg rc)" "registry_point (rc_reg rc) (rd_point_id r) = Some (did, p)"
  shows "\<exists>p'. registry_point (rc_reg (snd (handle n now r rc))) (rd_point_id r) = Some (did, p') \<and>
    stands_for p' r"
proof -
  have "registry_point (rc_reg (snd (handle n now r rc))) (rd_point_id r) =
      Some (did, if should_store p r then mark_stored r p else p)"
    using handle_point [OF assms, of n now "rd_point_id r"] by simp
  with stands_for_stored stands_for_kept [of p r] show ?thesis by (cases "should_store p r") auto
qed

subsection \<open>No sample is lost\<close>

definition inflight_samples :: "recorder \<Rightarrow> sample_row list" where
  "inflight_samples rc = (case rc_inflight rc of None \<Rightarrow> [] | Some (samples, _) \<Rightarrow> samples)"

text \<open>The keys of all samples: in the database, in flight, or in the buffer.\<close>

definition kept_keys :: "recorder \<Rightarrow> (uuid \<times> time) set" where
  "kept_keys rc = sample_key ` set (db_samples (rc_db rc) @ inflight_samples rc @ rc_samples rc)"

text \<open>Every point marked as stored has its last sample among them.\<close>

definition stored_kept :: "recorder \<Rightarrow> bool" where
  "stored_kept rc \<longleftrightarrow> registry_wf (rc_reg rc) \<and>
     (\<forall>pid did p ts. registry_point (rc_reg rc) pid = Some (did, p) \<longrightarrow> ps_stored p \<longrightarrow>
        ps_stored_ts p = Some ts \<longrightarrow> (pid, ts) \<in> kept_keys rc)"

definition buffered :: "recorder \<Rightarrow> nat" where
  "buffered rc = length (inflight_samples rc) + length (rc_samples rc)"

lemma fold_insert_keys:
  "set (map sample_key (fold insert_sample ss db)) = set (map sample_key db) \<union> set (map sample_key ss)"
proof (induction ss arbitrary: db)
  case (Cons s ss)
  have "set (map sample_key (insert_sample s db)) = insert (sample_key s) (set (map sample_key db))"
    by (auto simp: insert_sample_def)
  with Cons.IH [of "insert_sample s db"] show ?case by simp
qed simp

lemma fold_concat: "fold f (concat xss) a = fold (fold f) xss a"
  by (induction xss arbitrary: a) simp_all

lemma fold_chunks: "0 < n \<Longrightarrow> fold (fold f) (chunks n xs) a = fold f xs a"
  using fold_concat [of f "chunks n xs" a] by simp

lemma write_samples_keys:
  assumes "write_samples samples latest db = Some db'"
  shows "sample_key ` set (db_samples db') = sample_key ` set (db_samples db) \<union> sample_key ` set samples"
  using assms fold_insert_keys [of samples "db_samples db"]
  by (auto simp: write_samples_def fold_chunks SAMPLE_CHUNK_def split: if_splits)

lemma flush_begin_kept [simp]:
  "kept_keys (flush_begin rc) = kept_keys rc" "rc_reg (flush_begin rc) = rc_reg rc"
  "buffered (flush_begin rc) = buffered rc"
  by (cases "rc_inflight rc"; simp add: flush_begin_def kept_keys_def inflight_samples_def buffered_def)+

lemma flush_end_kept:
  assumes "buffered rc \<le> MAX_BUFFERED_ROWS"
  shows "kept_keys (flush_end up rc) = kept_keys rc \<and> rc_reg (flush_end up rc) = rc_reg rc \<and>
    buffered (flush_end up rc) \<le> buffered rc"
proof (cases "rc_inflight rc")
  case None
  then show ?thesis by (simp add: flush_end_def)
next
  case (Some sl)
  obtain samples latest where sl: "sl = (samples, latest)" by (cases sl)
  show ?thesis
  proof (cases "if up then write_samples samples latest (rc_db rc) else None")
    case None
    with Some sl have eq: "flush_end up rc = rc\<lparr>rc_inflight := None,
        rc_samples := last_n MAX_BUFFERED_ROWS (samples @ rc_samples rc),
        rc_latest := fold (\<lambda>row. dict_setdefault (sa_point_id row) row) latest (rc_latest rc)\<rparr>"
      by (simp add: flush_end_def)
    have "last_n MAX_BUFFERED_ROWS (samples @ rc_samples rc) = samples @ rc_samples rc"
      using assms Some sl by (intro last_n_all) (simp add: buffered_def inflight_samples_def)
    with eq Some sl show ?thesis
      by (simp add: kept_keys_def inflight_samples_def buffered_def)
  next
    case (Some db)
    then have w: "write_samples samples latest (rc_db rc) = Some db" by (auto split: if_splits)
    from Some \<open>rc_inflight rc = Some sl\<close> sl have "flush_end up rc = rc\<lparr>rc_inflight := None, rc_db := db\<rparr>"
      by (simp add: flush_end_def)
    with write_samples_keys [OF w] \<open>rc_inflight rc = Some sl\<close> sl show ?thesis
      by (auto simp: kept_keys_def inflight_samples_def buffered_def)
  qed
qed

lemma handle_kept:
  assumes inv: "stored_kept rc"
  shows "stored_kept (snd (handle n now r rc)) \<and> kept_keys rc \<subseteq> kept_keys (snd (handle n now r rc)) \<and>
    buffered (snd (handle n now r rc)) \<le> Suc (buffered rc)"
proof (cases "registry_point (rc_reg rc) (rd_point_id r)")
  case None
  with inv show ?thesis by (simp add: handle_def)
next
  case (Some dp)
  obtain did p where dp: "dp = (did, p)" by (cases dp)
  let ?rc = "snd (handle n now r rc)"
  have wf: "registry_wf (rc_reg rc)" using inv by (simp add: stored_kept_def)
  note hp = handle_point [OF wf Some [unfolded dp], of n now]
  have parts: "rc_inflight ?rc = rc_inflight rc" "rc_db ?rc = rc_db rc"
    "rc_samples ?rc = (if should_store p r then rc_samples rc @ [row_of r] else rc_samples rc)"
    using Some dp by (simp_all add: handle_def Let_def)
  have keys: "kept_keys ?rc = kept_keys rc \<union> (if should_store p r then {sample_key (row_of r)} else {})"
    by (auto simp: kept_keys_def inflight_samples_def parts)
  have "(pid, ts) \<in> kept_keys ?rc"
    if q: "registry_point (rc_reg ?rc) pid = Some (k, q)" "ps_stored q" "ps_stored_ts q = Some ts"
    for pid k q ts
  proof (cases "pid = rd_point_id r \<and> should_store p r")
    case True
    with q hp [of pid] have "ts = rd_ts r" by (auto simp: mark_stored_def)
    with True keys show ?thesis by (simp add: sample_key_def row_of_def)
  next
    case False
    with q(1) hp [of pid] Some dp have "registry_point (rc_reg rc) pid = Some (k, q)"
      by (auto split: if_splits)
    with inv q(2,3) keys show ?thesis by (auto simp: stored_kept_def)
  qed
  then have "stored_kept ?rc" using hp by (simp add: stored_kept_def)
  moreover have "buffered ?rc \<le> Suc (buffered rc)"
    by (simp add: buffered_def inflight_samples_def parts)
  ultimately show ?thesis using keys by auto
qed

definition handles :: "recorder_event list \<Rightarrow> nat" where
  "handles es = length (List.filter (\<lambda>e. case e of Handle _ _ \<Rightarrow> True | _ \<Rightarrow> False) es)"

lemma recorder_run_kept:
  assumes "stored_kept rc" "buffered rc + handles es \<le> MAX_BUFFERED_ROWS"
  shows "stored_kept (fold (recorder_step n) es rc) \<and>
    kept_keys rc \<subseteq> kept_keys (fold (recorder_step n) es rc)"
  using assms
proof (induction es arbitrary: rc)
  case (Cons e es)
  have "stored_kept (recorder_step n e rc) \<and> kept_keys rc \<subseteq> kept_keys (recorder_step n e rc) \<and>
      buffered (recorder_step n e rc) + handles es \<le> MAX_BUFFERED_ROWS"
  proof (cases e)
    case (Handle now r)
    with Cons.prems handle_kept [OF Cons.prems(1), of n now r] show ?thesis
      by (auto simp: handles_def)
  next
    case Flush_Begin
    with Cons.prems show ?thesis by (auto simp: handles_def stored_kept_def)
  next
    case (Flush_End up)
    with Cons.prems flush_end_kept [of rc up] show ?thesis
      by (auto simp: handles_def stored_kept_def)
  qed
  with Cons.IH [of "recorder_step n e rc"] show ?case by auto
qed simp

text \<open>
  C10. No sample is lost while the database is down: in a run of at most 200000 readings, however
  flushes and failures of the database interleave with them, the last stored sample of every
  point is in the database, in the batch being written or in the buffer, and so is every sample
  that was in one of them earlier in the run.
\<close>

theorem samples_not_lost:
  assumes "registry_wf reg" "\<forall>pid did p. registry_point reg pid = Some (did, p) \<longrightarrow> \<not> ps_stored p"
    and "handles (es @ es') \<le> MAX_BUFFERED_ROWS"
  shows "stored_kept (fold (recorder_step n) es (recorder_init reg db)) \<and>
    kept_keys (fold (recorder_step n) es (recorder_init reg db)) \<subseteq>
      kept_keys (fold (recorder_step n) (es @ es') (recorder_init reg db))"
proof -
  have init: "stored_kept (recorder_init reg db)"
    using assms(1,2) by (auto simp: stored_kept_def recorder_init_def)
  have b: "buffered (recorder_init reg db) = 0"
    by (simp add: buffered_def recorder_init_def inflight_samples_def)
  have mono: "buffered (fold (recorder_step n) es rc) \<le> buffered rc + handles es"
    if "stored_kept rc" "buffered rc + handles es \<le> MAX_BUFFERED_ROWS" for es rc
    using that
  proof (induction es arbitrary: rc)
    case (Cons e es)
    have "stored_kept (recorder_step n e rc) \<and>
        buffered (recorder_step n e rc) + handles es \<le> buffered rc + handles (e # es)"
    proof (cases e)
      case (Handle now r)
      with handle_kept [OF Cons.prems(1), of n now r] show ?thesis by (auto simp: handles_def)
    next
      case (Flush_End up)
      with Cons.prems flush_end_kept [of rc up] show ?thesis
        by (auto simp: handles_def stored_kept_def)
    qed (use Cons.prems in \<open>auto simp: handles_def stored_kept_def\<close>)
    with Cons.IH [of "recorder_step n e rc"] Cons.prems(2) show ?case by fastforce
  qed simp
  have h: "handles (es @ es') = handles es + handles es'" by (simp add: handles_def)
  have 1: "stored_kept (fold (recorder_step n) es (recorder_init reg db))"
    using recorder_run_kept [OF init, of es n] b assms(3) h by simp
  have 2: "buffered (fold (recorder_step n) es (recorder_init reg db)) \<le> handles es"
    using mono [OF init, of es] b assms(3) h by simp
  show ?thesis
    using 1 2 recorder_run_kept [OF 1, of es' n] assms(3) h by simp
qed

subsection \<open>The latest value\<close>

lemma fold_upsert_latest:
  "map_of ls pid = Some old \<Longrightarrow> \<exists>new. map_of (fold upsert_latest ss ls) pid = Some new \<and> pl_ts old \<le> pl_ts new"
proof (induction ss arbitrary: ls old)
  case (Cons s ss)
  have "\<exists>new. map_of (upsert_latest s ls) pid = Some new \<and> pl_ts old \<le> pl_ts new"
    using Cons.prems
    by (cases "map_of ls (sa_point_id s)"; cases "pid = sa_point_id s")
      (simp_all add: upsert_latest_def Let_def)
  then obtain new where "map_of (upsert_latest s ls) pid = Some new" "pl_ts old \<le> pl_ts new" by blast
  with Cons.IH [of "upsert_latest s ls" new] show ?case by auto
qed auto

text \<open>
  The latest value of a point never goes back in time: whatever batch is written, the row of
  \<open>point_latest\<close> keeps an instant at least as recent.
\<close>

theorem latest_never_goes_back:
  assumes "write_samples samples latest db = Some db'" "map_of (db_latest db) pid = Some old"
  shows "\<exists>new. map_of (db_latest db') pid = Some new \<and> pl_ts old \<le> pl_ts new"
  using assms fold_upsert_latest [OF assms(2), of latest]
  by (auto simp: write_samples_def fold_chunks SAMPLE_CHUNK_def split: if_splits)

subsection \<open>An example\<close>

definition example_point :: point_state where
  "example_point =
     \<lparr>ps_ref = \<lparr>pr_point_id = 3, pr_device_instance = 100, pr_address = ''10.0.0.2'',
         pr_object_type = ''analog-input'', pr_object_instance = 1\<rparr>,
      ps_name = ''temp'', ps_path = None, ps_deadband = Fin (1 / 2), ps_max_interval_s = 900,
      ps_poll_interval_s = 30, ps_cov_capable = True, ps_next_due = 0, ps_cov_active = False,
      ps_cov_expires = None, ps_cov_retry_at = 0, ps_stored = False, ps_stored_value = None,
      ps_stored_status = None, ps_stored_ts = None\<rparr>"

definition example_device :: device_state where
  "example_device =
     \<lparr>ds_instance = 100, ds_address = ''10.0.0.2'', ds_name = ''cta'', ds_supports_cov = True,
      ds_online = True, ds_points = [(3, example_point)], ds_failures = 0, ds_last_contact = 0,
      ds_last_attempt = 0, ds_last_seen_written = 0\<rparr>"

definition example_registry :: registry where
  "example_registry = [(2, example_device)]"

definition example_reading :: "time \<Rightarrow> rat \<Rightarrow> reading" where
  "example_reading t v = \<lparr>rd_point_id = 3, rd_ts = t, rd_value = Some (Fin v), rd_status = OK, rd_raw = Raw_Float (Fin v)\<rparr>"

lemma example_registry_wf: "registry_wf example_registry"
  by (simp add: registry_wf_def point_ids_def example_registry_def example_device_def)

lemma example_registry_point:
  "registry_point example_registry pid = (if pid = 3 then Some (2, example_point) else None)"
  by (simp add: registry_point_def point_index_def example_registry_def example_device_def dict_of_def
      example_point_def)

theorem history_within_deadband_witness:
  "\<exists>p'. registry_point (rc_reg (snd (handle 500 7 (example_reading 7 20)
      (recorder_init example_registry empty_db)))) 3 = Some (2, p') \<and> stands_for p' (example_reading 7 20)"
  using history_within_deadband [of "recorder_init example_registry empty_db" "example_reading 7 20" 2 example_point]
  by (simp add: example_registry_wf example_registry_point recorder_init_def example_reading_def)

definition example_recording :: "recorder_event list" where
  "example_recording = [Handle 7 (example_reading 7 20), Flush_Begin, Handle 8 (example_reading 8 22)]"

theorem samples_not_lost_witness:
  "(3, 7) \<in> kept_keys (fold (recorder_step 500) example_recording (recorder_init example_registry empty_db)) \<and>
   kept_keys (fold (recorder_step 500) example_recording (recorder_init example_registry empty_db)) \<subseteq>
     kept_keys (fold (recorder_step 500) (example_recording @ [Flush_End False])
       (recorder_init example_registry empty_db))"
proof
  show "(3, 7) \<in> kept_keys (fold (recorder_step 500) example_recording (recorder_init example_registry empty_db))"
    by code_simp
  have n: "\<forall>pid did p. registry_point example_registry pid = Some (did, p) \<longrightarrow> \<not> ps_stored p"
    by (auto simp: example_registry_point example_point_def)
  have "handles (example_recording @ [Flush_End False]) \<le> MAX_BUFFERED_ROWS"
    by (simp add: example_recording_def handles_def MAX_BUFFERED_ROWS_def)
  from conjunct2 [OF samples_not_lost [OF example_registry_wf n this]]
  show "kept_keys (fold (recorder_step 500) example_recording (recorder_init example_registry empty_db)) \<subseteq>
     kept_keys (fold (recorder_step 500) (example_recording @ [Flush_End False])
       (recorder_init example_registry empty_db))"
    by blast
qed

definition example_history :: database where
  "example_history = empty_db
     \<lparr>db_points := [(3, \<lparr>pt_device_id = 2, pt_object_type = ''analog-input'',
         pt_object_instance = 1, pt_name = ''temp'', pt_description = None, pt_unit = None,
         pt_writable = False, pt_cov_capable = True, pt_poll_interval_s = None, pt_path = None,
         pt_missing = False, pt_deadband = Fin 0, pt_max_interval_s = 900, pt_write_min = None,
         pt_write_max = None, pt_state_text = None\<rparr>)],
      db_latest := [(3, \<lparr>pl_ts = 9, pl_value = None, pl_status = OK\<rparr>)]\<rparr>"

theorem latest_never_goes_back_witness:
  "\<exists>db' new. write_samples [] [row_of (example_reading 7 20)] example_history = Some db' \<and>
     map_of (db_latest db') 3 = Some new \<and> 9 \<le> pl_ts new"
proof -
  have "map_of (db_latest example_history) 3 = Some \<lparr>pl_ts = 9, pl_value = None, pl_status = OK\<rparr>"
    by (simp add: example_history_def)
  moreover obtain db' where "write_samples [] [row_of (example_reading 7 20)] example_history = Some db'"
    by (simp add: write_samples_def example_history_def row_of_def example_reading_def)
  ultimately show ?thesis
    using latest_never_goes_back [of "[]" "[row_of (example_reading 7 20)]" example_history db' 3] by auto
qed

end
