(* ===== verification/Collector_Poller.thy ===== *)
theory Collector_Poller
  imports Collector_Recorder
begin

section \<open>Polling\<close>

text \<open>
  \<open>app/collector/poller.py\<close>: which points of a device are due, one polling cycle over them, and
  the state of the link (failures, online). The driver's \<open>read\<close> is a parameter: what it returns
  or raises for each batch. \<open>po_faults\<close> decides which accesses to the database and to Redis raise
  while a change of state is announced (such an error is logged and ignored by the code).
\<close>

definition LAST_SEEN_PERIOD_S :: time where "LAST_SEEN_PERIOD_S = 60"

record poller =
  po_rec :: recorder
  po_status :: "(uuid \<times> bool) list"
  po_faults :: "bool list"

abbreviation po_reg :: "poller \<Rightarrow> registry" where
  "po_reg po \<equiv> rc_reg (po_rec po)"

definition po_io :: "poller \<Rightarrow> bool \<times> poller" where
  "po_io po = (case po_faults po of [] \<Rightarrow> (False, po) | f # fs \<Rightarrow> (f, po\<lparr>po_faults := fs\<rparr>))"

definition on_reg :: "(registry \<Rightarrow> registry) \<Rightarrow> poller \<Rightarrow> poller" where
  "on_reg f po = po\<lparr>po_rec := (po_rec po)\<lparr>rc_reg := f (rc_reg (po_rec po))\<rparr>\<rparr>"

definition set_all_points :: "(point_state \<Rightarrow> point_state) \<Rightarrow> device_state \<Rightarrow> device_state" where
  "set_all_points f d = d\<lparr>ds_points := map (\<lambda>(pid, p). (pid, f p)) (ds_points d)\<rparr>"

subsection \<open>Due points\<close>

definition interval :: "cov_config \<Rightarrow> point_state \<Rightarrow> time" where
  "interval cov p = (if ps_cov_active p then cc_safety_poll_s cov else ps_poll_interval_s p)"

text \<open>The first reading of a point is spread over its interval; \<open>jitter\<close> is the random offset.\<close>

definition spread :: "time \<Rightarrow> (uuid \<Rightarrow> time) \<Rightarrow> device_state \<Rightarrow> device_state" where
  "spread now jitter d =
     d\<lparr>ds_points := map (\<lambda>(pid, p). (pid, if ps_next_due p = 0 then p\<lparr>ps_next_due := now + jitter pid\<rparr> else p))
         (ds_points d)\<rparr>"

text \<open>\<open>min(points, key=lambda p: p.next_due)\<close>: the first one with the least date.\<close>

fun earliest :: "(uuid \<times> point_state) list \<Rightarrow> (uuid \<times> point_state) list" where
  "earliest [] = []"
| "earliest (x # xs) =
     (case earliest xs of
        [] \<Rightarrow> [x]
      | y # _ \<Rightarrow> if ps_next_due (snd y) < ps_next_due (snd x) then [y] else [x])"

definition due_points ::
  "polling_config \<Rightarrow> time \<Rightarrow> (uuid \<Rightarrow> time) \<Rightarrow> device_state \<Rightarrow> uuid list \<times> device_state" where
  "due_points cfg now jitter d =
     (if ds_points d = [] then ([], d)
      else let d1 = spread now jitter d; points = ds_points d1; every = pc_default_interval_s cfg in
        if \<not> ds_online d1 then
          (if now - ds_last_attempt d1 \<ge> every then [fst (hd points)] else [], d1)
        else let due = List.filter (\<lambda>(pid, p). ps_next_due p \<le> now) points in
          if due = [] \<and> now - max (ds_last_contact d1) (ds_last_attempt d1) \<ge> every
          then (map fst (earliest points), d1)
          else (map fst due, d1))"

subsection \<open>One cycle\<close>

text \<open>\<open>DbStore.set_device_status\<close>: the column \<open>last_seen\<close> is written only with a date.\<close>

definition set_device_status :: "uuid \<Rightarrow> bool \<Rightarrow> time option \<Rightarrow> database \<Rightarrow> database" where
  "set_device_status did online last_seen db =
     db\<lparr>db_devices := map (\<lambda>(k, r).
         (k, if k = did
             then r\<lparr>dv_online := online,
               dv_last_seen := (case last_seen of None \<Rightarrow> dv_last_seen r | Some t \<Rightarrow> Some t)\<rparr>
             else r)) (db_devices db)\<rparr>"

definition publish_status :: "uuid \<Rightarrow> bool \<Rightarrow> time \<Rightarrow> time \<Rightarrow> poller \<Rightarrow> poller" where
  "publish_status did online now stamp po =
     (let po1 = on_reg (set_device did (\<lambda>d. d\<lparr>ds_last_seen_written := now\<rparr>)) po;
          (failed, po2) = po_io po1
      in if failed then po2
         else let db' = set_device_status did online (if online then Some stamp else None) (rc_db (po_rec po2));
                  (failed', po3) = po_io (po2\<lparr>po_rec := (po_rec po2)\<lparr>rc_db := db'\<rparr>\<rparr>)
              in if failed' then po3 else po3\<lparr>po_status := po_status po3 @ [(did, online)]\<rparr>)"

definition touch_last_seen :: "uuid \<Rightarrow> time \<Rightarrow> time \<Rightarrow> poller \<Rightarrow> poller" where
  "touch_last_seen did now stamp po =
     (let po1 = on_reg (set_device did (\<lambda>d. d\<lparr>ds_last_seen_written := now\<rparr>)) po;
          (failed, po2) = po_io po1
      in if failed then po2
         else let db' = set_device_status did True (Some stamp) (rc_db (po_rec po2))
              in po2\<lparr>po_rec := (po_rec po2)\<lparr>rc_db := db'\<rparr>\<rparr>)"

definition on_success :: "uuid \<Rightarrow> time \<Rightarrow> time \<Rightarrow> poller \<Rightarrow> poller" where
  "on_success did now stamp po =
     (case map_of (po_reg po) did of
        None \<Rightarrow> po
      | Some d \<Rightarrow>
          (let po1 = on_reg (set_device did (\<lambda>d. d\<lparr>ds_failures := 0, ds_last_contact := now\<rparr>)) po in
           if \<not> ds_online d then
             (let po2 = publish_status did True now stamp
                    (on_reg (set_device did (\<lambda>d. d\<lparr>ds_online := True\<rparr>)) po1)
              in on_reg (set_device did (set_all_points
                   (\<lambda>p. p\<lparr>ps_next_due := now, ps_cov_active := False, ps_cov_retry_at := 0\<rparr>))) po2)
           else if now - ds_last_seen_written d \<ge> LAST_SEEN_PERIOD_S then touch_last_seen did now stamp po1
           else po1))"

text \<open>Handling one reading from the poller.\<close>

definition po_handle :: "nat \<Rightarrow> time \<Rightarrow> reading \<Rightarrow> poller \<Rightarrow> poller" where
  "po_handle batch_rows now r po = po\<lparr>po_rec := snd (handle batch_rows now r (po_rec po))\<rparr>"

definition lose_point :: "cov_config \<Rightarrow> nat \<Rightarrow> uuid \<Rightarrow> time \<Rightarrow> time \<Rightarrow> uuid \<Rightarrow> poller \<Rightarrow> poller" where
  "lose_point cov batch_rows did now stamp pid po =
     on_reg (set_point did pid (\<lambda>p. p\<lparr>ps_next_due := now + interval cov p\<rparr>))
       (po_handle batch_rows now (comm_lost_reading pid stamp) po)"

definition on_failure ::
  "polling_config \<Rightarrow> cov_config \<Rightarrow> nat \<Rightarrow> uuid \<Rightarrow> time \<Rightarrow> time \<Rightarrow> uuid list \<Rightarrow> poller \<Rightarrow> poller" where
  "on_failure cfg cov batch_rows did now stamp points po =
     (case map_of (po_reg po) did of
        None \<Rightarrow> po
      | Some d \<Rightarrow>
          (let po1 = on_reg (set_device did (\<lambda>d. d\<lparr>ds_failures := ds_failures d + 1\<rparr>)) po in
           if ds_online d \<and> ds_failures d + 1 \<ge> pc_offline_after_cycles cfg then
             (let po2 = publish_status did False now stamp
                    (on_reg (set_device did (\<lambda>d. d\<lparr>ds_online := False\<rparr>)) po1);
                  po3 = on_reg (set_device did (set_all_points (\<lambda>p. p\<lparr>ps_cov_active := False\<rparr>))) po2
              in fold (lose_point cov batch_rows did now stamp) (dict_keys (ds_points d)) po3)
           else fold (lose_point cov batch_rows did now stamp) points po1))"

text \<open>
  The batches of a cycle: \<open>True\<close> when one was answered, \<open>True\<close> when the device stopped answering,
  and the number of points done. A refused batch counts as answered, its points become faulty.
\<close>

fun poll_chunks ::
  "cov_config \<Rightarrow> nat \<Rightarrow> (uuid list \<Rightarrow> driver_error + reading list) \<Rightarrow> uuid \<Rightarrow> time \<Rightarrow> time \<Rightarrow>
   uuid list list \<Rightarrow> poller \<Rightarrow> bool \<times> bool \<times> nat \<times> poller" where
  "poll_chunks cov n read did now stamp [] po = (False, False, 0, po)"
| "poll_chunks cov n read did now stamp (chunk # cs) po =
     (case read chunk of
        Inl Device_Unreachable \<Rightarrow> (False, True, 0, po)
      | res \<Rightarrow>
          (let readings = (case res of Inr rs \<Rightarrow> rs | Inl _ \<Rightarrow> map (\<lambda>pid. fault_reading pid stamp) chunk);
               po1 = fold (po_handle n now) readings po;
               po2 = fold (\<lambda>pid. on_reg (set_point did pid (\<lambda>p. p\<lparr>ps_next_due := now + interval cov p\<rparr>))) chunk po1;
               (_, unreachable, k, po3) = poll_chunks cov n read did now stamp cs po2
           in (True, unreachable, length chunk + k, po3)))"

definition poll_cycle ::
  "polling_config \<Rightarrow> cov_config \<Rightarrow> nat \<Rightarrow> (uuid list \<Rightarrow> driver_error + reading list) \<Rightarrow> uuid \<Rightarrow>
   time \<Rightarrow> time \<Rightarrow> time \<Rightarrow> uuid list \<Rightarrow> poller \<Rightarrow> poller" where
  "poll_cycle cfg cov n read did now now' stamp points po =
     (let po1 = on_reg (set_device did (\<lambda>d. d\<lparr>ds_last_attempt := now\<rparr>)) po;
          (answered, unreachable, k, po2) =
            poll_chunks cov n read did now stamp (chunks (pc_batch_size cfg) points) po1
      in if unreachable then on_failure cfg cov n did now' stamp (drop k points) po2
         else if answered then on_success did now' stamp po2
         else po2)"

text \<open>One turn of \<open>_device_loop\<close>.\<close>

definition device_turn ::
  "polling_config \<Rightarrow> cov_config \<Rightarrow> nat \<Rightarrow> (uuid list \<Rightarrow> driver_error + reading list) \<Rightarrow>
   (uuid \<Rightarrow> time) \<Rightarrow> uuid \<Rightarrow> time \<Rightarrow> time \<Rightarrow> time \<Rightarrow> poller \<Rightarrow> poller" where
  "device_turn cfg cov n read jitter did now now' stamp po =
     (case map_of (po_reg po) did of
        None \<Rightarrow> po
      | Some d \<Rightarrow>
          (let (due, d1) = due_points cfg now jitter d;
               po1 = on_reg (set_device did (\<lambda>_. d1)) po
           in if due = [] then po1 else poll_cycle cfg cov n read did now now' stamp due po1))"

subsection \<open>The link\<close>

text \<open>The abstract link: consecutive failed cycles, and whether the device counts as online.\<close>

definition link :: "registry \<Rightarrow> uuid \<Rightarrow> (int \<times> bool) option" where
  "link reg did = map_option (\<lambda>d. (ds_failures d, ds_online d)) (map_of reg did)"

datatype outcome = Answered | Lost

fun link_step :: "int \<Rightarrow> outcome \<Rightarrow> int \<times> bool \<Rightarrow> int \<times> bool" where
  "link_step limit Answered (k, online) = (0, True)"
| "link_step limit Lost (k, online) = (k + 1, online \<and> k + 1 < limit)"

text \<open>The outcome of a cycle: lost if a batch is not answered; \<open>None\<close> when nothing was read.\<close>

fun cycle_outcome :: "(uuid list \<Rightarrow> driver_error + reading list) \<Rightarrow> uuid list list \<Rightarrow> outcome option" where
  "cycle_outcome read [] = None"
| "cycle_outcome read (c # cs) =
     (if read c = Inl Device_Unreachable then Some Lost
      else if cycle_outcome read cs = Some Lost then Some Lost else Some Answered)"

lemma link_set_device:
  "(\<And>d. ds_failures (f d) = ds_failures d) \<Longrightarrow> (\<And>d. ds_online (f d) = ds_online d) \<Longrightarrow>
     link (set_device k f reg) did = link reg did"
  by (cases "map_of reg did") (auto simp: link_def)

lemma link_set_point [simp]: "link (set_point k pid f reg) did = link reg did"
  unfolding set_point_def by (rule link_set_device) simp_all

lemma po_reg_on_reg [simp]: "po_reg (on_reg f po) = f (po_reg po)"
  by (simp add: on_reg_def)

lemma link_handle [simp]: "link (rc_reg (snd (handle n now r rc))) did = link (rc_reg rc) did"
  by (auto simp: handle_def Let_def link_set_device split: option.splits)

lemma po_reg_handle [simp]: "link (po_reg (po_handle n now r po)) did = link (po_reg po) did"
  by (simp add: po_handle_def)

lemma link_fold_handle [simp]: "link (po_reg (fold (po_handle n now) rs po)) did = link (po_reg po) did"
  by (induction rs arbitrary: po) simp_all

lemma link_fold_due [simp]:
  "link (po_reg (fold (\<lambda>pid. on_reg (set_point k pid (f pid))) pids po)) did = link (po_reg po) did"
  by (induction pids arbitrary: po) simp_all

lemma link_fold_lose [simp]:
  "link (po_reg (fold (lose_point cov n k now stamp) pids po)) did = link (po_reg po) did"
  by (induction pids arbitrary: po) (simp_all add: lose_point_def)

lemma po_io_frame [simp]:
  "po_rec (snd (po_io po)) = po_rec po" "po_status (snd (po_io po)) = po_status po"
  by (simp_all add: po_io_def split: list.splits)

lemma po_io_no_fault [simp]: "po_faults po = [] \<Longrightarrow> po_io po = (False, po)"
  by (simp add: po_io_def)

lemma reg_publish_status [simp]:
  "po_reg (publish_status did b now stamp po) =
     set_device did (\<lambda>d. d\<lparr>ds_last_seen_written := now\<rparr>) (po_reg po)"
  by (simp add: publish_status_def Let_def split_beta)

lemma reg_touch_last_seen [simp]:
  "po_reg (touch_last_seen did now stamp po) =
     set_device did (\<lambda>d. d\<lparr>ds_last_seen_written := now\<rparr>) (po_reg po)"
  by (simp add: touch_last_seen_def Let_def split_beta)

lemma link_poll_chunks:
  assumes "poll_chunks cov n read k now stamp cs po = (answered, unreachable, m, po')"
  shows "link (po_reg po') did = link (po_reg po) did \<and>
    cycle_outcome read cs = (if unreachable then Some Lost else if answered then Some Answered else None)"
  using assms
proof (induction cs arbitrary: po answered unreachable m po')
  case (Cons c cs)
  show ?case
  proof (cases "read c = Inl Device_Unreachable")
    case True
    with Cons.prems show ?thesis by simp
  next
    case False
    define readings where
      "readings = (case read c of Inr rs \<Rightarrow> rs | Inl _ \<Rightarrow> map (\<lambda>pid. fault_reading pid stamp) c)"
    define po2 where "po2 = fold (\<lambda>pid. on_reg (set_point k pid (\<lambda>p. p\<lparr>ps_next_due := now + interval cov p\<rparr>))) c
        (fold (po_handle n now) readings po)"
    obtain a u j po3 where rest: "poll_chunks cov n read k now stamp cs po2 = (a, u, j, po3)"
      by (metis prod_cases4)
    have "poll_chunks cov n read k now stamp (c # cs) po = (True, u, length c + j, po3)"
      using False rest
      by (cases "read c") (auto simp: readings_def po2_def Let_def split: driver_error.splits)
    with Cons.prems Cons.IH [OF rest] False show ?thesis by (auto simp: po2_def)
  qed
qed simp

lemma link_success:
  "link (po_reg po) did = Some l \<Longrightarrow> link (po_reg (on_success did now stamp po)) did = Some (link_step limit Answered l)"
  by (cases l) (auto simp: on_success_def link_def set_all_points_def Let_def)

lemma link_failure:
  assumes "link (po_reg po) did = Some l"
  shows "link (po_reg (on_failure cfg cov n did now stamp points po)) did =
    Some (link_step (pc_offline_after_cycles cfg) Lost l)"
proof -
  obtain d where d: "map_of (po_reg po) did = Some d" "l = (ds_failures d, ds_online d)"
    using assms by (auto simp: link_def)
  then show ?thesis
    by (auto simp: on_failure_def Let_def) (auto simp: link_def set_all_points_def)
qed

lemma cycle_link:
  assumes "link (po_reg po) did = Some l"
  shows "link (po_reg (poll_cycle cfg cov n read did now now' stamp points po)) did =
    Some (case cycle_outcome read (chunks (pc_batch_size cfg) points) of
        None \<Rightarrow> l
      | Some out \<Rightarrow> link_step (pc_offline_after_cycles cfg) out l)"
proof -
  let ?po1 = "on_reg (set_device did (\<lambda>d. d\<lparr>ds_last_attempt := now\<rparr>)) po"
  have l1: "link (po_reg ?po1) did = Some l" using assms by (simp add: link_set_device)
  obtain a u k po2 where c: "poll_chunks cov n read did now stamp (chunks (pc_batch_size cfg) points) ?po1 =
      (a, u, k, po2)" by (metis prod_cases4)
  note lc = link_poll_chunks [OF c, of did]
  have l2: "link (po_reg po2) did = Some l" using lc l1 by simp
  show ?thesis
    using c lc l2 link_success [OF l2, of now' stamp "pc_offline_after_cycles cfg"]
      link_failure [OF l2, of cfg cov n now' stamp "drop k points"]
    by (auto simp: poll_cycle_def Let_def split: if_splits)
qed

text \<open>
  C12. The link of a device follows its cycles: a cycle that is answered throughout makes the
  device online with no failure, a cycle with an unanswered batch counts one more consecutive
  failure and makes the device offline from the configured number of them on, and a device comes
  back online only by an answer. Refused readings count as answers.
\<close>

theorem cycle_refines_link:
  assumes "link (po_reg po) did = Some l"
  shows "link (po_reg (poll_cycle cfg cov n read did now now' stamp points po)) did =
    Some (case cycle_outcome read (chunks (pc_batch_size cfg) points) of
        None \<Rightarrow> l
      | Some out \<Rightarrow> link_step (pc_offline_after_cycles cfg) out l)"
  using assms by (rule cycle_link)

subsection \<open>What the loss of a device makes known\<close>

definition lost_published :: "poller \<Rightarrow> uuid \<Rightarrow> bool" where
  "lost_published po pid \<longleftrightarrow>
     (\<exists>r \<in> set (rc_published (po_rec po)). rd_point_id r = pid \<and> rd_status r = COMM_LOST_VALUE \<and> rd_value r = None)"

lemma published_handle:
  "rc_published (snd (handle n now r rc)) =
     rc_published rc @ (if registry_point (rc_reg rc) (rd_point_id r) = None then [] else [r])"
  by (auto simp: handle_def Let_def split: option.splits)

lemma registry_wf_handle:
  "registry_wf (rc_reg rc) \<Longrightarrow> registry_wf (rc_reg (snd (handle n now r rc)))"
  using handle_point [of rc r _ _ n now] by (cases "registry_point (rc_reg rc) (rd_point_id r)")
    (auto simp: handle_def)

text \<open>The points a device has are kept by every step of a cycle.\<close>

definition device_points :: "registry \<Rightarrow> uuid \<Rightarrow> uuid list option" where
  "device_points reg did = map_option (\<lambda>d. dict_keys (ds_points d)) (map_of reg did)"

lemma device_points_set_device:
  "(\<And>d. dict_keys (ds_points (f d)) = dict_keys (ds_points d)) \<Longrightarrow>
     device_points (set_device k f reg) did = device_points reg did"
  by (cases "map_of reg did") (auto simp: device_points_def)

lemma device_points_set_point [simp]: "device_points (set_point k pid f reg) did = device_points reg did"
  unfolding set_point_def by (rule device_points_set_device) (simp add: split_beta comp_def)

lemma device_points_handle [simp]:
  "device_points (rc_reg (snd (handle n now r rc))) did = device_points (rc_reg rc) did"
  by (auto simp: handle_def Let_def device_points_set_device split: option.splits)

lemma known_point:
  assumes "registry_wf reg" "device_points reg did = Some pids" "pid \<in> set pids"
  shows "registry_point reg pid \<noteq> None"
proof -
  obtain d where d: "map_of reg did = Some d" "pids = dict_keys (ds_points d)"
    using assms(2) by (auto simp: device_points_def)
  with assms(3) obtain p where "map_of (ds_points d) pid = Some p"
    by (metis map_of_eq_None_iff not_None_eq set_map)
  with d registry_point_iff [OF assms(1)] show ?thesis by (metis option.distinct(1))
qed

lemma lose_points_published:
  assumes "registry_wf (po_reg po)" "device_points (po_reg po) did = Some pids" "set qs \<subseteq> set pids"
  shows "(\<forall>pid \<in> set qs. lost_published (fold (lose_point cov n did now stamp) qs po) pid) \<and>
    set (rc_published (po_rec po)) \<subseteq> set (rc_published (po_rec (fold (lose_point cov n did now stamp) qs po)))"
  using assms
proof (induction qs arbitrary: po)
  case (Cons q qs)
  let ?po1 = "lose_point cov n did now stamp q po"
  have wf1: "registry_wf (po_reg ?po1)"
    using registry_wf_handle [OF Cons.prems(1)] by (simp add: lose_point_def po_handle_def)
  have dp1: "device_points (po_reg ?po1) did = Some pids"
    using Cons.prems(2) by (simp add: lose_point_def po_handle_def)
  have "registry_point (po_reg po) q \<noteq> None"
    using known_point [OF Cons.prems(1,2)] Cons.prems(3) by simp
  then have "rc_published (po_rec ?po1) = rc_published (po_rec po) @ [comm_lost_reading q stamp]"
    by (simp add: lose_point_def po_handle_def on_reg_def published_handle comm_lost_reading_def)
  moreover have "(\<forall>pid \<in> set qs. lost_published (fold (lose_point cov n did now stamp) qs ?po1) pid) \<and>
    set (rc_published (po_rec ?po1)) \<subseteq> set (rc_published (po_rec (fold (lose_point cov n did now stamp) qs ?po1)))"
    using Cons.prems(3) by (intro Cons.IH [OF wf1 dp1]) simp
  ultimately have sub: "comm_lost_reading q stamp \<in>
      set (rc_published (po_rec (fold (lose_point cov n did now stamp) (q # qs) po)))"
    "set (rc_published (po_rec po)) \<subseteq> set (rc_published (po_rec (fold (lose_point cov n did now stamp) (q # qs) po)))"
    and rest: "\<forall>pid \<in> set qs. lost_published (fold (lose_point cov n did now stamp) (q # qs) po) pid"
    by auto
  have "lost_published (fold (lose_point cov n did now stamp) (q # qs) po) q"
    unfolding lost_published_def by (rule bexI [OF _ sub(1)]) (simp add: comm_lost_reading_def)
  with sub(2) rest show ?case by simp
qed simp

text \<open>
  A device that goes offline takes all its points with it: when a failed cycle makes an online
  device offline, every point of the device, not only the unread ones, is published as lost
  (status \<open>comm_lost\<close>, no value), and the change of state itself is published once if the database
  and Redis answer.
\<close>

theorem offline_loses_all_points:
  assumes "registry_wf (po_reg po)" "map_of (po_reg po) did = Some d"
    and "ds_online d" "ds_failures d + 1 \<ge> pc_offline_after_cycles cfg"
  shows "(\<forall>pid \<in> set (dict_keys (ds_points d)).
      lost_published (on_failure cfg cov n did now stamp points po) pid) \<and>
    (po_faults po = [] \<longrightarrow>
      po_status (on_failure cfg cov n did now stamp points po) = po_status po @ [(did, False)])"
proof -
  let ?reg = "set_device did (\<lambda>d. d\<lparr>ds_failures := ds_failures d + 1\<rparr>)"
  let ?po2 = "publish_status did False now stamp
    (on_reg (set_device did (\<lambda>d. d\<lparr>ds_online := False\<rparr>)) (on_reg ?reg po))"
  let ?po3 = "on_reg (set_device did (set_all_points (\<lambda>p. p\<lparr>ps_cov_active := False\<rparr>))) ?po2"
  have eq: "on_failure cfg cov n did now stamp points po =
      fold (lose_point cov n did now stamp) (dict_keys (ds_points d)) ?po3"
    using assms(2-) by (simp add: on_failure_def Let_def)
  have keys: "dict_keys (ds_points (set_all_points f x)) = dict_keys (ds_points x)" for f x
    by (simp add: set_all_points_def split_beta comp_def)
  have wf3: "registry_wf (po_reg ?po3)"
    using assms(1) by (simp add: registry_wf_set_device keys)
  have dp3: "device_points (po_reg ?po3) did = Some (dict_keys (ds_points d))"
    using assms(2) by (simp add: device_points_set_device keys) (simp add: device_points_def)
  have "\<forall>pid \<in> set (dict_keys (ds_points d)).
      lost_published (on_failure cfg cov n did now stamp points po) pid"
    unfolding eq using lose_points_published [OF wf3 dp3 subset_refl] by blast
  moreover have "po_status (fold (lose_point cov n did now stamp) qs po') = po_status po'" for qs po'
    by (induction qs arbitrary: po') (simp_all add: lose_point_def po_handle_def on_reg_def)
  then have "po_status (on_failure cfg cov n did now stamp points po) = po_status ?po2"
    unfolding eq by (simp add: on_reg_def)
  moreover have "po_faults po = [] \<longrightarrow> po_status ?po2 = po_status po @ [(did, False)]"
    by (simp add: publish_status_def on_reg_def Let_def)
  ultimately show ?thesis by simp
qed

definition example_poller :: "int \<Rightarrow> poller" where
  "example_poller failures =
     \<lparr>po_rec = recorder_init [(2, example_device\<lparr>ds_failures := failures\<rparr>)] empty_db, po_status = [], po_faults = []\<rparr>"

theorem cycle_refines_link_witness:
  "link (po_reg (poll_cycle default_polling default_cov 500 (\<lambda>_. Inl Device_Unreachable) 2 10 13 0 [3]
      (example_poller 2))) 2 = Some (3, False)"
  using cycle_refines_link [of "example_poller 2" 2 "(2, True)" default_polling default_cov 500
      "\<lambda>_. Inl Device_Unreachable" 10 13 0 "[3]"]
  by (simp add: example_poller_def example_device_def recorder_init_def link_def default_polling_def
      chunks.simps)

theorem offline_loses_all_points_witness:
  "lost_published (on_failure default_polling default_cov 500 2 13 0 [3] (example_poller 2)) 3 \<and>
   po_status (on_failure default_polling default_cov 500 2 13 0 [3] (example_poller 2)) = [(2, False)]"
  using offline_loses_all_points [of "example_poller 2" 2 "example_device\<lparr>ds_failures := 2\<rparr>"
      default_polling default_cov 500 13 0 "[3]"]
  by (simp add: example_poller_def example_device_def recorder_init_def default_polling_def
      registry_wf_def point_ids_def)

end
