(* ===== verification/Collector_Cov.thy ===== *)
theory Collector_Cov
  imports Collector_Poller
begin

section \<open>Subscriptions and live settings\<close>

text \<open>
  \<open>app/collector/cov.py\<close>: one pass over the points of a device that subscribes those that are not
  and renews those that expire; \<open>app/collector/config_sync.py\<close>: reloading the settings of a point;
  \<open>app/collector/discovery_trigger.py\<close>: the event behind manual discovery. The driver's
  \<open>subscribe_cov\<close> is a parameter: the error it raises for a point, if any.
\<close>

subsection \<open>One pass of the subscription service\<close>

definition skip_cov :: "cov_config \<Rightarrow> time \<Rightarrow> point_state \<Rightarrow> bool" where
  "skip_cov cfg now p =
     (\<not> ps_cov_capable p \<or>
      (if ps_cov_active p
       then (case ps_cov_expires p of None \<Rightarrow> True | Some e \<Rightarrow> now < e - of_int (cc_renew_before_s cfg))
       else now < ps_cov_retry_at p))"

definition subscribed :: "cov_config \<Rightarrow> time \<Rightarrow> point_state \<Rightarrow> point_state" where
  "subscribed cfg now p =
     p\<lparr>ps_cov_active := True,
       ps_cov_expires := (if cc_lifetime_s cfg \<noteq> 0 then Some (now + of_int (cc_lifetime_s cfg)) else None),
       ps_next_due := max (ps_next_due p) (now + cc_safety_poll_s cfg)\<rparr>"

definition refused :: "cov_config \<Rightarrow> time \<Rightarrow> point_state \<Rightarrow> point_state" where
  "refused cfg now p =
     p\<lparr>ps_cov_active := False, ps_cov_retry_at := now + cc_retry_s cfg,
       ps_next_due := (if ps_cov_active p then now else ps_next_due p)\<rparr>"

text \<open>
  The loop over the points: the new states of those it reaches, and whether the device turned out
  not to support subscriptions. It stops at an unreachable device and at a \<open>reject\<close>.
\<close>

fun cov_points ::
  "cov_config \<Rightarrow> time \<Rightarrow> (uuid \<Rightarrow> driver_error option) \<Rightarrow> (uuid, point_state) dict \<Rightarrow>
   (uuid, point_state) dict \<times> bool" where
  "cov_points cfg now sub [] = ([], False)"
| "cov_points cfg now sub ((pid, p) # ps) =
     (if skip_cov cfg now p then
        (let (rest, unsupported) = cov_points cfg now sub ps in ((pid, p) # rest, unsupported))
      else case sub pid of
        None \<Rightarrow>
          (let (rest, unsupported) = cov_points cfg now sub ps
           in ((pid, subscribed cfg now p) # rest, unsupported))
      | Some Device_Unreachable \<Rightarrow> ((pid, p) # ps, False)
      | Some e \<Rightarrow>
          if e = Request_Rejected ''reject'' then ((pid, refused cfg now p) # ps, True)
          else (let (rest, unsupported) = cov_points cfg now sub ps
                in ((pid, refused cfg now p) # rest, unsupported)))"

definition cov_service ::
  "cov_config \<Rightarrow> time \<Rightarrow> (uuid \<Rightarrow> driver_error option) \<Rightarrow> device_state \<Rightarrow> device_state" where
  "cov_service cfg now sub d =
     (let (ps, unsupported) = cov_points cfg now sub (ds_points d)
      in d\<lparr>ds_points := ps, ds_supports_cov := (ds_supports_cov d \<and> \<not> unsupported)\<rparr>)"

text \<open>One turn of \<open>run\<close>: the devices that support subscriptions and are online.\<close>

definition cov_turn ::
  "cov_config \<Rightarrow> time \<Rightarrow> (uuid \<Rightarrow> driver_error option) \<Rightarrow> registry \<Rightarrow> registry" where
  "cov_turn cfg now sub reg =
     map (\<lambda>(did, d). (did, if ds_supports_cov d \<and> ds_online d then cov_service cfg now sub d else d)) reg"

lemma cov_points_keys [simp]: "dict_keys (fst (cov_points cfg now sub ps)) = dict_keys ps"
  by (induction cfg now sub ps rule: cov_points.induct)
    (auto simp: split_beta Let_def split: option.splits driver_error.splits)

lemma cov_points_accepted:
  assumes "\<forall>pid \<in> set (dict_keys ps). sub pid = None"
  shows "cov_points cfg now sub ps =
    (map (\<lambda>(pid, p). (pid, if skip_cov cfg now p then p else subscribed cfg now p)) ps, False)"
  using assms by (induction ps) auto

text \<open>
  C17. Subscriptions do not lapse: after a pass during which the device accepts every request, each
  point that supports notifications and was not waiting for a retry is subscribed, and its
  subscription lasts for at least the renewal margin (or the whole lifetime, if that is shorter).
\<close>

theorem subscriptions_do_not_lapse:
  assumes "\<forall>pid \<in> set (dict_keys (ds_points d)). sub pid = None"
    and "(pid, p) \<in> set (ds_points (cov_service cfg now sub d))"
    and "ps_cov_capable p" "ps_cov_active p \<or> ps_cov_retry_at p \<le> now"
  shows "ps_cov_active p \<and>
    (\<forall>e. ps_cov_expires p = Some e \<longrightarrow>
      e - now \<ge> min (of_int (cc_lifetime_s cfg)) (of_int (cc_renew_before_s cfg)))"
proof -
  from assms(2) obtain p0 where "(pid, p0) \<in> set (ds_points d)"
    "p = (if skip_cov cfg now p0 then p0 else subscribed cfg now p0)"
    by (auto simp: cov_service_def cov_points_accepted [OF assms(1)])
  with assms(3,4) show ?thesis
    by (auto simp: skip_cov_def subscribed_def split: if_splits option.splits)
qed

text \<open>
  A refused subscription falls back on polling: a point whose request is refused is not
  considered subscribed, is not asked again before the retry delay, and is read at once if its
  subscription was being renewed; only a \<open>reject\<close>, meaning that the service is unknown to the
  device, ends subscriptions for the whole device.
\<close>

theorem refused_subscription_polls:
  assumes "ds_points d = [(pid, p)]" "\<not> skip_cov cfg now p" "sub pid = Some (Request_Rejected k)"
  shows "ds_points (cov_service cfg now sub d) = [(pid, refused cfg now p)] \<and>
    (ds_supports_cov (cov_service cfg now sub d) \<longleftrightarrow> ds_supports_cov d \<and> k \<noteq> ''reject'') \<and>
    (0 < cc_retry_s cfg \<longrightarrow> skip_cov cfg now (refused cfg now p))"
  using assms by (auto simp: cov_service_def skip_cov_def refused_def)

subsection \<open>Live settings\<close>

record point_settings =
  st_deadband :: pyfloat
  st_max_interval_s :: int
  st_poll_interval_s :: "int option"
  st_path :: "string option"

definition get_point_settings :: "database \<Rightarrow> uuid \<Rightarrow> point_settings option" where
  "get_point_settings db pid =
     map_option (\<lambda>p. \<lparr>st_deadband = pt_deadband p, st_max_interval_s = pt_max_interval_s p,
         st_poll_interval_s = pt_poll_interval_s p, st_path = pt_path p\<rparr>) (map_of (db_points db) pid)"

text \<open>\<open>poll_interval_s or dflt\<close>: zero counts as missing.\<close>

definition poll_interval :: "time \<Rightarrow> int option \<Rightarrow> time" where
  "poll_interval dflt i = (case i of None \<Rightarrow> dflt | Some n \<Rightarrow> if n = 0 then dflt else of_int n)"

definition apply_settings :: "time \<Rightarrow> time \<Rightarrow> point_settings \<Rightarrow> point_state \<Rightarrow> point_state" where
  "apply_settings dflt now st p =
     (let p1 = p\<lparr>ps_deadband := st_deadband st, ps_max_interval_s := st_max_interval_s st,
                ps_poll_interval_s := poll_interval dflt (st_poll_interval_s st), ps_path := st_path st\<rparr>
      in if ps_cov_active p1 then p1
         else p1\<lparr>ps_next_due := min (ps_next_due p1) (now + ps_poll_interval_s p1)\<rparr>)"

definition config_reload :: "time \<Rightarrow> time \<Rightarrow> database \<Rightarrow> uuid \<Rightarrow> registry \<Rightarrow> bool \<times> registry" where
  "config_reload dflt now db pid reg =
     (case registry_point reg pid of
        None \<Rightarrow> (False, reg)
      | Some (did, p) \<Rightarrow>
          (case get_point_settings db pid of
             None \<Rightarrow> (False, reg)
           | Some st \<Rightarrow> (True, set_point did pid (apply_settings dflt now st) reg)))"

text \<open>The message of the channel \<open>point.config\<close>; an unreadable one is logged and ignored.\<close>

definition config_message ::
  "time \<Rightarrow> time \<Rightarrow> database \<Rightarrow> json option \<Rightarrow> registry \<Rightarrow> registry" where
  "config_message dflt now db data reg =
     (case Option.bind data (\<lambda>v. Option.bind (json_item v ''point_id'')
             (\<lambda>x. case x of JStr s \<Rightarrow> uuid_of_str s | _ \<Rightarrow> None)) of
        None \<Rightarrow> reg
      | Some pid \<Rightarrow> snd (config_reload dflt now db pid reg))"

text \<open>
  New settings of a point apply without restart: after the message, the point has the dead
  band, intervals and path of the database, keeps its history and subscription, no other point
  changes, and an unsubscribed point is read at the latest one new interval from now.
\<close>

theorem settings_applied:
  assumes "registry_wf reg" "registry_point reg pid = Some (did, p)" "pid < 2 ^ 128"
    and "map_of (db_points db) pid = Some row"
    and "reg' = config_message dflt now db (Some (JObj [(''point_id'', JStr (uuid_str pid))])) reg"
  shows "\<exists>p'. registry_point reg' pid = Some (did, p') \<and>
    ps_deadband p' = pt_deadband row \<and> ps_max_interval_s p' = pt_max_interval_s row \<and>
    ps_path p' = pt_path row \<and>
    ps_poll_interval_s p' = poll_interval dflt (pt_poll_interval_s row) \<and>
    ps_stored_value p' = ps_stored_value p \<and> ps_cov_active p' = ps_cov_active p \<and>
    (ps_cov_active p \<or> ps_next_due p' \<le> now + poll_interval dflt (pt_poll_interval_s row)) \<and>
    (\<forall>other. other \<noteq> pid \<longrightarrow> registry_point reg' other = registry_point reg other)"
proof -
  have uuid: "uuid_of_str (uuid_str pid) = Some pid" by (rule uuid_str_roundtrip [OF assms(3)])
  define st where "st = \<lparr>st_deadband = pt_deadband row, st_max_interval_s = pt_max_interval_s row,
    st_poll_interval_s = pt_poll_interval_s row, st_path = pt_path row\<rparr>"
  have st: "get_point_settings db pid = Some st"
    using assms(4) by (simp add: get_point_settings_def st_def)
  have reg': "reg' = set_point did pid (apply_settings dflt now st) reg"
    using assms(2,5) uuid st by (simp add: config_message_def config_reload_def)
  have "registry_point reg' q = (if q = pid then Some (did, apply_settings dflt now st p)
      else registry_point reg q)" for q
    unfolding reg' by (rule registry_point_set_point [OF assms(1,2)])
  then show ?thesis
    by (simp add: apply_settings_def st_def Let_def min_def)
qed

subsection \<open>Manual discovery\<close>

text \<open>
  The event between the listener and the rediscovery loop: a request sets it; \<open>wait\<close> returns true
  and clears it if it is set before the timeout, so requests made during a discovery are served
  once, after it. The state is the event and the number of requests served.
\<close>

datatype trigger_event = Requested | Wait_Ended

fun trigger_step :: "trigger_event \<Rightarrow> bool \<times> nat \<Rightarrow> bool \<times> nat" where
  "trigger_step Requested (raised, served) = (True, served)"
| "trigger_step Wait_Ended (raised, served) = (if raised then (False, Suc served) else (False, served))"

theorem subscriptions_do_not_lapse_witness:
  "(3, subscribed default_cov 10 example_point) \<in>
      set (ds_points (cov_service default_cov 10 (\<lambda>_. None) example_device)) \<and>
   ps_cov_active (subscribed default_cov 10 example_point)"
proof (rule conjI)
  show m: "(3, subscribed default_cov 10 example_point) \<in>
      set (ds_points (cov_service default_cov 10 (\<lambda>_. None) example_device))"
    by (simp add: cov_service_def example_device_def skip_cov_def example_point_def)
  show "ps_cov_active (subscribed default_cov 10 example_point)"
    by (rule conjunct1 [OF subscriptions_do_not_lapse [OF _ m]]) (simp_all add: subscribed_def example_point_def)
qed

theorem refused_subscription_polls_witness:
  "ds_points (cov_service default_cov 10 (\<lambda>_. Some (Request_Rejected ''reject'')) example_device) =
      [(3, refused default_cov 10 example_point)] \<and>
   \<not> ds_supports_cov (cov_service default_cov 10 (\<lambda>_. Some (Request_Rejected ''reject'')) example_device)"
  using refused_subscription_polls [of example_device 3 example_point default_cov 10
      "\<lambda>_. Some (Request_Rejected ''reject'')" "''reject''"]
  by (simp add: example_device_def skip_cov_def example_point_def)

theorem settings_applied_witness:
  "\<exists>p'. registry_point (config_message 30 10 example_history
      (Some (JObj [(''point_id'', JStr (uuid_str 3))])) example_registry) 3 = Some (2, p') \<and>
    ps_deadband p' = Fin 0 \<and> ps_max_interval_s p' = 900"
proof -
  obtain row where row: "map_of (db_points example_history) 3 = Some row"
    "pt_deadband row = Fin 0" "pt_max_interval_s row = 900"
    by (simp add: example_history_def)
  have "registry_point example_registry 3 = Some (2, example_point)"
    by (simp add: example_registry_point)
  from settings_applied [OF example_registry_wf this _ row(1) refl, of 30 10] row(2,3)
  show ?thesis by auto
qed

end
