(* ===== verification/Collector_Store.thy ===== *)
theory Collector_Store
  imports Collector_Cov
begin

section \<open>Discovery and the inventory in the database\<close>

text \<open>
  The rest of \<open>app/collector/store.py\<close> (networks, devices, points) and \<open>app/collector/discovery.py\<close>.
  A statement the database refuses (a text longer than its column, a row touched twice by one
  \<open>ON CONFLICT DO UPDATE\<close>, a missing foreign key) raises and undoes its transaction: \<open>None\<close>.
\<close>

record collector_world =
  cw_db :: database
  cw_next :: uuid

subsection \<open>Networks and devices\<close>

definition ensure_network ::
  "string \<Rightarrow> string \<Rightarrow> int \<Rightarrow> (string \<times> int) option \<Rightarrow> collector_world \<Rightarrow> uuid \<times> collector_world" where
  "ensure_network name bind_ip port bbmd cw =
     (let row = \<lparr>nw_name = name, nw_bind_ip = bind_ip, nw_port = port,
                nw_bbmd_ip = map_option fst bbmd, nw_bbmd_ttl = map_option snd bbmd\<rparr>;
          db = cw_db cw
      in case List.find (\<lambda>(nid, n). nw_name n = name) (db_networks db) of
           Some (nid, _) \<Rightarrow>
             (nid, cw\<lparr>cw_db := db\<lparr>db_networks := AList.update nid row (db_networks db)\<rparr>\<rparr>)
         | None \<Rightarrow>
             (cw_next cw, cw\<lparr>cw_db := db\<lparr>db_networks := AList.update (cw_next cw) row (db_networks db)\<rparr>,
                            cw_next := Suc (cw_next cw)\<rparr>))"

definition device_row_fits :: "device_row \<Rightarrow> bool" where
  "device_row_fits d \<longleftrightarrow> fits 255 (dv_name d) \<and> fits 128 (dv_address d) \<and> fits_opt 128 (dv_vendor d) \<and>
     fits_opt 128 (dv_model d)"

definition device_label :: "device_info \<Rightarrow> string" where
  "device_label info =
     (case di_name info of
        Some n \<Rightarrow> if n = [] then ''device-'' @ int_str (di_instance info) else n
      | None \<Rightarrow> ''device-'' @ int_str (di_instance info))"

definition upsert_device ::
  "uuid \<Rightarrow> device_info \<Rightarrow> time \<Rightarrow> collector_world \<Rightarrow> (uuid \<times> collector_world) option" where
  "upsert_device nid info now cw =
     (let db = cw_db cw;
          row = \<lparr>dv_network_id = nid, dv_instance = di_instance info, dv_name = device_label info,
                 dv_address = di_address info, dv_online = True, dv_last_seen = Some now,
                 dv_vendor = di_vendor info, dv_model = di_model info\<rparr>
      in if \<not> device_row_fits row \<or> map_of (db_networks db) nid = None then None
         else case List.find (\<lambda>(k, d). dv_network_id d = nid \<and> dv_instance d = di_instance info) (db_devices db) of
           Some (did, _) \<Rightarrow>
             Some (did, cw\<lparr>cw_db := db\<lparr>db_devices := AList.update did row (db_devices db)\<rparr>\<rparr>)
         | None \<Rightarrow>
             Some (cw_next cw, cw\<lparr>cw_db := db\<lparr>db_devices := AList.update (cw_next cw) row (db_devices db)\<rparr>,
                                 cw_next := Suc (cw_next cw)\<rparr>))"

subsection \<open>Points\<close>

definition POINT_CHUNK :: nat where "POINT_CHUNK = 500"

definition point_of_object :: "uuid \<Rightarrow> bool \<Rightarrow> string \<Rightarrow> object_info \<Rightarrow> point_row" where
  "point_of_object did cov prefix obj =
     \<lparr>pt_device_id = did, pt_object_type = oi_object_type obj,
      pt_object_instance = oi_object_instance obj, pt_name = oi_name obj,
      pt_description = oi_description obj, pt_unit = oi_unit obj, pt_writable = oi_writable obj,
      pt_cov_capable = cov, pt_poll_interval_s = None, pt_path = Some (prefix @ ''/'' @ oi_name obj),
      pt_missing = False, pt_deadband = Fin 0, pt_max_interval_s = 900, pt_write_min = None,
      pt_write_max = None, pt_state_text = oi_state_text obj\<rparr>"

definition point_row_fits :: "point_row \<Rightarrow> bool" where
  "point_row_fits p \<longleftrightarrow> fits 32 (pt_object_type p) \<and> fits 255 (pt_name p) \<and> fits_opt 32 (pt_unit p) \<and>
     fits_opt 512 (pt_path p)"

text \<open>The columns a rediscovery refreshes; the path and the settings stay as they are.\<close>

definition refreshed_point :: "point_row \<Rightarrow> point_row \<Rightarrow> point_row" where
  "refreshed_point row old =
     old\<lparr>pt_name := pt_name row, pt_description := pt_description row, pt_unit := pt_unit row,
       pt_writable := pt_writable row, pt_cov_capable := pt_cov_capable row,
       pt_state_text := pt_state_text row, pt_missing := pt_missing row\<rparr>"

definition upsert_point ::
  "point_row \<Rightarrow> (uuid, point_row) dict \<times> uuid \<Rightarrow> (uuid, point_row) dict \<times> uuid" where
  "upsert_point row pn =
     (case List.find (\<lambda>(pid, p). point_key p = point_key row) (fst pn) of
        Some (pid, old) \<Rightarrow> (AList.update pid (refreshed_point row old) (fst pn), snd pn)
      | None \<Rightarrow> (AList.update (snd pn) row (fst pn), Suc (snd pn)))"

definition mark_missing :: "uuid \<Rightarrow> (string \<times> int) list \<Rightarrow> (uuid, point_row) dict \<Rightarrow> (uuid, point_row) dict" where
  "mark_missing did seen ps =
     map (\<lambda>(pid, p). (pid, if pt_device_id p = did \<and> (pt_object_type p, pt_object_instance p) \<notin> set seen
                          then p\<lparr>pt_missing := True\<rparr> else p)) ps"

definition upsert_points ::
  "uuid \<Rightarrow> object_info list \<Rightarrow> bool \<Rightarrow> string \<Rightarrow> collector_world \<Rightarrow> collector_world option" where
  "upsert_points did objects cov prefix cw =
     (let db = cw_db cw; rows = map (point_of_object did cov prefix) objects;
          seen = map (\<lambda>ob. (oi_object_type ob, oi_object_instance ob)) objects
      in if \<not> list_all point_row_fits rows \<or> (rows \<noteq> [] \<and> map_of (db_devices db) did = None)
            \<or> \<not> list_all (\<lambda>ch. distinct (map point_key ch)) (chunks POINT_CHUNK rows) then None
         else let (ps, next') = fold (fold upsert_point) (chunks POINT_CHUNK rows) (db_points db, cw_next cw)
              in Some (cw\<lparr>cw_db := db\<lparr>db_points := mark_missing did seen ps\<rparr>, cw_next := next'\<rparr>))"

subsection \<open>Loading the registry\<close>

definition point_state_of :: "time \<Rightarrow> uuid \<Rightarrow> point_row \<Rightarrow> device_row \<Rightarrow> point_state" where
  "point_state_of dflt pid p d =
     \<lparr>ps_ref = \<lparr>pr_point_id = pid, pr_device_instance = dv_instance d, pr_address = dv_address d,
                pr_object_type = pt_object_type p, pr_object_instance = pt_object_instance p\<rparr>,
      ps_name = pt_name p, ps_path = pt_path p, ps_deadband = pt_deadband p,
      ps_max_interval_s = pt_max_interval_s p, ps_poll_interval_s = poll_interval dflt (pt_poll_interval_s p),
      ps_cov_capable = pt_cov_capable p, ps_next_due = 0, ps_cov_active = False,
      ps_cov_expires = Some 0, ps_cov_retry_at = 0, ps_stored = False, ps_stored_value = None,
      ps_stored_status = None, ps_stored_ts = None\<rparr>"

definition load_devices :: "uuid \<Rightarrow> time \<Rightarrow> database \<Rightarrow> (uuid \<times> device_state) list" where
  "load_devices nid dflt db =
     sort_key (\<lambda>(did, d). ds_instance d)
       (map (\<lambda>(did, d).
          (let ps = List.filter (\<lambda>(pid, p). pt_device_id p = did \<and> \<not> pt_missing p) (db_points db)
           in (did, \<lparr>ds_instance = dv_instance d, ds_address = dv_address d, ds_name = dv_name d,
                     ds_supports_cov = list_ex (\<lambda>(pid, p). pt_cov_capable p) ps,
                     ds_online = dv_online d,
                     ds_points = map (\<lambda>(pid, p). (pid, point_state_of dflt pid p d)) ps,
                     ds_failures = 0, ds_last_contact = 0, ds_last_attempt = 0,
                     ds_last_seen_written = 0\<rparr>)))
          (List.filter (\<lambda>(did, d). dv_network_id d = nid) (db_devices db)))"

subsection \<open>A discovery\<close>

text \<open>
  \<open>import_device\<close>, one after the other: \<open>describe\<close> is the driver's inventory of a device, or the
  error it raises. An error of the database ends the whole discovery (\<open>None\<close>), an error of the
  driver only skips the device.
\<close>

definition import_device ::
  "uuid \<Rightarrow> string \<Rightarrow> string list \<Rightarrow> (device_info \<Rightarrow> driver_error + object_info list) \<Rightarrow> time \<Rightarrow>
   device_info \<Rightarrow> (int, object_info list) dict \<times> collector_world \<Rightarrow>
   ((int, object_info list) dict \<times> collector_world) option" where
  "import_device nid nname prefixes describe now info iw =
     (case describe info of
        Inl _ \<Rightarrow> Some iw
      | Inr objs \<Rightarrow>
          (let objects = (if prefixes = [] then objs
                 else List.filter (\<lambda>ob. \<not> list_ex (\<lambda>pre. starts_with pre (oi_name ob)) prefixes) objs);
               label = (case di_name info of Some n \<Rightarrow> if n = [] then int_str (di_instance info) else n
                        | None \<Rightarrow> int_str (di_instance info))
           in case upsert_device nid info now (snd iw) of
                None \<Rightarrow> None
              | Some (did, cw1) \<Rightarrow>
                  (case upsert_points did objects (di_supports_cov info) (nname @ ''/'' @ label) cw1 of
                     None \<Rightarrow> None
                   | Some cw2 \<Rightarrow> Some (AList.update (di_instance info) objects (fst iw), cw2))))"

fun import_devices ::
  "uuid \<Rightarrow> string \<Rightarrow> string list \<Rightarrow> (device_info \<Rightarrow> driver_error + object_info list) \<Rightarrow> time \<Rightarrow>
   device_info list \<Rightarrow> (int, object_info list) dict \<times> collector_world \<Rightarrow>
   ((int, object_info list) dict \<times> collector_world) option" where
  "import_devices nid nname prefixes describe now [] iw = Some iw"
| "import_devices nid nname prefixes describe now (info # infos) iw =
     (case import_device nid nname prefixes describe now info iw of
        None \<Rightarrow> None
      | Some iw' \<Rightarrow> import_devices nid nname prefixes describe now infos iw')"

record discovery_result =
  dr_devices :: nat
  dr_points :: nat
  dr_readings :: "reading list"

definition discovered_readings ::
  "registry \<Rightarrow> time \<Rightarrow> (int, object_info list) dict \<Rightarrow> discovery_result" where
  "discovered_readings reg now inventory =
     (let index = (\<lambda>k. List.find (\<lambda>p. (pr_device_instance (ps_ref p), pr_object_type (ps_ref p),
                pr_object_instance (ps_ref p)) = k) (rev (all_points reg)));
          found = concat (map (\<lambda>(inst, objs). concat (map (\<lambda>ob.
                    case index (inst, oi_object_type ob, oi_object_instance ob) of
                      None \<Rightarrow> [] | Some p \<Rightarrow> [(p, ob)]) objs)) inventory)
      in \<lparr>dr_devices = length inventory, dr_points = length found,
          dr_readings = concat (map (\<lambda>(p, ob). case oi_value ob of
              None \<Rightarrow> []
            | Some v \<Rightarrow> [\<lparr>rd_point_id = pr_point_id (ps_ref p), rd_ts = now, rd_value = Some v,
                         rd_status = oi_status ob, rd_raw = Raw_None\<rparr>]) found)\<rparr>)"

definition run_discovery ::
  "uuid \<Rightarrow> string \<Rightarrow> string list \<Rightarrow> time \<Rightarrow> device_info list \<Rightarrow>
   (device_info \<Rightarrow> driver_error + object_info list) \<Rightarrow> time \<Rightarrow> registry \<Rightarrow> collector_world \<Rightarrow>
   (discovery_result \<times> registry \<times> collector_world) option" where
  "run_discovery nid nname prefixes dflt devices describe now reg cw =
     (case import_devices nid nname prefixes describe now devices ([], cw) of
        None \<Rightarrow> None
      | Some (inventory, cw') \<Rightarrow>
          (let reg' = registry_replace reg (load_devices nid dflt (cw_db cw'))
           in Some (discovered_readings reg' now inventory, reg', cw')))"

subsection \<open>A rediscovery keeps what is known\<close>

definition settings_of :: "point_row \<Rightarrow> (uuid \<times> string \<times> int) \<times> string option \<times> pyfloat \<times> int \<times> int option \<times>
    pyfloat option \<times> pyfloat option" where
  "settings_of p = (point_key p, pt_path p, pt_deadband p, pt_max_interval_s p, pt_poll_interval_s p,
     pt_write_min p, pt_write_max p)"

definition points_ok :: "(uuid, point_row) dict \<times> uuid \<Rightarrow> bool" where
  "points_ok pn \<longleftrightarrow> dict_wf (fst pn) \<and> (\<forall>pid p. map_of (fst pn) pid = Some p \<longrightarrow> pid < snd pn) \<and>
     (\<forall>i j p q. map_of (fst pn) i = Some p \<longrightarrow> map_of (fst pn) j = Some q \<longrightarrow> point_key p = point_key q \<longrightarrow> i = j)"

lemma refreshed_settings [simp]:
  "settings_of (refreshed_point row old) = settings_of old" "point_key (refreshed_point row old) = point_key old"
  "pt_missing (refreshed_point row old) = pt_missing row"
  by (simp_all add: settings_of_def refreshed_point_def point_key_def)

lemma upsert_point_cases:
  assumes ok: "points_ok pn"
  obtains (existing) pid old where "map_of (fst pn) pid = Some old" "point_key old = point_key row"
      "upsert_point row pn = (AList.update pid (refreshed_point row old) (fst pn), snd pn)"
  | (fresh) "\<forall>pid p. map_of (fst pn) pid = Some p \<longrightarrow> point_key p \<noteq> point_key row"
      "map_of (fst pn) (snd pn) = None"
      "upsert_point row pn = (AList.update (snd pn) row (fst pn), Suc (snd pn))"
proof (cases "List.find (\<lambda>(pid, p). point_key p = point_key row) (fst pn)")
  case None
  have "point_key p \<noteq> point_key row" if "map_of (fst pn) pid = Some p" for pid p
    using None map_of_SomeD [OF that] by (auto simp: find_None_iff)
  moreover have "map_of (fst pn) (snd pn) = None"
    using ok unfolding points_ok_def by (metis less_irrefl not_None_eq)
  ultimately show ?thesis using None fresh by (simp add: upsert_point_def)
next
  case (Some kp)
  obtain pid old where kp: "kp = (pid, old)" by (cases kp)
  have "map_of (fst pn) pid = Some old" "point_key old = point_key row"
    using find_map_of [OF Some] kp ok by (simp_all add: points_ok_def)
  with Some kp existing show ?thesis by (simp add: upsert_point_def)
qed

lemma points_okD:
  assumes "points_ok (ps, n)"
  shows "dict_wf ps" "map_of ps i = Some p \<Longrightarrow> i < n"
    "map_of ps i = Some p \<Longrightarrow> map_of ps j = Some q \<Longrightarrow> point_key p = point_key q \<Longrightarrow> i = j"
proof -
  show "dict_wf ps" using assms by (simp add: points_ok_def)
  show "map_of ps i = Some p \<Longrightarrow> i < n" using assms unfolding points_ok_def fst_conv snd_conv by blast
  show "map_of ps i = Some p \<Longrightarrow> map_of ps j = Some q \<Longrightarrow> point_key p = point_key q \<Longrightarrow> i = j"
    using assms unfolding points_ok_def fst_conv snd_conv by blast
qed

lemma points_ok_update:
  assumes ok: "points_ok (ps, n)" and k: "k < n'" "n \<le> n'"
    and key: "\<forall>i p. map_of ps i = Some p \<longrightarrow> point_key p = point_key v \<longrightarrow> i = k"
  shows "points_ok (AList.update k v ps, n')"
  unfolding points_ok_def fst_conv snd_conv
proof (intro conjI allI impI)
  show "dict_wf (AList.update k v ps)" using points_okD(1) [OF ok] by simp
next
  fix pid p assume "map_of (AList.update k v ps) pid = Some p"
  then show "pid < n'" using points_okD(2) [OF ok, of pid p] k by (cases "pid = k") simp_all
next
  fix i j p q assume a: "map_of (AList.update k v ps) i = Some p" "map_of (AList.update k v ps) j = Some q"
    "point_key p = point_key q"
  show "i = j"
  proof (cases "i = k \<or> j = k")
    case True
    then show ?thesis
    proof
      assume i: "i = k"
      show ?thesis
      proof (cases "j = k")
        case False
        with a i have "map_of ps j = Some q" "point_key q = point_key v" by simp_all
        with key i show ?thesis by blast
      qed (simp add: i)
    next
      assume j: "j = k"
      show ?thesis
      proof (cases "i = k")
        case False
        with a j have "map_of ps i = Some p" "point_key p = point_key v" by simp_all
        with key j show ?thesis by blast
      qed (simp add: j)
    qed
  next
    case False
    with a have "map_of ps i = Some p" "map_of ps j = Some q" by simp_all
    with points_okD(3) [OF ok] a(3) show ?thesis by blast
  qed
qed

lemma upsert_point_ok:
  assumes ok: "points_ok pn" shows "points_ok (upsert_point row pn)"
proof -
  obtain ps n where pn: "pn = (ps, n)" by (cases pn)
  have ok': "points_ok (ps, n)" using ok pn by simp
  show ?thesis
    using ok
  proof (cases rule: upsert_point_cases [where row = row])
    case (existing pid old)
    have "points_ok (AList.update pid (refreshed_point row old) ps, n)"
    proof (rule points_ok_update [OF ok'])
      show "pid < n" using points_okD(2) [OF ok'] existing(1) pn by simp
      show "\<forall>i p. map_of ps i = Some p \<longrightarrow> point_key p = point_key (refreshed_point row old) \<longrightarrow> i = pid"
        using points_okD(3) [OF ok'] existing(1) pn by auto
    qed simp
    with existing(3) pn show ?thesis by simp
  next
    case fresh
    have "points_ok (AList.update n row ps, Suc n)"
      by (rule points_ok_update [OF ok']) (use fresh(1) pn in auto)
    with fresh(3) pn show ?thesis by simp
  qed
qed

text \<open>What an insertion of one row does to a point that exists.\<close>

definition kept_as :: "(point_row \<Rightarrow> bool) \<Rightarrow> point_row \<Rightarrow> point_row \<Rightarrow> bool" where
  "kept_as touched p p' \<longleftrightarrow> settings_of p' = settings_of p \<and>
     (if touched p then \<not> pt_missing p' else p' = p)"

lemma upsert_point_keeps:
  assumes ok: "points_ok pn" and p: "map_of (fst pn) pid = Some p" and row: "\<not> pt_missing row"
  shows "\<exists>p'. map_of (fst (upsert_point row pn)) pid = Some p' \<and>
    kept_as (\<lambda>q. point_key q = point_key row) p p'"
  using ok
proof (cases rule: upsert_point_cases [where row = row])
  case (existing k old)
  show ?thesis
  proof (cases "k = pid")
    case True
    with existing p row show ?thesis by (auto simp: kept_as_def)
  next
    case False
    with existing p ok have "point_key p \<noteq> point_key row" unfolding points_ok_def by metis
    with existing p False show ?thesis by (auto simp: kept_as_def)
  qed
next
  case fresh
  with p ok have "pid \<noteq> snd pn" by auto
  with fresh p show ?thesis by (auto simp: kept_as_def)
qed

lemma upsert_rows_keep:
  assumes "points_ok pn" "map_of (fst pn) pid = Some p" "\<forall>row \<in> set rows. \<not> pt_missing row"
  shows "points_ok (fold upsert_point rows pn) \<and>
    (\<exists>p'. map_of (fst (fold upsert_point rows pn)) pid = Some p' \<and>
       kept_as (\<lambda>q. point_key q \<in> set (map point_key rows)) p p')"
  using assms
proof (induction rows arbitrary: pn p)
  case Nil
  then show ?case by (simp add: kept_as_def)
next
  case (Cons row rows)
  obtain p1 where p1: "map_of (fst (upsert_point row pn)) pid = Some p1"
    "kept_as (\<lambda>q. point_key q = point_key row) p p1"
    using upsert_point_keeps [OF Cons.prems(1,2), of row] Cons.prems(3) by auto
  have "point_key p1 = point_key p" using p1(2) by (simp add: kept_as_def settings_of_def)
  obtain p2 where ok2: "points_ok (fold upsert_point rows (upsert_point row pn))"
    and p2: "map_of (fst (fold upsert_point rows (upsert_point row pn))) pid = Some p2"
    "kept_as (\<lambda>q. point_key q \<in> set (map point_key rows)) p1 p2"
    using Cons.IH [OF upsert_point_ok [OF Cons.prems(1), of row] p1(1)] Cons.prems(3) by auto
  have "kept_as (\<lambda>q. point_key q \<in> set (map point_key (row # rows))) p p2"
    using p1(2) p2(2) \<open>point_key p1 = point_key p\<close>
    by (cases "point_key p \<in> set (map point_key rows)") (auto simp: kept_as_def split: if_splits)
  with ok2 p2(1) show ?case by simp
qed

lemma mark_missing_get:
  "map_of (mark_missing did seen ps) pid =
     map_option (\<lambda>p. if pt_device_id p = did \<and> (pt_object_type p, pt_object_instance p) \<notin> set seen
                     then p\<lparr>pt_missing := True\<rparr> else p) (map_of ps pid)"
  unfolding mark_missing_def by (simp only: map_of_map comp_apply)

text \<open>What importing the objects of a device does to a point that exists.\<close>

lemma upsert_points_keep:
  assumes "points_ok (db_points (cw_db cw), cw_next cw)"
    and "upsert_points did objects cov prefix cw = Some cw'"
    and "map_of (db_points (cw_db cw)) pid = Some p"
  shows "\<exists>p'. map_of (db_points (cw_db cw')) pid = Some p' \<and> settings_of p' = settings_of p \<and>
    (pt_device_id p \<noteq> did \<longrightarrow> p' = p) \<and>
    (pt_device_id p = did \<longrightarrow> (pt_missing p' \<longleftrightarrow> (pt_object_type p, pt_object_instance p) \<notin>
        set (map (\<lambda>ob. (oi_object_type ob, oi_object_instance ob)) objects)))"
proof -
  let ?rows = "map (point_of_object did cov prefix) objects"
  let ?seen = "map (\<lambda>ob. (oi_object_type ob, oi_object_instance ob)) objects"
  let ?r = "fold upsert_point ?rows (db_points (cw_db cw), cw_next cw)"
  have new: "db_points (cw_db cw') = mark_missing did ?seen (fst ?r)"
    using assms(2) by (auto simp: upsert_points_def Let_def split_beta fold_chunks POINT_CHUNK_def split: if_splits)
  have "\<forall>row \<in> set ?rows. \<not> pt_missing row" by (simp add: point_of_object_def)
  from upsert_rows_keep [OF assms(1) _ this, of pid p] assms(3) obtain p1 where
    p1: "map_of (fst ?r) pid = Some p1" "kept_as (\<lambda>q. point_key q \<in> set (map point_key ?rows)) p p1"
    by auto
  have key: "point_key p1 = point_key p" using p1(2) by (simp add: kept_as_def settings_of_def)
  have seen: "point_key p \<in> set (map point_key ?rows) \<longleftrightarrow>
      pt_device_id p = did \<and> (pt_object_type p, pt_object_instance p) \<in> set ?seen"
    by (auto simp: point_key_def point_of_object_def image_iff)
  let ?p' = "if pt_device_id p1 = did \<and> (pt_object_type p1, pt_object_instance p1) \<notin> set ?seen
    then p1\<lparr>pt_missing := True\<rparr> else p1"
  have "map_of (db_points (cw_db cw')) pid = Some ?p'"
    unfolding new mark_missing_get p1(1) by simp
  moreover have "settings_of (q\<lparr>pt_missing := b\<rparr>) = settings_of q" for q b
    by (simp add: settings_of_def point_key_def)
  ultimately show ?thesis
    using p1(2) key seen
    by (intro exI [of _ ?p']) (auto simp: kept_as_def point_key_def)
qed

text \<open>
  C21. A rediscovery deletes nothing and keeps the settings: after the objects of a device have been
  imported, every point that existed still exists with its path, dead band, intervals and write
  limits; the points of other devices are unchanged; and a point of the device is marked
  \<open>missing\<close> exactly when it was not found.
\<close>

theorem rediscovery_keeps_points:
  assumes "points_ok (db_points (cw_db cw), cw_next cw)"
    and "upsert_points did objects cov prefix cw = Some cw'"
    and "map_of (db_points (cw_db cw)) pid = Some p"
  shows "\<exists>p'. map_of (db_points (cw_db cw')) pid = Some p' \<and> settings_of p' = settings_of p \<and>
    (pt_device_id p \<noteq> did \<longrightarrow> p' = p) \<and>
    (pt_device_id p = did \<longrightarrow> (pt_missing p' \<longleftrightarrow> (pt_object_type p, pt_object_instance p) \<notin>
        set (map (\<lambda>ob. (oi_object_type ob, oi_object_instance ob)) objects)))"
  using assms by (rule upsert_points_keep)

subsection \<open>A unit that is too long\<close>

text \<open>
  A unit without a short label stops the discovery: the standard unit
  \<open>grams-of-water-per-kilogram-dry-air\<close> is passed on as it is and does not fit the 32 characters
  of the column, so a discovery in which one object of one device has this unit fails as a whole,
  whatever the other devices.
\<close>

theorem long_unit_fails_discovery:
  assumes "info \<in> set devices" "describe info = Inr [obj]" "prefixes = []"
    and "oi_unit obj = unit_label (Some ''grams-of-water-per-kilogram-dry-air'')"
  shows "run_discovery nid nname prefixes dflt devices describe now reg cw = None"
proof -
  have unit: "oi_unit obj = Some ''grams-of-water-per-kilogram-dry-air''"
    using assms(4) by (simp add: unit_label_def UNITS_def)
  have "upsert_points did [obj] cov prefix cw' = None" for did cov prefix cw'
    by (simp add: upsert_points_def Let_def point_row_fits_def point_of_object_def unit fits_opt_def fits_def)
  then have one: "import_device nid nname prefixes describe now info iw = None" for iw
    using assms(2,3) by (auto simp: import_device_def Let_def split: option.splits)
  have "import_devices nid nname prefixes describe now devices iw = None" for iw
    using assms(1)
  proof (induction devices arbitrary: iw)
    case (Cons d ds)
    then show ?case using one by (cases "d = info") (auto split: option.splits)
  qed simp
  then show ?thesis by (simp add: run_discovery_def)
qed

definition example_inventory :: database where
  "example_inventory = example_history
     \<lparr>db_networks := [(1, \<lparr>nw_name = ''net'', nw_bind_ip = ''10.0.0.1'', nw_port = 47808,
         nw_bbmd_ip = None, nw_bbmd_ttl = None\<rparr>)],
      db_devices := [(2, \<lparr>dv_network_id = 1, dv_instance = 100, dv_name = ''cta'',
         dv_address = ''10.0.0.2'', dv_online = True, dv_last_seen = None, dv_vendor = None,
         dv_model = None\<rparr>)]\<rparr>"

definition example_cw :: collector_world where
  "example_cw = \<lparr>cw_db = example_inventory, cw_next = 10\<rparr>"

definition example_object :: "string option \<Rightarrow> object_info" where
  "example_object label = \<lparr>oi_object_type = ''analog-input'', oi_object_instance = 7, oi_name = ''hum'',
     oi_description = None, oi_unit = label, oi_writable = False, oi_state_text = None,
     oi_value = Some (Fin 20), oi_status = OK\<rparr>"

theorem rediscovery_keeps_points_witness:
  "\<exists>cw' p'. upsert_points 2 [example_object None] True ''net/cta'' example_cw = Some cw' \<and>
     map_of (db_points (cw_db cw')) 3 = Some p' \<and> pt_missing p'"
proof -
  have ok: "points_ok (db_points (cw_db example_cw), cw_next example_cw)"
    by (simp add: points_ok_def example_cw_def example_inventory_def example_history_def)
  obtain cw' where cw': "upsert_points 2 [example_object None] True ''net/cta'' example_cw = Some cw'"
    by (cases "upsert_points 2 [example_object None] True ''net/cta'' example_cw")
      (simp_all add: upsert_points_def Let_def example_cw_def example_inventory_def example_object_def
        point_of_object_def point_row_fits_def fits_def fits_opt_def POINT_CHUNK_def chunks.simps split_beta)
  obtain p where p: "map_of (db_points (cw_db example_cw)) 3 = Some p" "pt_device_id p = 2"
    "pt_object_type p = ''analog-input''" "pt_object_instance p = 1"
    by (simp add: example_cw_def example_inventory_def example_history_def)
  from rediscovery_keeps_points [OF ok cw' p(1)] p(2-4) cw' show ?thesis
    by (auto simp: example_object_def)
qed

definition example_info :: device_info where
  "example_info = \<lparr>di_instance = 100, di_address = ''10.0.0.2'', di_name = Some ''cta'', di_vendor = None,
     di_model = None, di_supports_rpm = True, di_supports_cov = True\<rparr>"

theorem long_unit_fails_discovery_witness:
  "run_discovery 1 ''net'' [] 30 [example_info]
     (\<lambda>_. Inr [example_object (unit_label (Some ''grams-of-water-per-kilogram-dry-air''))]) 0 [] example_cw = None"
  by (rule long_unit_fails_discovery
        [where obj = "example_object (unit_label (Some ''grams-of-water-per-kilogram-dry-air''))"
          and info = example_info]) (simp_all add: example_object_def)

end
