(* ===== verification/Collector_Driver.thy ===== *)
theory Collector_Driver
  imports Collector_Model
begin

section \<open>The BACnet driver\<close>

text \<open>
  \<open>app/collector/bacnet_driver.py\<close>: errors, reading by \<open>ReadPropertyMultiple\<close> with its fallback,
  the inventory of a device, readings, writes and subscriptions. bacpypes3 is not part of the
  repository: what the network answers to a request is a parameter of the operations. A property
  value is given by the views of it the code takes: its normalisable value, its text, whether it
  is true, its items, its four bits.
\<close>

subsection \<open>Errors\<close>

text \<open>An \<open>ErrorRejectAbortNack\<close>: the name of its class and, for an abort, its reason.\<close>

record bacnet_error =
  be_class :: string
  be_reason :: string

datatype 'a net = Net_Ok 'a | Net_Timeout | Net_Error bacnet_error

definition remove_suffix :: "string \<Rightarrow> string \<Rightarrow> string" where
  "remove_suffix suffix s =
     (if suffix \<noteq> [] \<and> ends_with suffix s then take (length s - length suffix) s else s)"

definition convert_error :: "bacnet_error \<Rightarrow> driver_error" where
  "convert_error e =
     (if be_class e = ''AbortPDU'' \<and> be_reason e = ''no-response'' then Device_Unreachable
      else Request_Rejected
        (if be_class e = ''AbortPDU'' then ''abort'' else py_lower (remove_suffix ''PDU'' (be_class e))))"

definition call :: "'a net \<Rightarrow> driver_error + 'a" where
  "call r =
     (case r of
        Net_Ok x \<Rightarrow> Inr x
      | Net_Timeout \<Rightarrow> Inl Device_Unreachable
      | Net_Error e \<Rightarrow> Inl (convert_error e))"

subsection \<open>Property values\<close>

record prop_value =
  pv_error :: bool
  pv_raw :: raw
  pv_text :: string
  pv_true :: bool
  pv_items :: "string list option"
  pv_bits :: "int list option"

type_synonym object_key = "string \<times> int"
type_synonym props = "(string, prop_value) dict"

definition ANALOG_PROPS :: "string list" where
  "ANALOG_PROPS = [''object-name'', ''description'', ''units'', ''present-value'', ''status-flags'']"

definition BINARY_PROPS :: "string list" where
  "BINARY_PROPS = [''object-name'', ''description'', ''present-value'', ''status-flags'']"

definition MULTISTATE_PROPS :: "string list" where
  "MULTISTATE_PROPS =
     [''object-name'', ''description'', ''state-text'', ''present-value'', ''status-flags'']"

definition LIVE_PROPS :: "string list" where
  "LIVE_PROPS = [''present-value'', ''status-flags'']"

definition discovery_props :: "string \<Rightarrow> string list" where
  "discovery_props object_type =
     (if starts_with ''analog'' object_type then ANALOG_PROPS
      else if is_multistate object_type then MULTISTATE_PROPS else BINARY_PROPS)"

text \<open>\<open>_flags\<close>: the first four bits, if the value has them.\<close>

definition flags :: "prop_value option \<Rightarrow> int list option" where
  "flags v =
     (case Option.bind v pv_bits of
        None \<Rightarrow> None
      | Some bits \<Rightarrow> if length bits < 4 then None else Some (take 4 bits))"

subsection \<open>Reading\<close>

text \<open>
  The network: what a device answers to the reading of one property, and to the reading of many.
  In the answer to the latter a property the object does not have is an \<open>ErrorType\<close>.
\<close>

type_synonym read_one = "object_key \<Rightarrow> string \<Rightarrow> prop_value net"
type_synonym read_rpm =
  "(object_key \<times> string list) list \<Rightarrow> (object_key \<times> string \<times> prop_value) list net"

definition add_found ::
  "object_key \<times> string \<times> prop_value \<Rightarrow> (object_key, props) dict \<Rightarrow> (object_key, props) dict" where
  "add_found res found =
     (case res of (key, prop, v) \<Rightarrow>
        AList.update key (AList.update prop v (case map_of found key of None \<Rightarrow> [] | Some ps \<Rightarrow> ps)) found)"

definition read_multiple ::
  "read_rpm \<Rightarrow> (object_key \<times> string list) list \<Rightarrow> driver_error + (object_key, props) dict" where
  "read_multiple rpm wanted =
     (case call (rpm wanted) of
        Inl e \<Rightarrow> Inl e
      | Inr results \<Rightarrow> Inr (fold (\<lambda>r found. if pv_error (snd (snd r)) then found else add_found r found) results []))"

fun read_props ::
  "read_one \<Rightarrow> object_key \<Rightarrow> string list \<Rightarrow> (object_key, props) dict \<Rightarrow> driver_error + (object_key, props) dict" where
  "read_props one key [] found = Inr found"
| "read_props one key (p # ps) found =
     (case call (one key p) of
        Inl (Request_Rejected _) \<Rightarrow> read_props one key ps found
      | Inl e \<Rightarrow> Inl e
      | Inr v \<Rightarrow> read_props one key ps (add_found (key, p, v) found))"

fun read_each ::
  "read_one \<Rightarrow> (object_key \<times> string list) list \<Rightarrow> (object_key, props) dict \<Rightarrow>
   driver_error + (object_key, props) dict" where
  "read_each one [] found = Inr found"
| "read_each one ((key, ps) # wanted) found =
     (case read_props one key ps found of
        Inl e \<Rightarrow> Inl e
      | Inr found' \<Rightarrow> read_each one wanted found')"

text \<open>\<open>_read_many\<close>; \<open>unsupported\<close> are the devices known not to support the service.\<close>

definition read_many ::
  "read_one \<Rightarrow> read_rpm \<Rightarrow> int \<Rightarrow> int list \<Rightarrow> (object_key \<times> string list) list \<Rightarrow>
   (driver_error + (object_key, props) dict) \<times> int list" where
  "read_many one rpm inst unsupported wanted =
     (if inst \<in> set unsupported then (read_each one wanted [], unsupported)
      else case read_multiple rpm wanted of
          Inr found \<Rightarrow> (Inr found, unsupported)
        | Inl (Request_Rejected k) \<Rightarrow>
            if k \<noteq> ''reject'' \<and> k \<noteq> ''abort'' then (Inl (Request_Rejected k), unsupported)
            else (read_each one wanted [], inst # unsupported)
        | Inl e \<Rightarrow> (Inl e, unsupported))"

subsection \<open>Discovery\<close>

text \<open>The answers to the \<open>Who-Is\<close> requests, by instance; the first answer of a device counts.\<close>

definition unique_devices :: "(int \<times> 'a) list list \<Rightarrow> (int, 'a) dict" where
  "unique_devices answers = fold (\<lambda>(inst, iam). dict_setdefault inst iam) (concat answers) []"

text \<open>\<open>_object_list\<close>: whole, or index by index when the device refuses the whole list.\<close>

fun entries_by_index :: "(nat \<Rightarrow> object_key net) \<Rightarrow> nat \<Rightarrow> nat \<Rightarrow> driver_error + object_key list" where
  "entries_by_index entry i 0 = Inr []"
| "entries_by_index entry i (Suc n) =
     (case call (entry i) of
        Inl e \<Rightarrow> Inl e
      | Inr k \<Rightarrow>
          (case entries_by_index entry (Suc i) n of Inl e \<Rightarrow> Inl e | Inr ks \<Rightarrow> Inr (k # ks)))"

definition object_list ::
  "object_key list net \<Rightarrow> int net \<Rightarrow> (nat \<Rightarrow> object_key net) \<Rightarrow> driver_error + object_key list" where
  "object_list whole count entry =
     (case call whole of
        Inr ks \<Rightarrow> Inr ks
      | Inl (Request_Rejected _) \<Rightarrow>
          (case call count of Inl e \<Rightarrow> Inl e | Inr n \<Rightarrow> entries_by_index entry 1 (nat n))
      | Inl e \<Rightarrow> Inl e)"

definition object_of :: "object_key \<Rightarrow> props \<Rightarrow> object_info" where
  "object_of key found =
     (case key of (object_type, number) \<Rightarrow>
        \<lparr>oi_object_type = object_type, oi_object_instance = number,
         oi_name = (case map_of found ''object-name'' of
             None \<Rightarrow> object_type @ '','' @ int_str number | Some v \<Rightarrow> pv_text v),
         oi_description = (case map_of found ''description'' of
             None \<Rightarrow> None | Some v \<Rightarrow> if pv_true v then Some (pv_text v) else None),
         oi_unit = (case map_of found ''units'' of None \<Rightarrow> None | Some v \<Rightarrow> unit_label (Some (pv_text v))),
         oi_writable = is_writable object_type,
         oi_state_text = (case map_of found ''state-text'' of
             None \<Rightarrow> None | Some v \<Rightarrow> if pv_true v then pv_items v else None),
         oi_value = (case map_of found ''present-value'' of
             None \<Rightarrow> None | Some v \<Rightarrow> normalize_present_value (pv_raw v)),
         oi_status = normalize_status (flags (map_of found ''status-flags''))\<rparr>)"

fun describe_chunks ::
  "read_one \<Rightarrow> read_rpm \<Rightarrow> int \<Rightarrow> object_key list list \<Rightarrow> int list \<Rightarrow>
   (driver_error + object_info list) \<times> int list" where
  "describe_chunks one rpm inst [] unsupported = (Inr [], unsupported)"
| "describe_chunks one rpm inst (chunk # cs) unsupported =
     (case read_many one rpm inst unsupported
             (dict_of (map (\<lambda>key. (key, discovery_props (fst key))) chunk)) of
        (Inl e, u) \<Rightarrow> (Inl e, u)
      | (Inr props, u) \<Rightarrow>
          (let objs = map (\<lambda>key. object_of key (case map_of props key of None \<Rightarrow> [] | Some f \<Rightarrow> f)) chunk
           in case describe_chunks one rpm inst cs u of
                (Inl e, u') \<Rightarrow> (Inl e, u')
              | (Inr rest, u') \<Rightarrow> (Inr (objs @ rest), u')))"

definition describe ::
  "nat \<Rightarrow> read_one \<Rightarrow> read_rpm \<Rightarrow> (driver_error + object_key list) \<Rightarrow> int \<Rightarrow> int list \<Rightarrow>
   (driver_error + object_info list) \<times> int list" where
  "describe batch one rpm objects inst unsupported =
     (case objects of
        Inl e \<Rightarrow> (Inl e, unsupported)
      | Inr ks \<Rightarrow>
          describe_chunks one rpm inst
            (chunks batch (List.filter (\<lambda>key. fst key \<in> set IMPORTED_TYPES) ks)) unsupported)"

subsection \<open>Readings\<close>

definition reading_of :: "time \<Rightarrow> (object_key, props) dict \<Rightarrow> point_ref \<Rightarrow> reading" where
  "reading_of now found ref =
     (case map_of found (pr_object_type ref, pr_object_instance ref) of
        None \<Rightarrow> fault_reading (pr_point_id ref) now
      | Some ps \<Rightarrow>
          (case map_of ps ''present-value'' of
             None \<Rightarrow> fault_reading (pr_point_id ref) now
           | Some v \<Rightarrow> build_reading (pr_point_id ref) (pv_raw v) (flags (map_of ps ''status-flags'')) now))"

definition by_device :: "point_ref list \<Rightarrow> (int, point_ref list) dict" where
  "by_device refs =
     fold (\<lambda>r d. AList.update (pr_device_instance r)
        ((case map_of d (pr_device_instance r) of None \<Rightarrow> [] | Some rs \<Rightarrow> rs) @ [r]) d) refs []"

fun read_devices ::
  "(int \<Rightarrow> read_one) \<Rightarrow> (int \<Rightarrow> read_rpm) \<Rightarrow> time \<Rightarrow> (int \<times> point_ref list) list \<Rightarrow> int list \<Rightarrow>
   (driver_error + reading list) \<times> int list" where
  "read_devices one rpm now [] unsupported = (Inr [], unsupported)"
| "read_devices one rpm now ((inst, refs) # ds) unsupported =
     (case read_many (one inst) (rpm inst) inst unsupported
             (dict_of (map (\<lambda>r. ((pr_object_type r, pr_object_instance r), LIVE_PROPS)) refs)) of
        (Inl e, u) \<Rightarrow> (Inl e, u)
      | (Inr found, u) \<Rightarrow>
          (case read_devices one rpm now ds u of
             (Inl e, u') \<Rightarrow> (Inl e, u')
           | (Inr rest, u') \<Rightarrow> (Inr (map (reading_of now found) refs @ rest), u')))"

definition driver_read ::
  "(int \<Rightarrow> read_one) \<Rightarrow> (int \<Rightarrow> read_rpm) \<Rightarrow> time \<Rightarrow> point_ref list \<Rightarrow> int list \<Rightarrow>
   (driver_error + reading list) \<times> int list" where
  "driver_read one rpm now refs unsupported = read_devices one rpm now (by_device refs) unsupported"

subsection \<open>Writes\<close>

datatype payload = P_Null | P_Text string | P_Int int | P_Real pyfloat

text \<open>The value written to an object; \<open>None\<close> when \<open>int\<close> raises (NaN and the infinities).\<close>

definition write_payload :: "string \<Rightarrow> pyfloat option \<Rightarrow> payload option" where
  "write_payload object_type val =
     (case val of
        None \<Rightarrow> Some P_Null
      | Some v \<Rightarrow>
          if starts_with ''binary'' object_type
          then Some (P_Text (if v = Fin 0 then ''inactive'' else ''active''))
          else if is_multistate object_type then map_option P_Int (py_int (JFloat v))
          else Some (P_Real v))"

text \<open>\<open>answer\<close> is what the device answers; \<open>Some e\<close> inside is an error returned as a result.\<close>

definition driver_write ::
  "(payload \<Rightarrow> int \<Rightarrow> bacnet_error option net) \<Rightarrow> (driver_error \<Rightarrow> string) \<Rightarrow> (bacnet_error \<Rightarrow> string) \<Rightarrow>
   string \<Rightarrow> pyfloat option \<Rightarrow> int \<Rightarrow> write_result option" where
  "driver_write answer text_of text_of_error object_type val priority =
     map_option (\<lambda>payload.
       case call (answer payload priority) of
         Inl e \<Rightarrow> \<lparr>wr_ok = False, wr_error = Some (text_of e)\<rparr>
       | Inr (Some err) \<Rightarrow> \<lparr>wr_ok = False, wr_error = Some (text_of_error err)\<rparr>
       | Inr None \<Rightarrow> \<lparr>wr_ok = True, wr_error = None\<rparr>) (write_payload object_type val)"

subsection \<open>Subscriptions\<close>

record subscriptions =
  su_process_ids :: "(uuid, nat) dict"
  su_points :: "(string \<times> nat, point_ref) dict"

definition process_id :: "uuid \<Rightarrow> subscriptions \<Rightarrow> nat" where
  "process_id pid su =
     (case map_of (su_process_ids su) pid of Some n \<Rightarrow> n | None \<Rightarrow> length (su_process_ids su) + 1)"

text \<open>The part of \<open>subscribe_cov\<close> before the request: the bookkeeping of identifiers.\<close>

definition register_cov :: "point_ref \<Rightarrow> subscriptions \<Rightarrow> subscriptions" where
  "register_cov ref su =
     (let n = process_id (pr_point_id ref) su
      in \<lparr>su_process_ids = dict_setdefault (pr_point_id ref) n (su_process_ids su),
          su_points = AList.update (pr_address ref, n) ref (su_points su)\<rparr>)"

definition subscribe_cov ::
  "point_ref \<Rightarrow> bacnet_error option net \<Rightarrow> subscriptions \<Rightarrow> driver_error option \<times> subscriptions" where
  "subscribe_cov ref answer su =
     (case call answer of
        Inl e \<Rightarrow> (Some e, register_cov ref su)
      | Inr (Some err) \<Rightarrow> (Some (convert_error err), register_cov ref su)
      | Inr None \<Rightarrow> (None, register_cov ref su))"

text \<open>\<open>_on_cov\<close>: the reading a notification stands for, if it is for a known subscription.\<close>

definition on_cov :: "string \<Rightarrow> nat \<Rightarrow> props \<Rightarrow> time \<Rightarrow> subscriptions \<Rightarrow> reading option" where
  "on_cov source n values now su =
     (case map_of (su_points su) (source, n) of
        None \<Rightarrow> None
      | Some ref \<Rightarrow>
          (case map_of values ''present-value'' of
             None \<Rightarrow> None
           | Some v \<Rightarrow> Some (build_reading (pr_point_id ref) (pv_raw v)
                               (flags (map_of values ''status-flags'')) now)))"

subsection \<open>Reading many at once is reading one by one\<close>

text \<open>The answer of a device whose \<open>ReadPropertyMultiple\<close> agrees with its \<open>ReadProperty\<close>.\<close>

definition rpm_answer ::
  "read_one \<Rightarrow> (object_key \<times> string list) list \<Rightarrow> (object_key \<times> string \<times> prop_value) list" where
  "rpm_answer one wanted =
     concat (map (\<lambda>(key, ps). map (\<lambda>p. (key, p,
         case one key p of Net_Ok v \<Rightarrow> v
         | _ \<Rightarrow> \<lparr>pv_error = True, pv_raw = Raw_None, pv_text = [], pv_true = False, pv_items = None, pv_bits = None\<rparr>)) ps) wanted)"

definition readable :: "read_one \<Rightarrow> (object_key \<times> string list) list \<Rightarrow> bool" where
  "readable one wanted \<longleftrightarrow>
     (\<forall>(key, ps) \<in> set wanted. \<forall>p \<in> set ps.
        case one key p of
          Net_Ok v \<Rightarrow> \<not> pv_error v
        | Net_Timeout \<Rightarrow> False
        | Net_Error e \<Rightarrow> convert_error e \<noteq> Device_Unreachable)"

lemma convert_error_cases: "convert_error e = Device_Unreachable \<or> (\<exists>k. convert_error e = Request_Rejected k)"
  by (simp add: convert_error_def)

lemma read_props_fold:
  assumes "\<forall>p \<in> set ps. case one key p of
      Net_Ok v \<Rightarrow> \<not> pv_error v | Net_Timeout \<Rightarrow> False | Net_Error e \<Rightarrow> convert_error e \<noteq> Device_Unreachable"
  shows "read_props one key ps found =
    Inr (fold (\<lambda>r found. if pv_error (snd (snd r)) then found else add_found r found) (rpm_answer one [(key, ps)]) found)"
  using assms
proof (induction ps arbitrary: found)
  case (Cons p ps)
  show ?case
  proof (cases "one key p")
    case (Net_Ok v)
    with Cons show ?thesis by (simp add: call_def rpm_answer_def)
  next
    case Net_Timeout
    with Cons.prems show ?thesis by simp
  next
    case (Net_Error e)
    with Cons.prems have "convert_error e \<noteq> Device_Unreachable" by simp
    then obtain k where "convert_error e = Request_Rejected k" using convert_error_cases by metis
    with Net_Error Cons show ?thesis by (simp add: call_def rpm_answer_def)
  qed
qed (simp add: rpm_answer_def)

lemma read_each_fold:
  "readable one wanted \<Longrightarrow> read_each one wanted found =
    Inr (fold (\<lambda>r found. if pv_error (snd (snd r)) then found else add_found r found) (rpm_answer one wanted) found)"
proof (induction wanted arbitrary: found)
  case (Cons w wanted)
  obtain key ps where w: "w = (key, ps)" by (cases w)
  have "read_props one key ps found = Inr (fold (\<lambda>r found. if pv_error (snd (snd r)) then found
      else add_found r found) (rpm_answer one [(key, ps)]) found)"
    using Cons.prems w by (intro read_props_fold) (simp add: readable_def)
  moreover have "rpm_answer one (w # wanted) = rpm_answer one [(key, ps)] @ rpm_answer one wanted"
    by (simp add: rpm_answer_def w)
  moreover have "readable one wanted" using Cons.prems by (simp add: readable_def)
  ultimately show ?case using Cons.IH w by simp
qed (simp add: rpm_answer_def)

text \<open>
  The fallback changes nothing but the number of requests: for a device that answers every
  single reading with a value or a refusal, reading by \<open>ReadPropertyMultiple\<close> (when the device
  answers consistently) and one by one (when it does not support it, or refuses it) give the same
  result; and a device that refuses the service is not asked again.
\<close>

theorem fallback_reads_the_same:
  assumes "readable one wanted"
    and "rpm wanted = Net_Ok (rpm_answer one wanted) \<or>
      (\<exists>e. rpm wanted = Net_Error e \<and> convert_error e \<in> {Request_Rejected ''reject'', Request_Rejected ''abort''})"
  shows "fst (read_many one rpm inst unsupported wanted) = read_each one wanted [] \<and>
    (inst \<in> set (snd (read_many one rpm inst unsupported wanted)) \<longleftrightarrow>
       inst \<in> set unsupported \<or> rpm wanted \<noteq> Net_Ok (rpm_answer one wanted))"
  using assms(2)
proof
  assume "rpm wanted = Net_Ok (rpm_answer one wanted)"
  then show ?thesis
    by (simp add: read_many_def read_multiple_def call_def read_each_fold [OF assms(1)])
next
  assume "\<exists>e. rpm wanted = Net_Error e \<and>
    convert_error e \<in> {Request_Rejected ''reject'', Request_Rejected ''abort''}"
  then obtain e where "rpm wanted = Net_Error e"
    "convert_error e \<in> {Request_Rejected ''reject'', Request_Rejected ''abort''}" by blast
  then show ?thesis by (auto simp: read_many_def read_multiple_def call_def)
qed

subsection \<open>One object, one reading\<close>

lemma describe_chunks_keys:
  assumes "fst (describe_chunks one rpm inst cs u) = Inr objs"
  shows "map (\<lambda>ob. (oi_object_type ob, oi_object_instance ob)) objs = concat cs"
  using assms
proof (induction cs arbitrary: u objs)
  case (Cons c cs)
  obtain r u1 where m: "read_many one rpm inst u (dict_of (map (\<lambda>key. (key, discovery_props (fst key))) c)) = (r, u1)"
    by fastforce
  obtain r' u2 where d: "describe_chunks one rpm inst cs u1 = (r', u2)" by fastforce
  from Cons.prems m d obtain props rest where p: "r = Inr props" "r' = Inr rest"
    "objs = map (\<lambda>key. object_of key (case map_of props key of None \<Rightarrow> [] | Some f \<Rightarrow> f)) c @ rest"
    by (auto simp: Let_def split: sum.splits)
  have "map (\<lambda>ob. (oi_object_type ob, oi_object_instance ob)) rest = concat cs"
    by (rule Cons.IH [of u1]) (simp add: d p(2))
  moreover have "oi_object_type (object_of key f) = fst key" "oi_object_instance (object_of key f) = snd key" for key f
    by (simp_all add: object_of_def split_beta)
  ultimately show ?case by (simp add: p(3) comp_def)
qed simp

text \<open>
  The inventory is complete and only contains importable objects: when \<open>describe\<close> succeeds, the
  objects it returns are those of the device's object list whose type is imported, each once per
  entry and in the same order, whatever properties could not be read.
\<close>

theorem inventory_complete:
  assumes "fst (describe batch one rpm (Inr ks) inst unsupported) = Inr objs" "0 < batch"
  shows "map (\<lambda>ob. (oi_object_type ob, oi_object_instance ob)) objs =
    List.filter (\<lambda>key. fst key \<in> set IMPORTED_TYPES) ks"
  using describe_chunks_keys [of one rpm inst _ unsupported objs] assms by (simp add: describe_def)

lemma read_devices_points:
  assumes "fst (read_devices one rpm now ds u) = Inr rs"
  shows "map rd_point_id rs = map pr_point_id (concat (map snd ds))"
  using assms
proof (induction ds arbitrary: u rs)
  case (Cons d ds)
  obtain inst refs where d: "d = (inst, refs)" by (cases d)
  obtain r u1 where m: "read_many (one inst) (rpm inst) inst u
      (dict_of (map (\<lambda>r. ((pr_object_type r, pr_object_instance r), LIVE_PROPS)) refs)) = (r, u1)" by fastforce
  obtain r' u2 where d': "read_devices one rpm now ds u1 = (r', u2)" by fastforce
  from Cons.prems m d d' obtain found rest where p: "r = Inr found" "r' = Inr rest"
    "rs = map (reading_of now found) refs @ rest"
    by (auto split: sum.splits)
  have "map rd_point_id rest = map pr_point_id (concat (map snd ds))"
    by (rule Cons.IH [of u1]) (simp add: d' p(2))
  moreover have "rd_point_id (reading_of now found ref) = pr_point_id ref" for ref
    by (auto simp: reading_of_def fault_reading_def build_reading_def split: option.splits)
  ultimately show ?case by (simp add: p(3) d comp_def)
qed simp

lemma by_device_one:
  assumes "refs \<noteq> []" "\<forall>r \<in> set refs. pr_device_instance r = inst"
  shows "by_device refs = [(inst, refs)]"
proof -
  have "fold (\<lambda>r d. AList.update (pr_device_instance r)
      ((case map_of d (pr_device_instance r) of None \<Rightarrow> [] | Some rs \<Rightarrow> rs) @ [r]) d) rs [(inst, done)]
    = [(inst, done @ rs)]" if "\<forall>r \<in> set rs. pr_device_instance r = inst" for rs "done"
    using that by (induction rs arbitrary: "done") simp_all
  note acc = this
  obtain r rs where refs: "refs = r # rs" using assms(1) by (cases refs) simp_all
  with assms(2) acc [of rs "[r]"] show ?thesis by (simp add: by_device_def)
qed

lemma driver_readings:
  assumes "fst (driver_read one rpm now refs unsupported) = Inr rs" "refs \<noteq> []"
    and "\<forall>r \<in> set refs. pr_device_instance r = inst"
  shows "map rd_point_id rs = map pr_point_id refs"
  using read_devices_points [of one rpm now "by_device refs" unsupported rs] assms
  by (simp add: driver_read_def by_device_one [OF assms(2,3)])

text \<open>
  Every requested point gets exactly one reading: when the driver answers for points of one
  device (the way the poller and the writer call it), the readings are those of the points, in
  their order; a point the device did not answer for is faulty, not absent.
\<close>

theorem one_reading_per_point:
  assumes "fst (driver_read one rpm now refs unsupported) = Inr rs" "refs \<noteq> []"
    and "\<forall>r \<in> set refs. pr_device_instance r = inst"
  shows "map rd_point_id rs = map pr_point_id refs"
  using assms by (rule driver_readings)

subsection \<open>The list by index\<close>

lemma entries_by_index_all:
  assumes "\<And>j. j < length ks \<Longrightarrow> entry (i + j) = Net_Ok (ks ! j)"
  shows "entries_by_index entry i (length ks) = Inr ks"
  using assms
proof (induction ks arbitrary: i)
  case (Cons k ks)
  have "entry i = Net_Ok k" using Cons.prems [of 0] by simp
  moreover have "entries_by_index entry (Suc i) (length ks) = Inr ks"
    using Cons.prems [of "Suc j" for j] by (intro Cons.IH) simp
  ultimately show ?case by (simp add: call_def)
qed simp

text \<open>
  A device without segmentation is inventoried all the same: when the whole object list is
  refused but its length and its elements can be read, the list is the same.
\<close>

theorem object_list_by_index:
  assumes "whole = Net_Error e" "convert_error e \<noteq> Device_Unreachable"
    and "count = Net_Ok (int (length ks))" "\<And>j. j < length ks \<Longrightarrow> entry (Suc j) = Net_Ok (ks ! j)"
  shows "object_list whole count entry = Inr ks"
proof -
  obtain k where "convert_error e = Request_Rejected k" using assms(2) convert_error_cases by metis
  with assms(1,3) entries_by_index_all [of ks entry 1] assms(4) show ?thesis
    by (simp add: object_list_def call_def)
qed

subsection \<open>Notifications find their point\<close>

definition subscriptions_ok :: "subscriptions \<Rightarrow> bool" where
  "subscriptions_ok su \<longleftrightarrow> dict_wf (su_process_ids su) \<and>
     (\<forall>pid n. map_of (su_process_ids su) pid = Some n \<longrightarrow> 1 \<le> n \<and> n \<le> length (su_process_ids su)) \<and>
     (\<forall>p q n. map_of (su_process_ids su) p = Some n \<longrightarrow> map_of (su_process_ids su) q = Some n \<longrightarrow> p = q) \<and>
     (\<forall>a n ref. map_of (su_points su) (a, n) = Some ref \<longrightarrow>
        pr_address ref = a \<and> map_of (su_process_ids su) (pr_point_id ref) = Some n)"

lemma register_ids:
  assumes "subscriptions_ok su"
  shows "map_of (su_process_ids (register_cov ref su)) p =
      (if p = pr_point_id ref then Some (process_id (pr_point_id ref) su) else map_of (su_process_ids su) p)"
    "length (su_process_ids (register_cov ref su)) =
      (if map_of (su_process_ids su) (pr_point_id ref) = None then Suc (length (su_process_ids su))
       else length (su_process_ids su))"
proof -
  show "map_of (su_process_ids (register_cov ref su)) p =
      (if p = pr_point_id ref then Some (process_id (pr_point_id ref) su) else map_of (su_process_ids su) p)"
    by (auto simp: register_cov_def process_id_def Let_def split: option.splits)
  show "length (su_process_ids (register_cov ref su)) =
      (if map_of (su_process_ids su) (pr_point_id ref) = None then Suc (length (su_process_ids su))
       else length (su_process_ids su))"
  proof (cases "map_of (su_process_ids su) (pr_point_id ref)")
    case None
    then have "pr_point_id ref \<notin> set (dict_keys (su_process_ids su))"
      by (simp add: map_of_eq_None_iff)
    with None show ?thesis
      by (simp add: register_cov_def dict_setdefault_def Let_def dict_update_new)
  next
    case (Some n)
    then show ?thesis by (simp add: register_cov_def dict_setdefault_def Let_def)
  qed
qed

lemma register_ok:
  assumes ok: "subscriptions_ok su" shows "subscriptions_ok (register_cov ref su)"
proof -
  let ?su = "register_cov ref su"
  let ?pid = "pr_point_id ref"
  note ids = register_ids [OF ok, of ref]
  have old: "map_of (su_process_ids su) p = Some n \<Longrightarrow> 1 \<le> n \<and> n \<le> length (su_process_ids su)"
    "map_of (su_process_ids su) p = Some n \<Longrightarrow> map_of (su_process_ids su) q = Some n \<Longrightarrow> p = q"
    "map_of (su_points su) (a, n) = Some r \<Longrightarrow> pr_address r = a \<and> map_of (su_process_ids su) (pr_point_id r) = Some n"
    for p q n a r
    using ok unfolding subscriptions_ok_def by blast+
  have new: "map_of (su_process_ids su) ?pid = Some (process_id ?pid su) \<or>
      map_of (su_process_ids su) ?pid = None \<and> process_id ?pid su = Suc (length (su_process_ids su))"
    by (cases "map_of (su_process_ids su) ?pid") (simp_all add: process_id_def)
  have range: "1 \<le> n \<and> n \<le> length (su_process_ids ?su)" if n: "map_of (su_process_ids ?su) p = Some n" for p n
    using n old(1) [of p n] old(1) [of ?pid n] new ids by (auto split: if_splits)
  have inj: "p = q" if n: "map_of (su_process_ids ?su) p = Some n" "map_of (su_process_ids ?su) q = Some n" for p q n
  proof (cases "p = ?pid \<or> q = ?pid")
    case True
    with n new old(1) [of p n] old(1) [of q n] old(2) [of p n q] ids show ?thesis
      by (auto split: if_splits)
  next
    case False
    with n ids(1) old(2) show ?thesis by simp
  qed
  have pts: "pr_address r = a \<and> map_of (su_process_ids ?su) (pr_point_id r) = Some n"
    if n: "map_of (su_points ?su) (a, n) = Some r" for a n r
  proof (cases "a = pr_address ref \<and> n = process_id ?pid su")
    case True
    with n have "r = ref" by (simp add: register_cov_def Let_def)
    with True ids(1) [of ?pid] show ?thesis by simp
  next
    case False
    with n have "map_of (su_points su) (a, n) = Some r"
      by (auto simp: register_cov_def Let_def split: if_splits)
    with old(3) [of a n r] new ids(1) show ?thesis by auto
  qed
  have "dict_wf (su_process_ids ?su)"
    using ok by (simp add: register_cov_def subscriptions_ok_def Let_def)
  with range inj pts show ?thesis unfolding subscriptions_ok_def by blast
qed

lemma registered_kept:
  assumes ok: "subscriptions_ok su"
    and "map_of (su_process_ids su) (pr_point_id r0) = Some n" "map_of (su_points su) (pr_address r0, n) = Some r0"
    and "pr_point_id ref \<noteq> pr_point_id r0"
  shows "map_of (su_process_ids (register_cov ref su)) (pr_point_id r0) = Some n \<and>
    map_of (su_points (register_cov ref su)) (pr_address r0, n) = Some r0"
proof -
  have "process_id (pr_point_id ref) su \<noteq> n"
  proof (cases "map_of (su_process_ids su) (pr_point_id ref)")
    case None
    with ok assms(2) show ?thesis unfolding process_id_def subscriptions_ok_def by fastforce
  next
    case (Some m)
    with ok assms(2,4) show ?thesis unfolding process_id_def subscriptions_ok_def by auto
  qed
  with assms register_ids(1) [OF ok, of ref "pr_point_id r0"] show ?thesis
    by (simp add: register_cov_def Let_def)
qed

text \<open>
  Notifications find their point: whatever points are subscribed before and afterwards, a
  notification that carries the process identifier given to a point and comes from its device is a
  reading of that point.
\<close>

theorem notification_finds_point:
  assumes "su1 = register_cov ref (fold register_cov before \<lparr>su_process_ids = [], su_points = []\<rparr>)"
    and "\<forall>r \<in> set later. pr_point_id r \<noteq> pr_point_id ref"
    and "n = process_id (pr_point_id ref) (fold register_cov before \<lparr>su_process_ids = [], su_points = []\<rparr>)"
    and "map_of values ''present-value'' = Some v"
  shows "\<exists>r. on_cov (pr_address ref) n values now (fold register_cov later su1) = Some r \<and>
    rd_point_id r = pr_point_id ref \<and> rd_value r = normalize_present_value (pv_raw v)"
proof -
  let ?su0 = "fold register_cov before \<lparr>su_process_ids = [], su_points = []\<rparr>"
  have init: "subscriptions_ok \<lparr>su_process_ids = [], su_points = []\<rparr>" by (simp add: subscriptions_ok_def)
  have runs: "subscriptions_ok (fold register_cov rs su)" if "subscriptions_ok su" for rs su
    using that by (induction rs arbitrary: su) (simp_all add: register_ok)
  have ok1: "subscriptions_ok su1" unfolding assms(1) by (rule register_ok [OF runs [OF init]])
  have "map_of (su_process_ids su1) (pr_point_id ref) = Some n"
    unfolding assms(1,3) using register_ids(1) [OF runs [OF init], of ref before "pr_point_id ref"] by simp
  moreover have "map_of (su_points su1) (pr_address ref, n) = Some ref"
    by (simp add: assms(1,3) register_cov_def Let_def)
  ultimately have "map_of (su_points (fold register_cov later su1)) (pr_address ref, n) = Some ref"
    using ok1 assms(2)
  proof (induction later arbitrary: su1)
    case (Cons r rs)
    from Cons.prems have ne: "pr_point_id r \<noteq> pr_point_id ref" by simp
    note kept = registered_kept [OF Cons.prems(3,1,2) ne]
    show ?case
      using Cons.IH [OF kept [THEN conjunct1] kept [THEN conjunct2] register_ok [OF Cons.prems(3)]]
        Cons.prems(4) by simp
  qed simp
  then show ?thesis
    using assms(4) by (simp add: on_cov_def build_reading_def)
qed

subsection \<open>An example\<close>

definition example_value :: prop_value where
  "example_value = \<lparr>pv_error = False, pv_raw = Raw_Int 20, pv_text = ''20'', pv_true = True, pv_items = None,
     pv_bits = Some [0, 0, 0, 0]\<rparr>"

text \<open>A device that answers every property, and refuses to be read in bulk.\<close>

definition example_one :: read_one where "example_one = (\<lambda>_ _. Net_Ok example_value)"

definition example_reject :: bacnet_error where
  "example_reject = \<lparr>be_class = ''RejectPDU'', be_reason = []\<rparr>"

definition example_rpm :: read_rpm where "example_rpm = (\<lambda>_. Net_Error example_reject)"

lemma example_reject_converted: "convert_error example_reject = Request_Rejected ''reject''"
  by code_simp

theorem fallback_reads_the_same_witness:
  "fst (read_many example_one example_rpm 100 [] [((''analog-input'', 1), LIVE_PROPS)]) =
     read_each example_one [((''analog-input'', 1), LIVE_PROPS)] [] \<and>
   100 \<in> set (snd (read_many example_one example_rpm 100 [] [((''analog-input'', 1), LIVE_PROPS)]))"
proof -
  have "readable example_one [((''analog-input'', 1), LIVE_PROPS)]"
    by (simp add: readable_def example_one_def example_value_def)
  moreover have "\<exists>e. example_rpm [((''analog-input'', 1), LIVE_PROPS)] = Net_Error e \<and>
      convert_error e \<in> {Request_Rejected ''reject'', Request_Rejected ''abort''}"
    by (simp add: example_rpm_def example_reject_converted)
  ultimately show ?thesis
    using fallback_reads_the_same [of example_one "[((''analog-input'', 1), LIVE_PROPS)]" example_rpm 100 "[]"]
    by (simp add: example_rpm_def)
qed

theorem inventory_complete_witness:
  "\<exists>objs. fst (describe 2 example_one example_rpm
      (Inr [(''device'', 100), (''analog-input'', 1), (''binary-value'', 2)]) 100 []) = Inr objs \<and>
     map (\<lambda>ob. (oi_object_type ob, oi_object_instance ob)) objs = [(''analog-input'', 1), (''binary-value'', 2)]"
proof -
  have "\<not> isl (fst (describe 2 example_one example_rpm
      (Inr [(''device'', 100), (''analog-input'', 1), (''binary-value'', 2)]) 100 []))"
    by code_simp
  then obtain objs where d: "fst (describe 2 example_one example_rpm
      (Inr [(''device'', 100), (''analog-input'', 1), (''binary-value'', 2)]) 100 []) = Inr objs"
    by (metis isl_def sum.exhaust)
  from inventory_complete [OF d] d show ?thesis by (simp add: IMPORTED_TYPES_def)
qed

definition example_ref :: point_ref where
  "example_ref = \<lparr>pr_point_id = 3, pr_device_instance = 100, pr_address = ''10.0.0.2'',
     pr_object_type = ''analog-input'', pr_object_instance = 1\<rparr>"

theorem one_reading_per_point_witness:
  "\<exists>rs. fst (driver_read (\<lambda>_. example_one) (\<lambda>_. example_rpm) 0 [example_ref] []) = Inr rs \<and>
     map rd_point_id rs = [3]"
proof -
  have "\<not> isl (fst (driver_read (\<lambda>_. example_one) (\<lambda>_. example_rpm) 0 [example_ref] []))"
    by code_simp
  then obtain rs where d: "fst (driver_read (\<lambda>_. example_one) (\<lambda>_. example_rpm) 0 [example_ref] []) = Inr rs"
    by (metis isl_def sum.exhaust)
  from one_reading_per_point [OF d, of 100] d show ?thesis by (simp add: example_ref_def)
qed

theorem object_list_by_index_witness:
  "object_list (Net_Error example_reject) (Net_Ok 2)
     (\<lambda>j. Net_Ok ([(''device'', 100), (''analog-input'', 1)] ! (j - 1))) =
   Inr [(''device'', 100), (''analog-input'', 1)]"
  by (rule object_list_by_index [OF refl]) (simp_all add: example_reject_converted)

theorem notification_finds_point_witness:
  "\<exists>r. on_cov ''10.0.0.2'' 1 [(''present-value'', example_value)] 0
      (fold register_cov [] (register_cov example_ref \<lparr>su_process_ids = [], su_points = []\<rparr>)) = Some r \<and>
    rd_point_id r = 3"
proof -
  have "register_cov example_ref \<lparr>su_process_ids = [], su_points = []\<rparr> =
      register_cov example_ref (fold register_cov [] \<lparr>su_process_ids = [], su_points = []\<rparr>)" by simp
  moreover have "1 = process_id (pr_point_id example_ref) (fold register_cov [] \<lparr>su_process_ids = [], su_points = []\<rparr>)"
    by (simp add: process_id_def)
  ultimately show ?thesis
    using notification_finds_point [of "register_cov example_ref \<lparr>su_process_ids = [], su_points = []\<rparr>"
        example_ref "[]" "[]" 1 "[(''present-value'', example_value)]" example_value 0]
    by (auto simp: example_ref_def)
qed

end
