(* ===== verification/Collector_Survey.thy ===== *)
theory Collector_Survey
  imports Collector_Driver
begin

section \<open>What the driver reads of a device\<close>

text \<open>
  The rest of \<open>app/collector/bacnet_driver.py\<close>: the devices that answer a \<open>Who-Is\<close> with their
  services and names, and event notifications; then what an inventory and a reading say of a device
  that answers consistently, whichever way it is read.
\<close>

subsection \<open>Devices\<close>

text \<open>\<open>_device_info\<close>: \<open>one\<close> and \<open>rpm\<close> are the answers of the device, \<open>unsupported\<close> as in \<open>read_many\<close>.\<close>

definition device_info_of ::
  "read_one \<Rightarrow> read_rpm \<Rightarrow> int \<Rightarrow> string \<Rightarrow> string \<Rightarrow> int list \<Rightarrow> device_info \<times> int list" where
  "device_info_of one rpm inst address vendor unsupported =
     (let key = (''device'', inst);
          services = (case call (one key ''protocol-services-supported'') of
             Inl _ \<Rightarrow> None | Inr v \<Rightarrow> Some (pieces CHR '';'' (pv_text v)));
          has = (\<lambda>s. case services of None \<Rightarrow> True | Some names \<Rightarrow> s \<in> set names);
          unsupported1 = (if has ''read-property-multiple'' then unsupported else inst # unsupported);
          (props, unsupported2) = read_many one rpm inst unsupported1 [(key, [''object-name'', ''model-name''])];
          text_of = (\<lambda>p. case props of
             Inl _ \<Rightarrow> None
           | Inr found \<Rightarrow> Option.bind (map_of found key) (\<lambda>ps. map_option pv_text (map_of ps p)))
      in (\<lparr>di_instance = inst, di_address = address, di_name = text_of ''object-name'', di_vendor = Some vendor,
           di_model = text_of ''model-name'', di_supports_rpm = has ''read-property-multiple'',
           di_supports_cov = has ''subscribe-cov''\<rparr>, unsupported2))"

text \<open>
  \<open>discover\<close>, given the answers to the \<open>Who-Is\<close> requests with their instance, address and vendor. The
  devices are questioned at the same time, but each only touches its own entry of \<open>unsupported\<close>.
\<close>

fun device_infos ::
  "(int \<Rightarrow> read_one) \<Rightarrow> (int \<Rightarrow> read_rpm) \<Rightarrow> (int \<times> string \<times> string) list \<Rightarrow> int list \<Rightarrow>
   device_info list \<times> int list" where
  "device_infos one rpm [] unsupported = ([], unsupported)"
| "device_infos one rpm ((inst, address, vendor) # ds) unsupported =
     (let (d, u1) = device_info_of (one inst) (rpm inst) inst address vendor unsupported;
          (rest, u2) = device_infos one rpm ds u1
      in (d # rest, u2))"

definition driver_discover ::
  "(int \<Rightarrow> read_one) \<Rightarrow> (int \<Rightarrow> read_rpm) \<Rightarrow> (int \<times> string \<times> string) list list \<Rightarrow> int list \<Rightarrow>
   device_info list \<times> int list" where
  "driver_discover one rpm answers unsupported =
     (let (infos, u) = device_infos one rpm (unique_devices answers) unsupported
      in (sort_key di_instance infos, u))"

subsection \<open>Event notifications\<close>

record event_notice =
  en_device_instance :: int
  en_object_type :: string
  en_object_instance :: int
  en_to_state :: string
  en_from_state :: "string option"
  en_message :: "string option"

text \<open>The notification as decoded by the stack, with the texts of its enumerations.\<close>

record event_apdu =
  ev_device :: int
  ev_object :: object_key
  ev_to_state :: string
  ev_from_state :: "string option"
  ev_message :: "string option"

definition on_event :: "event_apdu \<Rightarrow> event_notice" where
  "on_event a =
     \<lparr>en_device_instance = ev_device a, en_object_type = fst (ev_object a), en_object_instance = snd (ev_object a),
      en_to_state = ev_to_state a, en_from_state = ev_from_state a, en_message = ev_message a\<rparr>"

text \<open>\<open>publish_event\<close> of the service: the message on the channel \<open>bacnet.event\<close>.\<close>

definition event_json :: "event_notice \<Rightarrow> json" where
  "event_json n =
     JObj [(''device_instance'', JInt (en_device_instance n)), (''object_type'', JStr (en_object_type n)),
       (''object_instance'', JInt (en_object_instance n)), (''to_state'', JStr (en_to_state n)),
       (''from_state'', case en_from_state n of None \<Rightarrow> JNull | Some s \<Rightarrow> JStr s),
       (''message'', case en_message n of None \<Rightarrow> JNull | Some s \<Rightarrow> JStr s)]"

subsection \<open>A device that answers consistently\<close>

definition look :: "(object_key, props) dict \<Rightarrow> object_key \<Rightarrow> string \<Rightarrow> prop_value option" where
  "look found key p = Option.bind (map_of found key) (\<lambda>ps. map_of ps p)"

lemma look_add_found:
  "look (add_found (k, q, v) found) key p = (if k = key \<and> q = p then Some v else look found key p)"
  by (auto simp: look_def add_found_def split: option.splits)

definition held :: "read_one \<Rightarrow> object_key \<Rightarrow> string \<Rightarrow> prop_value option" where
  "held one key p = (case one key p of Net_Ok v \<Rightarrow> Some v | _ \<Rightarrow> None)"

lemma look_read_each:
  assumes "readable one wanted" "read_each one wanted found = Inr found'"
  shows "look found' key p =
     (if (\<exists>ps. (key, ps) \<in> set wanted \<and> p \<in> set ps) \<and> held one key p \<noteq> None then held one key p
      else look found key p)"
proof -
  let ?f = "\<lambda>r found. if pv_error (snd (snd r)) then found else add_found r found"
  have each: "look (fold ?f (rpm_answer one [(k, ps)]) found) key p =
      (if key = k \<and> p \<in> set ps \<and> held one key p \<noteq> None then held one key p else look found key p)"
    if "readable one [(k, ps)]" for k ps found
    using that
  proof (induction ps arbitrary: found)
    case (Cons q qs)
    have ih: "look (fold ?f (rpm_answer one [(k, qs)]) g) key p =
        (if key = k \<and> p \<in> set qs \<and> held one key p \<noteq> None then held one key p else look g key p)" for g
      using Cons by (simp add: readable_def)
    have "rpm_answer one [(k, q # qs)] = rpm_answer one [(k, [q])] @ rpm_answer one [(k, qs)]"
      by (simp add: rpm_answer_def)
    then show ?case using Cons.prems
      by (simp add: ih) (auto simp: rpm_answer_def held_def look_add_found readable_def split: net.splits)
  qed (simp add: rpm_answer_def)
  have "look (fold ?f (rpm_answer one wanted) found) key p =
      (if (\<exists>ps. (key, ps) \<in> set wanted \<and> p \<in> set ps) \<and> held one key p \<noteq> None then held one key p
       else look found key p)"
    using assms(1)
  proof (induction wanted arbitrary: found)
    case (Cons w wanted)
    obtain k ps where w: "w = (k, ps)" by (cases w)
    have r: "readable one [(k, ps)]" "readable one wanted" using Cons.prems by (simp_all add: readable_def w)
    have e: "rpm_answer one ((k, ps) # wanted) = rpm_answer one [(k, ps)] @ rpm_answer one wanted"
      by (simp add: rpm_answer_def)
    show ?case
      unfolding w e fold_append comp_apply Cons.IH [OF r(2)] each [OF r(1)] by auto
  qed (simp add: rpm_answer_def)
  with assms show ?thesis by (simp add: read_each_fold)
qed

text \<open>Whether \<open>ReadPropertyMultiple\<close> answers like the single readings, or is refused.\<close>

definition rpm_consistent :: "read_one \<Rightarrow> read_rpm \<Rightarrow> (object_key \<times> string list) list \<Rightarrow> bool" where
  "rpm_consistent one rpm wanted \<longleftrightarrow>
     (case rpm wanted of
        Net_Ok results \<Rightarrow> results = rpm_answer one wanted
      | Net_Timeout \<Rightarrow> False
      | Net_Error e \<Rightarrow> convert_error e \<in> {Request_Rejected ''reject'', Request_Rejected ''abort''})"

lemma read_many_each:
  assumes "readable one wanted" "rpm_consistent one rpm wanted"
  shows "fst (read_many one rpm inst unsupported wanted) = read_each one wanted []"
  using assms
  by (auto simp: read_many_def read_multiple_def call_def rpm_consistent_def read_each_fold split: net.splits)

lemma read_many_look:
  assumes "readable one wanted" "rpm_consistent one rpm wanted"
  shows "\<exists>found. fst (read_many one rpm inst unsupported wanted) = Inr found \<and>
    (\<forall>key ps p. (key, ps) \<in> set wanted \<longrightarrow> p \<in> set ps \<longrightarrow> look found key p = held one key p)"
proof -
  obtain found where f: "read_each one wanted [] = Inr found" using read_each_fold [OF assms(1), of "[]"] by blast
  have "look found key p = held one key p" if "(key, ps) \<in> set wanted" "p \<in> set ps" for key ps p
    using look_read_each [OF assms(1) f, of key p] that by (auto simp: look_def)
  with f show ?thesis by (auto simp: read_many_each [OF assms])
qed

subsection \<open>Inventories and readings are true\<close>

definition values_held :: "read_one \<Rightarrow> object_key \<Rightarrow> string list \<Rightarrow> props" where
  "values_held one key ps = concat (map (\<lambda>p. case held one key p of None \<Rightarrow> [] | Some v \<Rightarrow> [(p, v)]) ps)"

lemma map_of_values_held:
  "map_of (values_held one key ps) p = (if p \<in> set ps then held one key p else None)"
  by (induction ps) (auto simp: values_held_def split: option.splits)

lemma object_of_cong:
  assumes "\<And>p. p \<in> {''object-name'', ''description'', ''units'', ''state-text'', ''present-value'', ''status-flags''} \<Longrightarrow>
    map_of f p = map_of g p"
  shows "object_of key f = object_of key g"
  by (simp add: object_of_def assms)

text \<open>What an inventory asks of its objects.\<close>

definition inventory_requests :: "object_key list \<Rightarrow> (object_key \<times> string list) set" where
  "inventory_requests ks = (\<lambda>key. (key, discovery_props (fst key))) ` set ks"

lemma inventory_requests_mono: "set ks \<subseteq> set ks' \<Longrightarrow> inventory_requests ks \<subseteq> inventory_requests ks'"
  by (auto simp: inventory_requests_def)

lemma describe_chunks_true:
  assumes "\<And>w. set w \<subseteq> inventory_requests (concat cs) \<Longrightarrow> readable one w \<and> rpm_consistent one rpm w"
    and "\<forall>c \<in> set cs. distinct c"
  shows "fst (describe_chunks one rpm inst cs u) =
    Inr (map (\<lambda>key. object_of key (values_held one key (discovery_props (fst key)))) (concat cs))"
  using assms
proof (induction cs arbitrary: u)
  case (Cons c cs)
  let ?w = "map (\<lambda>key. (key, discovery_props (fst key))) c"
  have w: "readable one ?w" "rpm_consistent one rpm ?w" using Cons.prems(1) [of ?w] by (auto simp: inventory_requests_def)
  have d: "dict_of ?w = ?w" using Cons.prems(2) by (simp add: dict_of_distinct comp_def)
  obtain found where f: "fst (read_many one rpm inst u ?w) = Inr found"
    "\<And>key ps p. (key, ps) \<in> set ?w \<Longrightarrow> p \<in> set ps \<Longrightarrow> look found key p = held one key p"
    using read_many_look [OF w] by blast
  obtain u1 where u1: "read_many one rpm inst u ?w = (Inr found, u1)" using f(1) by (cases "read_many one rpm inst u ?w") simp
  have other: "look found key p = None" if "key \<in> set c" "p \<notin> set (discovery_props (fst key))" for key p
  proof -
    have "read_each one ?w [] = Inr found" using f(1) by (simp add: read_many_each [OF w])
    from look_read_each [OF w(1) this, of key p] that show ?thesis by (auto simp: look_def)
  qed
  have "object_of key (case map_of found key of None \<Rightarrow> [] | Some f \<Rightarrow> f) =
      object_of key (values_held one key (discovery_props (fst key)))" if "key \<in> set c" for key
  proof (rule object_of_cong)
    fix p
    have "map_of (case map_of found key of None \<Rightarrow> [] | Some f \<Rightarrow> f) p = look found key p"
      by (simp add: look_def split: option.splits)
    then show "map_of (case map_of found key of None \<Rightarrow> [] | Some f \<Rightarrow> f) p =
        map_of (values_held one key (discovery_props (fst key))) p"
      using f(2) [of key "discovery_props (fst key)" p] other [OF that, of p] that
      by (auto simp: map_of_values_held)
  qed
  moreover have "fst (describe_chunks one rpm inst cs u1) =
      Inr (map (\<lambda>key. object_of key (values_held one key (discovery_props (fst key)))) (concat cs))"
  proof (rule Cons.IH)
    have "inventory_requests (concat cs) \<subseteq> inventory_requests (concat (c # cs))"
      by (rule inventory_requests_mono) simp
    then show "readable one w \<and> rpm_consistent one rpm w" if "set w \<subseteq> inventory_requests (concat cs)" for w
      using Cons.prems(1) that by blast
    show "\<forall>c \<in> set cs. distinct c" using Cons.prems(2) by simp
  qed
  moreover obtain r u2 where r: "describe_chunks one rpm inst cs u1 = (r, u2)" by fastforce
  ultimately show ?case using r by (simp add: d u1 Let_def)
qed simp

lemma chunks_distinct: "distinct xs \<Longrightarrow> c \<in> set (chunks n xs) \<Longrightarrow> distinct c"
  by (induction n xs rule: chunks.induct)
    (subst (asm) (2) chunks.simps, auto split: if_splits simp: distinct_drop)

lemma describe_true:
  assumes "\<And>w. set w \<subseteq> inventory_requests (List.filter (\<lambda>key. fst key \<in> set IMPORTED_TYPES) ks) \<Longrightarrow> readable one w \<and> rpm_consistent one rpm w"
    and "distinct ks" "0 < batch"
  shows "fst (describe batch one rpm (Inr ks) inst unsupported) =
    Inr (map (\<lambda>key. object_of key (values_held one key (discovery_props (fst key))))
      (List.filter (\<lambda>key. fst key \<in> set IMPORTED_TYPES) ks))"
proof -
  let ?ks = "List.filter (\<lambda>key. fst key \<in> set IMPORTED_TYPES) ks"
  have "fst (describe_chunks one rpm inst (chunks batch ?ks) unsupported) =
      Inr (map (\<lambda>key. object_of key (values_held one key (discovery_props (fst key)))) (concat (chunks batch ?ks)))"
  proof (rule describe_chunks_true)
    show "readable one w \<and> rpm_consistent one rpm w" if "set w \<subseteq> inventory_requests (concat (chunks batch ?ks))" for w
      using that assms(3) by (intro assms(1)) (auto simp: inventory_requests_def)
    show "\<forall>c \<in> set (chunks batch ?ks). distinct c"
      using chunks_distinct distinct_filter [OF assms(2)] by blast
  qed
  then show ?thesis using assms(3) by (simp add: describe_def)
qed

text \<open>
  C19. The inventory is true: a device that answers single readings with values or refusals and whose
  answers to \<open>ReadPropertyMultiple\<close> agree with them (or that refuses this service) is described, whatever
  the size of the batches, by its importable objects in the order of its list, each with exactly the name,
  unit, state texts, value and status the device holds for it.
\<close>

theorem inventory_true:
  assumes "\<And>w. set w \<subseteq> inventory_requests (List.filter (\<lambda>key. fst key \<in> set IMPORTED_TYPES) ks) \<Longrightarrow> readable one w \<and> rpm_consistent one rpm w"
    and "distinct ks" "0 < batch"
  shows "fst (describe batch one rpm (Inr ks) inst unsupported) =
    Inr (map (\<lambda>key. object_of key (values_held one key (discovery_props (fst key))))
      (List.filter (\<lambda>key. fst key \<in> set IMPORTED_TYPES) ks))"
  using assms by (rule describe_true)

lemma reading_of_look:
  "reading_of now found ref =
     (case look found (pr_object_type ref, pr_object_instance ref) ''present-value'' of
        None \<Rightarrow> fault_reading (pr_point_id ref) now
      | Some v \<Rightarrow> build_reading (pr_point_id ref) (pv_raw v)
          (flags (look found (pr_object_type ref, pr_object_instance ref) ''status-flags'')) now)"
  by (cases "map_of found (pr_object_type ref, pr_object_instance ref)") (simp_all add: reading_of_def look_def split: option.split)

definition reading_held :: "read_one \<Rightarrow> time \<Rightarrow> point_ref \<Rightarrow> reading" where
  "reading_held one now ref =
     (let key = (pr_object_type ref, pr_object_instance ref)
      in case held one key ''present-value'' of
           None \<Rightarrow> fault_reading (pr_point_id ref) now
         | Some v \<Rightarrow> build_reading (pr_point_id ref) (pv_raw v) (flags (held one key ''status-flags'')) now)"

text \<open>
  Readings are true: for the points of one device that answers consistently, \<open>read\<close> gives each
  point, in order, the value and the status its object holds, and a fault for one without a value.
\<close>

theorem readings_true:
  assumes "\<And>w. readable (one inst) w \<and> rpm_consistent (one inst) (rpm inst) w"
    and "refs \<noteq> []" "\<forall>r \<in> set refs. pr_device_instance r = inst"
    and "distinct (map (\<lambda>r. (pr_object_type r, pr_object_instance r)) refs)"
  shows "fst (driver_read one rpm now refs unsupported) = Inr (map (reading_held (one inst) now) refs)"
proof -
  let ?w = "map (\<lambda>r. ((pr_object_type r, pr_object_instance r), LIVE_PROPS)) refs"
  have d: "dict_of ?w = ?w" using assms(4) by (simp add: dict_of_distinct comp_def)
  have w: "readable (one inst) ?w" "rpm_consistent (one inst) (rpm inst) ?w" using assms(1) by blast+
  obtain found where f: "fst (read_many (one inst) (rpm inst) inst unsupported ?w) = Inr found"
    "\<And>key ps p. (key, ps) \<in> set ?w \<Longrightarrow> p \<in> set ps \<Longrightarrow> look found key p = held (one inst) key p"
    using read_many_look [OF w] by blast
  obtain u1 where u1: "read_many (one inst) (rpm inst) inst unsupported ?w = (Inr found, u1)"
    using f(1) by (cases "read_many (one inst) (rpm inst) inst unsupported ?w") simp
  have "reading_of now found r = reading_held (one inst) now r" if "r \<in> set refs" for r
  proof -
    let ?k = "(pr_object_type r, pr_object_instance r)"
    have l: "look found ?k p = held (one inst) ?k p" if "p \<in> set LIVE_PROPS" for p
      using f(2) [of ?k LIVE_PROPS p] \<open>r \<in> set refs\<close> that by auto
    have "look found ?k ''present-value'' = held (one inst) ?k ''present-value''"
      "look found ?k ''status-flags'' = held (one inst) ?k ''status-flags''"
      by (rule l; simp add: LIVE_PROPS_def)+
    then show ?thesis by (simp only: reading_of_look reading_held_def Let_def)
  qed
  then have m: "map (reading_of now found) refs = map (reading_held (one inst) now) refs"
    by (intro map_cong [OF refl])
  have "fst (read_devices one rpm now [(inst, refs)] unsupported) = Inr (map (reading_of now found) refs)"
    by (simp add: d u1)
  then show ?thesis unfolding driver_read_def by_device_one [OF assms(2,3)] m .
qed

subsection \<open>Every device once\<close>

lemma fold_setdefault_map_of:
  "map_of (fold (\<lambda>(k, v). dict_setdefault k v) kvs d) k = (case map_of d k of Some v \<Rightarrow> Some v | None \<Rightarrow> map_of kvs k)"
  by (induction kvs arbitrary: d) (auto split: option.splits)

lemma fold_setdefault_wf: "dict_wf d \<Longrightarrow> dict_wf (fold (\<lambda>(k, v). dict_setdefault k v) kvs d)"
  by (induction kvs arbitrary: d) auto

lemma unique_devices_dict:
  "map_of (unique_devices answers) k = map_of (concat answers) k" "dict_wf (unique_devices answers)"
  by (simp_all add: unique_devices_def fold_setdefault_map_of fold_setdefault_wf)

lemma device_info_fields:
  "di_instance (fst (device_info_of one rpm inst address vendor u)) = inst"
  "di_address (fst (device_info_of one rpm inst address vendor u)) = address"
  "di_vendor (fst (device_info_of one rpm inst address vendor u)) = Some vendor"
  by (simp_all add: device_info_of_def Let_def split_beta)

lemma device_infos_fields:
  "map (\<lambda>d. (di_instance d, di_address d, the (di_vendor d))) (fst (device_infos one rpm ds u)) = ds"
  by (induction ds arbitrary: u) (auto simp: Let_def split_beta device_info_fields)

text \<open>
  Every device once: whatever answers arrive, from however many targets and in whatever order, the
  devices found are exactly the instances that answered, each once and in increasing order, with the
  address and vendor of its first answer.
\<close>

theorem discovery_once:
  "sorted (map di_instance (fst (driver_discover one rpm answers unsupported))) \<and>
   distinct (map di_instance (fst (driver_discover one rpm answers unsupported))) \<and>
   set (map di_instance (fst (driver_discover one rpm answers unsupported))) = set (map fst (concat answers)) \<and>
   list_all (\<lambda>d. map_of (concat answers) (di_instance d) = Some (di_address d, the (di_vendor d)))
     (fst (driver_discover one rpm answers unsupported))"
proof -
  let ?infos = "fst (device_infos one rpm (unique_devices answers) unsupported)"
  have d: "fst (driver_discover one rpm answers unsupported) = sort_key di_instance ?infos"
    by (simp add: driver_discover_def split_beta)
  have f: "map (\<lambda>d. (di_instance d, di_address d, the (di_vendor d))) ?infos = unique_devices answers"
    by (rule device_infos_fields)
  then have i: "map di_instance ?infos = map fst (unique_devices answers)"
    by (metis (no_types, lifting) comp_apply fst_conv map_eq_conv map_map)
  have "distinct (map di_instance ?infos)" using unique_devices_dict(2) [of answers] i by simp
  moreover have "set (map di_instance ?infos) = set (map fst (concat answers))"
    unfolding i using unique_devices_dict(1) [of answers]
    by (metis (no_types, lifting) dom_map_of_conv_image_fst domIff list.set_map set_eqI)
  moreover have "map_of (concat answers) (di_instance x) = Some (di_address x, the (di_vendor x))"
    if "x \<in> set ?infos" for x
  proof -
    have "(di_instance x, di_address x, the (di_vendor x)) \<in> set (unique_devices answers)"
      using that by (subst f [symmetric]) auto
    then show ?thesis using unique_devices_dict [of answers] by (metis map_of_is_SomeI)
  qed
  ultimately show ?thesis
    by (auto simp: d list_all_iff distinct_map)
qed

text \<open>What a device says of its services decides whether it is read in bulk and subscribed to.\<close>

lemma device_services:
  assumes "one (''device'', inst) ''protocol-services-supported'' = Net_Ok v"
  shows "di_supports_rpm (fst (device_info_of one rpm inst address vendor u)) \<longleftrightarrow>
      ''read-property-multiple'' \<in> set (pieces CHR '';'' (pv_text v))"
    "di_supports_cov (fst (device_info_of one rpm inst address vendor u)) \<longleftrightarrow>
      ''subscribe-cov'' \<in> set (pieces CHR '';'' (pv_text v))"
  using assms by (simp_all add: device_info_of_def Let_def split_beta call_def)

subsection \<open>Examples\<close>

lemma example_consistent: "readable example_one w \<and> rpm_consistent example_one example_rpm w"
  by (auto simp: readable_def example_one_def example_value_def rpm_consistent_def example_rpm_def
      example_reject_converted)

theorem inventory_true_witness:
  "map oi_name (map (\<lambda>key. object_of key (values_held example_one key (discovery_props (fst key))))
     [(''analog-input'', 1)]) = [''20''] \<and>
   fst (describe 2 example_one example_rpm (Inr [(''device'', 100), (''analog-input'', 1)]) 100 []) =
     Inr (map (\<lambda>key. object_of key (values_held example_one key (discovery_props (fst key)))) [(''analog-input'', 1)])"
proof -
  have "distinct [(''device'', 100 :: int), (''analog-input'', 1)]" "0 < (2 :: nat)" by simp_all
  from inventory_true [OF example_consistent this, of 100 "[]"]
  have "fst (describe 2 example_one example_rpm (Inr [(''device'', 100), (''analog-input'', 1)]) 100 []) =
     Inr (map (\<lambda>key. object_of key (values_held example_one key (discovery_props (fst key)))) [(''analog-input'', 1)])"
    by (simp add: IMPORTED_TYPES_def)
  moreover have "map oi_name (map (\<lambda>key. object_of key (values_held example_one key (discovery_props (fst key))))
     [(''analog-input'', 1)]) = [''20'']" by code_simp
  ultimately show ?thesis by blast
qed

theorem readings_true_witness:
  "fst (driver_read (\<lambda>_. example_one) (\<lambda>_. example_rpm) 0 [example_ref] []) =
     Inr [build_reading 3 (Raw_Int 20) (Some [0, 0, 0, 0]) 0]"
proof -
  have "\<forall>r \<in> set [example_ref]. pr_device_instance r = 100" by (simp add: example_ref_def)
  note readings_true [of "\<lambda>_. example_one" 100 "\<lambda>_. example_rpm" "[example_ref]" 0 "[]", OF example_consistent _ this]
  then show ?thesis
    by (simp add: reading_held_def held_def example_one_def example_value_def example_ref_def flags_def Let_def)
qed

end
