(* ===== verification/Synoptic_Expr.thy ===== *)
theory Synoptic_Expr
  imports Py_Values
begin

section \<open>Expressions of display rules\<close>

text \<open>
  \<open>app/api/synoptic_expr.py\<close>: the tokenizer and the recursive-descent recogniser of the \<open>when\<close>
  expressions, and the grammar of the module's header as an inductive definition. The methods of
  the parser that share the shape of a loop over operators are the binary levels. A method that
  raises is \<open>Failed\<close>; the fuel only bounds the recursion, and \<open>check_expression\<close> gives enough.
\<close>

subsection \<open>Tokens\<close>

datatype token = T_Number string | T_String string | T_Word string | T_Op string

datatype expr_error = Unexpected_Character | Unknown_Identifier string | Syntax_Error

definition IDENTIFIERS :: "string list" where "IDENTIFIERS = [''value'', ''status'']"
definition LITERALS :: "string list" where "LITERALS = [''true'', ''false'', ''null'']"

definition WORD_OPERATORS :: "(string, string) dict" where
  "WORD_OPERATORS = [(''and'', ''&&''), (''or'', ''||''), (''not'', ''!'')]"

definition is_word_start :: "char \<Rightarrow> bool" where
  "is_word_start c =
     (let n = of_char c :: nat in (65 \<le> n \<and> n \<le> 90) \<or> (97 \<le> n \<and> n \<le> 122) \<or> n = 95)"

definition is_word_char :: "char \<Rightarrow> bool" where
  "is_word_char c \<longleftrightarrow> is_word_start c \<or> is_digit c"

definition quote :: char where "quote = CHR 0x27"
definition dquote :: char where "dquote = CHR 0x22"

text \<open>A number at the head of the text: digits, and a fraction if a digit follows the point.\<close>

definition scan_number :: "string \<Rightarrow> string \<times> string" where
  "scan_number s =
     (let ip = takeWhile is_digit s; r = dropWhile is_digit s in
      case r of
        c # d # ds \<Rightarrow>
          if c = CHR ''.'' \<and> is_digit d then
            (ip @ c # takeWhile is_digit (d # ds), dropWhile is_digit (d # ds))
          else (ip, r)
      | _ \<Rightarrow> (ip, r))"

text \<open>A text between quotes \<open>q\<close>, on one line.\<close>

definition scan_string :: "char \<Rightarrow> string \<Rightarrow> (string \<times> string) option" where
  "scan_string q s =
     (let body = takeWhile (\<lambda>c. c \<noteq> q \<and> c \<noteq> newline) s; r = dropWhile (\<lambda>c. c \<noteq> q \<and> c \<noteq> newline) s in
      case r of
        c # cs \<Rightarrow> if c = q then Some (q # body @ [q], cs) else None
      | [] \<Rightarrow> None)"

definition OPERATORS :: "string list" where
  "OPERATORS = [''&&'', ''||'', ''=='', ''!='', ''<='', ''>='', ''<'', ''>'', ''!'', ''+'', ''-'',
     ''*'', ''/'', ''%'', ''('', '')'']"

text \<open>The match of \<open>_TOKEN\<close> after the blanks; a word is not yet classified.\<close>

definition scan_token :: "string \<Rightarrow> (token \<times> string) option" where
  "scan_token s =
     (case s of
        [] \<Rightarrow> None
      | c # cs \<Rightarrow>
          if is_digit c then (let (num, r) = scan_number s in Some (T_Number num, r))
          else if c = quote \<or> c = dquote then map_option (\<lambda>(t, r). (T_String t, r)) (scan_string c cs)
          else if is_word_start c then Some (T_Word (takeWhile is_word_char s), dropWhile is_word_char s)
          else map_option (\<lambda>op. (T_Op op, drop (length op) s)) (List.find (\<lambda>op. starts_with op s) OPERATORS))"

definition classify :: "token \<Rightarrow> expr_error + token" where
  "classify t =
     (case t of
        T_Word w \<Rightarrow>
          (case map_of WORD_OPERATORS w of
             Some op \<Rightarrow> Inr (T_Op op)
           | None \<Rightarrow>
               if w \<in> set IDENTIFIERS \<or> w \<in> set LITERALS then Inr (T_Word w)
               else Inl (Unknown_Identifier w))
      | _ \<Rightarrow> Inr t)"

lemma scan_token_shorter: "scan_token s = Some (t, r) \<Longrightarrow> length r < length s"
proof -
  assume a: "scan_token s = Some (t, r)"
  then obtain c cs where s: "s = c # cs" by (cases s) (auto simp: scan_token_def)
  have drop: "length (dropWhile P xs) \<le> length xs" for P :: "char \<Rightarrow> bool" and xs
    by (rule length_dropWhile_le)
  consider (num) "is_digit c" | (str) "\<not> is_digit c" "c = quote \<or> c = dquote"
    | (word) "\<not> is_digit c" "c \<noteq> quote" "c \<noteq> dquote" "is_word_start c"
    | (oper) "\<not> is_digit c" "c \<noteq> quote" "c \<noteq> dquote" "\<not> is_word_start c" by blast
  then show ?thesis
  proof cases
    case num
    have "length (snd (scan_number (c # cs))) \<le> length cs"
      using num drop [of is_digit cs]
      by (auto simp: scan_number_def Let_def split: list.splits)
        (metis (no_types, lifting) drop dual_order.trans le_SucI length_Cons)
    with a s num show ?thesis by (auto simp: scan_token_def split_beta)
  next
    case str
    with a s obtain str where "scan_string c cs = Some (str, r)" by (auto simp: scan_token_def)
    then show ?thesis
      using s drop [of "\<lambda>x. x \<noteq> c \<and> x \<noteq> newline" cs]
      by (auto simp: scan_string_def Let_def split: list.splits if_splits)
  next
    case word
    with a s have "r = dropWhile is_word_char cs"
      by (auto simp: scan_token_def is_word_char_def)
    with s drop [of is_word_char cs] show ?thesis by simp
  next
    case oper
    with a s obtain w where w: "List.find (\<lambda>op. starts_with op s) OPERATORS = Some w" "r = drop (length w) s"
      by (auto simp: scan_token_def)
    then have "w \<in> set OPERATORS" using find_map_of by metis
    then have "w \<noteq> []" by (auto simp: OPERATORS_def)
    with w s show ?thesis by (cases w) simp_all
  qed
qed

lemma blanks_shorter: "length (dropWhile is_space s) \<le> length s"
  by (rule length_dropWhile_le)

function tokens :: "string \<Rightarrow> expr_error + token list" where
  "tokens s =
     (if dropWhile is_space s = [] then Inr []
      else case scan_token (dropWhile is_space s) of
          None \<Rightarrow> Inl Unexpected_Character
        | Some (t, r) \<Rightarrow>
            (case classify t of
               Inl e \<Rightarrow> Inl e
             | Inr t' \<Rightarrow> (case tokens r of Inl e \<Rightarrow> Inl e | Inr ts \<Rightarrow> Inr (t' # ts))))"
  by pat_completeness auto
termination
proof (relation "measure length", goal_cases)
  case (2 s x t r t')
  then have "length r < length (dropWhile is_space s)" using scan_token_shorter by auto
  with blanks_shorter [of s] show ?case by simp
qed simp

declare tokens.simps [simp del]

subsection \<open>The recogniser\<close>

datatype level = L_Or | L_And | L_Not | L_Cmp | L_Add | L_Mul | L_Unary | L_Primary

datatype parsed = Parsed "token list" | Failed | No_Fuel

fun operators :: "level \<Rightarrow> string list" where
  "operators L_Or = [''||'']"
| "operators L_And = [''&&'']"
| "operators L_Cmp = [''=='', ''!='', ''<='', ''>='', ''<'', ''>'']"
| "operators L_Add = [''+'', ''-'']"
| "operators L_Mul = [''*'', ''/'', ''%'']"
| "operators _ = []"

text \<open>The method a binary level calls for its operands.\<close>

fun operand :: "level \<Rightarrow> level" where
  "operand L_Or = L_And"
| "operand L_And = L_Not"
| "operand L_Cmp = L_Add"
| "operand L_Add = L_Mul"
| "operand L_Mul = L_Unary"
| "operand l = l"

definition binary :: "level \<Rightarrow> bool" where
  "binary l \<longleftrightarrow> l \<in> {L_Or, L_And, L_Cmp, L_Add, L_Mul}"

definition take_op :: "string list \<Rightarrow> token list \<Rightarrow> token list option" where
  "take_op ops ts =
     (case ts of
        T_Op op # r \<Rightarrow> if op \<in> set ops then Some r else None
      | _ \<Rightarrow> None)"

fun parse_at :: "nat \<Rightarrow> level \<Rightarrow> token list \<Rightarrow> parsed"
and parse_loop :: "nat \<Rightarrow> level \<Rightarrow> token list \<Rightarrow> parsed" where
  "parse_at 0 l ts = No_Fuel"
| "parse_at (Suc n) l ts =
     (case l of
        L_Not \<Rightarrow> (case take_op [''!''] ts of Some r \<Rightarrow> parse_at n L_Not r | None \<Rightarrow> parse_at n L_Cmp ts)
      | L_Unary \<Rightarrow> (case take_op [''-''] ts of Some r \<Rightarrow> parse_at n L_Unary r | None \<Rightarrow> parse_at n L_Primary ts)
      | L_Primary \<Rightarrow>
          (case ts of
             [] \<Rightarrow> Failed
           | T_Op op # r \<Rightarrow>
               if op = ''('' then
                 (case parse_at n L_Or r of
                    Parsed r' \<Rightarrow> (case take_op ['')''] r' of Some r'' \<Rightarrow> Parsed r'' | None \<Rightarrow> Failed)
                  | e \<Rightarrow> e)
               else Failed
           | _ # r \<Rightarrow> Parsed r)
      | _ \<Rightarrow> (case parse_at n (operand l) ts of Parsed r \<Rightarrow> parse_loop n l r | e \<Rightarrow> e))"
| "parse_loop 0 l ts = No_Fuel"
| "parse_loop (Suc n) l ts =
     (case take_op (operators l) ts of
        None \<Rightarrow> Parsed ts
      | Some r \<Rightarrow> (case parse_at n (operand l) r of Parsed r' \<Rightarrow> parse_loop n l r' | e \<Rightarrow> e))"

definition enough :: "token list \<Rightarrow> nat" where
  "enough ts = 9 * length ts + 9"

definition check_expression :: "string \<Rightarrow> expr_error + unit" where
  "check_expression s =
     (case tokens s of
        Inl e \<Rightarrow> Inl e
      | Inr ts \<Rightarrow>
          if ts = [] then Inl Syntax_Error
          else (case parse_at (enough ts) L_Or ts of
                  Parsed [] \<Rightarrow> Inr ()
                | _ \<Rightarrow> Inl Syntax_Error))"

subsection \<open>The grammar\<close>

text \<open>The grammar of the header; \<open>rep l w\<close>: operators of a level, each followed by an operand.\<close>

inductive derives :: "level \<Rightarrow> token list \<Rightarrow> bool"
and rep :: "level \<Rightarrow> token list \<Rightarrow> bool" where
  d_binary: "binary l \<Longrightarrow> derives (operand l) u \<Longrightarrow> rep l t \<Longrightarrow> derives l (u @ t)"
| d_not: "derives L_Not w \<Longrightarrow> derives L_Not (T_Op ''!'' # w)"
| d_cmp: "derives L_Cmp w \<Longrightarrow> derives L_Not w"
| d_minus: "derives L_Unary w \<Longrightarrow> derives L_Unary (T_Op ''-'' # w)"
| d_primary: "derives L_Primary w \<Longrightarrow> derives L_Unary w"
| d_number: "derives L_Primary [T_Number n]"
| d_string: "derives L_Primary [T_String x]"
| d_word: "derives L_Primary [T_Word x]"
| d_paren: "derives L_Or w \<Longrightarrow> derives L_Primary (T_Op ''('' # w @ [T_Op '')''])"
| r_nil: "rep l []"
| r_cons: "binary l \<Longrightarrow> op \<in> set (operators l) \<Longrightarrow> derives (operand l) v \<Longrightarrow> rep l t \<Longrightarrow>
    rep l (T_Op op # v @ t)"

subsection \<open>Enough fuel\<close>

fun rank :: "level \<Rightarrow> nat" where
  "rank L_Or = 8" | "rank L_And = 7" | "rank L_Not = 6" | "rank L_Cmp = 5" | "rank L_Add = 4" | "rank L_Mul = 3"
| "rank L_Unary = 2" | "rank L_Primary = 1"

lemma take_op_Some: "take_op ops ts = Some r \<longleftrightarrow> (\<exists>op. ts = T_Op op # r \<and> op \<in> set ops)"
  by (auto simp: take_op_def split: list.splits token.splits)

lemma parse_binary:
  "binary l \<Longrightarrow>
    parse_at (Suc n) l ts = (case parse_at n (operand l) ts of Parsed r \<Rightarrow> parse_loop n l r | e \<Rightarrow> e)"
  by (cases l) (auto simp: binary_def)

lemma parse_not:
  "parse_at (Suc n) L_Not ts =
     (case take_op [''!''] ts of Some r \<Rightarrow> parse_at n L_Not r | None \<Rightarrow> parse_at n L_Cmp ts)"
  by simp

lemma parse_unary:
  "parse_at (Suc n) L_Unary ts =
     (case take_op [''-''] ts of Some r \<Rightarrow> parse_at n L_Unary r | None \<Rightarrow> parse_at n L_Primary ts)"
  by simp

lemma parse_primary:
  "parse_at (Suc n) L_Primary ts =
     (case ts of
        [] \<Rightarrow> Failed
      | T_Op oper # r \<Rightarrow>
          if oper = ''('' then
            (case parse_at n L_Or r of
               Parsed r' \<Rightarrow> (case take_op ['')''] r' of Some r'' \<Rightarrow> Parsed r'' | None \<Rightarrow> Failed)
             | e \<Rightarrow> e)
          else Failed
      | _ # r \<Rightarrow> Parsed r)"
  by simp

lemma parse_loop_step:
  "parse_loop (Suc n) l ts =
     (case take_op (operators l) ts of
        None \<Rightarrow> Parsed ts
      | Some r \<Rightarrow> (case parse_at n (operand l) r of Parsed r' \<Rightarrow> parse_loop n l r' | e \<Rightarrow> e))"
  by simp

declare parse_at.simps(2) [simp del] parse_loop.simps(2) [simp del]

lemmas parse_step = parse_not parse_unary parse_primary parse_loop_step

lemma level_cases [case_names binary not unary primary]:
  "(binary l \<Longrightarrow> P) \<Longrightarrow> (l = L_Not \<Longrightarrow> P) \<Longrightarrow> (l = L_Unary \<Longrightarrow> P) \<Longrightarrow> (l = L_Primary \<Longrightarrow> P) \<Longrightarrow> P"
  by (cases l) (auto simp: binary_def)

lemma binary_rank: "binary l \<Longrightarrow> rank (operand l) < rank l"
  by (cases l) (auto simp: binary_def)

lemma parse_binary_Parsed:
  assumes "binary l" "parse_at (Suc n) l ts = Parsed r"
  obtains q where "parse_at n (operand l) ts = Parsed q" "parse_loop n l q = Parsed r"
  using assms(2) unfolding parse_binary [OF assms(1)] by (auto split: parsed.splits)

lemma parse_not_Parsed:
  assumes "parse_at (Suc n) L_Not ts = Parsed r"
  obtains q where "ts = T_Op ''!'' # q" "parse_at n L_Not q = Parsed r"
  | "parse_at n L_Cmp ts = Parsed r"
  using assms by (auto simp: parse_step take_op_Some split: option.splits)

lemma parse_unary_Parsed:
  assumes "parse_at (Suc n) L_Unary ts = Parsed r"
  obtains q where "ts = T_Op ''-'' # q" "parse_at n L_Unary q = Parsed r"
  | "parse_at n L_Primary ts = Parsed r"
  using assms by (auto simp: parse_step take_op_Some split: option.splits)

lemma parse_primary_Parsed:
  assumes "parse_at (Suc n) L_Primary ts = Parsed r"
  obtains t where "ts = t # r" "derives L_Primary [t]"
  | q where "ts = T_Op ''('' # q" "parse_at n L_Or q = Parsed (T_Op '')'' # r)"
  using assms
  by (auto simp: parse_step take_op_Some split: list.splits token.splits if_splits parsed.splits option.splits
      intro: derives_rep.intros)

lemma parse_loop_Parsed:
  assumes "parse_loop (Suc n) l ts = Parsed r"
  obtains "ts = r" "take_op (operators l) ts = None"
  | oper q q' where "ts = T_Op oper # q" "oper \<in> set (operators l)"
      "parse_at n (operand l) q = Parsed q'" "parse_loop n l q' = Parsed r"
  using assms by (auto simp: parse_step take_op_Some split: option.splits parsed.splits)

subsection \<open>What is accepted is in the grammar\<close>

lemma parse_sound:
  "parse_at n l ts = Parsed r \<Longrightarrow> \<exists>w. ts = w @ r \<and> derives l w"
  "parse_loop n l ts = Parsed r \<Longrightarrow> binary l \<Longrightarrow> \<exists>w. ts = w @ r \<and> rep l w"
proof (induction n arbitrary: l ts r and l ts r)
  case (Suc n)
  {
    case 1
    show ?case
    proof (cases l rule: level_cases)
      case binary
      from parse_binary_Parsed [OF this 1] obtain q where
        "parse_at n (operand l) ts = Parsed q" "parse_loop n l q = Parsed r" .
      with Suc.IH binary obtain u t where "ts = u @ q" "derives (operand l) u" "q = t @ r" "rep l t"
        by metis
      with d_binary [OF binary] show ?thesis by (intro exI [of _ "u @ t"]) simp
    next
      case not
      from parse_not_Parsed [OF 1 [unfolded not]] show ?thesis
        using Suc.IH(1) not d_not d_cmp by (metis append_Cons)
    next
      case unary
      from parse_unary_Parsed [OF 1 [unfolded unary]] show ?thesis
        using Suc.IH(1) unary d_minus d_primary by (metis append_Cons)
    next
      case primary
      from parse_primary_Parsed [OF 1 [unfolded primary]] show ?thesis
      proof cases
        case (1 t)
        then show ?thesis using primary by (intro exI [of _ "[t]"]) simp
      next
        case (2 q)
        from Suc.IH(1) [OF 2(2)] obtain w where "q = w @ T_Op '')'' # r" "derives L_Or w" by auto
        with 2(1) primary show ?thesis
          by (intro exI [of _ "T_Op ''('' # w @ [T_Op '')'']"]) (simp add: d_paren)
      qed
    qed
  next
    case 2
    from parse_loop_Parsed [OF 2(1)] show ?case
    proof cases
      case 1
      then show ?thesis by (intro exI [of _ "[]"]) (simp add: r_nil)
    next
      case (2 oper q q')
      from Suc.IH(1) [OF 2(3)] obtain v where "q = v @ q'" "derives (operand l) v" by auto
      moreover from Suc.IH(2) [OF 2(4) \<open>binary l\<close>] obtain t where "q' = t @ r" "rep l t" by auto
      ultimately show ?thesis
        using 2(1,2) r_cons [OF \<open>binary l\<close>] by (intro exI [of _ "T_Op oper # v @ t"]) simp
    qed
  }
qed simp_all

lemma derives_nonempty: "derives l w \<Longrightarrow> w \<noteq> []" and "rep l w \<Longrightarrow> True"
  by (induction rule: derives_rep.inducts) simp_all

lemma parse_consumes: "parse_at n l ts = Parsed r \<Longrightarrow> length r < length ts"
  using parse_sound(1) derives_nonempty by fastforce

subsection \<open>Enough fuel\<close>

lemma parse_fuel:
  "9 * length ts + rank l \<le> n \<Longrightarrow> parse_at n l ts \<noteq> No_Fuel"
  "9 * length ts + 9 \<le> n \<Longrightarrow> binary l \<Longrightarrow> parse_loop n l ts \<noteq> No_Fuel"
proof (induction n arbitrary: l ts and l ts)
  case 0
  {
    case 1
    then show ?case by (cases l) simp_all
  }
next
  case (Suc n)
  {
    case 1
    show ?case
    proof (cases l rule: level_cases)
      case binary
      have fuel: "9 * length ts + rank (operand l) \<le> n" using 1 binary_rank [OF binary] by simp
      have "parse_at n (operand l) ts \<noteq> No_Fuel" by (rule Suc.IH(1) [OF fuel])
      moreover have "parse_loop n l q \<noteq> No_Fuel" if "parse_at n (operand l) ts = Parsed q" for q
        using parse_consumes [OF that] fuel binary by (intro Suc.IH(2)) simp_all
      ultimately show ?thesis using binary by (auto simp: parse_binary split: parsed.splits)
    next
      case not
      then show ?thesis using 1 Suc.IH(1) by (auto simp: parse_step take_op_Some split: option.splits)
    next
      case unary
      then show ?thesis using 1 Suc.IH(1) by (auto simp: parse_step take_op_Some split: option.splits)
    next
      case primary
      have "parse_at n L_Or r \<noteq> No_Fuel" if "ts = t # r" for t r
        using 1 that by (intro Suc.IH(1)) simp
      then show ?thesis using primary
        by (auto simp: parse_step split: list.splits token.splits parsed.splits option.splits)
    qed
  next
    case 2
    show ?case
    proof (cases "take_op (operators l) ts")
      case (Some r)
      then have r: "length ts = Suc (length r)" by (auto simp: take_op_Some)
      have "rank (operand l) \<le> 9" by (cases "operand l") simp_all
      then have "parse_at n (operand l) r \<noteq> No_Fuel"
        using 2(1) r by (intro Suc.IH(1)) simp
      moreover have "parse_loop n l q \<noteq> No_Fuel" if "parse_at n (operand l) r = Parsed q" for q
        using parse_consumes [OF that] 2 r by (intro Suc.IH(2)) simp_all
      ultimately show ?thesis using Some by (auto simp: parse_step split: parsed.splits)
    qed (simp add: parse_step)
  }
qed simp_all

lemma parse_more:
  "parse_at n l ts \<noteq> No_Fuel \<Longrightarrow> parse_at (Suc n) l ts = parse_at n l ts"
  "parse_loop n l ts \<noteq> No_Fuel \<Longrightarrow> parse_loop (Suc n) l ts = parse_loop n l ts"
proof (induction n arbitrary: l ts and l ts)
  case (Suc n)
  {
    case 1
    show ?case
    proof (cases l rule: level_cases)
      case binary
      have "parse_at n (operand l) ts \<noteq> No_Fuel"
        using 1 binary by (auto simp: parse_binary)
      then have "parse_at (Suc n) (operand l) ts = parse_at n (operand l) ts" by (rule Suc.IH(1))
      moreover have "parse_loop (Suc n) l q = parse_loop n l q"
        if "parse_at n (operand l) ts = Parsed q" for q
        using 1 binary that by (intro Suc.IH(2)) (simp add: parse_binary)
      ultimately show ?thesis
        unfolding parse_binary [OF binary] by (auto split: parsed.split)
    next
      case not
      show ?thesis
        using 1 Suc.IH(1) unfolding not parse_not [of "Suc n" ts] parse_not [of n ts]
        by (auto split: option.splits)
    next
      case unary
      show ?thesis
        using 1 Suc.IH(1) unfolding unary parse_unary [of "Suc n" ts] parse_unary [of n ts]
        by (auto split: option.splits)
    next
      case primary
      have "parse_at (Suc n) L_Or r = parse_at n L_Or r" if "ts = T_Op ''('' # r" for r
        using 1 primary that by (intro Suc.IH(1)) (auto simp: parse_primary)
      then show ?thesis using primary
        by (auto simp: parse_primary split: list.split token.split)
    qed
  next
    case 2
    show ?case
    proof (cases "take_op (operators l) ts")
      case (Some r)
      then have "parse_at n (operand l) r \<noteq> No_Fuel" using 2 by (auto simp: parse_loop_step)
      then have "parse_at (Suc n) (operand l) r = parse_at n (operand l) r" by (rule Suc.IH(1))
      moreover have "parse_loop (Suc n) l q = parse_loop n l q"
        if "parse_at n (operand l) r = Parsed q" for q
        using 2 Some that by (intro Suc.IH(2)) (simp add: parse_loop_step)
      ultimately show ?thesis using Some by (auto simp: parse_loop_step split: parsed.split)
    qed (simp add: parse_loop_step)
  }
qed simp_all

lemma parse_at_le:
  assumes "parse_at n l ts \<noteq> No_Fuel" "n \<le> m"
  shows "parse_at m l ts = parse_at n l ts"
  using assms(2) assms(1) by (induction m rule: dec_induct) (auto simp: parse_more(1))

lemma parse_loop_le:
  assumes "parse_loop n l ts \<noteq> No_Fuel" "n \<le> m"
  shows "parse_loop m l ts = parse_loop n l ts"
  using assms(2) assms(1) by (induction m rule: dec_induct) (auto simp: parse_more(2))

subsection \<open>What is in the grammar is accepted\<close>

text \<open>The operators that would continue a phrase of a level.\<close>

fun continuing :: "level \<Rightarrow> string list" where
  "continuing L_Or = operators L_Or @ operators L_And @ operators L_Cmp @ operators L_Add @ operators L_Mul"
| "continuing L_And = operators L_And @ operators L_Cmp @ operators L_Add @ operators L_Mul"
| "continuing L_Not = operators L_Cmp @ operators L_Add @ operators L_Mul"
| "continuing L_Cmp = operators L_Cmp @ operators L_Add @ operators L_Mul"
| "continuing L_Add = operators L_Add @ operators L_Mul"
| "continuing L_Mul = operators L_Mul"
| "continuing l = []"

definition ends :: "level \<Rightarrow> token list \<Rightarrow> bool" where
  "ends l r \<longleftrightarrow> take_op (continuing l) r = None"

lemma ends_operand: "binary l \<Longrightarrow> ends l r \<Longrightarrow> ends (operand l) r \<and> take_op (operators l) r = None"
  by (cases l) (auto simp: binary_def ends_def take_op_def split: list.splits token.splits if_splits)

lemma ends_operator: "binary l \<Longrightarrow> w \<in> set (operators l) \<Longrightarrow> ends (operand l) (T_Op w # r)"
  by (cases l) (auto simp: binary_def ends_def take_op_def)

lemma ends_rep: "rep l t \<Longrightarrow> ends l r \<Longrightarrow> binary l \<Longrightarrow> ends (operand l) (t @ r)"
  by (erule rep.cases) (simp_all add: ends_operand ends_operator)

lemma derives_head:
  "derives l w \<Longrightarrow> (rank l \<le> 5 \<longrightarrow> hd w \<noteq> T_Op ''!'') \<and> (l = L_Primary \<longrightarrow> hd w \<noteq> T_Op ''-'')"
  "rep l t \<Longrightarrow> True"
proof (induction rule: derives_rep.inducts)
  case (d_binary l u t)
  moreover have "rank (operand l) < rank l" by (rule binary_rank [OF d_binary(1)])
  ultimately show ?case using derives_nonempty [OF d_binary(2)] by (auto simp: binary_def)
qed auto

lemma parse_complete:
  "derives l w \<Longrightarrow> \<forall>r. ends l r \<longrightarrow> (\<exists>n. parse_at n l (w @ r) = Parsed r)"
  "rep l t \<Longrightarrow> \<forall>r. binary l \<longrightarrow> ends l r \<longrightarrow> (\<exists>n. parse_loop n l (t @ r) = Parsed r)"
proof (induction rule: derives_rep.inducts)
  case (d_binary l u t)
  show ?case
  proof (intro allI impI)
    fix r assume r: "ends l r"
    from d_binary.IH(1) ends_rep [OF d_binary(3) r d_binary(1)]
    obtain n where n: "parse_at n (operand l) (u @ t @ r) = Parsed (t @ r)" by auto
    from d_binary.IH(2) r d_binary(1) obtain m where m: "parse_loop m l (t @ r) = Parsed r" by auto
    have "parse_at (Suc (max n m)) l ((u @ t) @ r) = Parsed r"
      using parse_at_le [of n _ _ "max n m"] parse_loop_le [of m _ _ "max n m"] n m
      by (simp add: parse_binary [OF d_binary(1)])
    then show "\<exists>n. parse_at n l ((u @ t) @ r) = Parsed r" ..
  qed
next
  case (d_not w)
  show ?case
  proof (intro allI impI)
    fix r assume "ends L_Not r"
    with d_not.IH obtain n where "parse_at n L_Not (w @ r) = Parsed r" by auto
    then have "parse_at (Suc n) L_Not ((T_Op ''!'' # w) @ r) = Parsed r"
      by (simp add: parse_not take_op_def)
    then show "\<exists>n. parse_at n L_Not ((T_Op ''!'' # w) @ r) = Parsed r" ..
  qed
next
  case (d_cmp w)
  show ?case
  proof (intro allI impI)
    fix r assume "ends L_Not r"
    with d_cmp.IH obtain n where n: "parse_at n L_Cmp (w @ r) = Parsed r" by (auto simp: ends_def)
    have "hd w \<noteq> T_Op ''!''" "w \<noteq> []"
      using derives_head(1) [OF d_cmp(1)] derives_nonempty [OF d_cmp(1)] by auto
    then have "take_op [''!''] (w @ r) = None"
      by (cases w) (auto simp: take_op_def split: token.splits)
    with n have "parse_at (Suc n) L_Not (w @ r) = Parsed r" by (simp add: parse_not)
    then show "\<exists>n. parse_at n L_Not (w @ r) = Parsed r" ..
  qed
next
  case (d_minus w)
  show ?case
  proof (intro allI impI)
    fix r assume "ends L_Unary r"
    with d_minus.IH obtain n where "parse_at n L_Unary (w @ r) = Parsed r" by auto
    then have "parse_at (Suc n) L_Unary ((T_Op ''-'' # w) @ r) = Parsed r"
      by (simp add: parse_unary take_op_def)
    then show "\<exists>n. parse_at n L_Unary ((T_Op ''-'' # w) @ r) = Parsed r" ..
  qed
next
  case (d_primary w)
  show ?case
  proof (intro allI impI)
    fix r assume "ends L_Unary r"
    with d_primary.IH obtain n where n: "parse_at n L_Primary (w @ r) = Parsed r" by (auto simp: ends_def)
    have "hd w \<noteq> T_Op ''-''" "w \<noteq> []"
      using derives_head(1) [OF d_primary(1)] derives_nonempty [OF d_primary(1)] by auto
    then have "take_op [''-''] (w @ r) = None"
      by (cases w) (auto simp: take_op_def split: token.splits)
    with n have "parse_at (Suc n) L_Unary (w @ r) = Parsed r" by (simp add: parse_unary)
    then show "\<exists>n. parse_at n L_Unary (w @ r) = Parsed r" ..
  qed
next
  case (d_paren w)
  show ?case
  proof (intro allI impI)
    fix r
    have "ends L_Or (T_Op '')'' # r)" by (simp add: ends_def take_op_def)
    with d_paren.IH obtain n where "parse_at n L_Or (w @ T_Op '')'' # r) = Parsed (T_Op '')'' # r)"
      by auto
    then have "parse_at (Suc n) L_Primary ((T_Op ''('' # w @ [T_Op '')'']) @ r) = Parsed r"
      by (simp add: parse_primary take_op_def)
    then show "\<exists>n. parse_at n L_Primary ((T_Op ''('' # w @ [T_Op '')'']) @ r) = Parsed r" ..
  qed
next
  case (r_nil l)
  show ?case
  proof (intro allI impI)
    fix r assume "binary l" "ends l r"
    then have "parse_loop (Suc 0) l ([] @ r) = Parsed r"
      using ends_operand by (simp add: parse_loop_step)
    then show "\<exists>n. parse_loop n l ([] @ r) = Parsed r" ..
  qed
next
  case (r_cons l w v t)
  show ?case
  proof (intro allI impI)
    fix r assume r: "ends l r"
    from r_cons.IH(1) ends_rep [OF r_cons(4) r r_cons(1)]
    obtain n where n: "parse_at n (operand l) (v @ t @ r) = Parsed (t @ r)" by auto
    from r_cons.IH(2) r r_cons(1) obtain m where m: "parse_loop m l (t @ r) = Parsed r" by auto
    have "parse_loop (Suc (max n m)) l ((T_Op w # v @ t) @ r) = Parsed r"
      using parse_at_le [of n _ _ "max n m"] parse_loop_le [of m _ _ "max n m"] n m r_cons(2)
      by (simp add: parse_loop_step take_op_def)
    then show "\<exists>n. parse_loop n l ((T_Op w # v @ t) @ r) = Parsed r" ..
  qed
qed (auto simp: parse_primary intro!: exI [of _ "Suc 0"])

lemma recogniser: "parse_at (enough ts) L_Or ts = Parsed [] \<longleftrightarrow> derives L_Or ts"
proof
  assume "parse_at (enough ts) L_Or ts = Parsed []"
  from parse_sound(1) [OF this] show "derives L_Or ts" by simp
next
  assume "derives L_Or ts"
  moreover have "ends L_Or []" by (simp add: ends_def take_op_def)
  ultimately obtain n where n: "parse_at n L_Or ts = Parsed []"
    using parse_complete(1) [of L_Or ts] by (metis append_Nil2)
  have "parse_at (enough ts) L_Or ts \<noteq> No_Fuel"
    by (rule parse_fuel(1)) (simp add: enough_def)
  then have "parse_at (max n (enough ts)) L_Or ts = parse_at (enough ts) L_Or ts"
    by (rule parse_at_le) simp
  moreover have "parse_at (max n (enough ts)) L_Or ts = parse_at n L_Or ts"
    using n by (intro parse_at_le) simp_all
  ultimately show "parse_at (enough ts) L_Or ts = Parsed []" using n by (simp only:)
qed

lemma grammar_iff:
  "check_expression s = Inr () \<longleftrightarrow> (\<exists>ts. tokens s = Inr ts \<and> derives L_Or ts)"
proof (cases "tokens s")
  case (Inr ts)
  have "check_expression s = Inr () \<longleftrightarrow> ts \<noteq> [] \<and> parse_at (enough ts) L_Or ts = Parsed []"
    unfolding check_expression_def Inr by (auto split: parsed.split list.split)
  with recogniser [of ts] derives_nonempty [of L_Or ts] Inr show ?thesis by auto
qed (simp add: check_expression_def)


end
