(* ===== verification/Collector_Discovery.thy ===== *)
theory Collector_Discovery
  imports Collector_Store "HOL-Library.Multiset"
begin

section \<open>A discovery is complete\<close>

text \<open>
  \<open>discover\<close> of \<open>app/collector/main.py\<close> around \<open>run_discovery\<close>: the points found are handed to the
  recorder with the value read during the inventory. What the driver inventoried ends in the database, in the
  registry and among the readings.
\<close>

definition inventory_ok :: "collector_world \<Rightarrow> bool" where
  "inventory_ok cw \<longleftrightarrow>
     points_ok (db_points (cw_db cw), cw_next cw) \<and> dict_wf (db_devices (cw_db cw)) \<and>
     (\<forall>did d. map_of (db_devices (cw_db cw)) did = Some d \<longrightarrow> did < cw_next cw) \<and>
     (\<forall>i j d e. map_of (db_devices (cw_db cw)) i = Some d \<longrightarrow> map_of (db_devices (cw_db cw)) j = Some e \<longrightarrow>
        dv_network_id d = dv_network_id e \<longrightarrow> dv_instance d = dv_instance e \<longrightarrow> i = j)"

lemma inventory_okD:
  assumes "inventory_ok cw"
  shows "points_ok (db_points (cw_db cw), cw_next cw)" "dict_wf (db_devices (cw_db cw))"
    "map_of (db_devices (cw_db cw)) did = Some d \<Longrightarrow> did < cw_next cw"
    "map_of (db_devices (cw_db cw)) i = Some d \<Longrightarrow> map_of (db_devices (cw_db cw)) j = Some e \<Longrightarrow>
       dv_network_id d = dv_network_id e \<Longrightarrow> dv_instance d = dv_instance e \<Longrightarrow> i = j"
  using assms unfolding inventory_ok_def by blast+

text \<open>A point of a device in the table, found by the last inventory.\<close>

definition present :: "uuid \<Rightarrow> object_info \<Rightarrow> uuid \<Rightarrow> (uuid, point_row) dict \<Rightarrow> bool" where
  "present did ob pid ps \<longleftrightarrow>
     (\<exists>p. map_of ps pid = Some p \<and> point_key p = (did, oi_object_type ob, oi_object_instance ob) \<and> \<not> pt_missing p)"

subsection \<open>The points of one device\<close>

lemma upsert_point_present:
  assumes "points_ok pn" "\<not> pt_missing row"
  shows "\<exists>pid p. map_of (fst (upsert_point row pn)) pid = Some p \<and> point_key p = point_key row \<and> \<not> pt_missing p"
  using assms(1)
proof (cases rule: upsert_point_cases [where row = row])
  case (existing pid old)
  with assms(2) show ?thesis by (intro exI [of _ pid]) simp
next
  case fresh
  with assms(2) show ?thesis by (intro exI [of _ "snd pn"]) simp
qed

lemma kept_present:
  "kept_as t p p' \<Longrightarrow> \<not> pt_missing p \<Longrightarrow> point_key p' = point_key p \<and> \<not> pt_missing p'"
  by (auto simp: kept_as_def settings_of_def split: if_splits)

lemma upsert_rows_ok: "points_ok pn \<Longrightarrow> points_ok (fold upsert_point rows pn)"
  by (induction rows arbitrary: pn) (simp_all add: upsert_point_ok)

lemma upsert_rows_present:
  assumes "points_ok pn" "\<forall>row \<in> set rows. \<not> pt_missing row" "row \<in> set rows"
  shows "\<exists>pid p. map_of (fst (fold upsert_point rows pn)) pid = Some p \<and> point_key p = point_key row \<and> \<not> pt_missing p"
  using assms
proof (induction rows arbitrary: pn)
  case (Cons x rows)
  have ok: "points_ok (upsert_point x pn)" using Cons.prems(1) by (rule upsert_point_ok)
  show ?case
  proof (cases "row = x")
    case True
    obtain pid p where p: "map_of (fst (upsert_point x pn)) pid = Some p" "point_key p = point_key x" "\<not> pt_missing p"
      using upsert_point_present [OF Cons.prems(1), of x] Cons.prems(2) by auto
    have "\<forall>row \<in> set rows. \<not> pt_missing row" using Cons.prems(2) by simp
    from upsert_rows_keep [OF ok p(1) this] obtain p' where
      "map_of (fst (fold upsert_point rows (upsert_point x pn))) pid = Some p'"
      "kept_as (\<lambda>q. point_key q \<in> set (map point_key rows)) p p'" by blast
    with kept_present [OF this(2) p(3)] p(2) True show ?thesis by auto
  next
    case False
    with Cons.IH [OF ok] Cons.prems show ?thesis by auto
  qed
qed simp

lemma upsert_points_result:
  assumes "upsert_points did objects cov prefix cw = Some cw'"
  shows "cw_db cw' = (cw_db cw)\<lparr>db_points := mark_missing did
      (map (\<lambda>ob. (oi_object_type ob, oi_object_instance ob)) objects)
      (fst (fold upsert_point (map (point_of_object did cov prefix) objects) (db_points (cw_db cw), cw_next cw)))\<rparr>"
    "cw_next cw' = snd (fold upsert_point (map (point_of_object did cov prefix) objects) (db_points (cw_db cw), cw_next cw))"
  using assms by (auto simp: upsert_points_def Let_def split_beta fold_chunks POINT_CHUNK_def split: if_splits)

lemma upsert_point_next: "snd pn \<le> snd (upsert_point row pn)"
  by (auto simp: upsert_point_def split: option.split)

lemma upsert_rows_next: "snd pn \<le> snd (fold upsert_point rows pn)"
proof (induction rows arbitrary: pn)
  case (Cons row rows)
  from upsert_point_next [of pn row] Cons.IH [of "upsert_point row pn"] show ?case by simp
qed simp

lemma mark_missing_ok: "points_ok (ps, n) \<Longrightarrow> points_ok (mark_missing did seen ps, n)"
proof -
  assume ok: "points_ok (ps, n)"
  have keys: "map fst (mark_missing did seen ps) = map fst ps" by (simp add: mark_missing_def split_beta comp_def)
  have get: "\<exists>q. map_of ps pid = Some q \<and> point_key p = point_key q"
    if "map_of (mark_missing did seen ps) pid = Some p" for pid p
    using that unfolding mark_missing_get by (auto simp: point_key_def)
  have less: "pid < n" if "map_of (mark_missing did seen ps) pid = Some p" for pid p
    using get [OF that] points_okD(2) [OF ok] by blast
  have inj: "i = j" if "map_of (mark_missing did seen ps) i = Some p" "map_of (mark_missing did seen ps) j = Some q"
    "point_key p = point_key q" for i j p q
    using get [OF that(1)] get [OF that(2)] that(3) points_okD(3) [OF ok, of i _ j] by metis
  show ?thesis
    unfolding points_ok_def fst_conv snd_conv keys
    using points_okD(1) [OF ok] less inj by blast
qed

lemma upsert_points_ok:
  assumes "inventory_ok cw" "upsert_points did objects cov prefix cw = Some cw'"
  shows "inventory_ok cw'"
proof -
  note r = upsert_points_result [OF assms(2)]
  note ok = inventory_okD [OF assms(1)]
  let ?f = "fold upsert_point (map (point_of_object did cov prefix) objects) (db_points (cw_db cw), cw_next cw)"
  have "points_ok ?f" using ok(1) by (rule upsert_rows_ok)
  then have "points_ok (fst ?f, snd ?f)" by simp
  then have p: "points_ok (db_points (cw_db cw'), cw_next cw')" unfolding r by (simp add: mark_missing_ok)
  have n: "cw_next cw \<le> cw_next cw'"
    unfolding r using upsert_rows_next [of "(db_points (cw_db cw), cw_next cw)"] by simp
  have d: "db_devices (cw_db cw') = db_devices (cw_db cw)" by (simp add: r)
  have "did < cw_next cw'" if "map_of (db_devices (cw_db cw')) did = Some dv" for did dv
    using ok(3) [of did dv] that n unfolding d by simp
  then show ?thesis using p ok(2,4) unfolding inventory_ok_def d by blast
qed

lemma upsert_points_present:
  assumes "inventory_ok cw" "upsert_points did objects cov prefix cw = Some cw'" "ob \<in> set objects"
  shows "\<exists>pid. present did ob pid (db_points (cw_db cw'))"
proof -
  let ?rows = "map (point_of_object did cov prefix) objects"
  have "\<forall>row \<in> set ?rows. \<not> pt_missing row" by (simp add: point_of_object_def)
  moreover have "point_of_object did cov prefix ob \<in> set ?rows" using assms(3) by simp
  ultimately obtain pid p where p: "map_of (fst (fold upsert_point ?rows (db_points (cw_db cw), cw_next cw))) pid = Some p"
    "point_key p = point_key (point_of_object did cov prefix ob)" "\<not> pt_missing p"
    using upsert_rows_present [OF inventory_okD(1) [OF assms(1)]] by blast
  have "map_of (db_points (cw_db cw')) pid = Some p"
    unfolding upsert_points_result(1) [OF assms(2)]
    using p(1,2) assms(3) by (auto simp: mark_missing_get point_key_def point_of_object_def)
  with p(2,3) show ?thesis by (auto simp: present_def point_key_def point_of_object_def)
qed

subsection \<open>The devices\<close>

definition dev_at :: "uuid \<Rightarrow> int \<Rightarrow> uuid \<Rightarrow> collector_world \<Rightarrow> bool" where
  "dev_at nid i did cw \<longleftrightarrow>
     (\<exists>d. map_of (db_devices (cw_db cw)) did = Some d \<and> dv_network_id d = nid \<and> dv_instance d = i)"

lemma upsert_device_found:
  assumes ok: "inventory_ok cw" and u: "upsert_device nid info now cw = Some (did, cw')"
  shows "inventory_ok cw' \<and> db_points (cw_db cw') = db_points (cw_db cw) \<and> dev_at nid (di_instance info) did cw' \<and>
    (\<forall>n i k. dev_at n i k cw \<longrightarrow> dev_at n i k cw')"
proof -
  note inv = inventory_okD [OF ok]
  let ?devs = "db_devices (cw_db cw)"
  define row where "row = \<lparr>dv_network_id = nid, dv_instance = di_instance info, dv_name = device_label info,
      dv_address = di_address info, dv_online = True, dv_last_seen = Some now, dv_vendor = di_vendor info,
      dv_model = di_model info\<rparr>"
  have row: "dv_network_id row = nid" "dv_instance row = di_instance info" by (simp_all add: row_def)
  have pts: "points_ok (db_points (cw_db cw), Suc (cw_next cw))"
    using inv(1) unfolding points_ok_def fst_conv snd_conv by (metis less_SucI)
  have upd: "inventory_ok (cw\<lparr>cw_db := (cw_db cw)\<lparr>db_devices := AList.update k row ?devs\<rparr>, cw_next := n\<rparr>)"
    if k: "k < n" "cw_next cw \<le> n" "points_ok (db_points (cw_db cw), n)"
      "\<And>j e. map_of ?devs j = Some e \<Longrightarrow> dv_network_id e = nid \<Longrightarrow> dv_instance e = di_instance info \<Longrightarrow> j = k" for k n
  proof -
    have less: "did < n" if "map_of (AList.update k row ?devs) did = Some d" for did d
      using that inv(3) [of did d] k(1,2) by (cases "did = k") auto
    have key: "i = k" if "map_of (AList.update k row ?devs) i = Some d" "dv_network_id d = nid"
      "dv_instance d = di_instance info" for i d
      using that k(4) by (cases "i = k") auto
    have one: "i = j" if "map_of (AList.update k row ?devs) i = Some d" "map_of (AList.update k row ?devs) j = Some e"
      "dv_network_id d = dv_network_id e" "dv_instance d = dv_instance e" for i j d e
    proof (cases "i = k \<or> j = k")
      case True
      with that row have "dv_network_id d = nid" "dv_instance d = di_instance info" by auto
      with that key show ?thesis by metis
    next
      case False
      with that inv(4) show ?thesis by simp
    qed
    let ?cw = "cw\<lparr>cw_db := (cw_db cw)\<lparr>db_devices := AList.update k row ?devs\<rparr>, cw_next := n\<rparr>"
    show ?thesis
      unfolding inventory_ok_def
    proof (intro conjI allI impI)
      show "points_ok (db_points (cw_db ?cw), cw_next ?cw)" by (simp add: k(3))
      show "dict_wf (db_devices (cw_db ?cw))" by (simp add: inv(2))
      show "did < cw_next ?cw" if "map_of (db_devices (cw_db ?cw)) did = Some d" for did d
        using less [of did d] that by simp
      show "i = j" if "map_of (db_devices (cw_db ?cw)) i = Some d" "map_of (db_devices (cw_db ?cw)) j = Some e"
        "dv_network_id d = dv_network_id e" "dv_instance d = dv_instance e" for i j d e
        using one [of i d j e] that by simp
    qed
  qed
  show ?thesis
  proof (cases "List.find (\<lambda>(k, d). dv_network_id d = nid \<and> dv_instance d = di_instance info) ?devs")
    case None
    then have u': "did = cw_next cw" "cw' = cw\<lparr>cw_db := (cw_db cw)\<lparr>db_devices := AList.update (cw_next cw) row ?devs\<rparr>,
        cw_next := Suc (cw_next cw)\<rparr>"
      using u by (auto simp: upsert_device_def Let_def row_def split: if_splits)
    have none: "\<not> (dv_network_id e = nid \<and> dv_instance e = di_instance info)" if "map_of ?devs j = Some e" for j e
      using None map_of_SomeD [OF that] by (auto simp: find_None_iff)
    have "inventory_ok cw'" unfolding u'(2) by (rule upd) (use pts none in auto)
    moreover have "dev_at n i k cw'" if "dev_at n i k cw" for n i k
      using that inv(3) by (force simp: dev_at_def u')
    ultimately show ?thesis using row by (simp add: dev_at_def u')
  next
    case (Some kd)
    obtain k old where kd: "kd = (k, old)" by (cases kd)
    have old: "map_of ?devs k = Some old" "dv_network_id old = nid" "dv_instance old = di_instance info"
      using find_map_of [OF Some] kd inv(2) by auto
    have u': "did = k" "cw' = cw\<lparr>cw_db := (cw_db cw)\<lparr>db_devices := AList.update k row ?devs\<rparr>, cw_next := cw_next cw\<rparr>"
      using u Some kd by (auto simp: upsert_device_def Let_def row_def split: if_splits)
    have "j = k" if "map_of ?devs j = Some e" "dv_network_id e = nid" "dv_instance e = di_instance info" for j e
      using inv(4) [OF that(1) old(1)] that(2,3) old(2,3) by simp
    with inv(1) inv(3) [OF old(1)] have "inventory_ok cw'" unfolding u'(2) by (intro upd order_refl)
    moreover have "dev_at n i j cw'" if "dev_at n i j cw" for n i j
      using that old row by (auto simp: dev_at_def u')
    ultimately show ?thesis using row by (simp add: dev_at_def u')
  qed
qed

lemma dev_at_points: "upsert_points did objects cov prefix cw = Some cw' \<Longrightarrow> dev_at n i k cw' = dev_at n i k cw"
  by (simp add: dev_at_def upsert_points_result(1))

lemma dev_at_unique: "inventory_ok cw \<Longrightarrow> dev_at n i j cw \<Longrightarrow> dev_at n i k cw \<Longrightarrow> j = k"
  unfolding dev_at_def using inventory_okD(4) by metis

definition imported :: "string list \<Rightarrow> object_info list \<Rightarrow> object_info list" where
  "imported prefixes objs =
     (if prefixes = [] then objs
      else List.filter (\<lambda>ob. \<not> list_ex (\<lambda>pre. starts_with pre (oi_name ob)) prefixes) objs)"

text \<open>What the import of one device does: \<open>found\<close> says that an inventory is in the tables.\<close>

definition found :: "uuid \<Rightarrow> int \<Rightarrow> object_info list \<Rightarrow> (int, object_info list) dict \<times> collector_world \<Rightarrow> bool" where
  "found nid i objs iw \<longleftrightarrow> map_of (fst iw) i = Some objs \<and>
     (\<exists>did. dev_at nid i did (snd iw) \<and> (\<forall>ob \<in> set objs. \<exists>pid. present did ob pid (db_points (cw_db (snd iw)))))"

lemma import_device_found:
  assumes ok: "inventory_ok (snd iw)" and im: "import_device nid nname prefixes describe now info iw = Some iw'"
  shows "inventory_ok (snd iw')"
    "describe info = Inr objs \<Longrightarrow> found nid (di_instance info) (imported prefixes objs) iw'"
    "i \<noteq> di_instance info \<Longrightarrow> found nid i objs' iw \<Longrightarrow> found nid i objs' iw'"
proof -
  have all: "inventory_ok (snd iw') \<and>
    (describe info = Inr objs \<longrightarrow> found nid (di_instance info) (imported prefixes objs) iw') \<and>
    (i \<noteq> di_instance info \<longrightarrow> found nid i objs' iw \<longrightarrow> found nid i objs' iw')"
  proof (cases "describe info")
    case (Inl e)
    with ok im show ?thesis by (simp add: import_device_def)
  next
    case (Inr os)
    from im Inr obtain did cw1 cw2 prefix where
      u: "upsert_device nid info now (snd iw) = Some (did, cw1)" and
      p: "upsert_points did (imported prefixes os) (di_supports_cov info) prefix cw1 = Some cw2" and
      iw': "iw' = (AList.update (di_instance info) (imported prefixes os) (fst iw), cw2)"
      by (auto simp: import_device_def Let_def imported_def [symmetric] split: option.splits)
    note d = upsert_device_found [OF ok u]
    have ok1: "inventory_ok cw1" and ok2: "inventory_ok cw2" using d upsert_points_ok [OF _ p] by blast+
    have at: "dev_at n j k cw2 = dev_at n j k cw1" for n j k using p by (rule dev_at_points)
    have "found nid (di_instance info) (imported prefixes os) iw'"
      unfolding found_def iw' fst_conv snd_conv at using d upsert_points_present [OF ok1 p] by auto
    moreover have "found nid i objs' iw'" if i: "i \<noteq> di_instance info" and f: "found nid i objs' iw"
    proof -
      from f obtain k where k: "map_of (fst iw) i = Some objs'" "dev_at nid i k (snd iw)"
        "\<forall>ob \<in> set objs'. \<exists>pid. present k ob pid (db_points (cw_db (snd iw)))"
        unfolding found_def by blast
      have at1: "dev_at nid i k cw1" using d k(2) by blast
      have "k \<noteq> did" using at1 d i by (auto simp: dev_at_def)
      have "\<exists>pid. present k ob pid (db_points (cw_db cw2))" if "ob \<in> set objs'" for ob
      proof -
        from k(3) that obtain pid where "present k ob pid (db_points (cw_db cw1))" using d by auto
        then obtain q where q: "map_of (db_points (cw_db cw1)) pid = Some q"
          "point_key q = (k, oi_object_type ob, oi_object_instance ob)" "\<not> pt_missing q"
          unfolding present_def by blast
        have "pt_device_id q \<noteq> did" using q(2) \<open>k \<noteq> did\<close> by (simp add: point_key_def)
        with upsert_points_keep [OF inventory_okD(1) [OF ok1] p q(1)] have "map_of (db_points (cw_db cw2)) pid = Some q"
          by blast
        with q(2,3) show ?thesis unfolding present_def by blast
      qed
      with k(1) at1 i show ?thesis unfolding found_def iw' fst_conv snd_conv at by auto
    qed
    ultimately show ?thesis using Inr ok2 iw' by auto
  qed
  then show "inventory_ok (snd iw')"
    "describe info = Inr objs \<Longrightarrow> found nid (di_instance info) (imported prefixes objs) iw'"
    "i \<noteq> di_instance info \<Longrightarrow> found nid i objs' iw \<Longrightarrow> found nid i objs' iw'" by blast+
qed

lemma import_devices_found:
  assumes "inventory_ok (snd iw)" "import_devices nid nname prefixes describe now infos iw = Some iw'"
    and "distinct (map di_instance infos)"
  shows "inventory_ok (snd iw') \<and>
    (\<forall>i objs. i \<notin> di_instance ` set infos \<longrightarrow> found nid i objs iw \<longrightarrow> found nid i objs iw') \<and>
    (\<forall>info \<in> set infos. \<forall>objs. describe info = Inr objs \<longrightarrow> found nid (di_instance info) (imported prefixes objs) iw')"
  using assms
proof (induction infos arbitrary: iw)
  case (Cons info infos)
  from Cons.prems(2) obtain iw1 where one: "import_device nid nname prefixes describe now info iw = Some iw1"
    and rest: "import_devices nid nname prefixes describe now infos iw1 = Some iw'"
    by (auto split: option.splits)
  note s = import_device_found [OF Cons.prems(1) one]
  from Cons.IH [OF s(1) rest] Cons.prems(3) have ih: "inventory_ok (snd iw')"
    "\<And>i objs. i \<notin> di_instance ` set infos \<Longrightarrow> found nid i objs iw1 \<Longrightarrow> found nid i objs iw'"
    "\<And>x objs. x \<in> set infos \<Longrightarrow> describe x = Inr objs \<Longrightarrow> found nid (di_instance x) (imported prefixes objs) iw'"
    by auto
  have new: "di_instance info \<notin> di_instance ` set infos" using Cons.prems(3) by simp
  show ?case
  proof (intro conjI allI impI ballI)
    show "inventory_ok (snd iw')" by (rule ih(1))
    show "found nid i objs iw'" if "i \<notin> di_instance ` set (info # infos)" "found nid i objs iw" for i objs
      using that s(3) [of i objs] ih(2) [of i objs] by simp
    show "found nid (di_instance x) (imported prefixes objs) iw'"
      if "x \<in> set (info # infos)" "describe x = Inr objs" for x objs
      using that s(2) [of objs] ih(2) [OF new] ih(3) [of x objs] by auto
  qed
qed simp

subsection \<open>The registry\<close>

lemma distinct_owned:
  assumes "distinct (map fst xs)" "\<And>x. x \<in> set xs \<Longrightarrow> distinct (g x)"
    and "\<And>x y. x \<in> set xs \<Longrightarrow> y \<in> set (g x) \<Longrightarrow> owner y = fst x"
  shows "distinct (concat (map g xs))"
  using assms
proof (induction xs)
  case (Cons x xs)
  have "set (g x) \<inter> set (concat (map g xs)) = {}"
  proof (rule ccontr)
    assume "set (g x) \<inter> set (concat (map g xs)) \<noteq> {}"
    then obtain y z where "y \<in> set (g x)" "z \<in> set xs" "y \<in> set (g z)" by auto
    then have "fst x = fst z" using Cons.prems(3) [of x y] Cons.prems(3) [of z y] by simp
    with \<open>z \<in> set xs\<close> Cons.prems(1) show False by (metis image_eqI list.set_map distinct.simps(2) list.simps(9))
  qed
  with Cons show ?case by simp
qed simp

lemma distinct_sort_key: "distinct (map f (sort_key g xs)) = distinct (map f xs)"
  by (rule mset_eq_imp_distinct_iff) simp

definition loaded_device :: "time \<Rightarrow> database \<Rightarrow> uuid \<Rightarrow> device_row \<Rightarrow> device_state" where
  "loaded_device dflt db did d =
     (let ps = List.filter (\<lambda>(pid, p). pt_device_id p = did \<and> \<not> pt_missing p) (db_points db)
      in \<lparr>ds_instance = dv_instance d, ds_address = dv_address d, ds_name = dv_name d,
          ds_supports_cov = list_ex (\<lambda>(pid, p). pt_cov_capable p) ps, ds_online = dv_online d,
          ds_points = map (\<lambda>(pid, p). (pid, point_state_of dflt pid p d)) ps,
          ds_failures = 0, ds_last_contact = 0, ds_last_attempt = 0, ds_last_seen_written = 0\<rparr>)"

lemma load_devices_eq:
  "load_devices nid dflt db = sort_key (\<lambda>(did, d). ds_instance d)
     (map (\<lambda>(did, d). (did, loaded_device dflt db did d)) (List.filter (\<lambda>(did, d). dv_network_id d = nid) (db_devices db)))"
  by (simp add: load_devices_def loaded_device_def Let_def)

lemma load_devices_set:
  "set (load_devices nid dflt db) =
     (\<lambda>(did, d). (did, loaded_device dflt db did d)) ` {(did, d) \<in> set (db_devices db). dv_network_id d = nid}"
  by (auto simp: load_devices_eq)

lemma load_devices_keys: "dict_wf (db_devices db) \<Longrightarrow> dict_wf (load_devices nid dflt db)"
  unfolding load_devices_eq distinct_sort_key
  by (simp add: comp_def split_beta distinct_map_filter [of fst, simplified])

lemma loaded_points:
  assumes "dict_wf (db_points db)"
  shows "map_of (ds_points (loaded_device dflt db did d)) pid = Some st \<longleftrightarrow>
    (\<exists>p. map_of (db_points db) pid = Some p \<and> pt_device_id p = did \<and> \<not> pt_missing p \<and>
       st = point_state_of dflt pid p d)"
proof -
  let ?ps = "List.filter (\<lambda>(pid, p). pt_device_id p = did \<and> \<not> pt_missing p) (db_points db)"
  have wf: "dict_wf (map (\<lambda>(pid, p). (pid, point_state_of dflt pid p d)) ?ps)"
    using assms by (simp add: comp_def split_beta distinct_map_filter [of fst, simplified])
  have "map_of (ds_points (loaded_device dflt db did d)) pid = Some st \<longleftrightarrow>
      (pid, st) \<in> set (map (\<lambda>(pid, p). (pid, point_state_of dflt pid p d)) ?ps)"
    unfolding map_of_mem [OF wf] by (simp add: loaded_device_def Let_def)
  also have "\<dots> \<longleftrightarrow> (\<exists>p. (pid, p) \<in> set (db_points db) \<and> pt_device_id p = did \<and> \<not> pt_missing p \<and>
       st = point_state_of dflt pid p d)" by auto
  finally show ?thesis unfolding map_of_mem [OF assms] .
qed

lemma map_of_map_key: "map_of (map (\<lambda>(k, v). (k, f k v)) d) k = map_option (f k) (map_of d k)"
  by (induction d) auto

lemma keep_point_ref [simp]: "ps_ref (keep_point previous p) = ps_ref p"
  by (simp add: keep_point_def split: option.split)

lemma keep_device_points [simp]: "ds_points (keep_device previous d) = ds_points d"
  by (simp add: keep_device_def split: option.split)

lemma replaced_points:
  "map_of (ds_points (replaced_device old did d)) pid =
     map_option (keep_point (map_option snd (registry_point old pid))) (map_of (ds_points d) pid)"
  "dict_keys (ds_points (replaced_device old did d)) = dict_keys (ds_points d)"
  by (simp_all add: replaced_device_def Let_def map_of_map_key comp_def split_beta)

lemma replace_eq:
  "dict_wf ds \<Longrightarrow> registry_replace old ds = map (\<lambda>(did, d). (did, replaced_device old did d)) ds"
  unfolding registry_replace_def by (rule dict_of_distinct) (simp add: comp_def split_beta)

definition loaded_registry :: "registry \<Rightarrow> uuid \<Rightarrow> time \<Rightarrow> database \<Rightarrow> registry" where
  "loaded_registry old nid dflt db = registry_replace old (load_devices nid dflt db)"

lemma loaded_registry_wf:
  assumes "dict_wf (db_devices db)" "dict_wf (db_points db)"
  shows "registry_wf (loaded_registry old nid dflt db)"
proof -
  let ?ds = "load_devices nid dflt db"
  have wf: "dict_wf ?ds" using assms(1) by (rule load_devices_keys)
  have keys: "dict_keys (ds_points d) = map fst (List.filter (\<lambda>(pid, p). pt_device_id p = did \<and> \<not> pt_missing p) (db_points db))"
    if "(did, d) \<in> set ?ds" for did d
    using that by (auto simp: load_devices_set loaded_device_def Let_def comp_def split_beta)
  have "distinct (concat (map (\<lambda>kv. dict_keys (ds_points (snd kv))) ?ds))"
  proof (rule distinct_owned [where owner = "\<lambda>pid. pt_device_id (the (map_of (db_points db) pid))"])
    show "distinct (map fst ?ds)" by (rule wf)
  next
    fix x assume "x \<in> set ?ds"
    then show "distinct (dict_keys (ds_points (snd x)))"
      using keys [of "fst x" "snd x"] assms(2) distinct_map_filter [of fst] by simp
  next
    fix x y assume "x \<in> set ?ds" "y \<in> set (dict_keys (ds_points (snd x)))"
    then obtain p where "(y, p) \<in> set (db_points db)" "pt_device_id p = fst x"
      using keys [of "fst x" "snd x"] by auto
    then show "pt_device_id (the (map_of (db_points db) y)) = fst x"
      using map_of_mem [OF assms(2)] by simp
  qed
  then show ?thesis
    using wf unfolding loaded_registry_def replace_eq [OF wf] registry_wf_def point_ids_def
    by (simp add: comp_def split_beta replaced_points)
qed

lemma loaded_registry_point:
  assumes "dict_wf (db_devices db)" "dict_wf (db_points db)"
  shows "(\<exists>st. registry_point (loaded_registry old nid dflt db) pid = Some (did, st) \<and> ps_ref st = rf) \<longleftrightarrow>
    (\<exists>d p. map_of (db_devices db) did = Some d \<and> dv_network_id d = nid \<and> map_of (db_points db) pid = Some p \<and>
       pt_device_id p = did \<and> \<not> pt_missing p \<and> rf = ps_ref (point_state_of dflt pid p d))"
proof -
  let ?ds = "load_devices nid dflt db"
  have wf: "dict_wf ?ds" using assms(1) by (rule load_devices_keys)
  have dev: "map_of ?ds did = Some e \<longleftrightarrow> (\<exists>d. map_of (db_devices db) did = Some d \<and> dv_network_id d = nid \<and>
      e = loaded_device dflt db did d)" for e
    unfolding map_of_mem [OF wf, symmetric] load_devices_set map_of_mem [OF assms(1), symmetric] by auto
  have reg: "map_of (loaded_registry old nid dflt db) did = map_option (replaced_device old did) (map_of ?ds did)"
    unfolding loaded_registry_def replace_eq [OF wf] by (rule map_of_map_key)
  show ?thesis
    unfolding registry_point_iff [OF loaded_registry_wf [OF assms]] reg
    by (auto simp: dev replaced_points loaded_points [OF assms(2)])
qed

subsection \<open>The readings of the inventory\<close>

definition object_ref_key :: "point_state \<Rightarrow> int \<times> string \<times> int" where
  "object_ref_key p = (pr_device_instance (ps_ref p), pr_object_type (ps_ref p), pr_object_instance (ps_ref p))"

lemma all_points_iff:
  assumes "registry_wf reg"
  shows "p \<in> set (all_points reg) \<longleftrightarrow> (\<exists>pid did. registry_point reg pid = Some (did, p))"
proof -
  have wf: "dict_wf (point_index reg)" by (simp add: point_index_def)
  have "p \<in> set (all_points reg) \<longleftrightarrow> (\<exists>pid did. (pid, did, p) \<in> set (point_index reg))"
    by (force simp: all_points_def)
  then show ?thesis by (simp only: registry_point_def map_of_mem [OF wf])
qed

lemma find_key:
  assumes "x \<in> set xs" "f x = k" "\<And>y. y \<in> set xs \<Longrightarrow> f y = k \<Longrightarrow> g y = v"
  shows "\<exists>y. List.find (\<lambda>y. f y = k) xs = Some y \<and> g y = v"
  using assms by (induction xs) auto

text \<open>The objects found are readable in the registry, and their values are among the readings.\<close>

lemma found_read:
  assumes ok: "inventory_ok (snd iw)" and f: "found nid i objs iw" and ob: "ob \<in> set objs"
    and reg: "reg = loaded_registry old nid dflt (cw_db (snd iw))"
  shows "\<exists>pid did st p. map_of (db_points (cw_db (snd iw))) pid = Some p \<and> dev_at nid i did (snd iw) \<and>
    point_key p = (did, oi_object_type ob, oi_object_instance ob) \<and> \<not> pt_missing p \<and>
    registry_point reg pid = Some (did, st) \<and>
    (case oi_value ob of None \<Rightarrow> True
     | Some v \<Rightarrow> \<lparr>rd_point_id = pid, rd_ts = now, rd_value = Some v, rd_status = oi_status ob, rd_raw = Raw_None\<rparr>
         \<in> set (dr_readings (discovered_readings reg now (fst iw))))"
proof -
  let ?db = "cw_db (snd iw)"
  note inv = inventory_okD [OF ok]
  have wfp: "dict_wf (db_points ?db)" using inv(1) by (rule points_okD(1))
  note point = loaded_registry_point [OF inv(2) wfp, of old nid dflt, folded reg]
  have wf: "registry_wf reg" unfolding reg using inv(2) wfp by (rule loaded_registry_wf)
  from f ob obtain did pid d p where objs: "map_of (fst iw) i = Some objs"
    and d: "map_of (db_devices ?db) did = Some d" "dv_network_id d = nid" "dv_instance d = i"
    and p: "map_of (db_points ?db) pid = Some p" "point_key p = (did, oi_object_type ob, oi_object_instance ob)" "\<not> pt_missing p"
    unfolding found_def dev_at_def present_def by blast
  have "pt_device_id p = did" using p(2) by (simp add: point_key_def)
  with d p have "\<exists>st. registry_point reg pid = Some (did, st) \<and> ps_ref st = ps_ref (point_state_of dflt pid p d)"
    unfolding point by blast
  then obtain st where st: "registry_point reg pid = Some (did, st)" "ps_ref st = ps_ref (point_state_of dflt pid p d)"
    by blast
  let ?k = "(i, oi_object_type ob, oi_object_instance ob)"
  have same: "pr_point_id (ps_ref q) = pid" if q: "q \<in> set (rev (all_points reg))" "object_ref_key q = ?k" for q
  proof -
    from q(1) obtain pid' did' where "registry_point reg pid' = Some (did', q)"
      unfolding set_rev all_points_iff [OF wf] by blast
    then have "\<exists>st. registry_point reg pid' = Some (did', st) \<and> ps_ref st = ps_ref q" by blast
    then obtain d' p' where d': "map_of (db_devices ?db) did' = Some d'" "dv_network_id d' = nid"
      and p': "map_of (db_points ?db) pid' = Some p'" "pt_device_id p' = did'"
      and rf: "ps_ref q = ps_ref (point_state_of dflt pid' p' d')"
      unfolding point by blast
    have k: "dv_instance d' = i" "pt_object_type p' = oi_object_type ob" "pt_object_instance p' = oi_object_instance ob"
      using q(2) rf by (simp_all add: object_ref_key_def point_state_of_def)
    have "did' = did" using inv(4) [OF d'(1) d(1)] d'(2) d(2,3) k(1) by simp
    then have "point_key p' = point_key p" using p'(2) p(2) k by (simp add: point_key_def)
    then have "pid' = pid" using points_okD(3) [OF inv(1) p'(1) p(1)] by simp
    then show ?thesis using rf by (simp add: point_state_of_def)
  qed
  have "st \<in> set (rev (all_points reg))" unfolding set_rev all_points_iff [OF wf] using st(1) by blast
  moreover have "object_ref_key st = ?k"
    using st(2) p(2) d(3) by (simp add: object_ref_key_def point_state_of_def point_key_def)
  ultimately obtain q where q: "List.find (\<lambda>y. object_ref_key y = ?k) (rev (all_points reg)) = Some q"
    "pr_point_id (ps_ref q) = pid" 
    using find_key [where g = "\<lambda>q. pr_point_id (ps_ref q)" and v = pid] same by metis
  have mem: "(i, objs) \<in> set (fst iw)" using objs by (rule map_of_SomeD)
  have "case oi_value ob of None \<Rightarrow> True
     | Some v \<Rightarrow> \<lparr>rd_point_id = pid, rd_ts = now, rd_value = Some v, rd_status = oi_status ob, rd_raw = Raw_None\<rparr>
         \<in> set (dr_readings (discovered_readings reg now (fst iw)))"
  proof (cases "oi_value ob")
    case (Some v)
    have "(q, ob) \<in> set (concat (map (\<lambda>(inst, objs). concat (map (\<lambda>ob.
        case List.find (\<lambda>p. object_ref_key p = (inst, oi_object_type ob, oi_object_instance ob)) (rev (all_points reg)) of
          None \<Rightarrow> [] | Some p \<Rightarrow> [(p, ob)]) objs)) (fst iw)))"
      using mem ob q(1) by force
    then show ?thesis
      using Some q(2) unfolding discovered_readings_def Let_def object_ref_key_def by force
  qed simp
  moreover have "dev_at nid i did (snd iw)" using d by (auto simp: dev_at_def)
  ultimately show ?thesis using p st(1) by blast
qed

subsection \<open>The discovery of the service\<close>

text \<open>
  \<open>discover\<close>: the registry is replaced, then each value read goes through the recorder. \<open>now\<close> is the
  date of the readings, \<open>lnow\<close> the clock of the loop; \<open>None\<close> when the discovery raises.
\<close>

definition hand_over :: "nat \<Rightarrow> time \<Rightarrow> reading list \<Rightarrow> recorder \<Rightarrow> recorder" where
  "hand_over batch_rows lnow rs rc = fold (\<lambda>r rc. snd (handle batch_rows lnow r rc)) rs rc"

definition discover ::
  "nat \<Rightarrow> time \<Rightarrow> uuid \<Rightarrow> string \<Rightarrow> string list \<Rightarrow> time \<Rightarrow> device_info list \<Rightarrow>
   (device_info \<Rightarrow> driver_error + object_info list) \<Rightarrow> time \<Rightarrow> recorder \<times> uuid \<Rightarrow> (nat \<times> recorder \<times> uuid) option" where
  "discover batch_rows lnow nid nname prefixes dflt devices describe now rn =
     (case rn of (rc, next_id) \<Rightarrow>
        (case run_discovery nid nname prefixes dflt devices describe now (rc_reg rc) \<lparr>cw_db = rc_db rc, cw_next = next_id\<rparr> of
           None \<Rightarrow> None
         | Some (res, reg, cw) \<Rightarrow>
             Some (dr_devices res, hand_over batch_rows lnow (dr_readings res) (rc\<lparr>rc_reg := reg, rc_db := cw_db cw\<rparr>),
                   cw_next cw)))"

lemma hand_over_frame:
  assumes "registry_wf (rc_reg rc)" "\<forall>r \<in> set rs. registry_point (rc_reg rc) (rd_point_id r) \<noteq> None"
  shows "registry_wf (rc_reg (hand_over n lnow rs rc)) \<and> rc_db (hand_over n lnow rs rc) = rc_db rc \<and>
    set (rc_published rc) \<union> set rs \<subseteq> set (rc_published (hand_over n lnow rs rc)) \<and>
    (\<forall>pid did. (\<exists>st. registry_point (rc_reg (hand_over n lnow rs rc)) pid = Some (did, st)) \<longleftrightarrow>
       (\<exists>st. registry_point (rc_reg rc) pid = Some (did, st)))"
  using assms
proof (induction rs arbitrary: rc)
  case Nil
  then show ?case by (simp add: hand_over_def)
next
  case (Cons r rs)
  let ?rc = "snd (handle n lnow r rc)"
  obtain did p where p: "registry_point (rc_reg rc) (rd_point_id r) = Some (did, p)" using Cons.prems(2) by auto
  note h = handle_point [OF Cons.prems(1) p, of n lnow]
  have wf: "registry_wf (rc_reg ?rc)" using h by blast
  have known: "(\<exists>st. registry_point (rc_reg ?rc) pid = Some (k, st)) \<longleftrightarrow>
      (\<exists>st. registry_point (rc_reg rc) pid = Some (k, st))" for pid k
    using h [of pid] p by auto
  have db: "rc_db ?rc = rc_db rc" "rc_published ?rc = rc_published rc @ [r]"
    using p by (simp_all add: handle_def Let_def)
  have "\<forall>x \<in> set rs. registry_point (rc_reg ?rc) (rd_point_id x) \<noteq> None"
    using Cons.prems(2) known by (metis list.set_intros(2) option.exhaust prod.exhaust_sel option.distinct(1))
  from Cons.IH [OF wf this] known db show ?case by (auto simp: hand_over_def)
qed

lemma find_mem: "List.find P xs = Some x \<Longrightarrow> x \<in> set xs"
  by (induction xs) (auto split: if_splits)

lemma discovered_known:
  assumes "registry_wf reg" "\<And>q. q \<in> set (all_points reg) \<Longrightarrow> registry_point reg (pr_point_id (ps_ref q)) \<noteq> None"
    and "r \<in> set (dr_readings (discovered_readings reg now inventory))"
  shows "registry_point reg (rd_point_id r) \<noteq> None"
proof -
  from assms(3) obtain q where "rd_point_id r = pr_point_id (ps_ref q)" "q \<in> set (rev (all_points reg))"
    by (auto simp: discovered_readings_def Let_def split: option.splits dest!: find_mem [OF sym])
  then show ?thesis using assms(2) [of q] by simp
qed

lemma run_discovery_parts:
  assumes "run_discovery nid nname prefixes dflt devices describe now reg cw = Some (res, reg', cw')"
  obtains inventory where "import_devices nid nname prefixes describe now devices ([], cw) = Some (inventory, cw')"
    "reg' = loaded_registry reg nid dflt (cw_db cw')" "res = discovered_readings reg' now inventory"
  using assms by (auto simp: run_discovery_def Let_def loaded_registry_def split: option.splits)

lemma loaded_ids:
  assumes "dict_wf (db_devices db)" "dict_wf (db_points db)" "q \<in> set (all_points (loaded_registry old nid dflt db))"
  shows "registry_point (loaded_registry old nid dflt db) (pr_point_id (ps_ref q)) \<noteq> None"
proof -
  note wf = loaded_registry_wf [OF assms(1,2), of old nid dflt]
  from assms(3) obtain pid did where q: "registry_point (loaded_registry old nid dflt db) pid = Some (did, q)"
    unfolding all_points_iff [OF wf] by blast
  then have "\<exists>st. registry_point (loaded_registry old nid dflt db) pid = Some (did, st) \<and> ps_ref st = ps_ref q" by blast
  then have "pr_point_id (ps_ref q) = pid"
    unfolding loaded_registry_point [OF assms(1,2)] by (auto simp: point_state_of_def)
  with q show ?thesis by simp
qed

text \<open>
  C20. A discovery is complete: when the devices that answered have distinct instances and the discovery does
  not raise, every object the driver inventoried and the configuration does not ignore is, afterwards, a
  point of the table that is not missing, under its device of this network, which the registry polls; if a value
  was read, this value is published for this point.
\<close>

theorem discovery_complete:
  assumes ok: "inventory_ok \<lparr>cw_db = rc_db rc, cw_next = next_id\<rparr>"
    and run: "discover n lnow nid nname prefixes dflt devices describe now (rc, next_id) = Some (k, rc', next_id')"
    and dist: "distinct (map di_instance devices)"
    and ob: "info \<in> set devices" "describe info = Inr objs" "ob \<in> set (imported prefixes objs)"
  shows "\<exists>pid did d p. map_of (db_devices (rc_db rc')) did = Some d \<and> dv_network_id d = nid \<and>
    dv_instance d = di_instance info \<and> map_of (db_points (rc_db rc')) pid = Some p \<and>
    point_key p = (did, oi_object_type ob, oi_object_instance ob) \<and> \<not> pt_missing p \<and>
    (\<exists>st. registry_point (rc_reg rc') pid = Some (did, st)) \<and>
    (case oi_value ob of None \<Rightarrow> True
     | Some v \<Rightarrow> \<lparr>rd_point_id = pid, rd_ts = now, rd_value = Some v, rd_status = oi_status ob, rd_raw = Raw_None\<rparr>
         \<in> set (rc_published rc'))"
proof -
  let ?cw = "\<lparr>cw_db = rc_db rc, cw_next = next_id\<rparr>"
  from run obtain res reg cw where
    r: "run_discovery nid nname prefixes dflt devices describe now (rc_reg rc) ?cw = Some (res, reg, cw)" and
    rc': "rc' = hand_over n lnow (dr_readings res) (rc\<lparr>rc_reg := reg, rc_db := cw_db cw\<rparr>)"
    by (auto simp: discover_def split: option.splits)
  from run_discovery_parts [OF r] obtain inventory where
    im: "import_devices nid nname prefixes describe now devices ([], ?cw) = Some (inventory, cw)" and
    reg: "reg = loaded_registry (rc_reg rc) nid dflt (cw_db cw)" and res: "res = discovered_readings reg now inventory"
    by blast
  have f: "inventory_ok (snd (inventory, cw))" "found nid (di_instance info) (imported prefixes objs) (inventory, cw)"
    using import_devices_found [OF _ im dist] ok ob(1,2) by auto
  have cw: "inventory_ok cw" using f(1) by simp
  have wfd: "dict_wf (db_devices (cw_db cw))" and wfp: "dict_wf (db_points (cw_db cw))"
    using inventory_okD(1,2) [OF cw] points_okD(1) by blast+
  have "registry_wf reg" unfolding reg using wfd wfp by (rule loaded_registry_wf)
  moreover have "\<forall>r \<in> set (dr_readings res). registry_point reg (rd_point_id r) \<noteq> None"
    unfolding res using discovered_known [OF calculation] loaded_ids [OF wfd wfp] reg by blast
  ultimately have h: "rc_db rc' = cw_db cw" "set (dr_readings res) \<subseteq> set (rc_published rc')"
    "(\<exists>st. registry_point (rc_reg rc') pid = Some (did, st)) \<longleftrightarrow> (\<exists>st. registry_point reg pid = Some (did, st))" for pid did
    unfolding rc' using hand_over_frame [of "rc\<lparr>rc_reg := reg, rc_db := cw_db cw\<rparr>" "dr_readings res" n lnow] by auto
  have "reg = loaded_registry (rc_reg rc) nid dflt (cw_db (snd (inventory, cw)))" using reg by simp
  from found_read [OF f ob(3) this, of now] obtain pid did st p where
    q: "map_of (db_points (cw_db cw)) pid = Some p" "dev_at nid (di_instance info) did cw"
      "point_key p = (did, oi_object_type ob, oi_object_instance ob)" "\<not> pt_missing p"
      "registry_point reg pid = Some (did, st)"
      "case oi_value ob of None \<Rightarrow> True
       | Some v \<Rightarrow> \<lparr>rd_point_id = pid, rd_ts = now, rd_value = Some v, rd_status = oi_status ob, rd_raw = Raw_None\<rparr>
           \<in> set (dr_readings res)"
    unfolding res snd_conv fst_conv by blast
  moreover obtain d where "map_of (db_devices (cw_db cw)) did = Some d" "dv_network_id d = nid"
    "dv_instance d = di_instance info" using q(2) unfolding dev_at_def by blast
  moreover have "case oi_value ob of None \<Rightarrow> True
     | Some v \<Rightarrow> \<lparr>rd_point_id = pid, rd_ts = now, rd_value = Some v, rd_status = oi_status ob, rd_raw = Raw_None\<rparr>
         \<in> set (rc_published rc')"
    using q(6) h(2) by (cases "oi_value ob") auto
  ultimately show ?thesis unfolding h(1) h(3) by blast
qed

definition example_discovering :: recorder where
  "example_discovering = recorder_init [] example_inventory"

theorem discovery_complete_witness:
  "\<exists>k rc' next_id' pid. discover 500 0 1 ''net'' [] 30 [example_info] (\<lambda>_. Inr [example_object None]) 7
       (example_discovering, 10) = Some (k, rc', next_id') \<and>
     \<lparr>rd_point_id = pid, rd_ts = 7, rd_value = Some (Fin 20), rd_status = OK, rd_raw = Raw_None\<rparr> \<in> set (rc_published rc')"
proof -
  have ok: "inventory_ok \<lparr>cw_db = rc_db example_discovering, cw_next = 10\<rparr>"
    by (simp add: inventory_ok_def points_ok_def example_discovering_def recorder_init_def example_inventory_def example_history_def)
  have "discover 500 0 1 ''net'' [] 30 [example_info] (\<lambda>_. Inr [example_object None]) 7 (example_discovering, 10) \<noteq> None"
    by code_simp
  then obtain k rc' next_id' where run: "discover 500 0 1 ''net'' [] 30 [example_info] (\<lambda>_. Inr [example_object None]) 7
      (example_discovering, 10) = Some (k, rc', next_id')" by (metis not_None_eq prod_cases3)
  have ob: "example_object None \<in> set (imported [] [example_object None])" by (simp add: imported_def)
  from discovery_complete [OF ok run _ _ _ ob, of example_info] run show ?thesis
    by (auto simp: example_object_def)
qed

end
