(* ===== verification/Collector_Tasks.thy ===== *)
theory Collector_Tasks
  imports Collector_Discovery Collector_Poller
begin

section \<open>The tasks of the collector\<close>

text \<open>
  The loops that keep the collector going: \<open>rediscover\<close> of \<open>app/collector/main.py\<close>, which paces the
  discoveries, and \<open>Poller.run\<close> of \<open>app/collector/poller.py\<close>, which keeps one polling loop per device.
\<close>

subsection \<open>Pacing the discoveries\<close>

definition RETRY_DISCOVERY_S :: time where "RETRY_DISCOVERY_S = 60"

text \<open>
  \<open>outcomes\<close> are the discoveries after the first, each with the number of its devices or \<open>None\<close> if it raises;
  the waits before them, in order. A first discovery that raises ends the task, and the service with it.
\<close>

fun rediscover_from :: "time \<Rightarrow> nat \<Rightarrow> nat option list \<Rightarrow> time list" where
  "rediscover_from every answered [] = []"
| "rediscover_from every answered (res # outcomes) =
     (if answered \<noteq> 0 then every else RETRY_DISCOVERY_S) #
       rediscover_from every (case res of None \<Rightarrow> answered | Some n \<Rightarrow> n) outcomes"

definition rediscover :: "time \<Rightarrow> nat option \<Rightarrow> nat option list \<Rightarrow> time list option" where
  "rediscover every first outcomes =
     (case first of None \<Rightarrow> None | Some n \<Rightarrow> Some (rediscover_from every n outcomes))"

text \<open>The devices found by the last discovery that did not raise.\<close>

fun last_answer :: "nat \<Rightarrow> nat option list \<Rightarrow> nat" where
  "last_answer n [] = n"
| "last_answer n (res # outcomes) = last_answer (case res of None \<Rightarrow> n | Some m \<Rightarrow> m) outcomes"

lemma rediscover_waits:
  "i < length outcomes \<Longrightarrow> rediscover_from every n outcomes ! i =
     (if last_answer n (take i outcomes) \<noteq> 0 then every else RETRY_DISCOVERY_S)"
proof (induction outcomes arbitrary: n i)
  case (Cons res outcomes)
  then show ?case by (cases i) (simp_all split: option.split)
qed simp

lemma rediscover_length: "length (rediscover_from every n outcomes) = length outcomes"
  by (induction outcomes arbitrary: n) (simp_all split: option.split)

subsection \<open>One polling loop per device\<close>

text \<open>
  The tasks by device: whether the loop still runs. A loop ends by itself once its device has left the
  registry. A pass of \<open>run\<close> starts the missing loops, then forgets and cancels those of the devices that have left.
\<close>

type_synonym polling_tasks = "(uuid, bool) dict"

definition start_loop :: "uuid \<Rightarrow> polling_tasks \<Rightarrow> polling_tasks" where
  "start_loop did tasks = (case map_of tasks did of Some True \<Rightarrow> tasks | _ \<Rightarrow> AList.update did True tasks)"

definition supervise :: "uuid list \<Rightarrow> polling_tasks \<Rightarrow> polling_tasks" where
  "supervise devices tasks = List.filter (\<lambda>(did, _). did \<in> set devices) (fold start_loop devices tasks)"

datatype polling_event = Registry_Holds "uuid list" | Loop_Ended uuid | Pass

fun polling_step :: "polling_event \<Rightarrow> uuid list \<times> polling_tasks \<Rightarrow> uuid list \<times> polling_tasks" where
  "polling_step (Registry_Holds ids) (devices, tasks) = (ids, tasks)"
| "polling_step (Loop_Ended did) (devices, tasks) =
     (devices, if did \<in> set devices \<or> map_of tasks did = None then tasks else AList.update did False tasks)"
| "polling_step Pass (devices, tasks) = (devices, supervise devices tasks)"

lemma start_loop_get: "map_of (start_loop did tasks) k = (if k = did then Some True else map_of tasks k)"
  by (auto simp: start_loop_def split: option.split bool.split)

lemma start_loop_wf: "dict_wf tasks \<Longrightarrow> dict_wf (start_loop did tasks)"
  by (auto simp: start_loop_def split: option.split bool.split)

lemma start_loops:
  "dict_wf tasks \<Longrightarrow> dict_wf (fold start_loop ids tasks) \<and>
     map_of (fold start_loop ids tasks) k = (if k \<in> set ids then Some True else map_of tasks k)"
  by (induction ids arbitrary: tasks) (simp_all add: start_loop_get start_loop_wf)

lemma map_of_filter_keys: "map_of (List.filter (\<lambda>(k, _). P k) d) k = (if P k then map_of d k else None)"
  by (induction d) auto

lemma supervised:
  assumes "dict_wf tasks"
  shows "dict_wf (supervise ids tasks) \<and> map_of (supervise ids tasks) k = (if k \<in> set ids then Some True else None)"
  using start_loops [OF assms, of ids] start_loops [OF assms, of ids k]
  by (simp add: supervise_def map_of_filter_keys distinct_map_filter)

interpretation polling: event_driven polling_step "\<lambda>s. dict_wf (snd s)"
proof unfold_locales
  fix i and s :: "uuid list \<times> polling_tasks"
  assume "dict_wf (snd s)"
  then show "dict_wf (snd (polling_step i s))"
    by (cases s; cases i) (simp_all add: supervised)
qed

text \<open>
  Every device is polled by one loop: whatever the registry has held and whichever loops have ended, right
  after a pass of the poller exactly the devices of the registry have a loop, one each, and it runs.
\<close>

theorem one_loop_per_device:
  assumes "fold polling_step (es @ [Pass]) ([], []) = (devices, tasks)"
  shows "dict_wf tasks \<and> (\<forall>did. map_of tasks did = (if did \<in> set devices then Some True else None))"
proof -
  obtain ds ts where s: "fold polling_step es ([], []) = (ds, ts)" by fastforce
  have "dict_wf (snd (fold polling_step es ([], [])))" by (rule polling.run_inv) simp
  then have "dict_wf ts" by (simp add: s)
  with assms s show ?thesis using supervised by auto
qed

theorem one_loop_per_device_witness:
  "dict_wf [(2 :: uuid, True)] \<and> (\<forall>did. map_of [(2 :: uuid, True)] did = (if did \<in> set [2] then Some True else None))"
proof -
  have "fold polling_step ([Registry_Holds [1, 2], Pass, Registry_Holds [2], Loop_Ended 1] @ [Pass]) ([], []) = ([2], [(2, True)])"
    by (simp add: supervise_def start_loop_def)
  then show ?thesis by (rule one_loop_per_device)
qed

end
