(* ===== verification/Collector_Readings.thy ===== *)
theory Collector_Readings
  imports Collector_Poller Collector_Driver Collector_Discovery
begin

section \<open>A reading for every point polled\<close>

text \<open>
  \<open>poller.py\<close> over \<open>bacnet_driver.py\<close>: what the poller relies on when it calls \<open>read\<close> is the locale
  \<open>point_reader\<close>; the driver is its interpretation. Inside the locale a polling cycle is shown to
  publish one reading for each of its points, whichever batches are answered, refused or lost.
\<close>

subsection \<open>The driver as the poller calls it\<close>

text \<open>
  \<open>p.ref for p in chunk\<close>: the references of the points of a device. What the network answers, the
  instant and the devices known not to support the grouped reading may differ from batch to batch.
\<close>

definition refs_of :: "device_state \<Rightarrow> uuid list \<Rightarrow> point_ref list" where
  "refs_of d pids = List.map_filter (\<lambda>pid. map_option ps_ref (map_of (ds_points d) pid)) pids"

definition read_points ::
  "(uuid list \<Rightarrow> int \<Rightarrow> read_one) \<Rightarrow> (uuid list \<Rightarrow> int \<Rightarrow> read_rpm) \<Rightarrow> (uuid list \<Rightarrow> time) \<Rightarrow>
   (uuid list \<Rightarrow> int list) \<Rightarrow> device_state \<Rightarrow> uuid list \<Rightarrow> driver_error + reading list" where
  "read_points one rpm asked unsupported d pids =
     fst (driver_read (one pids) (rpm pids) (asked pids) (refs_of d pids) (unsupported pids))"

definition refs_ok :: "device_state \<Rightarrow> bool" where
  "refs_ok d \<longleftrightarrow> list_all (\<lambda>(pid, p). pr_point_id (ps_ref p) = pid \<and> pr_device_instance (ps_ref p) = ds_instance d)
     (ds_points d)"

definition known_refs :: "device_state \<Rightarrow> uuid set" where
  "known_refs d = (if refs_ok d then set (dict_keys (ds_points d)) else {})"

lemma refs_of_known:
  assumes "set pids \<subseteq> known_refs d"
  shows "map pr_point_id (refs_of d pids) = pids \<and> (\<forall>r \<in> set (refs_of d pids). pr_device_instance r = ds_instance d)"
  using assms
proof (induction pids)
  case (Cons pid pids)
  then have ok: "refs_ok d" and mem: "pid \<in> set (dict_keys (ds_points d))"
    by (auto simp: known_refs_def split: if_splits)
  then obtain p where p: "map_of (ds_points d) pid = Some p"
    by (metis map_of_eq_None_iff not_None_eq set_map)
  with ok have "pr_point_id (ps_ref p) = pid \<and> pr_device_instance (ps_ref p) = ds_instance d"
    by (auto simp: refs_ok_def list_all_iff dest: map_of_SomeD)
  with Cons p show ?case by (simp add: refs_of_def List.map_filter_simps)
qed (simp add: refs_of_def List.map_filter_simps)

subsection \<open>What a batch leaves behind\<close>

text \<open>
  \<open>publishes pids did po rs po'\<close>: from \<open>po\<close> to \<open>po'\<close> the readings \<open>rs\<close> were published, and the device
  still has the points \<open>pids\<close> in a coherent registry.
\<close>

definition publishes :: "uuid list \<Rightarrow> uuid \<Rightarrow> poller \<Rightarrow> reading list \<Rightarrow> poller \<Rightarrow> bool" where
  "publishes pids did po rs po' \<longleftrightarrow>
     rc_published (po_rec po') = rc_published (po_rec po) @ rs \<and>
     registry_wf (po_reg po') \<and> device_points (po_reg po') did = Some pids"

lemma publishes_trans:
  "publishes pids did po rs po1 \<Longrightarrow> publishes pids did po1 rs' po2 \<Longrightarrow> publishes pids did po (rs @ rs') po2"
  by (simp add: publishes_def)

lemma publishes_reg:
  assumes "publishes pids did po rs po1" "registry_wf (f (po_reg po1))"
    "device_points (f (po_reg po1)) did = device_points (po_reg po1) did"
  shows "publishes pids did po rs (on_reg f po1)"
  using assms by (simp add: publishes_def on_reg_def)

lemma publishes_handle:
  assumes "publishes pids did po rs po1" "rd_point_id r \<in> set pids"
  shows "publishes pids did po (rs @ [r]) (po_handle n now r po1)"
  using assms known_point [of "po_reg po1" did pids "rd_point_id r"] registry_wf_handle [of "po_rec po1" n now r]
  by (simp add: publishes_def po_handle_def published_handle)

lemma publishes_handles:
  "publishes pids did po rs po1 \<Longrightarrow> set (map rd_point_id rs') \<subseteq> set pids \<Longrightarrow>
     publishes pids did po (rs @ rs') (fold (po_handle n now) rs' po1)"
proof (induction rs' arbitrary: rs po1)
  case (Cons r rs')
  then have "publishes pids did po (rs @ [r]) (po_handle n now r po1)" by (simp add: publishes_handle)
  from Cons.IH [OF this] Cons.prems show ?case by simp
qed simp

lemma publishes_point: "publishes pids did po rs po1 \<Longrightarrow> publishes pids did po rs (on_reg (set_point k pid f) po1)"
  by (rule publishes_reg) (simp_all add: publishes_def)

lemma publishes_points:
  "publishes pids did po rs po1 \<Longrightarrow> publishes pids did po rs (fold (\<lambda>pid. on_reg (set_point k pid f)) c po1)"
  by (induction c arbitrary: po1) (simp_all add: publishes_point)

lemma publishes_lost:
  "publishes pids did po rs po1 \<Longrightarrow> set qs \<subseteq> set pids \<Longrightarrow>
     publishes pids did po (rs @ map (\<lambda>q. comm_lost_reading q stamp) qs) (fold (lose_point cov n k now stamp) qs po1)"
proof (induction qs arbitrary: rs po1)
  case (Cons q qs)
  then have "publishes pids did po (rs @ [comm_lost_reading q stamp]) (lose_point cov n k now stamp q po1)"
    unfolding lose_point_def by (intro publishes_point publishes_handle) (simp_all add: comm_lost_reading_def)
  from Cons.IH [OF this] Cons.prems show ?case by simp
qed simp


subsection \<open>The interface of the driver\<close>

locale point_reader =
  fixes read :: "uuid list \<Rightarrow> driver_error + reading list" and known :: "uuid set"
  assumes one_each: "chunk \<noteq> [] \<Longrightarrow> set chunk \<subseteq> known \<Longrightarrow> read chunk = Inr rs \<Longrightarrow> map rd_point_id rs = chunk"
begin

text \<open>The readings of a batch, those of the driver or the faults that stand for a refusal.\<close>

lemma batch_readings:
  assumes "chunk \<noteq> []" "set chunk \<subseteq> known"
  shows "map rd_point_id (case read chunk of Inr rs \<Rightarrow> rs | Inl _ \<Rightarrow> map (\<lambda>pid. fault_reading pid stamp) chunk) = chunk"
  using one_each [OF assms] by (cases "read chunk") (simp_all add: fault_reading_def comp_def)

lemma chunks_published:
  assumes "poll_chunks cov n read did now stamp cs po = (answered, unreachable, k, po')"
    and "publishes pids did po0 rs0 po" "[] \<notin> set cs" "set (concat cs) \<subseteq> known" "known \<subseteq> set pids"
  shows "\<exists>rs. publishes pids did po0 (rs0 @ rs) po' \<and> map rd_point_id rs = take k (concat cs) \<and>
    (if unreachable then k \<le> length (concat cs) else k = length (concat cs))"
  using assms
proof (induction cs arbitrary: po rs0 answered unreachable k po')
  case Nil
  then show ?case by (intro exI [of _ "[]"]) auto
next
  case (Cons c cs)
  show ?case
  proof (cases "read c = Inl Device_Unreachable")
    case True
    with Cons.prems show ?thesis by (intro exI [of _ "[]"]) auto
  next
    case False
    define readings where
      "readings = (case read c of Inr rs \<Rightarrow> rs | Inl _ \<Rightarrow> map (\<lambda>pid. fault_reading pid stamp) c)"
    define po2 where "po2 = fold (\<lambda>pid. on_reg (set_point did pid (\<lambda>p. p\<lparr>ps_next_due := now + interval cov p\<rparr>))) c
        (fold (po_handle n now) readings po)"
    obtain a u j po3 where rest: "poll_chunks cov n read did now stamp cs po2 = (a, u, j, po3)"
      by (metis prod_cases4)
    have "poll_chunks cov n read did now stamp (c # cs) po = (True, u, length c + j, po3)"
      using False rest
      by (cases "read c") (auto simp: readings_def po2_def Let_def split: driver_error.splits)
    with Cons.prems(1) have res: "unreachable = u" "k = length c + j" "po' = po3" by simp_all
    have ids: "map rd_point_id readings = c"
      unfolding readings_def using Cons.prems by (intro batch_readings) auto
    have "publishes pids did po0 (rs0 @ readings) po2"
      unfolding po2_def using Cons.prems by (intro publishes_points publishes_handles) (auto simp: ids)
    from Cons.IH [OF rest this] Cons.prems obtain rs
      where "publishes pids did po0 ((rs0 @ readings) @ rs) po3" "map rd_point_id rs = take j (concat cs)"
        "if u then j \<le> length (concat cs) else j = length (concat cs)" by auto
    with ids res show ?thesis by (intro exI [of _ "readings @ rs"]) (auto simp: take_add)
  qed
qed

end

subsection \<open>After the batches\<close>

lemma published_on_reg [simp]: "rc_published (po_rec (on_reg f po)) = rc_published (po_rec po)"
  by (simp add: on_reg_def)

lemma published_status [simp]:
  "rc_published (po_rec (publish_status did online now stamp po)) = rc_published (po_rec po)"
  by (simp add: publish_status_def po_io_def on_reg_def Let_def split_beta split: list.splits)

lemma published_success [simp]: "rc_published (po_rec (on_success did now stamp po)) = rc_published (po_rec po)"
  by (simp add: on_success_def touch_last_seen_def po_io_def Let_def split_beta split: option.splits list.splits)

lemma publishes_device:
  assumes "publishes pids did po rs po1" "\<And>d. dict_keys (ds_points (f d)) = dict_keys (ds_points d)"
  shows "publishes pids did po rs (on_reg (set_device k f) po1)"
  using assms
  by (intro publishes_reg) (simp_all add: publishes_def registry_wf_set_device device_points_set_device)

lemma publishes_status:
  "publishes pids did po rs po1 \<Longrightarrow> publishes pids did po rs (publish_status k online now stamp po1)"
  using publishes_device [of pids did po rs po1 "\<lambda>d. d\<lparr>ds_last_seen_written := now\<rparr>" k]
  by (simp add: publishes_def)

text \<open>After a failed cycle every point not done is published as lost, or every point of the device.\<close>

lemma failure_published:
  assumes "publishes pids did po rs po1" "map_of (po_reg po1) did = Some d" "set points \<subseteq> set pids"
  shows "rc_published (po_rec (on_failure cfg cov n did now stamp points po1)) = rc_published (po_rec po) @ rs @
    map (\<lambda>q. comm_lost_reading q stamp)
      (if ds_online d \<and> ds_failures d + 1 \<ge> pc_offline_after_cycles cfg then pids else points)"
proof -
  have pids: "dict_keys (ds_points d) = pids" using assms(1,2) by (simp add: publishes_def device_points_def)
  note steps = publishes_lost publishes_device publishes_status
  show ?thesis
  proof (cases "ds_online d \<and> ds_failures d + 1 \<ge> pc_offline_after_cycles cfg")
    case True
    have "publishes pids did po (rs @ map (\<lambda>q. comm_lost_reading q stamp) pids) (on_failure cfg cov n did now stamp points po1)"
      using True assms pids
      by (simp add: on_failure_def Let_def) (intro steps, simp_all add: set_all_points_def split_beta comp_def)
    with True show ?thesis by (simp add: publishes_def)
  next
    case False
    have "publishes pids did po (rs @ map (\<lambda>q. comm_lost_reading q stamp) points) (on_failure cfg cov n did now stamp points po1)"
      using assms by (simp add: on_failure_def Let_def if_not_P [OF False] del: de_Morgan_conj) (intro steps, simp_all)
    with False show ?thesis by (auto simp: publishes_def)
  qed
qed

definition goes_offline :: "registry \<Rightarrow> registry \<Rightarrow> uuid \<Rightarrow> bool" where
  "goes_offline reg reg' did \<longleftrightarrow>
     map_option snd (link reg did) = Some True \<and> map_option snd (link reg' did) = Some False"

context point_reader
begin

lemma cycle_published:
  assumes "registry_wf (po_reg po)" "map_of (po_reg po) did = Some d" "0 < pc_batch_size cfg"
    and "set points \<subseteq> known" "known \<subseteq> set (dict_keys (ds_points d))"
    and po'_def: "po' = poll_cycle cfg cov n read did now now' stamp points po"
  shows "\<exists>rs. rc_published (po_rec po') = rc_published (po_rec po) @ rs \<and>
    (if goes_offline (po_reg po) (po_reg po') did
     then \<exists>k. map rd_point_id rs = take k points @ dict_keys (ds_points d)
     else map rd_point_id rs = points)"
proof -
  let ?pids = "dict_keys (ds_points d)"
  let ?po1 = "on_reg (set_device did (\<lambda>d. d\<lparr>ds_last_attempt := now\<rparr>)) po"
  have "publishes ?pids did po [] po"
    using assms(1,2) by (simp add: publishes_def device_points_def)
  then have start: "publishes ?pids did po [] ?po1" by (rule publishes_device) simp
  obtain a u k po2 where c: "poll_chunks cov n read did now stamp (chunks (pc_batch_size cfg) points) ?po1 =
      (a, u, k, po2)" by (metis prod_cases4)
  have "[] \<notin> set (chunks (pc_batch_size cfg) points)" using chunks_length by fastforce
  note batches = chunks_published [OF c start this, unfolded concat_chunks [OF assms(3)]]
  from batches [OF assms(4,5)] obtain rs where
    rs: "publishes ?pids did po rs po2" "map rd_point_id rs = take k points"
      "if u then k \<le> length points else k = length points" unfolding append_Nil by blast
  have link2: "link (po_reg po2) did = link (po_reg po) did"
    using link_poll_chunks [OF c, of did] by (simp add: link_set_device)
  then obtain d2 where d2: "map_of (po_reg po2) did = Some d2" "ds_online d2 = ds_online d" "ds_failures d2 = ds_failures d"
    using assms(2) by (auto simp: link_def)
  show ?thesis
  proof (cases u)
    case True
    then have po': "po' = on_failure cfg cov n did now' stamp (drop k points) po2"
      using c by (simp add: po'_def poll_cycle_def)
    have "link (po_reg po') did = Some (link_step (pc_offline_after_cycles cfg) Lost (ds_failures d, ds_online d))"
      unfolding po' by (rule link_failure) (simp add: link_def d2)
    then have off: "goes_offline (po_reg po) (po_reg po') did \<longleftrightarrow>
        ds_online d \<and> ds_failures d + 1 \<ge> pc_offline_after_cycles cfg"
      using assms(2) by (auto simp: goes_offline_def link_def)
    have "set (drop k points) \<subseteq> set ?pids" using assms(4,5) set_drop_subset [of k points] by blast
    from failure_published [OF rs(1) d2(1) this, of cfg cov n now' stamp] show ?thesis
      unfolding po' [symmetric] off by (auto simp: d2 rs(2) comm_lost_reading_def comp_def)
  next
    case False
    have "goes_offline (po_reg po) (po_reg po') did = False"
      using c False link2 link_success [of po2 did "(ds_failures d, ds_online d)" now' stamp 0]
      by (auto simp: goes_offline_def po'_def poll_cycle_def Let_def link_def d2 assms(2))
    moreover have "rc_published (po_rec po') = rc_published (po_rec po) @ rs"
      using c False rs(1) by (simp add: po'_def poll_cycle_def publishes_def)
    ultimately show ?thesis using False rs by simp
  qed
qed

end

text \<open>The driver keeps that promise for the points of a device.\<close>

interpretation driver: point_reader "read_points one rpm asked unsupported d" "known_refs d"
  for one rpm asked unsupported d
proof
  fix chunk rs
  assume c: "chunk \<noteq> []" "set chunk \<subseteq> known_refs d" "read_points one rpm asked unsupported d chunk = Inr rs"
  have ids: "map pr_point_id (refs_of d chunk) = chunk"
    and inst: "\<forall>r \<in> set (refs_of d chunk). pr_device_instance r = ds_instance d"
    using refs_of_known [OF c(2)] by blast+
  have "refs_of d chunk \<noteq> []" using c(1) ids by auto
  from driver_readings [OF c(3) [unfolded read_points_def] this inst] ids
  show "map rd_point_id rs = chunk" by simp
qed

text \<open>The references of a registry loaded from the database are those of its points.\<close>

lemma loaded_refs_ok:
  assumes "map_of (loaded_registry old nid dflt db) did = Some d" "dict_wf (db_devices db)"
  shows "refs_ok d"
proof -
  have wf: "dict_wf (load_devices nid dflt db)" using assms(2) by (rule load_devices_keys)
  from assms(1) obtain e where e: "(did, e) \<in> set (load_devices nid dflt db)" "d = replaced_device old did e"
    unfolding loaded_registry_def replace_eq [OF wf]
    by (auto dest!: map_of_SomeD)
  then show ?thesis
    by (auto simp: refs_ok_def list_all_iff load_devices_set loaded_device_def replaced_device_def
        keep_device_def Let_def point_state_of_def split: option.splits)
qed

subsection \<open>One turn of the loop of a device\<close>

lemma spread_keys [simp]: "dict_keys (ds_points (spread now jitter d)) = dict_keys (ds_points d)"
  by (simp add: spread_def split_beta comp_def)

lemma set_earliest: "set (earliest xs) \<subseteq> set xs"
  by (induction xs rule: earliest.induct) (auto split: list.splits)

lemma due_points_known: "set (fst (due_points cfg now jitter d)) \<subseteq> set (dict_keys (ds_points d))"
proof -
  let ?points = "ds_points (spread now jitter d)"
  have keys: "set (map fst ?points) = set (dict_keys (ds_points d))" by (simp only: spread_keys)
  have "fst (hd ?points) \<in> set (map fst ?points)" if "ds_points d \<noteq> []"
    unfolding set_map using that by (intro imageI hd_in_set) (simp add: spread_def)
  then have hd: "ds_points d \<noteq> [] \<Longrightarrow> fst (hd ?points) \<in> set (dict_keys (ds_points d))"
    unfolding keys .
  have "set (map fst (earliest ?points)) \<subseteq> set (dict_keys (ds_points d))"
    and "set (map fst (List.filter f ?points)) \<subseteq> set (dict_keys (ds_points d))" for f
    unfolding set_map keys [unfolded set_map, symmetric]
    by (intro image_mono set_earliest filter_is_subset)+
  with hd show ?thesis unfolding due_points_def Let_def by (auto split del: if_split split: if_splits)
qed

lemma due_points_device:
  "dict_keys (ds_points (snd (due_points cfg now jitter d))) = dict_keys (ds_points d) \<and>
   ds_online (snd (due_points cfg now jitter d)) = ds_online d \<and>
   ds_failures (snd (due_points cfg now jitter d)) = ds_failures d"
proof -
  have "snd (due_points cfg now jitter d) = (if ds_points d = [] then d else spread now jitter d)"
    by (simp add: due_points_def Let_def)
  then show ?thesis by (simp add: spread_def split_beta comp_def)
qed

lemma set_device_const:
  assumes "map_of reg did = Some d" "dict_wf reg"
  shows "set_device did (\<lambda>_. e) reg = set_device did (\<lambda>x. if x = d then e else x) reg"
proof -
  have "x = d" if "(did, x) \<in> set reg" for x using map_of_is_SomeI [OF assms(2) that] assms(1) by simp
  then show ?thesis by (auto simp: set_device_def)
qed

text \<open>
  C13. Every due point gets its reading: one turn of the loop of a device publishes exactly one reading
  for each point that is due, in order, whether its batch is answered (by a grouped reading or one
  property at a time), refused, or lost; when the turn takes the device offline, the points of the batches
  answered before are followed by all the points of the device. \<open>fst (due_points \<dots>)\<close> are the points due.
\<close>

theorem every_due_point_read:
  assumes "registry_wf (po_reg po)" "map_of (po_reg po) did = Some d" "refs_ok d" "0 < pc_batch_size cfg"
    and "po' = device_turn cfg cov n (read_points one rpm asked unsupported d) jitter did now now' stamp po"
  shows "\<exists>rs. rc_published (po_rec po') = rc_published (po_rec po) @ rs \<and>
    (if goes_offline (po_reg po) (po_reg po') did
     then \<exists>k. map rd_point_id rs = take k (fst (due_points cfg now jitter d)) @ dict_keys (ds_points d)
     else map rd_point_id rs = fst (due_points cfg now jitter d))"
proof -
  obtain due d1 where due: "due_points cfg now jitter d = (due, d1)" by fastforce
  note d1 = due_points_device [of cfg now jitter d, unfolded due snd_conv]
  let ?po1 = "on_reg (set_device did (\<lambda>_. d1)) po"
  have dwf: "dict_wf (po_reg po)" using assms(1) by (simp add: registry_wf_def)
  have wf1: "registry_wf (po_reg ?po1)"
    using assms(1) d1 by (simp add: set_device_const [OF assms(2) dwf] registry_wf_set_device)
  have get1: "map_of (po_reg ?po1) did = Some d1" using assms(2) by simp
  have link1: "link (po_reg ?po1) did = link (po_reg po) did" using get1 assms(2) d1 by (simp add: link_def)
  have offline: "goes_offline (po_reg ?po1) reg did = goes_offline (po_reg po) reg did" for reg
    unfolding goes_offline_def link1 ..
  have known: "known_refs d = set (dict_keys (ds_points d1))" using assms(3) d1 by (simp add: known_refs_def)
  show ?thesis
  proof (cases "due = []")
    case True
    then have "po' = ?po1" using assms(2,5) due by (simp add: device_turn_def)
    then show ?thesis using True link1 by (auto simp: due goes_offline_def)
  next
    case False
    then have po': "po' = poll_cycle cfg cov n (read_points one rpm asked unsupported d) did now now' stamp due ?po1"
      using assms(2,5) due by (simp add: device_turn_def)
    have "set due \<subseteq> known_refs d" using due_points_known [of cfg now jitter d] d1 by (simp add: due known)
    from driver.cycle_published [OF wf1 get1 assms(4) this _ po'] d1
    show ?thesis unfolding offline known due by (simp only: published_on_reg fst_conv subset_refl simp_thms)
  qed
qed

theorem every_due_point_read_witness:
  "\<exists>rs. rc_published (po_rec (device_turn default_polling default_cov 500
       (read_points (\<lambda>_ _. example_one) (\<lambda>_ _. example_rpm) (\<lambda>_. 5) (\<lambda>_. []) example_device)
       (\<lambda>_. 0) 2 10 13 0 (example_poller 0))) = rs \<and> map rd_point_id rs = [3]"
proof -
  let ?po = "example_poller 0"
  let ?d = "example_device\<lparr>ds_failures := 0\<rparr>"
  let ?read = "read_points (\<lambda>_ _. example_one) (\<lambda>_ _. example_rpm) (\<lambda>_. 5) (\<lambda>_. []) ?d"
  let ?po' = "device_turn default_polling default_cov 500 ?read (\<lambda>_. 0) 2 10 13 0 ?po"
  have d: "map_of (po_reg ?po) 2 = Some ?d" "registry_wf (po_reg ?po)" "refs_ok ?d"
    "rc_published (po_rec ?po) = []" "?d = example_device"
    by (simp_all add: example_poller_def recorder_init_def example_device_def example_point_def registry_wf_def point_ids_def
        refs_ok_def)
  have b: "0 < pc_batch_size default_polling" by (simp add: default_polling_def)
  have due: "fst (due_points default_polling 10 (\<lambda>_. 0) ?d) = [3]" by code_simp
  have off: "\<not> goes_offline (po_reg ?po) (po_reg ?po') 2" by code_simp
  from every_due_point_read [OF d(2,1,3) b refl, of default_cov 500 "\<lambda>_ _. example_one" "\<lambda>_ _. example_rpm" "\<lambda>_. 5"
      "\<lambda>_. []" "\<lambda>_. 0" 10 13 0] show ?thesis
    using off due by (simp add: d(4,5))
qed

end
