(* ===== verification/Collector_Service.thy ===== *)
theory Collector_Service
  imports Collector_Readings
begin

section \<open>Starting and stopping the collector\<close>

text \<open>
  \<open>app/collector/bacnet_driver.py\<close> (life cycle, notifications), the fields of \<open>app/collector/config.py\<close> it uses, and
  the end of \<open>run\<close> in \<open>app/collector/main.py\<close>. The stack that is given the objects is bacpypes3: what it
  does with them is not described here.
\<close>

subsection \<open>The objects of the stack\<close>

record bbmd_config =
  bb_enabled :: bool
  bb_address :: string
  bb_ttl :: int

record network_config =
  nc_name :: string
  nc_bind_ip :: string
  nc_port :: int
  nc_device_instance :: int
  nc_bbmd :: bbmd_config

record request_config = polling_config +
  pc_max_concurrent_requests :: nat
  pc_timeout_s :: time
  pc_retries :: int

record device_object =
  do_identifier :: object_key
  do_name :: string
  do_vendor :: int
  do_apdu_timeout :: int
  do_retries :: int

record port_object =
  po_address :: string
  po_identifier :: object_key
  po_name :: string
  po_network :: int
  po_quality :: string
  po_foreign :: "(string \<times> int) option"

definition device_object_of :: "network_config \<Rightarrow> request_config \<Rightarrow> device_object" where
  "device_object_of net pc =
     \<lparr>do_identifier = (''device'', nc_device_instance net), do_name = ''ZAKLOK-Supervisor'', do_vendor = 999,
      do_apdu_timeout = trunc (pc_timeout_s pc * 1000), do_retries = pc_retries pc\<rparr>"

definition port_object_of :: "network_config \<Rightarrow> port_object" where
  "port_object_of net =
     \<lparr>po_address = nc_bind_ip net @ '':'' @ int_str (nc_port net), po_identifier = (''network-port'', 1),
      po_name = ''NetworkPort-1'', po_network = 0, po_quality = ''unknown'',
      po_foreign = (if bb_enabled (nc_bbmd net) then Some (bb_address (nc_bbmd net), bb_ttl (nc_bbmd net)) else None)\<rparr>"

definition deadline_s :: "request_config \<Rightarrow> time" where
  "deadline_s pc = pc_timeout_s pc * of_int (pc_retries pc + 1) + 2"

text \<open>
  The deadline of an exchange leaves the stack the time of every attempt it is configured for, with two
  seconds left: a device that does not answer is reported by the stack or by the deadline, never cut short.
\<close>

lemma deadline_covers_attempts:
  assumes "0 \<le> pc_timeout_s pc" "0 \<le> pc_retries pc"
  shows "of_int (do_apdu_timeout (device_object_of net pc)) / 1000 * of_int (do_retries (device_object_of net pc) + 1) + 2
    \<le> deadline_s pc"
proof -
  have "of_int (trunc (pc_timeout_s pc * 1000)) \<le> pc_timeout_s pc * 1000"
    using assms(1) by (simp add: trunc_def)
  then have "of_int (trunc (pc_timeout_s pc * 1000)) / 1000 * of_int (pc_retries pc + 1) \<le>
      pc_timeout_s pc * of_int (pc_retries pc + 1)"
    using assms(2) by (intro mult_right_mono) simp_all
  then show ?thesis by (simp add: deadline_s_def device_object_of_def)
qed

subsection \<open>The life of the driver\<close>

text \<open>\<open>dl_app\<close> is the application in use, \<open>dl_closed\<close> those that were closed.\<close>

record driver_life =
  dl_app :: "(device_object \<times> port_object) option"
  dl_closed :: nat

definition driver_new :: driver_life where
  "driver_new = \<lparr>dl_app = None, dl_closed = 0\<rparr>"

definition driver_start :: "network_config \<Rightarrow> request_config \<Rightarrow> driver_life \<Rightarrow> driver_life" where
  "driver_start net pc dl = dl\<lparr>dl_app := Some (device_object_of net pc, port_object_of net)\<rparr>"

definition driver_stop :: "driver_life \<Rightarrow> driver_life" where
  "driver_stop dl = (case dl_app dl of None \<Rightarrow> dl | Some _ \<Rightarrow> dl\<lparr>dl_app := None, dl_closed := dl_closed dl + 1\<rparr>)"

definition driver_app :: "driver_life \<Rightarrow> driver_error + (device_object \<times> port_object)" where
  "driver_app dl = (case dl_app dl of None \<Rightarrow> Inl Driver_Error | Some a \<Rightarrow> Inr a)"

lemma stopped_driver_refuses: "driver_app (driver_stop dl) = Inl Driver_Error"
  by (simp add: driver_app_def driver_stop_def split: option.split)

lemma driver_stop_twice: "driver_stop (driver_stop dl) = driver_stop dl"
  by (simp add: driver_stop_def split: option.split)

subsection \<open>Notifications\<close>

text \<open>
  The four services of \<open>CollectorApplication\<close>: the handler, if there is one, then the acknowledgement of a
  confirmed service. A handler returns \<open>None\<close> when it raises; \<open>acked\<close> counts the acknowledgements sent.
\<close>

datatype stack_service = Confirmed_Event | Unconfirmed_Event | Confirmed_COV | Unconfirmed_COV

record ('a, 's) application =
  ap_cov_handler :: "('a \<Rightarrow> 's \<Rightarrow> 's option) option"
  ap_event_handler :: "('a \<Rightarrow> 's \<Rightarrow> 's option) option"

definition handled_by :: "('a \<Rightarrow> 's \<Rightarrow> 's option) option \<Rightarrow> 'a \<Rightarrow> 's \<Rightarrow> 's option" where
  "handled_by h apdu s = (case h of None \<Rightarrow> Some s | Some f \<Rightarrow> f apdu s)"

definition then_ack :: "('s \<times> nat) option \<Rightarrow> ('s \<times> nat) option" where
  "then_ack r = map_option (\<lambda>(s, acked). (s, acked + 1)) r"

fun do_request :: "('a, 's) application \<Rightarrow> stack_service \<Rightarrow> 'a \<Rightarrow> 's \<times> nat \<Rightarrow> ('s \<times> nat) option" where
  "do_request app Confirmed_Event apdu (s, acked) =
     then_ack (map_option (\<lambda>s'. (s', acked)) (handled_by (ap_event_handler app) apdu s))"
| "do_request app Unconfirmed_Event apdu (s, acked) =
     map_option (\<lambda>s'. (s', acked)) (handled_by (ap_event_handler app) apdu s)"
| "do_request app Confirmed_COV apdu (s, acked) =
     then_ack (map_option (\<lambda>s'. (s', acked)) (handled_by (ap_cov_handler app) apdu s))"
| "do_request app Unconfirmed_COV apdu (s, acked) =
     map_option (\<lambda>s'. (s', acked)) (handled_by (ap_cov_handler app) apdu s)"

text \<open>The callbacks of \<open>_on_cov\<close> and \<open>_on_event\<close>: in the order of their registration, until one raises.\<close>

fun notify :: "('r \<Rightarrow> 's \<Rightarrow> 's option) list \<Rightarrow> 'r \<Rightarrow> 's \<Rightarrow> 's option" where
  "notify [] r s = Some s"
| "notify (f # fs) r s = (case f r s of None \<Rightarrow> None | Some s' \<Rightarrow> notify fs r s')"

lemma notify_append:
  "notify (fs @ gs) r s = (case notify fs r s of None \<Rightarrow> None | Some s' \<Rightarrow> notify gs r s')"
  by (induction fs arbitrary: s) (simp_all split: option.split)

text \<open>
  An acknowledgement is sent exactly for a confirmed notification whose handler has done its work:
  nothing is acknowledged before it is taken into account.
\<close>

lemma acknowledged_once_handled:
  "do_request app svc apdu (s, acked) = Some (s', acked') \<longleftrightarrow>
     handled_by (if svc \<in> {Confirmed_Event, Unconfirmed_Event} then ap_event_handler app else ap_cov_handler app) apdu s
       = Some s' \<and>
     acked' = (if svc \<in> {Confirmed_Event, Confirmed_COV} then acked + 1 else acked)"
  by (cases svc) (auto simp: then_ack_def)

subsection \<open>Stopping\<close>

text \<open>
  A signal, or a job that ends, cancels every job; then the recorder is flushed once more. A job may be in
  the middle of \<open>flush\<close>: its \<open>CancelledError\<close> is not an \<open>Exception\<close>, so the rows it took are
  not put back, and they are in the database only if the transaction was already committed.
\<close>

definition flush_cancelled :: "bool \<Rightarrow> recorder \<Rightarrow> recorder" where
  "flush_cancelled committed rc =
     (case rc_inflight rc of
        None \<Rightarrow> rc
      | Some (samples, latest) \<Rightarrow>
          (case (if committed then write_samples samples latest (rc_db rc) else None) of
             Some db \<Rightarrow> rc\<lparr>rc_inflight := None, rc_db := db\<rparr>
           | None \<Rightarrow> rc\<lparr>rc_inflight := None\<rparr>))"

definition recorder_stop :: "bool \<Rightarrow> bool \<Rightarrow> recorder \<Rightarrow> recorder" where
  "recorder_stop committed up rc = flush_end up (flush_begin (flush_cancelled committed rc))"

definition written_keys :: "recorder \<Rightarrow> (uuid \<times> time) list" where
  "written_keys rc = map sample_key (db_samples (rc_db rc))"

definition rows_known :: "recorder \<Rightarrow> bool" where
  "rows_known rc \<longleftrightarrow> list_all (\<lambda>s. map_of (db_points (rc_db rc)) (sa_point_id s) \<noteq> None)
     (rc_samples rc @ map snd (rc_latest rc) @ (case rc_inflight rc of None \<Rightarrow> [] | Some (ss, ls) \<Rightarrow> ss @ ls))"

lemma write_samples_known:
  "list_all (\<lambda>s. map_of (db_points db) (sa_point_id s) \<noteq> None) (ss @ ls) \<Longrightarrow>
     \<exists>db'. write_samples ss ls db = Some db' \<and> db_points db' = db_points db"
  by (auto simp: write_samples_def list_all_iff)

lemma kept_keys_lists:
  "kept_keys rc = set (map sample_key (db_samples (rc_db rc))) \<union> set (map sample_key (inflight_samples rc)) \<union>
     set (map sample_key (rc_samples rc))"
  by (auto simp: kept_keys_def)

lemma kept_without_flush:
  "kept_keys (rc\<lparr>rc_inflight := None\<rparr>) =
     set (map sample_key (db_samples (rc_db rc))) \<union> set (map sample_key (rc_samples rc))"
  by (simp add: kept_keys_lists inflight_samples_def)

lemma flush_cancelled_kept:
  assumes "rows_known rc"
  shows "rc_inflight (flush_cancelled committed rc) = None \<and> rows_known (flush_cancelled committed rc) \<and>
    kept_keys (flush_cancelled committed rc) =
      (if committed then kept_keys rc else kept_keys (rc\<lparr>rc_inflight := None\<rparr>))"
proof (cases "rc_inflight rc")
  case None
  then show ?thesis using assms by (simp add: flush_cancelled_def kept_without_flush kept_keys_lists inflight_samples_def)
next
  case (Some sl)
  obtain ss ls where sl: "sl = (ss, ls)" by (cases sl)
  from assms Some sl obtain db where db: "write_samples ss ls (rc_db rc) = Some db" "db_points db = db_points (rc_db rc)"
    using write_samples_known [of "rc_db rc" ss ls] by (auto simp: rows_known_def)
  show ?thesis
    using assms Some sl db write_samples_keys [OF db(1)]
    by (auto simp: flush_cancelled_def rows_known_def kept_keys_def inflight_samples_def image_Un)
qed

lemma last_flush:
  assumes "rows_known rc" "rc_inflight rc = None"
  shows "set (written_keys (flush_end True (flush_begin rc))) = kept_keys rc \<and>
    buffered (flush_end True (flush_begin rc)) = 0 \<and> rc_latest (flush_end True (flush_begin rc)) = []"
proof (cases "rc_samples rc = [] \<and> rc_latest rc = []")
  case True
  then show ?thesis
    using assms(2) by (simp add: flush_begin_def flush_end_def written_keys_def kept_keys_def inflight_samples_def buffered_def)
next
  case False
  from assms obtain db where db: "write_samples (rc_samples rc) (map snd (rc_latest rc)) (rc_db rc) = Some db"
    using write_samples_known [of "rc_db rc" "rc_samples rc" "map snd (rc_latest rc)"] by (auto simp: rows_known_def)
  have "flush_begin rc = rc\<lparr>rc_inflight := Some (rc_samples rc, map snd (rc_latest rc)), rc_samples := [], rc_latest := []\<rparr>"
    using False assms(2) by (auto simp: flush_begin_def)
  then show ?thesis
    using db assms(2) write_samples_keys [OF db]
    by (simp add: flush_end_def written_keys_def kept_keys_def inflight_samples_def buffered_def image_Un)
qed


definition stopping_recorder :: recorder where
  "stopping_recorder = (snd (handle 500 9 (example_reading 9 30) (flush_begin (snd (handle 500 7 (example_reading 7 20)
     (recorder_init example_registry example_history))))))"


end
