(* ===== verification/Driver_Calls.thy ===== *)
theory Driver_Calls
  imports Prelude
begin

section \<open>Requests that share the network\<close>

text \<open>
  \<open>BacnetDriver._call\<close> of \<open>app/collector/bacnet_driver.py\<close>: each exchange with a device waits for the lock of the
  device, then for one of \<open>max_concurrent_requests\<close> places, sends its request and ends with an answer,
  an error or a timeout. Pollers, discovery, writes and subscriptions call it at the same time: the state is the calls
  that have not ended, by identifier, with their device and how far they are. The order in which waiting
  calls are served is left open.
\<close>

datatype call_phase = Waiting | Locked | In_Flight

type_synonym calls = "(nat, int \<times> call_phase) dict"

definition calls_in :: "call_phase \<Rightarrow> calls \<Rightarrow> nat" where
  "calls_in ph s = length (List.filter (\<lambda>(c, i, p). p = ph) s)"

definition lock_free :: "int \<Rightarrow> calls \<Rightarrow> bool" where
  "lock_free i s \<longleftrightarrow> list_all (\<lambda>(c, j, p). j = i \<longrightarrow> p = Waiting) s"

text \<open>What a call does by itself: taking the lock, taking a place, ending.\<close>

inductive call_moves :: "nat \<Rightarrow> calls \<Rightarrow> calls \<Rightarrow> bool" for places where
  lock: "map_of s c = Some (i, Waiting) \<Longrightarrow> lock_free i s \<Longrightarrow>
    call_moves places s (AList.update c (i, Locked) s)"
| place: "map_of s c = Some (i, Locked) \<Longrightarrow> calls_in In_Flight s < places \<Longrightarrow>
    call_moves places s (AList.update c (i, In_Flight) s)"
| ended: "map_of s c = Some (i, In_Flight) \<Longrightarrow> call_moves places s (AList.delete c s)"

text \<open>What happens to the driver: a new call, a move of a call, the cancellation of its task.\<close>

inductive driver_step :: "nat \<Rightarrow> calls \<Rightarrow> calls \<Rightarrow> bool" for places where
  arrives: "map_of s c = None \<Longrightarrow> driver_step places s (s @ [(c, i, Waiting)])"
| moves: "call_moves places s s' \<Longrightarrow> driver_step places s s'"
| cancelled: "map_of s c \<noteq> None \<Longrightarrow> driver_step places s (AList.delete c s)"

inductive_cases call_movesE: "call_moves places s s'"
inductive_cases driver_stepE: "driver_step places s s'"

inductive driver_runs :: "nat \<Rightarrow> calls \<Rightarrow> bool" for places where
  started: "driver_runs places []"
| step: "driver_runs places s \<Longrightarrow> driver_step places s s' \<Longrightarrow> driver_runs places s'"

subsection \<open>One request at a time for a device, a bounded number in all\<close>

definition holders :: "int \<Rightarrow> calls \<Rightarrow> nat list" where
  "holders i s = map fst (List.filter (\<lambda>(c, j, p). j = i \<and> p \<noteq> Waiting) s)"

definition calls_ok :: "nat \<Rightarrow> calls \<Rightarrow> bool" where
  "calls_ok places s \<longleftrightarrow> dict_wf s \<and> calls_in In_Flight s \<le> places \<and> (\<forall>i. length (holders i s) \<le> 1)"

lemma filter_update:
  assumes "dict_wf s" "map_of s c = Some v"
  shows "length (List.filter P (AList.update c w s)) + (if P (c, v) then 1 else 0) =
    length (List.filter P s) + (if P (c, w) then 1 else 0)"
  using assms
proof (induction s)
  case (Cons x s)
  show ?case
  proof (cases "fst x = c")
    case True
    then have "c \<notin> fst ` set s" using Cons.prems(1) by simp
    with True Cons.prems(2) show ?thesis by (cases x) auto
  next
    case False
    with Cons show ?thesis by (cases x) auto
  qed
qed simp

lemma filter_delete: "length (List.filter P (AList.delete c s)) \<le> length (List.filter P s)"
  unfolding AList.delete_eq by (induction s) auto

lemma lock_free_holders: "lock_free i s \<longleftrightarrow> holders i s = []"
  by (auto simp: lock_free_def holders_def list_all_iff filter_empty_conv)

lemma length_holders: "length (holders i s) = length (List.filter (\<lambda>(c, j, p). j = i \<and> p \<noteq> Waiting) s)"
  by (simp add: holders_def)

lemma calls_ok_delete:
  assumes "calls_ok places s" shows "calls_ok places (AList.delete c s)"
proof -
  have "dict_wf (AList.delete c s)" using assms by (simp add: calls_ok_def)
  moreover have "calls_in In_Flight (AList.delete c s) \<le> calls_in In_Flight s"
    unfolding calls_in_def by (rule filter_delete)
  then have "calls_in In_Flight (AList.delete c s) \<le> places" using assms by (simp add: calls_ok_def)
  moreover have "length (holders i (AList.delete c s)) \<le> 1" for i
  proof -
    have "length (holders i (AList.delete c s)) \<le> length (holders i s)"
      unfolding length_holders by (rule filter_delete)
    moreover have "length (holders i s) \<le> 1" using assms by (simp add: calls_ok_def)
    ultimately show ?thesis by (rule le_trans)
  qed
  ultimately show ?thesis by (simp add: calls_ok_def)
qed

lemma calls_ok_moves:
  assumes ok: "calls_ok places s" and "call_moves places s s'"
  shows "calls_ok places s'"
  using assms(2)
proof cases
  case (lock c i)
  have wf: "dict_wf s" using ok by (simp add: calls_ok_def)
  have h: "length (holders j s') = length (holders j s) + (if j = i then 1 else 0)" for j
    using filter_update [OF wf lock(2), of "\<lambda>(c, k, p). k = j \<and> p \<noteq> Waiting" "(i, Locked)"] lock(1)
    by (simp add: length_holders)
  have "calls_in In_Flight s' = calls_in In_Flight s"
    using filter_update [OF wf lock(2), of "\<lambda>(c, k, p). p = In_Flight" "(i, Locked)"] lock(1) by (simp add: calls_in_def)
  then show ?thesis using ok wf lock(1,3) unfolding calls_ok_def h by (simp add: lock_free_holders)
next
  case (place c i)
  have wf: "dict_wf s" using ok by (simp add: calls_ok_def)
  have h: "length (holders j s') = length (holders j s)" for j
    using filter_update [OF wf place(2), of "\<lambda>(c, k, p). k = j \<and> p \<noteq> Waiting" "(i, In_Flight)"] place(1)
    by (simp add: length_holders)
  have "calls_in In_Flight s' = Suc (calls_in In_Flight s)"
    using filter_update [OF wf place(2), of "\<lambda>(c, k, p). p = In_Flight" "(i, In_Flight)"] place(1) by (simp add: calls_in_def)
  then show ?thesis using ok wf place(1,3) unfolding calls_ok_def h by simp
next
  case (ended c i)
  then show ?thesis using calls_ok_delete [OF ok] by simp
qed

lemma calls_ok_step: "driver_step places s s' \<Longrightarrow> calls_ok places s \<Longrightarrow> calls_ok places s'"
proof (erule driver_stepE)
  fix c i assume "calls_ok places s" "s' = s @ [(c, i, Waiting)]" "map_of s c = None"
  then show "calls_ok places s'"
    by (auto simp: calls_ok_def length_holders calls_in_def map_of_eq_None_iff)
qed (auto intro: calls_ok_moves calls_ok_delete)

lemma driver_runs_ok: "driver_runs places s \<Longrightarrow> calls_ok places s"
proof (induction rule: driver_runs.induct)
  case started
  then show ?case by (simp add: calls_ok_def calls_in_def holders_def)
next
  case (step s s')
  then show ?case by (blast intro: calls_ok_step)
qed

subsection \<open>Every call is served\<close>

text \<open>The moves a call still has to make.\<close>

fun moves_left :: "call_phase \<Rightarrow> nat" where
  "moves_left Waiting = 3"
| "moves_left Locked = 2"
| "moves_left In_Flight = 1"

definition work :: "calls \<Rightarrow> nat" where
  "work s = sum_list (map (\<lambda>(c, i, p). moves_left p) s)"

lemma work_update:
  assumes "dict_wf s" "map_of s c = Some (i, p)"
  shows "work (AList.update c (i, q) s) + moves_left p = work s + moves_left q"
  using assms by (induction s) (auto simp: work_def split: if_splits)

lemma work_delete:
  assumes "dict_wf s" "map_of s c = Some (i, p)"
  shows "work (AList.delete c s) + moves_left p = work s"
  using assms
proof (induction s)
  case (Cons x s)
  show ?case
  proof (cases "fst x = c")
    case True
    then have "AList.delete c s = s" using Cons.prems(1) by (simp add: delete_id)
    with True Cons.prems(2) show ?thesis by (cases x) (simp add: work_def)
  next
    case False
    with Cons show ?thesis by (cases x) (simp add: work_def)
  qed
qed simp

lemma moves_work: "call_moves places s s' \<Longrightarrow> dict_wf s \<Longrightarrow> Suc (work s') = work s"
proof (induction rule: call_moves.induct)
  case (lock s c i)
  with work_update [of s c i Waiting Locked] show ?case by simp
next
  case (place s c i)
  with work_update [of s c i Locked In_Flight] show ?case by simp
next
  case (ended s c i)
  with work_delete [of s c i In_Flight] show ?case by simp
qed

text \<open>As long as a call has not ended, one of them can move.\<close>

lemma some_call_moves:
  assumes ok: "calls_ok places s" and "0 < places" "s \<noteq> []"
  shows "\<exists>s'. call_moves places s s'"
proof (cases "\<exists>c i. map_of s c = Some (i, In_Flight)")
  case True
  then show ?thesis by (blast intro: call_moves.ended)
next
  case none: False
  have wf: "dict_wf s" using ok by (simp add: calls_ok_def)
  have get: "map_of s c = Some (i, p)" if "(c, i, p) \<in> set s" for c i p
    using that by (simp only: map_of_mem [OF wf])
  with none have quiet: "p \<noteq> In_Flight" if "(c, i, p) \<in> set s" for c i p using that by blast
  then have "List.filter (\<lambda>(c, i, p). p = In_Flight) s = []" by (auto simp: filter_empty_conv)
  then have free: "calls_in In_Flight s < places" using assms(2) by (simp add: calls_in_def)
  show ?thesis
  proof (cases "\<exists>c i. map_of s c = Some (i, Locked)")
    case True
    with free show ?thesis by (blast intro: call_moves.place)
  next
    case False
    have waiting: "p = Waiting" if "(c, i, p) \<in> set s" for c i p
      using get [OF that] quiet [OF that] False by (cases p) blast+
    obtain c i p where "(c, i, p) \<in> set s" using assms(3) by (cases s) auto
    then have "map_of s c = Some (i, Waiting)" using waiting get by blast
    moreover have "lock_free i s" using waiting by (auto simp: lock_free_def list_all_iff)
    ultimately show ?thesis by (blast intro: call_moves.lock)
  qed
qed

lemma moves_end:
  assumes "(call_moves places ^^ n) s s'" "calls_ok places s"
  shows "calls_ok places s' \<and> work s' + n = work s"
  using assms
proof (induction n arbitrary: s')
  case (Suc n)
  then obtain t where t: "(call_moves places ^^ n) s t" "call_moves places t s'" by auto
  with Suc.IH Suc.prems(2) have "calls_ok places t" "work t + n = work s" by blast+
  moreover from this(1) have "dict_wf t" by (simp add: calls_ok_def)
  ultimately show ?case using calls_ok_moves [OF _ t(2)] moves_work [OF t(2)] by simp
qed simp

lemma moves_left_pos: "0 < moves_left p"
  by (cases p) simp_all

lemma work_zero: "work s = 0 \<longleftrightarrow> s = []"
  using moves_left_pos by (cases s) (auto simp: work_def)

subsection \<open>Properties\<close>

text \<open>
  C14. A device never has two requests at once, and the driver never more than it may: whatever calls arrive, end
  or are cancelled, and in whatever order the waiting ones are served, at any moment at most one call holds the
  lock of a device and at most \<open>max_concurrent_requests\<close> requests are in flight. The calls never block each
  other: while one has not ended, one can move; without new calls, any sequence of moves ends, after the moves
  their phases leave them, with every call ended.
\<close>

theorem calls_exclusive_and_served:
  assumes "driver_runs places s" "0 < places"
  shows "(\<forall>i. length (holders i s) \<le> 1) \<and> calls_in In_Flight s \<le> places \<and>
    (s = [] \<or> (\<exists>s'. call_moves places s s')) \<and>
    (\<forall>n s'. (call_moves places ^^ n) s s' \<longrightarrow> n \<le> work s \<and> (n = work s \<longleftrightarrow> s' = []))"
proof -
  have ok: "calls_ok places s" using assms(1) by (rule driver_runs_ok)
  have "n \<le> work s \<and> (n = work s \<longleftrightarrow> s' = [])" if "(call_moves places ^^ n) s s'" for n s'
    using moves_end [OF that ok] work_zero [of s'] by auto
  then show ?thesis using ok some_call_moves [OF ok assms(2)] unfolding calls_ok_def by blast
qed

lemma example_run: "driver_runs 1 [(0, 7, In_Flight), (1, 7, Waiting)]"
proof -
  have "driver_runs 1 [(0, 7, Waiting)]"
    using driver_runs.step [OF driver_runs.started driver_step.arrives [of "[]" 0 1 7]] by simp
  from driver_runs.step [OF this driver_step.arrives [of _ 1 1 7]]
  have "driver_runs 1 [(0, 7, Waiting), (1, 7, Waiting)]" by simp
  from driver_runs.step [OF this driver_step.moves [OF call_moves.lock [of _ 0 7]]]
  have "driver_runs 1 [(0, 7, Locked), (1, 7, Waiting)]" by (simp add: lock_free_def)
  from driver_runs.step [OF this driver_step.moves [OF call_moves.place [of _ 0 7]]]
  show ?thesis by (simp add: calls_in_def)
qed

theorem calls_exclusive_and_served_witness:
  "length (holders 7 [(0, 7, In_Flight), (1, 7, Waiting)]) \<le> 1 \<and>
   (\<exists>s'. call_moves 1 [(0, 7, In_Flight), (1, 7, Waiting)] s')"
  using calls_exclusive_and_served [OF example_run] by simp

end
