(* ===== verification/Api_Core.thy ===== *)
theory Api_Core
  imports Database Py_Values
begin

section \<open>Requests to the API\<close>

text \<open>
  \<open>app/api/deps.py\<close>, \<open>app/api/audit.py\<close> and \<open>app/auth/tokens.py\<close>: what every handler rests on.
  A handler answers with a value or with an HTTP status; 500 stands for an exception that no
  handler catches. A handler works in one database session: its changes and its audit entries are
  committed together or not at all. The signature of tokens (PyJWT) and the digest of password
  hashes (\<open>hashlib\<close>) are parameters.
\<close>

type_synonym 'a answer = "nat + 'a"

abbreviation UNAUTHORIZED :: nat where "UNAUTHORIZED \<equiv> 401"
abbreviation FORBIDDEN :: nat where "FORBIDDEN \<equiv> 403"
abbreviation NOT_FOUND :: nat where "NOT_FOUND \<equiv> 404"
abbreviation CONFLICT :: nat where "CONFLICT \<equiv> 409"
abbreviation UNPROCESSABLE :: nat where "UNPROCESSABLE \<equiv> 422"
abbreviation LOCKED_OUT :: nat where "LOCKED_OUT \<equiv> 429"
abbreviation SERVER_ERROR :: nat where "SERVER_ERROR \<equiv> 500"

subsection \<open>Audit\<close>

text \<open>The request as the audit sees it: its instant and the address of the client.\<close>

record request =
  rq_now :: time
  rq_ip :: "string option"

definition record_audit ::
  "request \<Rightarrow> uuid option \<Rightarrow> string \<Rightarrow> string option \<Rightarrow> json option \<Rightarrow> json option \<Rightarrow> audit_row" where
  "record_audit rq user action target before after =
     \<lparr>au_ts = rq_now rq, au_user_id = user, au_action = action, au_target = target,
      au_before = before, au_after = after, au_ip = rq_ip rq\<rparr>"

text \<open>
  The end of a session: \<open>db\<close> is the database with the changes of the handler, \<open>rows\<close> are its audit
  entries. \<open>None\<close> when the database refuses an entry, and then nothing of the session is kept.
\<close>

definition commit :: "audit_row list \<Rightarrow> database \<Rightarrow> database option" where
  "commit rows db =
     (if list_all (audit_accepted db) rows then Some (db\<lparr>db_audit := db_audit db @ rows\<rparr>) else None)"

lemma commit_Some: "commit rows db = Some db' \<longleftrightarrow>
    list_all (audit_accepted db) rows \<and> db' = db\<lparr>db_audit := db_audit db @ rows\<rparr>"
  by (auto simp: commit_def)

text \<open>A handler's end: what it answers and the database it leaves, given the one it started from.\<close>

definition finish :: "database \<Rightarrow> audit_row list \<Rightarrow> database \<Rightarrow> 'a answer \<Rightarrow> 'a answer \<times> database" where
  "finish db0 rows db ans = (case commit rows db of None \<Rightarrow> (Inl SERVER_ERROR, db0) | Some db' \<Rightarrow> (ans, db'))"

lemma finish_cases:
  assumes "finish db0 rows db ans = (res, db')"
  obtains (kept) "res = ans" "list_all (audit_accepted db) rows" "db' = db\<lparr>db_audit := db_audit db @ rows\<rparr>"
  | (undone) "res = Inl SERVER_ERROR" "db' = db0"
  using assms by (auto simp: finish_def commit_def split: if_splits)

subsection \<open>Tokens\<close>

record token_payload =
  tp_sub :: string
  tp_typ :: string
  tp_iat :: int
  tp_exp :: int
  tp_pwd :: "string option"

record token_claims =
  tc_user_id :: uuid
  tc_kind :: string
  tc_expires_at :: time
  tc_stamp :: string

text \<open>Instants are written in whole seconds; \<open>ttl\<close> is in seconds.\<close>

definition create_token ::
  "(token_payload \<Rightarrow> string) \<Rightarrow> uuid \<Rightarrow> string \<Rightarrow> int \<Rightarrow> time \<Rightarrow> string \<Rightarrow> string" where
  "create_token jwt_encode uid kind ttl now stamp =
     jwt_encode \<lparr>tp_sub = uuid_str uid, tp_typ = kind, tp_iat = \<lfloor>now\<rfloor>, tp_exp = \<lfloor>now + of_int ttl\<rfloor>,
                 tp_pwd = Some stamp\<rparr>"

text \<open>\<open>jwt_decode\<close>: the payload, or \<open>None\<close> for a \<open>PyJWTError\<close> (signature, expiry, missing claim).\<close>

definition decode_token ::
  "(time \<Rightarrow> string \<Rightarrow> token_payload option) \<Rightarrow> time \<Rightarrow> string option \<Rightarrow> string \<Rightarrow> token_claims option" where
  "decode_token jwt_decode now token expected =
     (case token of
        None \<Rightarrow> None
      | Some t \<Rightarrow>
          if t = [] then None
          else case jwt_decode now t of
            None \<Rightarrow> None
          | Some p \<Rightarrow>
              if tp_typ p \<noteq> expected then None
              else map_option (\<lambda>u.
                  \<lparr>tc_user_id = u, tc_kind = expected, tc_expires_at = of_int (tp_exp p),
                   tc_stamp = (case tp_pwd p of None \<Rightarrow> [] | Some s \<Rightarrow> s)\<rparr>) (uuid_of_str (tp_sub p)))"

text \<open>What the code relies on: a signed payload is read back until it expires.\<close>

definition jwt_laws :: "(token_payload \<Rightarrow> string) \<Rightarrow> (time \<Rightarrow> string \<Rightarrow> token_payload option) \<Rightarrow> bool" where
  "jwt_laws jwt_encode jwt_decode \<longleftrightarrow>
     (\<forall>p. jwt_encode p \<noteq> []) \<and>
     (\<forall>p now. jwt_decode now (jwt_encode p) =
        (if of_int (tp_iat p) \<le> now \<and> now < of_int (tp_exp p) then Some p else None))"

lemma decode_created:
  assumes "jwt_laws jwt_encode jwt_decode" "uid < 2 ^ 128"
  shows "decode_token jwt_decode now' (Some (create_token jwt_encode uid kind ttl now stamp)) expected =
    (if kind = expected \<and> of_int \<lfloor>now\<rfloor> \<le> now' \<and> now' < of_int \<lfloor>now + of_int ttl\<rfloor>
     then Some \<lparr>tc_user_id = uid, tc_kind = expected, tc_expires_at = of_int \<lfloor>now + of_int ttl\<rfloor>,
                tc_stamp = stamp\<rparr>
     else None)"
  using assms by (simp add: decode_token_def create_token_def jwt_laws_def uuid_str_roundtrip)

subsection \<open>The current user\<close>

record current_user =
  cu_id :: uuid
  cu_login :: string
  cu_role :: string
  cu_stamp :: string

text \<open>\<open>stamp_of\<close> is \<open>password_stamp\<close>.\<close>

definition load_user :: "(string \<Rightarrow> string) \<Rightarrow> database \<Rightarrow> uuid \<Rightarrow> string option \<Rightarrow> current_user option" where
  "load_user stamp_of db uid stamp =
     (case map_of (db_users db) uid of
        None \<Rightarrow> None
      | Some u \<Rightarrow>
          if \<not> us_active u then None
          else case map_of (db_roles db) (us_role_id u) of
            None \<Rightarrow> None
          | Some role \<Rightarrow>
              (let current = stamp_of (us_password_hash u) in
               if stamp \<noteq> None \<and> stamp \<noteq> Some current then None
               else Some \<lparr>cu_id = uid, cu_login = us_login u, cu_role = role, cu_stamp = current\<rparr>))"

definition authenticate ::
  "(time \<Rightarrow> string \<Rightarrow> token_payload option) \<Rightarrow> (string \<Rightarrow> string) \<Rightarrow> time \<Rightarrow> string option \<Rightarrow> database \<Rightarrow>
   current_user answer" where
  "authenticate jwt_decode stamp_of now cookie db =
     (case decode_token jwt_decode now cookie ''access'' of
        None \<Rightarrow> Inl UNAUTHORIZED
      | Some claims \<Rightarrow>
          (case load_user stamp_of db (tc_user_id claims) (Some (tc_stamp claims)) of
             None \<Rightarrow> Inl UNAUTHORIZED
           | Some user \<Rightarrow> Inr user))"

definition require_role :: "role_name \<Rightarrow> current_user \<Rightarrow> current_user answer" where
  "require_role minimum user = (if has_role (cu_role user) minimum then Inr user else Inl FORBIDDEN)"

text \<open>A route with a required role: the handler runs only for a user who has it.\<close>

definition guarded ::
  "role_name \<Rightarrow> current_user answer \<Rightarrow> (current_user \<Rightarrow> 'a answer \<times> 's) \<Rightarrow> 's \<Rightarrow> 'a answer \<times> 's" where
  "guarded minimum user handler s =
     (case user of
        Inl e \<Rightarrow> (Inl e, s)
      | Inr u \<Rightarrow> (case require_role minimum u of Inl e \<Rightarrow> (Inl e, s) | Inr u' \<Rightarrow> handler u'))"

lemma guarded_cases:
  assumes "guarded minimum user handler s = (res, s')"
  obtains (refused) e where "res = Inl e" "s' = s" "e = FORBIDDEN \<or> user = Inl e"
  | (handled) u where "user = Inr u" "has_role (cu_role u) minimum" "handler u = (res, s')"
  using assms by (auto simp: guarded_def require_role_def split: sum.splits if_splits)

lemma load_user_Some:
  "load_user stamp_of db uid stamp = Some cu \<longleftrightarrow>
     (\<exists>u role. map_of (db_users db) uid = Some u \<and> us_active u \<and>
        map_of (db_roles db) (us_role_id u) = Some role \<and>
        (stamp = None \<or> stamp = Some (stamp_of (us_password_hash u))) \<and>
        cu = \<lparr>cu_id = uid, cu_login = us_login u, cu_role = role, cu_stamp = stamp_of (us_password_hash u)\<rparr>)"
  by (auto simp: load_user_def Let_def split: option.splits)

lemma authenticate_Inr:
  "authenticate jwt_decode stamp_of now cookie db = Inr cu \<longleftrightarrow>
     (\<exists>claims. decode_token jwt_decode now cookie ''access'' = Some claims \<and>
        load_user stamp_of db (tc_user_id claims) (Some (tc_stamp claims)) = Some cu)"
  by (auto simp: authenticate_def split: option.splits)

end
