(* ===== verification/Api_Auth.thy ===== *)
theory Api_Auth
  imports Api_Core
begin

section \<open>Connection\<close>

text \<open>
  \<open>app/auth/lockout.py\<close>, \<open>app/auth/passwords.py\<close> and \<open>app/api/routes/auth.py\<close>: counting failures,
  locking a login, opening, renewing and closing a session. Redis is a parameter: the operations
  the guard calls, \<open>None\<close> when the call raises, and the documented behaviour of a Redis that
  answers as the hypothesis \<open>redis_ok\<close>. argon2 is a parameter too: whether a password verifies.
\<close>

subsection \<open>Redis\<close>

record 'r redis =
  rd_ttl :: "time \<Rightarrow> string \<Rightarrow> 'r \<Rightarrow> int option"
  rd_incr :: "time \<Rightarrow> string \<Rightarrow> 'r \<Rightarrow> (int \<times> 'r) option"
  rd_expire :: "time \<Rightarrow> string \<Rightarrow> int \<Rightarrow> 'r \<Rightarrow> 'r option"
  rd_set_ex :: "time \<Rightarrow> string \<Rightarrow> int \<Rightarrow> 'r \<Rightarrow> 'r option"
  rd_delete :: "time \<Rightarrow> string list \<Rightarrow> 'r \<Rightarrow> (int \<times> 'r) option"

subsection \<open>The login guard\<close>

record guard =
  gd_max :: int
  gd_window :: int
  gd_lock :: int

definition fail_key :: "string \<Rightarrow> string" where
  "fail_key login = ''auth.fail.'' @ py_lower (py_strip login)"

definition lock_key :: "string \<Rightarrow> string" where
  "lock_key login = ''auth.lock.'' @ py_lower (py_strip login)"

definition locked_for :: "'r redis \<Rightarrow> time \<Rightarrow> string \<Rightarrow> 'r \<Rightarrow> int" where
  "locked_for R now login r =
     (case rd_ttl R now (lock_key login) r of None \<Rightarrow> 0 | Some remaining \<Rightarrow> if remaining > 0 then max remaining 0 else 0)"

text \<open>An exception part way keeps what Redis has already done and counts as no lock.\<close>

definition record_failure :: "'r redis \<Rightarrow> guard \<Rightarrow> time \<Rightarrow> string \<Rightarrow> 'r \<Rightarrow> int \<times> 'r" where
  "record_failure R g now login r =
     (case rd_incr R now (fail_key login) r of
        None \<Rightarrow> (0, r)
      | Some (count, r1) \<Rightarrow>
          (case (if count = 1 then rd_expire R now (fail_key login) (gd_window g) r1 else Some r1) of
             None \<Rightarrow> (0, r1)
           | Some r2 \<Rightarrow>
               if count < gd_max g then (0, r2)
               else (case rd_set_ex R now (lock_key login) (gd_lock g) r2 of
                       None \<Rightarrow> (0, r2)
                     | Some r3 \<Rightarrow>
                         (case rd_delete R now [fail_key login] r3 of
                            None \<Rightarrow> (0, r3)
                          | Some (_, r4) \<Rightarrow> (gd_lock g, r4)))))"

definition record_success :: "'r redis \<Rightarrow> time \<Rightarrow> string \<Rightarrow> 'r \<Rightarrow> 'r" where
  "record_success R now login r =
     (case rd_delete R now [fail_key login] r of None \<Rightarrow> r | Some (_, r') \<Rightarrow> r')"

text \<open>\<open>unlock\<close> lets an exception through: \<open>None\<close>.\<close>

definition unlock :: "'r redis \<Rightarrow> time \<Rightarrow> string \<Rightarrow> 'r \<Rightarrow> (bool \<times> 'r) option" where
  "unlock R now login r =
     map_option (\<lambda>(n, r'). (n \<noteq> 0, r')) (rd_delete R now [lock_key login, fail_key login] r)"

subsection \<open>Routes\<close>

record auth_settings =
  as_access_minutes :: int
  as_refresh_days :: int
  as_guard :: guard

record cookies =
  ck_access :: "string option"
  ck_refresh :: "string option"

definition no_cookies :: cookies where "no_cookies = \<lparr>ck_access = None, ck_refresh = None\<rparr>"

record user_out =
  uo_id :: uuid
  uo_login :: string
  uo_role :: string

record 'r auth_state =
  at_db :: database
  at_redis :: 'r

definition set_cookies ::
  "(token_payload \<Rightarrow> string) \<Rightarrow> auth_settings \<Rightarrow> time \<Rightarrow> uuid \<Rightarrow> string \<Rightarrow> cookies" where
  "set_cookies jwt_encode st now uid stamp =
     \<lparr>ck_access = Some (create_token jwt_encode uid ''access'' (60 * as_access_minutes st) now stamp),
      ck_refresh = Some (create_token jwt_encode uid ''refresh'' (86400 * as_refresh_days st) now stamp)\<rparr>"

definition result_json :: "string \<Rightarrow> json" where
  "result_json s = JObj [(''result'', JStr s)]"

definition find_login :: "database \<Rightarrow> string \<Rightarrow> (uuid \<times> user_row \<times> string) option" where
  "find_login db login =
     (case List.find (\<lambda>(uid, u). us_login u = login) (db_users db) of
        None \<Rightarrow> None
      | Some (uid, u) \<Rightarrow> map_option (\<lambda>role. (uid, u, role)) (map_of (db_roles db) (us_role_id u)))"

text \<open>
  \<open>login\<close>: the answer, the cookies set, the state.
\<close>

definition login ::
  "'r redis \<Rightarrow> (string \<Rightarrow> string \<Rightarrow> bool) \<Rightarrow> (token_payload \<Rightarrow> string) \<Rightarrow> (string \<Rightarrow> string) \<Rightarrow> auth_settings \<Rightarrow>
   request \<Rightarrow> string \<Rightarrow> string \<Rightarrow> 'r auth_state \<Rightarrow> user_out answer \<times> cookies \<times> 'r auth_state" where
  "login R verify jwt_encode stamp_of st rq name password s =
     (let now = rq_now rq; db = at_db s in
      if locked_for R now name (at_redis s) > 0 then
        (let (res, db') = finish db
               [record_audit rq None ''auth.login'' (Some name) None (Some (result_json (''verrouill'' @ [CHR 0xE9])))]
               db (Inl LOCKED_OUT)
         in (res, no_cookies, s\<lparr>at_db := db'\<rparr>))
      else
        (let found = find_login db name;
             valid = (case found of None \<Rightarrow> False
                      | Some (_, u, _) \<Rightarrow> us_active u \<and> verify (us_password_hash u) password);
             row = record_audit rq (map_option fst found) ''auth.login'' (Some name) None
                     (Some (result_json (if valid then ''ok'' else CHR 0xE9 # ''chec'')))
         in case (if valid then found else None) of
              None \<Rightarrow>
                (let (lock, r1) = record_failure R (as_guard st) now name (at_redis s);
                     rows = (if lock > 0 then [row, record_audit rq (map_option fst found) ''auth.lockout''
                               (Some name) None (Some (JObj [(''failures'', JInt (gd_max (as_guard st))),
                                 (''lock_s'', JInt (gd_lock (as_guard st)))]))] else [row]);
                     (res, db') = finish db rows db (Inl UNAUTHORIZED)
                 in (res, no_cookies, \<lparr>at_db = db', at_redis = r1\<rparr>))
            | Some (uid, u, role) \<Rightarrow>
                (case commit [row] db of
                   None \<Rightarrow> (Inl SERVER_ERROR, no_cookies, s)
                 | Some db' \<Rightarrow>
                     (Inr \<lparr>uo_id = uid, uo_login = us_login u, uo_role = role\<rparr>,
                      set_cookies jwt_encode st now uid (stamp_of (us_password_hash u)),
                      \<lparr>at_db = db', at_redis = record_success R now name (at_redis s)\<rparr>))))"

definition refresh_session ::
  "(token_payload \<Rightarrow> string) \<Rightarrow> (time \<Rightarrow> string \<Rightarrow> token_payload option) \<Rightarrow> (string \<Rightarrow> string) \<Rightarrow> auth_settings \<Rightarrow>
   time \<Rightarrow> string option \<Rightarrow> database \<Rightarrow> user_out answer \<times> cookies" where
  "refresh_session jwt_encode jwt_decode stamp_of st now cookie db =
     (case decode_token jwt_decode now cookie ''refresh'' of
        None \<Rightarrow> (Inl UNAUTHORIZED, no_cookies)
      | Some claims \<Rightarrow>
          (case load_user stamp_of db (tc_user_id claims) (Some (tc_stamp claims)) of
             None \<Rightarrow> (Inl UNAUTHORIZED, no_cookies)
           | Some user \<Rightarrow>
               (Inr \<lparr>uo_id = cu_id user, uo_login = cu_login user, uo_role = cu_role user\<rparr>,
                set_cookies jwt_encode st now (cu_id user) (cu_stamp user))))"

definition me :: "current_user \<Rightarrow> user_out" where
  "me user = \<lparr>uo_id = cu_id user, uo_login = cu_login user, uo_role = cu_role user\<rparr>"

subsection \<open>What Redis promises\<close>

text \<open>
  \<open>vw r\<close> gives for a key its number and the instant it expires; an expired entry is as good as
  absent. \<open>TTL\<close> answers with the remaining seconds, rounded.
\<close>

definition live :: "time \<Rightarrow> (int \<times> time option) option \<Rightarrow> (int \<times> time option) option" where
  "live now e =
     (case e of
        Some (v, Some x) \<Rightarrow> if now < x then e else None
      | _ \<Rightarrow> e)"

definition ttl_of :: "time \<Rightarrow> (int \<times> time option) option \<Rightarrow> int \<Rightarrow> bool" where
  "ttl_of now e n \<longleftrightarrow>
     (case live now e of
        None \<Rightarrow> n = -2
      | Some (_, None) \<Rightarrow> n = -1
      | Some (_, Some x) \<Rightarrow> 0 \<le> n \<and> x - now - 1 < of_int n \<and> of_int n < x - now + 1)"

definition incr_entry :: "(int \<times> time option) option \<Rightarrow> int \<times> time option" where
  "incr_entry e = (case e of None \<Rightarrow> (1, None) | Some (v, x) \<Rightarrow> (v + 1, x))"

definition redis_ok :: "'r redis \<Rightarrow> ('r \<Rightarrow> string \<Rightarrow> (int \<times> time option) option) \<Rightarrow> bool" where
  "redis_ok R vw \<longleftrightarrow>
     (\<forall>now k r. \<exists>n. rd_ttl R now k r = Some n \<and> ttl_of now (vw r k) n) \<and>
     (\<forall>now k r. \<exists>r'. rd_incr R now k r = Some (fst (incr_entry (live now (vw r k))), r') \<and>
        vw r' = (vw r)(k := Some (incr_entry (live now (vw r k))))) \<and>
     (\<forall>now k s r. \<exists>r'. rd_expire R now k s r = Some r' \<and>
        vw r' = (vw r)(k := map_option (\<lambda>(v, _). (v, Some (now + of_int s))) (live now (vw r k)))) \<and>
     (\<forall>now k s r. \<exists>r'. rd_set_ex R now k s r = Some r' \<and> vw r' = (vw r)(k := Some (1, Some (now + of_int s)))) \<and>
     (\<forall>now ks r. \<exists>r' n. rd_delete R now ks r = Some (n, r') \<and>
        vw r' = (\<lambda>k. if k \<in> set ks then None else vw r k))"

lemma redis_incr:
  assumes "redis_ok R vw"
  obtains r' where "rd_incr R now k r = Some (fst (incr_entry (live now (vw r k))), r')"
    "vw r' = (vw r)(k := Some (incr_entry (live now (vw r k))))"
  using assms unfolding redis_ok_def by meson

lemma redis_expire:
  assumes "redis_ok R vw"
  obtains r' where "rd_expire R now k s r = Some r'"
    "vw r' = (vw r)(k := map_option (\<lambda>(v, _). (v, Some (now + of_int s))) (live now (vw r k)))"
  using assms unfolding redis_ok_def by meson

lemma redis_set_ex:
  assumes "redis_ok R vw"
  obtains r' where "rd_set_ex R now k s r = Some r'" "vw r' = (vw r)(k := Some (1, Some (now + of_int s)))"
  using assms unfolding redis_ok_def by meson

lemma redis_delete:
  assumes "redis_ok R vw"
  obtains r' n where "rd_delete R now ks r = Some (n, r')" "vw r' = (\<lambda>k. if k \<in> set ks then None else vw r k)"
  using assms unfolding redis_ok_def by meson

lemma redis_ttl:
  assumes "redis_ok R vw"
  obtains n where "rd_ttl R now k r = Some n" "ttl_of now (vw r k) n"
  using assms unfolding redis_ok_def by meson

subsection \<open>Lockout\<close>

lemma keys_differ [simp]: "fail_key name \<noteq> lock_key name'" "lock_key name' \<noteq> fail_key name"
  by (simp_all add: fail_key_def lock_key_def)

text \<open>The first failure of a window.\<close>

lemma first_failure:
  assumes ok: "redis_ok R vw" and fresh: "live now (vw r (fail_key name)) = None" and m: "1 < gd_max g"
  shows "\<exists>r'. record_failure R g now name r = (0, r') \<and>
    vw r' = (vw r)(fail_key name := Some (1, Some (now + of_int (gd_window g))))"
proof -
  obtain r1 where r1: "rd_incr R now (fail_key name) r = Some (1, r1)"
    "vw r1 = (vw r)(fail_key name := Some (1, None))"
    using redis_incr [OF ok, of now "fail_key name" r] fresh by (auto simp: incr_entry_def)
  obtain r2 where "rd_expire R now (fail_key name) (gd_window g) r1 = Some r2"
    "vw r2 = (vw r)(fail_key name := Some (1, Some (now + of_int (gd_window g))))"
    using redis_expire [OF ok, of now "fail_key name" "gd_window g" r1] r1(2) by (auto simp: live_def)
  with r1 m show ?thesis by (auto simp: record_failure_def)
qed

lemma next_failure:
  assumes ok: "redis_ok R vw" and e: "vw r (fail_key name) = Some (n, Some x)" "now < x" "0 < n"
    and m: "n + 1 < gd_max g"
  shows "\<exists>r'. record_failure R g now name r = (0, r') \<and> vw r' = (vw r)(fail_key name := Some (n + 1, Some x))"
proof -
  obtain r1 where "rd_incr R now (fail_key name) r = Some (n + 1, r1)"
    "vw r1 = (vw r)(fail_key name := Some (n + 1, Some x))"
    using redis_incr [OF ok, of now "fail_key name" r] e(1,2) by (auto simp: incr_entry_def live_def)
  with e(3) m show ?thesis by (auto simp: record_failure_def)
qed

lemma locking_failure:
  assumes ok: "redis_ok R vw" and n: "fst (incr_entry (live now (vw r (fail_key name)))) = n" "gd_max g \<le> n"
  shows "\<exists>r'. record_failure R g now name r = (gd_lock g, r') \<and>
    vw r' (lock_key name) = Some (1, Some (now + of_int (gd_lock g))) \<and> vw r' (fail_key name) = None"
proof -
  obtain r1 where r1: "rd_incr R now (fail_key name) r = Some (n, r1)"
    using redis_incr [OF ok, of now "fail_key name" r] n(1) by metis
  obtain rx where rx: "rd_expire R now (fail_key name) (gd_window g) r1 = Some rx"
    by (rule redis_expire [OF ok])
  then obtain r2 where r2: "(if n = 1 then rd_expire R now (fail_key name) (gd_window g) r1 else Some r1) = Some r2"
    by (cases "n = 1") simp_all
  obtain r3 where r3: "rd_set_ex R now (lock_key name) (gd_lock g) r2 = Some r3"
    "vw r3 = (vw r2)(lock_key name := Some (1, Some (now + of_int (gd_lock g))))"
    by (rule redis_set_ex [OF ok])
  obtain r4 k where r4: "rd_delete R now [fail_key name] r3 = Some (k, r4)"
    "vw r4 = (\<lambda>k. if k \<in> set [fail_key name] then None else vw r3 k)"
    by (rule redis_delete [OF ok])
  show ?thesis using r1 r2 r3 r4 n(2) by (auto simp: record_failure_def)
qed

definition failures :: "'r redis \<Rightarrow> guard \<Rightarrow> string \<Rightarrow> time list \<Rightarrow> 'r \<Rightarrow> 'r" where
  "failures R g name ts r = fold (\<lambda>t r. snd (record_failure R g t name r)) ts r"

text \<open>After some failures, too few to lock: the counter, and the lock as it was.\<close>

lemma failures_counted:
  assumes ok: "redis_ok R vw" and fresh: "live t0 (vw r (fail_key name)) = None"
    and ts: "\<forall>t \<in> set ts. t < t0 + of_int (gd_window g)" and m: "int (length ts) + 1 < gd_max g"
  shows "vw (failures R g name (t0 # ts) r) =
    (vw r)(fail_key name := Some (int (length ts) + 1, Some (t0 + of_int (gd_window g))))"
  using ts m
proof (induction ts rule: rev_induct)
  case Nil
  with first_failure [OF ok fresh, of g] show ?case by (auto simp: failures_def)
next
  case (snoc t ts)
  let ?r = "failures R g name (t0 # ts) r"
  have IH: "vw ?r = (vw r)(fail_key name := Some (int (length ts) + 1, Some (t0 + of_int (gd_window g))))"
    by (rule snoc.IH) (use snoc.prems in auto)
  from next_failure [OF ok, of ?r name "int (length ts) + 1" "t0 + of_int (gd_window g)" t g] IH snoc.prems
  obtain r' where "record_failure R g t name ?r = (0, r')"
    "vw r' = (vw ?r)(fail_key name := Some (2 + int (length ts), Some (t0 + of_int (gd_window g))))"
    by auto
  then show ?case using IH by (simp add: failures_def)
qed

lemma locked_for_view:
  assumes "redis_ok R vw"
  shows "vw r (lock_key name) = Some (v, Some x) \<Longrightarrow> now \<le> x - 1 \<Longrightarrow> 0 < locked_for R now name r"
    and "live now (vw r (lock_key name)) = None \<Longrightarrow> locked_for R now name r = 0"
proof -
  obtain n where n: "rd_ttl R now (lock_key name) r = Some n" "ttl_of now (vw r (lock_key name)) n"
    by (rule redis_ttl [OF assms])
  show "0 < locked_for R now name r" if "vw r (lock_key name) = Some (v, Some x)" "now \<le> x - 1"
  proof -
    have "x - now - 1 < of_int n" using n(2) that by (auto simp: ttl_of_def live_def)
    with that(2) have "(0::rat) < of_int n" by linarith
    with n(1) show ?thesis by (simp add: locked_for_def)
  qed
  show "locked_for R now name r = 0" if "live now (vw r (lock_key name)) = None"
    using n that by (simp add: locked_for_def ttl_of_def)
qed

text \<open>
  C33. Repeated failures lock the login, fewer do not: with a Redis that answers, the
  \<open>max_failures\<close>-th failure within a window locks the login (whether or not it exists) for
  \<open>lock_s\<close> seconds, up to the last one, which Redis may round away; with fewer failures a login
  that was not locked stays open.
\<close>

theorem lockout_after_failures:
  assumes "redis_ok R vw" "live t0 (vw r (fail_key name)) = None" "vw r (lock_key name) = None"
    and "\<forall>t \<in> set (ts @ [t1]). t < t0 + of_int (gd_window g)" "int (length ts) + 2 = gd_max g"
    and "t1 \<le> now" "now \<le> t1 + of_int (gd_lock g) - 1"
  shows "locked_for R now name (failures R g name (t0 # ts) r) = 0 \<and>
    0 < locked_for R now name (failures R g name (t0 # ts @ [t1]) r)"
proof
  let ?r = "failures R g name (t0 # ts) r"
  have v: "vw ?r = (vw r)(fail_key name := Some (int (length ts) + 1, Some (t0 + of_int (gd_window g))))"
    by (rule failures_counted [OF assms(1,2)]) (use assms(4,5) in auto)
  then have "live now (vw ?r (lock_key name)) = None" using assms(3) by (simp add: live_def)
  then show "locked_for R now name ?r = 0" by (rule locked_for_view(2) [OF assms(1)])
  have "fst (incr_entry (live t1 (vw ?r (fail_key name)))) = gd_max g"
    using v assms(4,5) by (simp add: live_def incr_entry_def)
  from locking_failure [OF assms(1) this order_refl] obtain r' where
    "snd (record_failure R g t1 name ?r) = r'" "vw r' (lock_key name) = Some (1, Some (t1 + of_int (gd_lock g)))"
    by auto
  moreover have "failures R g name (t0 # ts @ [t1]) r = snd (record_failure R g t1 name ?r)"
    by (simp add: failures_def)
  ultimately show "0 < locked_for R now name (failures R g name (t0 # ts @ [t1]) r)"
    using locked_for_view(1) [OF assms(1), of r' name 1 "t1 + of_int (gd_lock g)" now] assms(7) by simp
qed

text \<open>A Redis as a table.\<close>

definition table_redis :: "(string \<Rightarrow> (int \<times> time option) option) redis" where
  "table_redis =
     \<lparr>rd_ttl = (\<lambda>now k r. Some (case live now (r k) of
          None \<Rightarrow> -2 | Some (_, None) \<Rightarrow> -1 | Some (_, Some x) \<Rightarrow> \<lfloor>x - now\<rfloor>)),
      rd_incr = (\<lambda>now k r. (let e = incr_entry (live now (r k)) in Some (fst e, r(k := Some e)))),
      rd_expire = (\<lambda>now k s r. Some (r(k := map_option (\<lambda>(v, _). (v, Some (now + of_int s))) (live now (r k))))),
      rd_set_ex = (\<lambda>now k s r. Some (r(k := Some (1, Some (now + of_int s))))),
      rd_delete = (\<lambda>now ks r. Some (int (length (List.filter (\<lambda>k. live now (r k) \<noteq> None) ks)),
          \<lambda>k. if k \<in> set ks then None else r k))\<rparr>"

lemma ttl_floor: "now < x \<Longrightarrow> ttl_of now (Some (v, Some x)) \<lfloor>x - now\<rfloor>"
  by (simp add: ttl_of_def live_def) linarith

lemma table_redis_ok: "redis_ok table_redis id"
proof -
  have "ttl_of now e (case live now e of None \<Rightarrow> -2 | Some (_, None) \<Rightarrow> -1 | Some (_, Some x) \<Rightarrow> \<lfloor>x - now\<rfloor>)"
    for now and e :: "(int \<times> time option) option"
  proof (cases "live now e")
    case (Some vx)
    obtain v x where vx: "vx = (v, x)" by (cases vx)
    with Some have e: "e = Some (v, x)" by (auto simp: live_def split: option.splits prod.splits if_splits)
    show ?thesis
    proof (cases x)
      case (Some y)
      with e vx \<open>live now e = Some vx\<close> have "now < y" by (auto simp: live_def split: if_splits)
      with ttl_floor [of now y v] e Some show ?thesis by (simp add: live_def)
    qed (use e in \<open>simp add: ttl_of_def live_def\<close>)
  qed (simp add: ttl_of_def)
  then show ?thesis by (simp add: redis_ok_def table_redis_def Let_def id_def)
qed

theorem lockout_after_failures_witness:
  "locked_for table_redis 20 ''Ops'' (failures table_redis \<lparr>gd_max = 3, gd_window = 900, gd_lock = 60\<rparr> ''ops'' [1, 5] (\<lambda>_. None)) = 0 \<and>
   0 < locked_for table_redis 20 ''ops'' (failures table_redis \<lparr>gd_max = 3, gd_window = 900, gd_lock = 60\<rparr> ''ops'' [1, 5, 9] (\<lambda>_. None))"
proof -
  have "lock_key ''Ops'' = lock_key ''ops''" by code_simp
  then have "locked_for table_redis 20 ''Ops'' r = locked_for table_redis 20 ''ops'' r" for r
    by (simp add: locked_for_def)
  with lockout_after_failures [OF table_redis_ok, of 1 "\<lambda>_. None" "''ops''" "[5]" 9
      "\<lparr>gd_max = 3, gd_window = 900, gd_lock = 60\<rparr>" 20]
  show ?thesis by (simp add: live_def)
qed

subsection \<open>Sessions\<close>

lemma finish_audit_only:
  assumes "finish db rows db ans = (res, db')"
  shows "(res = ans \<or> res = Inl SERVER_ERROR) \<and> db_users db' = db_users db \<and>
    (\<exists>ls. db' = db\<lparr>db_audit := db_audit db @ ls\<rparr>)"
  using assms by (cases rule: finish_cases) (auto intro: exI [of _ "[]"])

text \<open>
  What a connection checks: \<open>login\<close> opens a session only for an active account whose password
  verifies and whose login is not locked; otherwise it answers 401, 429 or 500 and sets no cookie.
  In every case the database only gains audit entries.
\<close>

theorem login_checked:
  "case login R verify jwt_encode stamp_of st rq name password s of
     (res, ck, s') \<Rightarrow>
       (case res of
          Inr out \<Rightarrow>
            (\<exists>u. (uo_id out, u) \<in> set (db_users (at_db s)) \<and> us_active u \<and> us_login u = name \<and>
               verify (us_password_hash u) password \<and>
               ck = set_cookies jwt_encode st (rq_now rq) (uo_id out) (stamp_of (us_password_hash u))) \<and>
            locked_for R (rq_now rq) name (at_redis s) = 0
        | Inl e \<Rightarrow> e \<in> {UNAUTHORIZED, LOCKED_OUT, SERVER_ERROR} \<and> ck = no_cookies) \<and>
       (\<exists>ls. at_db s' = (at_db s)\<lparr>db_audit := db_audit (at_db s) @ ls\<rparr>)"
proof -
  obtain res ck s' where l: "login R verify jwt_encode stamp_of st rq name password s = (res, ck, s')"
    by (metis prod_cases3)
  have nonneg: "0 \<le> locked_for R (rq_now rq) name (at_redis s)"
    by (simp add: locked_for_def split: option.splits)
  show ?thesis
  proof (cases "locked_for R (rq_now rq) name (at_redis s) > 0")
    case True
    obtain a db' where f: "finish (at_db s)
        [record_audit rq None ''auth.login'' (Some name) None (Some (result_json (''verrouill'' @ [CHR 0xE9])))]
        (at_db s) (Inl LOCKED_OUT :: user_out answer) = (a, db')" by fastforce
    have "login R verify jwt_encode stamp_of st rq name password s = (a, no_cookies, s\<lparr>at_db := db'\<rparr>)"
      using True f by (simp add: login_def Let_def)
    with finish_audit_only [OF f] show ?thesis by auto
  next
    case open': False
    define found where "found = find_login (at_db s) name"
    show ?thesis
    proof (cases "\<exists>uid u role. found = Some (uid, u, role) \<and> us_active u \<and> verify (us_password_hash u) password")
      case True
      then obtain uid u role where u: "found = Some (uid, u, role)" "us_active u"
        "verify (us_password_hash u) password" by blast
      then have mem: "(uid, u) \<in> set (db_users (at_db s)) \<and> us_login u = name"
        using find_map_of [of "\<lambda>(uid, u). us_login u = name" "db_users (at_db s)"]
        by (auto simp: found_def find_login_def split: option.splits)
      have "login R verify jwt_encode stamp_of st rq name password s =
          (if audit_accepted (at_db s) (record_audit rq (Some uid) ''auth.login'' (Some name) None
                (Some (result_json ''ok'')))
           then (Inr \<lparr>uo_id = uid, uo_login = us_login u, uo_role = role\<rparr>,
               set_cookies jwt_encode st (rq_now rq) uid (stamp_of (us_password_hash u)),
               \<lparr>at_db = (at_db s)\<lparr>db_audit := db_audit (at_db s) @ [record_audit rq (Some uid) ''auth.login''
                   (Some name) None (Some (result_json ''ok''))]\<rparr>,
                at_redis = record_success R (rq_now rq) name (at_redis s)\<rparr>)
           else (Inl SERVER_ERROR, no_cookies, s))"
        using open' u by (simp add: login_def Let_def found_def [symmetric] commit_def)
      with mem u nonneg open' show ?thesis by (auto intro: exI [of _ "[]"])
    next
      case False
      then have no: "\<not> (case found of None \<Rightarrow> False | Some (_, u, _) \<Rightarrow> us_active u \<and> verify (us_password_hash u) password)"
        by (auto split: option.splits)
      obtain lock r1 where g: "record_failure R (as_guard st) (rq_now rq) name (at_redis s) = (lock, r1)"
        by fastforce
      obtain rows a db' where f: "finish (at_db s) rows (at_db s) (Inl UNAUTHORIZED :: user_out answer) = (a, db')"
        "res = a" "ck = no_cookies" "at_db s' = db'"
        using l open' no g unfolding login_def found_def [symmetric] Let_def
        by (auto split: prod.splits if_splits)
      with l finish_audit_only [OF f(1)] show ?thesis by auto
    qed
  qed
qed

lemma set_cookies_access:
  assumes "jwt_laws jwt_encode jwt_decode" "uid < 2 ^ 128" "now \<le> now'"
  shows "decode_token jwt_decode now' (ck_access (set_cookies jwt_encode st now uid stamp)) ''access'' =
      (if now' < of_int \<lfloor>now + of_int (60 * as_access_minutes st)\<rfloor>
       then Some \<lparr>tc_user_id = uid, tc_kind = ''access'',
           tc_expires_at = of_int \<lfloor>now + of_int (60 * as_access_minutes st)\<rfloor>, tc_stamp = stamp\<rparr> else None)"
    and "decode_token jwt_decode now' (ck_refresh (set_cookies jwt_encode st now uid stamp)) ''access'' = None"
proof -
  have "of_int \<lfloor>now\<rfloor> \<le> now'" using assms(3) by linarith
  then show "decode_token jwt_decode now' (ck_access (set_cookies jwt_encode st now uid stamp)) ''access'' =
      (if now' < of_int \<lfloor>now + of_int (60 * as_access_minutes st)\<rfloor>
       then Some \<lparr>tc_user_id = uid, tc_kind = ''access'',
           tc_expires_at = of_int \<lfloor>now + of_int (60 * as_access_minutes st)\<rfloor>, tc_stamp = stamp\<rparr> else None)"
    by (simp add: set_cookies_def decode_created [OF assms(1,2)])
  show "decode_token jwt_decode now' (ck_refresh (set_cookies jwt_encode st now uid stamp)) ''access'' = None"
    by (simp add: set_cookies_def decode_created [OF assms(1,2)])
qed

text \<open>
  C31. What a session is good for: the access cookie set by a connection is accepted at a later
  instant exactly while it has not expired and the account, as the database then has it, is active,
  has a role and still has a password with the stamp of the one used to connect. So disabling an
  account or changing its password closes its sessions at once. The other cookie, meant for
  renewal, never opens a route.
\<close>

theorem session_valid_while:
  assumes "jwt_laws jwt_encode jwt_decode" "uid < 2 ^ 128" "now \<le> now'"
    and "ck = set_cookies jwt_encode st now uid (stamp_of pw)"
  shows "authenticate jwt_decode stamp_of now' (ck_refresh ck) db = Inl UNAUTHORIZED \<and>
    ((\<exists>cu. authenticate jwt_decode stamp_of now' (ck_access ck) db = Inr cu \<and> cu_id cu = uid) \<longleftrightarrow>
      now' < of_int \<lfloor>now + of_int (60 * as_access_minutes st)\<rfloor> \<and>
      (\<exists>u role. map_of (db_users db) uid = Some u \<and> us_active u \<and>
        map_of (db_roles db) (us_role_id u) = Some role \<and> stamp_of (us_password_hash u) = stamp_of pw))"
proof
  show "authenticate jwt_decode stamp_of now' (ck_refresh ck) db = Inl UNAUTHORIZED"
    using set_cookies_access(2) [OF assms(1-3)] by (simp add: authenticate_def assms(4))
  show "(\<exists>cu. authenticate jwt_decode stamp_of now' (ck_access ck) db = Inr cu \<and> cu_id cu = uid) \<longleftrightarrow>
      now' < of_int \<lfloor>now + of_int (60 * as_access_minutes st)\<rfloor> \<and>
      (\<exists>u role. map_of (db_users db) uid = Some u \<and> us_active u \<and>
        map_of (db_roles db) (us_role_id u) = Some role \<and> stamp_of (us_password_hash u) = stamp_of pw)"
    unfolding authenticate_Inr assms(4) set_cookies_access(1) [OF assms(1-3)] load_user_Some
    by (auto split: if_splits)
qed

text \<open>A signature scheme for the example: the fields, each character marked, ended by a point.\<close>

definition plain_text :: "string \<Rightarrow> string" where
  "plain_text s = concat (map (\<lambda>c. [CHR ''x'', c]) s) @ ''.''"

fun read_text :: "string \<Rightarrow> string \<times> string" where
  "read_text (a # b # r) = (if a = CHR ''x'' then (b # fst (read_text r), snd (read_text r)) else ([], b # r))"
| "read_text [a] = ([], [])"
| "read_text [] = ([], [])"

lemma read_plain [simp]: "read_text (plain_text s @ r) = (s, r)"
proof (induction s)
  case Nil
  then show ?case by (cases r) (simp_all add: plain_text_def)
qed (simp add: plain_text_def)

definition plain_int :: "int \<Rightarrow> string" where
  "plain_int i = (if i < 0 then CHR ''-'' else CHR ''+'') # replicate (nat \<bar>i\<bar>) CHR ''1''"

definition read_int :: "string \<Rightarrow> int" where
  "read_int s = (if hd s = CHR ''-'' then - int (length (tl s)) else int (length (tl s)))"

lemma read_plain_int [simp]: "read_int (plain_int i) = i"
  by (simp add: read_int_def plain_int_def)

definition plain_encode :: "token_payload \<Rightarrow> string" where
  "plain_encode p =
     plain_text (tp_sub p) @ plain_text (tp_typ p) @ plain_text (plain_int (tp_iat p)) @
     plain_text (plain_int (tp_exp p)) @
     (case tp_pwd p of None \<Rightarrow> plain_text ''0'' | Some s \<Rightarrow> plain_text (CHR ''1'' # s))"

definition plain_decode :: "time \<Rightarrow> string \<Rightarrow> token_payload option" where
  "plain_decode now t =
     (let (sub, r1) = read_text t; (typ, r2) = read_text r1; (iat, r3) = read_text r2;
          (exp, r4) = read_text r3; (pwd, _) = read_text r4;
          p = \<lparr>tp_sub = sub, tp_typ = typ, tp_iat = read_int iat, tp_exp = read_int exp,
               tp_pwd = (if hd pwd = CHR ''1'' then Some (tl pwd) else None)\<rparr>
      in if of_int (tp_iat p) \<le> now \<and> now < of_int (tp_exp p) then Some p else None)"

lemma plain_jwt: "jwt_laws plain_encode plain_decode"
proof -
  have nonempty: "plain_encode p \<noteq> []" for p
    by (simp add: plain_encode_def plain_text_def)
  have "plain_decode now (plain_encode p) =
      (if of_int (tp_iat p) \<le> now \<and> now < of_int (tp_exp p) then Some p else None)" for now p
  proof (cases "tp_pwd p")
    case None
    have "read_text (plain_text ''0'') = (''0'', [])" using read_plain [of "''0''" "[]"] by simp
    with None show ?thesis by (simp add: plain_decode_def plain_encode_def Let_def)
  next
    case (Some s)
    have "read_text (plain_text (CHR ''1'' # s)) = (CHR ''1'' # s, [])"
      using read_plain [of "CHR ''1'' # s" "[]"] by simp
    with Some show ?thesis by (simp add: plain_decode_def plain_encode_def Let_def)
  qed
  with nonempty show ?thesis by (simp add: jwt_laws_def)
qed

definition example_accounts :: "bool \<Rightarrow> database" where
  "example_accounts active = empty_db
     \<lparr>db_users := [(6, \<lparr>us_login = ''ops'', us_password_hash = ''x'', us_role_id = 2, us_active = active\<rparr>)]\<rparr>"

definition example_settings :: auth_settings where
  "example_settings = \<lparr>as_access_minutes = 1, as_refresh_days = 7,
     as_guard = \<lparr>gd_max = 5, gd_window = 900, gd_lock = 900\<rparr>\<rparr>"

definition example_cookies :: cookies where
  "example_cookies = set_cookies plain_encode example_settings 10 6 ''x''"

theorem session_valid_while_witness:
  "(\<exists>cu. authenticate plain_decode id 50 (ck_access example_cookies) (example_accounts True) = Inr cu \<and> cu_id cu = 6) \<and>
   (\<nexists>cu. authenticate plain_decode id 50 (ck_access example_cookies) (example_accounts False) = Inr cu \<and> cu_id cu = 6) \<and>
   authenticate plain_decode id 50 (ck_refresh example_cookies) (example_accounts True) = Inl UNAUTHORIZED"
proof -
  have ck: "example_cookies = set_cookies plain_encode example_settings 10 6 (id ''x'')"
    by (simp add: example_cookies_def)
  note v = session_valid_while [where stamp_of = id and pw = "''x''" and now' = 50, OF plain_jwt _ _ ck]
  have t: "as_access_minutes example_settings = 1" by (simp add: example_settings_def)
  show ?thesis
    using v [of "example_accounts True"] v [of "example_accounts False"] t
    by (simp add: example_accounts_def empty_db_def)
qed

end
