(* ===== verification/Api_Users.thy ===== *)
theory Api_Users
  imports Api_Auth
begin

section \<open>Users and roles\<close>

text \<open>
  \<open>app/api/routes/users.py\<close>, the bodies of its requests in \<open>app/api/schemas.py\<close>, and
  \<open>app/auth/cli.py\<close>. \<open>hash\<close> is \<open>hash_password\<close> (argon2 with the salt it drew), \<open>locked\<close> whether the
  guard holds a login locked. A modification is split where the code's transaction is: the checks
  on what it has read, then the columns it writes.
\<close>

subsection \<open>Bodies\<close>

definition MIN_PASSWORD_LENGTH :: nat where "MIN_PASSWORD_LENGTH = 10"

record user_create =
  uc_login :: string
  uc_password :: string
  uc_role :: string

record user_update =
  up_role :: "string option"
  up_active :: "bool option"
  up_password :: "string option"

definition ascii_alnum :: "char \<Rightarrow> bool" where
  "ascii_alnum c = (let n = of_char c :: nat in (48 \<le> n \<and> n \<le> 57) \<or> (65 \<le> n \<and> n \<le> 90) \<or> (97 \<le> n \<and> n \<le> 122))"

text \<open>\<open>LOGIN_PATTERN\<close>\<close>

definition login_ok :: "string \<Rightarrow> bool" where
  "login_ok s =
     (case s of
        [] \<Rightarrow> False
      | c # cs \<Rightarrow> ascii_alnum c \<and> length cs \<le> 63 \<and> list_all (\<lambda>x. ascii_alnum x \<or> x \<in> set ''._@-'') cs)"

definition password_ok :: "string \<Rightarrow> bool" where
  "password_ok s \<longleftrightarrow> MIN_PASSWORD_LENGTH \<le> length s \<and> length s \<le> 256"

definition valid_user_create :: "user_create \<Rightarrow> bool" where
  "valid_user_create b \<longleftrightarrow> login_ok (uc_login b) \<and> password_ok (uc_password b) \<and>
     uc_role b \<in> set (map role_value role_names)"

definition valid_user_update :: "user_update \<Rightarrow> bool" where
  "valid_user_update b \<longleftrightarrow>
     (case up_role b of None \<Rightarrow> True | Some r \<Rightarrow> r \<in> set (map role_value role_names)) \<and>
     (case up_password b of None \<Rightarrow> True | Some p \<Rightarrow> password_ok p) \<and>
     \<not> (up_role b = None \<and> up_active b = None \<and> up_password b = None)"

record user_admin_out =
  ua_id :: uuid
  ua_login :: string
  ua_role :: string
  ua_active :: bool
  ua_locked :: bool

subsection \<open>Reading\<close>

definition role_ids :: "database \<Rightarrow> (string, nat) dict" where
  "role_ids db = dict_of (map (\<lambda>(rid, name). (name, rid)) (db_roles db))"

definition get_user :: "database \<Rightarrow> uuid \<Rightarrow> (user_row \<times> string) answer" where
  "get_user db uid =
     (case map_of (db_users db) uid of
        None \<Rightarrow> Inl NOT_FOUND
      | Some u \<Rightarrow>
          (case map_of (db_roles db) (us_role_id u) of None \<Rightarrow> Inl NOT_FOUND | Some role \<Rightarrow> Inr (u, role)))"

definition active_admin :: "database \<Rightarrow> user_row \<Rightarrow> bool" where
  "active_admin db u \<longleftrightarrow> us_active u \<and> map_of (db_roles db) (us_role_id u) = Some (role_value ADMIN)"

definition other_active_admins :: "database \<Rightarrow> uuid \<Rightarrow> nat" where
  "other_active_admins db uid =
     length (List.filter (\<lambda>(k, u). active_admin db u \<and> k \<noteq> uid) (db_users db))"

text \<open>\<open>list_roles\<close>: the names and levels, by level.\<close>

definition list_roles :: "(string \<times> nat) list" where
  "list_roles = sort_key snd ROLE_LEVEL"

text \<open>The order of the logins is the database's collation, a parameter.\<close>

definition list_users :: "(string \<Rightarrow> 'k::linorder) \<Rightarrow> (string \<Rightarrow> bool) \<Rightarrow> database \<Rightarrow> user_admin_out list" where
  "list_users collate locked db =
     map (\<lambda>(uid, u, role). \<lparr>ua_id = uid, ua_login = us_login u, ua_role = role, ua_active = us_active u,
         ua_locked = locked (us_login u)\<rparr>)
       (sort_key (\<lambda>(uid, u, role). collate (us_login u))
          (concat (map (\<lambda>(uid, u). case map_of (db_roles db) (us_role_id u) of
             None \<Rightarrow> [] | Some role \<Rightarrow> [(uid, u, role)]) (db_users db))))"

subsection \<open>Creating\<close>

text \<open>\<open>uid\<close> is the identifier the database draws for the new row.\<close>

definition create_user ::
  "(string \<Rightarrow> string) \<Rightarrow> request \<Rightarrow> current_user \<Rightarrow> user_create \<Rightarrow> uuid \<Rightarrow> database \<Rightarrow> user_admin_out answer \<times> database" where
  "create_user hash rq admin body uid db =
     (if \<not> valid_user_create body then (Inl UNPROCESSABLE, db)
      else case map_of (role_ids db) (uc_role body) of
        None \<Rightarrow> (Inl UNPROCESSABLE, db)
      | Some rid \<Rightarrow>
          if map_of (db_users db) uid \<noteq> None \<or> uc_login body \<in> set (map us_login (dict_vals (db_users db)))
          then (Inl CONFLICT, db)
          else finish db
            [record_audit rq (Some (cu_id admin)) ''user.create'' (Some (uc_login body)) None
               (Some (JObj [(''role'', JStr (uc_role body))]))]
            (db\<lparr>db_users := AList.update uid \<lparr>us_login = uc_login body, us_password_hash = hash (uc_password body),
               us_role_id = rid, us_active = True\<rparr> (db_users db)\<rparr>)
            (Inr \<lparr>ua_id = uid, ua_login = uc_login body, ua_role = uc_role body, ua_active = True,
                  ua_locked = False\<rparr>))"

subsection \<open>Modifying\<close>

text \<open>The columns an \<open>UPDATE\<close> sets; the others keep the value they have when it runs.\<close>

record user_changes =
  ch_role_id :: "nat option"
  ch_active :: "bool option"
  ch_hash :: "string option"

definition apply_changes :: "user_changes \<Rightarrow> user_row \<Rightarrow> user_row" where
  "apply_changes ch u =
     (let u1 = (case ch_role_id ch of None \<Rightarrow> u | Some r \<Rightarrow> u\<lparr>us_role_id := r\<rparr>);
          u2 = (case ch_active ch of None \<Rightarrow> u1 | Some a \<Rightarrow> u1\<lparr>us_active := a\<rparr>)
      in (case ch_hash ch of None \<Rightarrow> u2 | Some h \<Rightarrow> u2\<lparr>us_password_hash := h\<rparr>))"

definition write_changes :: "uuid \<Rightarrow> user_changes \<Rightarrow> database \<Rightarrow> database" where
  "write_changes uid ch db =
     (case map_of (db_users db) uid of
        None \<Rightarrow> db
      | Some u \<Rightarrow> db\<lparr>db_users := AList.update uid (apply_changes ch u) (db_users db)\<rparr>)"

text \<open>The checks: the new role and activity, and what to write.\<close>

definition update_check ::
  "(string \<Rightarrow> string) \<Rightarrow> current_user \<Rightarrow> uuid \<Rightarrow> user_update \<Rightarrow> database \<Rightarrow>
   ((string \<times> bool) \<times> user_changes) answer" where
  "update_check hash admin uid body db =
     (case get_user db uid of
        Inl e \<Rightarrow> Inl e
      | Inr (u, role) \<Rightarrow>
          (let new_role = (case up_role body of None \<Rightarrow> role | Some r \<Rightarrow> r);
               new_active = (case up_active body of None \<Rightarrow> us_active u | Some a \<Rightarrow> a);
               losing = role = role_value ADMIN \<and> us_active u \<and> (new_role \<noteq> role_value ADMIN \<or> \<not> new_active)
           in if losing \<and> uid = cu_id admin then Inl CONFLICT
              else if losing \<and> other_active_admins db uid = 0 then Inl CONFLICT
              else if uid = cu_id admin \<and> \<not> new_active then Inl CONFLICT
              else case (case up_role body of None \<Rightarrow> Some None
                         | Some r \<Rightarrow> map_option Some (map_of (role_ids db) r)) of
                  None \<Rightarrow> Inl UNPROCESSABLE
                | Some rid \<Rightarrow> Inr ((new_role, new_active),
                    \<lparr>ch_role_id = rid, ch_active = up_active body, ch_hash = map_option hash (up_password body)\<rparr>)))"

definition user_json :: "string \<Rightarrow> bool \<Rightarrow> (string \<times> json) list" where
  "user_json role active = [(''role'', JStr role), (''active'', JBool active)]"

definition update_user ::
  "(string \<Rightarrow> string) \<Rightarrow> (string \<Rightarrow> bool) \<Rightarrow> request \<Rightarrow> current_user \<Rightarrow> uuid \<Rightarrow> user_update \<Rightarrow> database \<Rightarrow>
   user_admin_out answer \<times> database" where
  "update_user hash locked rq admin uid body db =
     (if \<not> valid_user_update body then (Inl UNPROCESSABLE, db)
      else case (get_user db uid, update_check hash admin uid body db) of
        (Inr (u, role), Inr ((new_role, new_active), ch)) \<Rightarrow>
          finish db
            [record_audit rq (Some (cu_id admin)) ''user.update'' (Some (us_login u))
               (Some (JObj (user_json role (us_active u))))
               (Some (JObj (user_json new_role new_active @
                  (if up_password body = None then [] else [(''password_changed'', JBool True)]))))]
            (write_changes uid ch db)
            (Inr \<lparr>ua_id = uid, ua_login = us_login u, ua_role = new_role, ua_active = new_active,
                  ua_locked = locked (us_login u)\<rparr>)
      | (Inl e, _) \<Rightarrow> (Inl e, db)
      | (_, Inl e) \<Rightarrow> (Inl e, db))"

text \<open>\<open>unlock_user\<close>: the guard's answer, \<open>None\<close> when Redis raises, is \<open>was_locked\<close>.\<close>

definition unlock_user ::
  "bool option \<Rightarrow> request \<Rightarrow> current_user \<Rightarrow> uuid \<Rightarrow> database \<Rightarrow> user_admin_out answer \<times> database" where
  "unlock_user was_locked rq admin uid db =
     (case get_user db uid of
        Inl e \<Rightarrow> (Inl e, db)
      | Inr (u, role) \<Rightarrow>
          (case was_locked of
             None \<Rightarrow> (Inl SERVER_ERROR, db)
           | Some w \<Rightarrow>
               finish db
                 [record_audit rq (Some (cu_id admin)) ''user.unlock'' (Some (us_login u)) None
                    (Some (JObj [(''was_locked'', JBool w)]))]
                 db (Inr \<lparr>ua_id = uid, ua_login = us_login u, ua_role = role, ua_active = us_active u,
                          ua_locked = False\<rparr>)))"

subsection \<open>Deleting\<close>

text \<open>The foreign keys to the user are set to null.\<close>

definition forget_user :: "uuid \<Rightarrow> database \<Rightarrow> database" where
  "forget_user uid db =
     (let clear = (\<lambda>o'. if o' = Some uid then None else o') in
      db\<lparr>db_users := AList.delete uid (db_users db),
         db_synoptics := map (\<lambda>(k, y). (k, y\<lparr>sy_owner_id := clear (sy_owner_id y)\<rparr>)) (db_synoptics db),
         db_versions := map (\<lambda>v. v\<lparr>sv_created_by := clear (sv_created_by v)\<rparr>) (db_versions db),
         db_audit := map (\<lambda>a. a\<lparr>au_user_id := clear (au_user_id a)\<rparr>) (db_audit db)\<rparr>)"

definition delete_user ::
  "request \<Rightarrow> current_user \<Rightarrow> uuid \<Rightarrow> database \<Rightarrow> unit answer \<times> database" where
  "delete_user rq admin uid db =
     (case get_user db uid of
        Inl e \<Rightarrow> (Inl e, db)
      | Inr (u, role) \<Rightarrow>
          if uid = cu_id admin then (Inl CONFLICT, db)
          else if role = role_value ADMIN \<and> us_active u \<and> other_active_admins db uid = 0 then (Inl CONFLICT, db)
          else finish db
            [record_audit rq (Some (cu_id admin)) ''user.delete'' (Some (us_login u))
               (Some (JObj (user_json role (us_active u)))) None]
            (forget_user uid db) (Inr ()))"

subsection \<open>The command line\<close>

definition cli_create_user ::
  "(string \<Rightarrow> string) \<Rightarrow> string \<Rightarrow> string \<Rightarrow> string \<Rightarrow> bool \<Rightarrow> uuid \<Rightarrow> database \<Rightarrow> (string + string) \<times> database" where
  "cli_create_user hash login' role password update uid db =
     (case map_of (role_ids db) role of
        None \<Rightarrow> (Inl ''role'', db)
      | Some rid \<Rightarrow>
          (case List.find (\<lambda>(k, u). us_login u = login') (db_users db) of
             None \<Rightarrow>
               (Inr ''created'', db\<lparr>db_users := AList.update uid
                  \<lparr>us_login = login', us_password_hash = hash password, us_role_id = rid, us_active = True\<rparr>
                  (db_users db)\<rparr>)
           | Some (k, u) \<Rightarrow>
               if \<not> update then (Inl ''exists'', db)
               else (Inr ''updated'', db\<lparr>db_users := AList.update k
                  (u\<lparr>us_password_hash := hash password, us_role_id := rid, us_active := True\<rparr>) (db_users db)\<rparr>)))"

definition cli_main ::
  "(string \<Rightarrow> string) \<Rightarrow> string \<Rightarrow> string \<Rightarrow> string \<Rightarrow> bool \<Rightarrow> uuid \<Rightarrow> database \<Rightarrow> (string + string) \<times> database" where
  "cli_main hash login' role password update uid db =
     (if role \<notin> set (map role_value role_names) then (Inl ''usage'', db)
      else if length password < MIN_PASSWORD_LENGTH then (Inl ''password'', db)
      else cli_create_user hash login' role password update uid db)"

subsection \<open>The routes\<close>

datatype user_request = Create_User user_create uuid | Update_User uuid user_update
  | Unlock_User uuid "bool option" | Delete_User uuid

fun user_handler ::
  "(string \<Rightarrow> string) \<Rightarrow> (string \<Rightarrow> bool) \<Rightarrow> request \<Rightarrow> user_request \<Rightarrow> database \<Rightarrow> current_user \<Rightarrow>
   user_admin_out option answer \<times> database" where
  "user_handler hash locked rq (Create_User body uid) db admin =
     map_prod (map_sum id Some) id (create_user hash rq admin body uid db)"
| "user_handler hash locked rq (Update_User uid body) db admin =
     map_prod (map_sum id Some) id (update_user hash locked rq admin uid body db)"
| "user_handler hash locked rq (Unlock_User uid was_locked) db admin =
     map_prod (map_sum id Some) id (unlock_user was_locked rq admin uid db)"
| "user_handler hash locked rq (Delete_User uid) db admin =
     map_prod (map_sum id (\<lambda>_. None)) id (delete_user rq admin uid db)"

text \<open>A request as it arrives: its context, its access cookie, and what it asks.\<close>

definition user_route ::
  "(time \<Rightarrow> string \<Rightarrow> token_payload option) \<Rightarrow> (string \<Rightarrow> string) \<Rightarrow> (string \<Rightarrow> string) \<Rightarrow> (string \<Rightarrow> bool) \<Rightarrow>
   request \<times> string option \<times> user_request \<Rightarrow> database \<Rightarrow> user_admin_out option answer \<times> database" where
  "user_route jwt_decode stamp_of hash locked call db =
     (case call of (rq, cookie, req) \<Rightarrow>
        guarded ADMIN (authenticate jwt_decode stamp_of (rq_now rq) cookie db)
          (user_handler hash locked rq req db) db)"

subsection \<open>There is always an administrator\<close>

definition users_ok :: "database \<Rightarrow> bool" where
  "users_ok db \<longleftrightarrow> dict_wf (db_users db) \<and> dict_wf (db_roles db) \<and> uq_login (db_users db) \<and>
     (\<exists>uid u. map_of (db_users db) uid = Some u \<and> active_admin db u)"

text \<open>The tables the handlers of this file leave alone.\<close>

lemma role_ids_role:
  assumes "dict_wf (db_roles db)" "map_of (role_ids db) name = Some rid"
  shows "map_of (db_roles db) rid = Some name"
proof -
  have "(rid, name) \<in> set (db_roles db)"
    using dict_of_mem [OF assms(2) [unfolded role_ids_def]] by auto
  then show ?thesis by (rule map_of_mem [OF assms(1), THEN iffD1])
qed

lemma other_admins:
  assumes "dict_wf (db_users db)" "other_active_admins db uid \<noteq> 0"
  shows "\<exists>k u. k \<noteq> uid \<and> map_of (db_users db) k = Some u \<and> active_admin db u"
proof -
  from assms(2) obtain k u where "(k, u) \<in> set (db_users db)" "active_admin db u" "k \<noteq> uid"
    by (auto simp: other_active_admins_def filter_empty_conv)
  then show ?thesis using map_of_mem [OF assms(1)] by blast
qed

lemma uq_login_iff:
  assumes "dict_wf us"
  shows "uq_login us \<longleftrightarrow> (\<forall>i j u v. map_of us i = Some u \<and> map_of us j = Some v \<and> us_login u = us_login v \<longrightarrow> i = j)"
  unfolding uq_login_def by (rule unique_column_iff [OF assms])

lemma users_ok_audit [simp]: "users_ok (db\<lparr>db_audit := x\<rparr>) = users_ok db"
  by (simp add: users_ok_def active_admin_def)

text \<open>A change of one row, or of none, that leaves an administrator.\<close>

lemma users_ok_set:
  assumes ok: "users_ok db" and roles: "db_roles db' = db_roles db"
    and users: "db_users db' = AList.update uid u (db_users db)"
    and fresh: "\<And>k v. map_of (db_users db) k = Some v \<Longrightarrow> us_login v = us_login u \<Longrightarrow> k = uid"
    and admin: "active_admin db u \<or> (\<exists>k v. k \<noteq> uid \<and> map_of (db_users db) k = Some v \<and> active_admin db v)"
  shows "users_ok db'"
proof -
  have wf: "dict_wf (db_users db)" using ok by (simp add: users_ok_def)
  have uq: "\<forall>i j v w. map_of (db_users db) i = Some v \<and> map_of (db_users db) j = Some w \<and> us_login v = us_login w \<longrightarrow> i = j"
    using ok uq_login_iff [OF wf] by (simp add: users_ok_def)
  have "uq_login (db_users db')"
    using wf uq fresh by (simp add: users uq_login_iff) metis
  moreover have "\<exists>k v. map_of (db_users db') k = Some v \<and> active_admin db' v"
    using admin unfolding users by (auto simp: active_admin_def roles)
  ultimately show ?thesis using ok wf by (simp add: users_ok_def roles users)
qed

lemma finish_ok: "finish db rows db1 ans = (res, db') \<Longrightarrow> users_ok db \<Longrightarrow> users_ok db1 \<Longrightarrow> users_ok db'"
  by (erule finish_cases) simp_all

lemma create_user_ok:
  assumes "users_ok db"
  shows "users_ok (snd (create_user hash rq admin body uid db))"
proof (cases "valid_user_create body \<and> map_of (db_users db) uid = None \<and>
    uc_login body \<notin> set (map us_login (dict_vals (db_users db)))")
  case True
  show ?thesis
  proof (cases "map_of (role_ids db) (uc_role body)")
    case (Some rid)
    define u where "u = \<lparr>us_login = uc_login body, us_password_hash = hash (uc_password body),
      us_role_id = rid, us_active = True\<rparr>"
    have "users_ok (db\<lparr>db_users := AList.update uid u (db_users db)\<rparr>)"
    proof (rule users_ok_set [OF assms])
      show "k = uid" if "map_of (db_users db) k = Some v" "us_login v = us_login u" for k v
      proof -
        have "v \<in> set (dict_vals (db_users db))"
          using that(1) assms set_dict_vals [of "db_users db" v] by (auto simp: users_ok_def)
        then have "us_login v \<in> set (map us_login (dict_vals (db_users db)))" by simp
        with True that(2) show ?thesis by (simp add: u_def)
      qed
      show "active_admin db u \<or> (\<exists>k v. k \<noteq> uid \<and> map_of (db_users db) k = Some v \<and> active_admin db v)"
        using assms True unfolding users_ok_def by (metis option.distinct(1))
    qed simp_all
    with True Some assms show ?thesis
      by (auto simp: create_user_def u_def intro: finish_ok [OF surjective_pairing])
  qed (use assms in \<open>simp add: create_user_def\<close>)
qed (use assms in \<open>auto simp: create_user_def split: option.splits\<close>)

text \<open>What a check that passes leaves: the row stays an active administrator, or another is one.\<close>

lemma update_check_admin:
  assumes ok: "users_ok db" and c: "update_check hash admin uid body db = Inr (new, ch)"
    and u: "map_of (db_users db) uid = Some u"
  shows "active_admin db (apply_changes ch u) \<or>
    (\<exists>k v. k \<noteq> uid \<and> map_of (db_users db) k = Some v \<and> active_admin db v)"
proof (cases "active_admin db u")
  case False
  obtain k v where "map_of (db_users db) k = Some v" "active_admin db v"
    using ok by (auto simp: users_ok_def)
  with False u show ?thesis by (metis option.inject)
next
  case admin: True
  have wf: "dict_wf (db_users db)" "dict_wf (db_roles db)" using ok by (simp_all add: users_ok_def)
  have g: "get_user db uid = Inr (u, role_value ADMIN)"
    using admin u by (simp add: get_user_def active_admin_def)
  let ?role = "case up_role body of None \<Rightarrow> role_value ADMIN | Some r \<Rightarrow> r"
  let ?active = "case up_active body of None \<Rightarrow> us_active u | Some a \<Rightarrow> a"
  show ?thesis
  proof (cases "?role = role_value ADMIN \<and> ?active")
    case True
    have "active_admin db (apply_changes ch u)"
      using c g admin True role_ids_role [OF wf(2)]
      by (auto simp: update_check_def Let_def apply_changes_def active_admin_def
          simp del: role_value.simps split: option.splits if_splits)
    then show ?thesis ..
  next
    case False
    have "other_active_admins db uid \<noteq> 0"
      using c g admin False
      by (auto simp: update_check_def Let_def active_admin_def simp del: role_value.simps split: if_splits)
    with other_admins [OF wf(1)] show ?thesis by blast
  qed
qed

lemma apply_changes_login [simp]: "us_login (apply_changes ch u) = us_login u"
  by (simp add: apply_changes_def Let_def split: option.splits)

lemma write_changes_ok:
  assumes "users_ok db" "update_check hash admin uid body db = Inr (new, ch)"
  shows "users_ok (write_changes uid ch db)"
proof (cases "map_of (db_users db) uid")
  case (Some u)
  have uq: "\<forall>i j v w. map_of (db_users db) i = Some v \<and> map_of (db_users db) j = Some w \<and>
      us_login v = us_login w \<longrightarrow> i = j"
    using assms(1) uq_login_iff by (auto simp: users_ok_def)
  show ?thesis unfolding write_changes_def Some option.case
    by (rule users_ok_set [OF assms(1) _ _ _ update_check_admin [OF assms Some]])
      (use uq Some in auto)
qed (use assms(1) in \<open>simp add: write_changes_def\<close>)

lemma update_user_ok:
  assumes "users_ok db"
  shows "users_ok (snd (update_user hash locked rq admin uid body db))"
  using assms write_changes_ok [OF assms]
  by (auto simp: update_user_def intro: finish_ok [OF surjective_pairing] split: sum.splits prod.splits)

lemma delete_user_ok:
  assumes ok: "users_ok db"
  shows "users_ok (snd (delete_user rq admin uid db))"
proof (cases "get_user db uid")
  case (Inr ur)
  obtain u role where ur: "ur = (u, role)" by (cases ur)
  with Inr have u: "map_of (db_users db) uid = Some u" "map_of (db_roles db) (us_role_id u) = Some role"
    by (auto simp: get_user_def split: option.splits)
  have wf: "dict_wf (db_users db)" using ok by (simp add: users_ok_def)
  have "users_ok (forget_user uid db)" if "\<not> (role = role_value ADMIN \<and> us_active u \<and> other_active_admins db uid = 0)"
  proof -
    have "\<exists>k v. k \<noteq> uid \<and> map_of (db_users db) k = Some v \<and> active_admin db v"
    proof (cases "active_admin db u")
      case True
      with that u other_admins [OF wf, of uid] show ?thesis by (auto simp: active_admin_def)
    next
      case False
      with ok u show ?thesis unfolding users_ok_def by (metis option.inject)
    qed
    then obtain k v where "k \<noteq> uid" "map_of (db_users db) k = Some v" "active_admin db v" by blast
    then have "map_of (AList.delete uid (db_users db)) k = Some v \<and> active_admin (forget_user uid db) v"
      by (simp add: active_admin_def forget_user_def Let_def)
    moreover have "uq_login (AList.delete uid (db_users db))"
      using ok uq_login_iff [OF wf] wf by (auto simp: users_ok_def uq_login_iff)
    moreover have "db_users (forget_user uid db) = AList.delete uid (db_users db)"
      "db_roles (forget_user uid db) = db_roles db"
      by (simp_all add: forget_user_def Let_def)
    moreover have "dict_wf (AList.delete uid (db_users db))" "dict_wf (db_roles db)"
      using ok by (simp_all add: users_ok_def)
    ultimately show ?thesis unfolding users_ok_def by metis
  qed
  with ok Inr ur show ?thesis
    by (auto simp: delete_user_def intro: finish_ok [OF surjective_pairing])
qed (use ok in \<open>simp add: delete_user_def\<close>)

lemma unlock_user_ok: "users_ok db \<Longrightarrow> users_ok (snd (unlock_user was_locked rq admin uid db))"
  by (auto simp: unlock_user_def intro: finish_ok [OF surjective_pairing] split: sum.splits option.splits)

lemma user_route_ok: "users_ok db \<Longrightarrow> users_ok (snd (user_route jwt_decode stamp_of hash locked call db))"
proof -
  assume ok: "users_ok db"
  obtain rq cookie req where call: "call = (rq, cookie, req)" by (cases call)
  have "users_ok (snd (user_handler hash locked rq req db admin))" for admin
    using ok by (cases req) (simp_all add: create_user_ok update_user_ok unlock_user_ok delete_user_ok)
  then show ?thesis
    using ok by (auto simp: user_route_def call guarded_def require_role_def split: sum.splits)
qed

interpretation users: event_driven "\<lambda>call db. snd (user_route jwt_decode stamp_of hash locked call db)" users_ok
  for jwt_decode stamp_of hash locked
  by unfold_locales (rule user_route_ok)

text \<open>
  C34. There is always an administrator: whatever requests arrive, from whomever and in whatever
  order, handled one after the other, some account keeps being an active administrator, and no two
  accounts share a login.
\<close>

theorem always_an_administrator:
  assumes "users_ok db"
    and "db' = fold (\<lambda>call db. snd (user_route jwt_decode stamp_of hash locked call db)) calls db"
  shows "(\<exists>uid u. map_of (db_users db') uid = Some u \<and> us_active u \<and>
      map_of (db_roles db') (us_role_id u) = Some ''admin'') \<and> uq_login (db_users db')"
  using users.run_inv [OF assms(1)] unfolding assms(2) users_ok_def active_admin_def by simp

text \<open>
  Only administrators change accounts: a request that changes anything in the database comes
  with a valid access cookie of an active administrator.
\<close>

theorem accounts_changed_by_administrators:
  assumes "user_route jwt_decode stamp_of hash locked (rq, cookie, req) db = (res, db')" "db' \<noteq> db"
  shows "\<exists>claims u. decode_token jwt_decode (rq_now rq) cookie ''access'' = Some claims \<and>
    map_of (db_users db) (tc_user_id claims) = Some u \<and> us_active u \<and>
    map_of (db_roles db) (us_role_id u) = Some ''admin'' \<and>
    tc_stamp claims = stamp_of (us_password_hash u)"
proof -
  from assms(1) have "guarded ADMIN (authenticate jwt_decode stamp_of (rq_now rq) cookie db)
      (user_handler hash locked rq req db) db = (res, db')"
    by (simp add: user_route_def)
  then show ?thesis
  proof (cases rule: guarded_cases)
    case (handled cu)
    then obtain r where "cu_role cu = role_value r" "level_of_min ADMIN \<le> level_of_min r"
      using has_role_cases by metis
    then have "cu_role cu = ''admin''" by (cases r) simp_all
    with handled(1) show ?thesis by (auto simp: authenticate_Inr load_user_Some)
  qed (use assms(2) in simp)
qed

text \<open>
  Two administrators can remove each other: when two requests are checked before either is
  written, as two sessions of the database do, the two last administrators can each take the
  other's role, and no administrator is left.
\<close>

theorem concurrent_demotions:
  assumes "a \<noteq> b" "map_of (db_users db) a = Some ua" "map_of (db_users db) b = Some ub"
    and "active_admin db ua" "active_admin db ub" "dict_wf (db_users db)" "dict_wf (db_roles db)"
    and "\<forall>k u. map_of (db_users db) k = Some u \<and> active_admin db u \<longrightarrow> k = a \<or> k = b"
    and "cu_id ca = a" "cu_id cb = b" "map_of (role_ids db) ''viewer'' = Some rid"
    and "body = \<lparr>up_role = Some ''viewer'', up_active = None, up_password = None\<rparr>"
  shows "\<exists>new ch. update_check hash ca b body db = Inr (new, ch) \<and>
    update_check hash cb a body db = Inr (new, ch) \<and>
    (\<nexists>k u. map_of (db_users (write_changes a ch (write_changes b ch db))) k = Some u \<and>
      active_admin (write_changes a ch (write_changes b ch db)) u)"
proof -
  define ch where "ch = \<lparr>ch_role_id = Some rid, ch_active = None, ch_hash = None\<rparr>"
  have other: "other_active_admins db i \<noteq> 0" if "map_of (db_users db) j = Some u" "active_admin db u" "j \<noteq> i" for i j u
  proof -
    have "(j, u) \<in> set (db_users db)" using that(1) map_of_mem [OF assms(6)] by blast
    with that(2,3) show ?thesis by (auto simp: other_active_admins_def filter_empty_conv)
  qed
  have check: "update_check hash c i body db = Inr ((''viewer'', True), ch)"
    if "map_of (db_users db) i = Some u" "active_admin db u" "other_active_admins db i \<noteq> 0" "cu_id c \<noteq> i" for c i u
    using that assms(11,12) by (simp add: update_check_def get_user_def active_admin_def ch_def)
  have "update_check hash ca b body db = Inr ((''viewer'', True), ch)"
    "update_check hash cb a body db = Inr ((''viewer'', True), ch)"
    using assms(1-5,9,10) other by (auto intro!: check)
  moreover have "map_of (db_roles db) rid = Some ''viewer''" by (rule role_ids_role [OF assms(7,11)])
  moreover have "us_role_id (apply_changes ch u) = rid" for u
    by (simp add: ch_def apply_changes_def)
  moreover have "map_of (db_users (write_changes a ch (write_changes b ch db))) k =
      (if k = a then Some (apply_changes ch ua) else if k = b then Some (apply_changes ch ub)
       else map_of (db_users db) k)" for k
    using assms(1-3) by (simp add: write_changes_def)
  moreover have "db_roles (write_changes a ch (write_changes b ch db)) = db_roles db"
    using assms(1-3) by (simp add: write_changes_def)
  ultimately show ?thesis
    using assms(8) by (intro exI [of _ "(''viewer'', True)"] exI [of _ ch]) (auto simp: active_admin_def)
qed

subsection \<open>Examples\<close>

definition example_admins :: database where
  "example_admins = empty_db
     \<lparr>db_users := [(6, \<lparr>us_login = ''ann'', us_password_hash = ''x'', us_role_id = 4, us_active = True\<rparr>),
                  (7, \<lparr>us_login = ''bob'', us_password_hash = ''y'', us_role_id = 4, us_active = True\<rparr>)]\<rparr>"

definition ann_cookie :: "string option" where
  "ann_cookie = ck_access (set_cookies plain_encode example_settings 10 6 ''x'')"

definition demote :: user_update where
  "demote = \<lparr>up_role = Some ''viewer'', up_active = None, up_password = None\<rparr>"

lemma example_admins_ok: "users_ok example_admins"
  by (auto simp: users_ok_def example_admins_def uq_login_def empty_db_def active_admin_def)

definition ann :: current_user where
  "ann = \<lparr>cu_id = 6, cu_login = ''ann'', cu_role = ''admin'', cu_stamp = ''x''\<rparr>"

lemma ann_authenticated:
  assumes "map_of (db_users db) 6 = Some \<lparr>us_login = ''ann'', us_password_hash = ''x'', us_role_id = r, us_active = True\<rparr>"
    and "map_of (db_roles db) r = Some ''admin''"
  shows "authenticate plain_decode id 20 ann_cookie db = Inr ann"
proof -
  have "decode_token plain_decode 20 ann_cookie ''access'' = Some \<lparr>tc_user_id = 6, tc_kind = ''access'',
      tc_expires_at = 70, tc_stamp = ''x''\<rparr>"
    unfolding ann_cookie_def by (subst set_cookies_access(1) [OF plain_jwt]) (simp_all add: example_settings_def)
  with assms show ?thesis by (simp add: authenticate_def load_user_def ann_def)
qed

theorem always_an_administrator_witness:
  "\<exists>uid u. map_of (db_users (snd (user_route plain_decode id id (\<lambda>_. False)
      (\<lparr>rq_now = 20, rq_ip = None\<rparr>, ann_cookie, Update_User 7 demote) example_admins))) uid = Some u \<and> us_active u"
  using always_an_administrator [OF example_admins_ok refl,
      of plain_decode id id "\<lambda>_. False" "[(\<lparr>rq_now = 20, rq_ip = None\<rparr>, ann_cookie, Update_User 7 demote)]"]
  by auto

theorem accounts_changed_by_administrators_witness:
  "\<exists>claims u. decode_token plain_decode 20 ann_cookie ''access'' = Some claims \<and>
     map_of (db_users example_admins) (tc_user_id claims) = Some u \<and> us_active u"
proof -
  let ?rq = "\<lparr>rq_now = 20, rq_ip = None\<rparr>"
  obtain res db' where r: "user_route plain_decode id id (\<lambda>_. False) (?rq, ann_cookie, Update_User 7 demote)
      example_admins = (res, db')" by fastforce
  have a: "authenticate plain_decode id 20 ann_cookie example_admins = Inr ann"
    by (rule ann_authenticated [where r = 4]) (simp_all add: example_admins_def empty_db_def)
  have "has_role (cu_role ann) ADMIN" by code_simp
  then have "user_route plain_decode id id (\<lambda>_. False) (?rq, ann_cookie, Update_User 7 demote) example_admins =
      user_handler id (\<lambda>_. False) ?rq (Update_User 7 demote) example_admins ann"
    by (simp add: user_route_def guarded_def require_role_def a)
  moreover have "db_audit (snd (update_user id (\<lambda>_. False) ?rq ann 7 demote example_admins)) \<noteq> []"
    by code_simp
  ultimately have "db_audit db' \<noteq> []"
    using r by (cases "update_user id (\<lambda>_. False) ?rq ann 7 demote example_admins") auto
  then have "db' \<noteq> example_admins" by (auto simp: example_admins_def empty_db_def)
  from accounts_changed_by_administrators [OF r this] show ?thesis by auto
qed

theorem concurrent_demotions_witness:
  "\<exists>new ch. update_check id \<lparr>cu_id = 6, cu_login = ''ann'', cu_role = ''admin'', cu_stamp = []\<rparr> 7 demote example_admins =
      Inr (new, ch) \<and>
    update_check id \<lparr>cu_id = 7, cu_login = ''bob'', cu_role = ''admin'', cu_stamp = []\<rparr> 6 demote example_admins =
      Inr (new, ch)"
proof -
  have r: "map_of (role_ids example_admins) ''viewer'' = Some 1" by code_simp
  have "\<exists>new ch. update_check id \<lparr>cu_id = 6, cu_login = ''ann'', cu_role = ''admin'', cu_stamp = []\<rparr> 7 demote example_admins =
      Inr (new, ch) \<and>
    update_check id \<lparr>cu_id = 7, cu_login = ''bob'', cu_role = ''admin'', cu_stamp = []\<rparr> 6 demote example_admins =
      Inr (new, ch) \<and>
    (\<nexists>k u. map_of (db_users (write_changes 6 ch (write_changes 7 ch example_admins))) k = Some u \<and>
      active_admin (write_changes 6 ch (write_changes 7 ch example_admins)) u)"
    by (rule concurrent_demotions [OF _ _ _ _ _ _ _ _ _ _ r])
      (auto simp: example_admins_def empty_db_def active_admin_def demote_def split: if_splits)
  then show ?thesis by blast
qed

end
