(* ===== verification/Synoptic_Doc.thy ===== *)
theory Synoptic_Doc
  imports Synoptic_Expr Database
begin

section \<open>Synoptic documents\<close>

text \<open>
  \<open>app/api/synoptic_doc.py\<close>: what a document must satisfy to be stored. The types of the fields are
  checked and converted by pydantic, which is not part of the repository: a document is given by
  its fields after that, \<open>extra\<close> being the properties of a widget the model does not name. The
  validators are the code's: one that raises \<open>ValueError\<close> makes the document invalid, any other
  exception (\<open>Crash\<close>) is not caught by the library. Texts are those with code points below 256.
\<close>

definition SCHEMA_VERSION :: int where "SCHEMA_VERSION = 1"
definition MAX_WIDGETS :: nat where "MAX_WIDGETS = 500"
definition MAX_RULES :: nat where "MAX_RULES = 20"
definition MAX_DOC_BYTES :: nat where "MAX_DOC_BYTES = 6 * 1024 * 1024"
definition MAX_IMAGE_BYTES :: nat where "MAX_IMAGE_BYTES = 5 * 1024 * 1024"

definition WIDGET_TYPES :: "string list" where
  "WIDGET_TYPES = [''value'', ''label'', ''gauge'', ''indicator'', ''switch'', ''setpoint'', ''trend'',
     ''alarm_list'', ''image'', ''link'', ''shape'']"

definition STYLE_KEYS :: "string list" where
  "STYLE_KEYS = [''color'', ''background'', ''opacity'', ''fontSize'', ''fontWeight'', ''textAlign'',
     ''fill'', ''stroke'', ''strokeWidth'', ''borderColor'', ''borderRadius'']"

subsection \<open>Patterns\<close>

definition is_lower_alnum :: "char \<Rightarrow> bool" where
  "is_lower_alnum c = (let n = of_char c :: nat in (48 \<le> n \<and> n \<le> 57) \<or> (97 \<le> n \<and> n \<le> 122))"

text \<open>\<open>[a-z0-9]+(-[a-z0-9]+)*\<close>: \<open>inside\<close> says whether a segment has begun.\<close>

fun slug_from :: "bool \<Rightarrow> string \<Rightarrow> bool" where
  "slug_from inside [] = inside"
| "slug_from inside (c # cs) =
     (if is_lower_alnum c then slug_from True cs else c = CHR ''-'' \<and> inside \<and> slug_from False cs)"

definition slug_text :: "string \<Rightarrow> bool" where
  "slug_text s = slug_from False s"

definition slug_pattern :: "string \<Rightarrow> bool" where
  "slug_pattern = upto_end slug_text"

definition id_pattern :: "string \<Rightarrow> bool" where
  "id_pattern = upto_end (\<lambda>s. 1 \<le> length s \<and> length s \<le> 64 \<and> list_all (\<lambda>c. is_word_char c \<or> c = CHR ''-'') s)"

definition target_pattern :: "string \<Rightarrow> bool" where
  "target_pattern = upto_end (\<lambda>s. starts_with ''synoptic:'' s \<and> slug_text (drop (length ''synoptic:'') s))"

definition IMAGE_PREFIXES :: "string list" where
  "IMAGE_PREFIXES = map (\<lambda>t. ''data:image/'' @ t @ '';base64,'') [''png'', ''jpeg'', ''svg+xml'', ''webp'']"

definition is_base64 :: "char \<Rightarrow> bool" where
  "is_base64 c \<longleftrightarrow> is_lower_alnum c \<or> (65 \<le> (of_char c :: nat) \<and> (of_char c :: nat) \<le> 90) \<or> c \<in> set ''+/=''"

text \<open>The second group of \<open>_DATA_IMAGE\<close>, if the text matches.\<close>

definition image_data :: "string \<Rightarrow> string option" where
  "image_data s =
     (let t = (if s \<noteq> [] \<and> last s = newline then butlast s else s) in
      case List.find (\<lambda>pre. starts_with pre t) IMAGE_PREFIXES of
        None \<Rightarrow> None
      | Some pre \<Rightarrow>
          (let d = drop (length pre) t in if d \<noteq> [] \<and> list_all is_base64 d then Some d else None))"

definition is_data_image :: "string \<Rightarrow> bool" where
  "is_data_image s =
     (case image_data s of None \<Rightarrow> False | Some d \<Rightarrow> length d * 3 div 4 \<le> MAX_IMAGE_BYTES)"

definition is_valid_slug :: "string \<Rightarrow> bool" where
  "is_valid_slug s \<longleftrightarrow> slug_pattern s \<and> length s \<le> 64"

text \<open>\<open>re.sub(r"[^a-z0-9]+", "-", s)\<close>: \<open>in_gap\<close> says whether the dash of this run is written.\<close>

fun dashed_runs :: "bool \<Rightarrow> string \<Rightarrow> string" where
  "dashed_runs in_gap [] = []"
| "dashed_runs in_gap (c # cs) =
     (if is_lower_alnum c then c # dashed_runs False cs
      else if in_gap then dashed_runs True cs else CHR ''-'' # dashed_runs True cs)"

definition strip_dashes :: "string \<Rightarrow> string" where
  "strip_dashes s = strip_chars {CHR ''-''} s"

text \<open>\<open>slugify\<close>; \<open>to_ascii\<close> is the decomposition of accents by \<open>unicodedata\<close> and \<open>encode\<close>.\<close>

definition slugify :: "(string \<Rightarrow> string) \<Rightarrow> string \<Rightarrow> string" where
  "slugify to_ascii name =
     (let slug = strip_dashes (take 64 (strip_dashes (dashed_runs False (py_lower (to_ascii name)))))
      in if slug = [] then ''synoptique'' else slug)"

subsection \<open>Styles\<close>

fun contains :: "string \<Rightarrow> string \<Rightarrow> bool" where
  "contains w [] = (w = [])"
| "contains w (c # cs) = (starts_with w (c # cs) \<or> contains w cs)"

definition is_safe_css_value :: "json \<Rightarrow> bool" where
  "is_safe_css_value v =
     (case v of
        JInt _ \<Rightarrow> True
      | JFloat _ \<Rightarrow> True
      | JStr s \<Rightarrow>
          length s \<le> 100 \<and>
          \<not> list_ex (\<lambda>w. contains w (py_lower s)) [''url('', ''expression'', ''@import'', ''javascript:''] \<and>
          \<not> list_ex (\<lambda>c. c \<in> set [CHR '';'', CHR ''{'', CHR ''}'', CHR ''<'', CHR ''>'', CHR 0x5C]) s
      | _ \<Rightarrow> False)"

definition check_style :: "(string \<times> json) list \<Rightarrow> bool" where
  "check_style style = list_all (\<lambda>(key, item). key \<in> set STYLE_KEYS \<and> is_safe_css_value item) style"

subsection \<open>The document\<close>

record canvas =
  cv_width :: int
  cv_height :: int
  cv_background :: string
  cv_bg_image :: "string option"

record display_rule =
  ru_when :: string
  ru_style :: "(string \<times> json) list"

record widget =
  wg_id :: string
  wg_type :: string
  wg_x :: pyfloat
  wg_y :: pyfloat
  wg_w :: pyfloat
  wg_h :: pyfloat
  wg_bind :: "(string \<times> json) list"
  wg_style :: "(string \<times> json) list"
  wg_rules :: "display_rule list"
  wg_extra :: "(string \<times> json) list"

record nav_link =
  ln_type :: string
  ln_widget :: string
  ln_target :: string

record synoptic_doc =
  sd_schema :: int
  sd_name :: string
  sd_canvas :: canvas
  sd_widgets :: "widget list"
  sd_links :: "nav_link list"

text \<open>Bounds of a float field: what is refused is below or above (so NaN passes).\<close>

definition between :: "rat \<Rightarrow> rat \<Rightarrow> pyfloat \<Rightarrow> bool" where
  "between lo hi x \<longleftrightarrow> \<not> fl_lt x (Fin lo) \<and> \<not> fl_lt (Fin hi) x"

definition canvas_ok :: "canvas \<Rightarrow> bool" where
  "canvas_ok c \<longleftrightarrow>
     320 \<le> cv_width c \<and> cv_width c \<le> 8000 \<and> 240 \<le> cv_height c \<and> cv_height c \<le> 8000 \<and>
     is_safe_css_value (JStr (cv_background c)) \<and>
     (case cv_bg_image c of None \<Rightarrow> True | Some s \<Rightarrow> is_data_image s)"

definition rule_ok :: "display_rule \<Rightarrow> bool" where
  "rule_ok r \<longleftrightarrow> 1 \<le> length (ru_when r) \<and> length (ru_when r) \<le> 200 \<and>
     check_expression (ru_when r) = Inr () \<and> check_style (ru_style r)"

text \<open>The validators of the fields of a widget; \<open>_properties\<close> only runs when they pass.\<close>

definition widget_fields_ok :: "widget \<Rightarrow> bool" where
  "widget_fields_ok w \<longleftrightarrow>
     id_pattern (wg_id w) \<and> wg_type w \<in> set WIDGET_TYPES \<and>
     between (-10000) 20000 (wg_x w) \<and> between (-10000) 20000 (wg_y w) \<and>
     between 1 20000 (wg_w w) \<and> between 1 20000 (wg_h w) \<and>
     check_style (wg_style w) \<and> length (wg_rules w) \<le> MAX_RULES \<and> list_all rule_ok (wg_rules w)"

datatype verdict = Valid | Invalid | Crash

definition is_uuid :: "(json \<Rightarrow> string) \<Rightarrow> json \<Rightarrow> bool" where
  "is_uuid rp v = (uuid_of_str (py_str rp v) \<noteq> None)"

text \<open>
  The elements \<open>for entry in points\<close> runs over: those of a list, the characters of a text, the
  keys of an object; \<open>None\<close> when the value cannot be iterated.
\<close>

definition iterated :: "json \<Rightarrow> json list option" where
  "iterated v =
     (case v of
        JList xs \<Rightarrow> Some xs
      | JStr s \<Rightarrow> Some (map (\<lambda>c. JStr [c]) s)
      | JObj d \<Rightarrow> Some (map (\<lambda>kv. JStr (fst kv)) d)
      | _ \<Rightarrow> None)"

definition entry_point :: "json \<Rightarrow> json" where
  "entry_point entry =
     (case entry of JObj d \<Rightarrow> (case map_of d ''point'' of None \<Rightarrow> JNull | Some v \<Rightarrow> v) | _ \<Rightarrow> entry)"

definition check_properties :: "(json \<Rightarrow> string) \<Rightarrow> widget \<Rightarrow> verdict" where
  "check_properties rp w =
     (let point = (case map_of (wg_bind w) ''point'' of None \<Rightarrow> JNull | Some v \<Rightarrow> v);
          points = (case map_of (wg_bind w) ''points'' of None \<Rightarrow> JList [] | Some v \<Rightarrow> v)
      in if point \<noteq> JNull \<and> \<not> is_uuid rp point then Invalid
         else case iterated points of
           None \<Rightarrow> Crash
         | Some entries \<Rightarrow>
             if \<not> list_all (\<lambda>e. is_uuid rp (entry_point e)) entries then Invalid
             else if length entries > 8 then Invalid
             else if (case map_of (wg_extra w) ''src'' of None \<Rightarrow> False
                      | Some v \<Rightarrow> \<not> (case v of JStr s \<Rightarrow> is_data_image s | _ \<Rightarrow> False)) then Invalid
             else if (case map_of (wg_extra w) ''target'' of None \<Rightarrow> False
                      | Some v \<Rightarrow> v \<noteq> JNull \<and> \<not> (case v of JStr s \<Rightarrow> target_pattern s | _ \<Rightarrow> False)) then Invalid
             else Valid)"

definition check_widget :: "(json \<Rightarrow> string) \<Rightarrow> widget \<Rightarrow> verdict" where
  "check_widget rp w = (if widget_fields_ok w then check_properties rp w else Invalid)"

definition link_ok :: "nav_link \<Rightarrow> bool" where
  "link_ok l \<longleftrightarrow> ln_type l = ''navigate'' \<and> target_pattern (ln_target l)"

definition references_ok :: "synoptic_doc \<Rightarrow> bool" where
  "references_ok d \<longleftrightarrow> distinct (map wg_id (sd_widgets d)) \<and>
     list_all (\<lambda>l. ln_widget l \<in> set (map wg_id (sd_widgets d))) (sd_links d)"

text \<open>All fields are checked before \<open>_references\<close>; an exception that is no error ends the check.\<close>

definition validate_document :: "(json \<Rightarrow> string) \<Rightarrow> synoptic_doc \<Rightarrow> verdict" where
  "validate_document rp d =
     (if length (sd_widgets d) \<le> MAX_WIDGETS \<and> list_ex (\<lambda>w. check_widget rp w = Crash) (sd_widgets d) then Crash
      else if sd_schema d = SCHEMA_VERSION \<and> 1 \<le> length (sd_name d) \<and> length (sd_name d) \<le> 255 \<and>
         canvas_ok (sd_canvas d) \<and> length (sd_widgets d) \<le> MAX_WIDGETS \<and>
         list_all (\<lambda>w. check_widget rp w = Valid) (sd_widgets d) \<and>
         length (sd_links d) \<le> MAX_WIDGETS \<and> list_all link_ok (sd_links d) \<and> references_ok d
      then Valid else Invalid)"

subsection \<open>The stored form\<close>

text \<open>\<open>to_json\<close>: the fields in the order of the classes, then the extra properties of a widget.\<close>

definition canvas_json :: "canvas \<Rightarrow> json" where
  "canvas_json c = JObj [(''width'', JInt (cv_width c)), (''height'', JInt (cv_height c)),
     (''background'', JStr (cv_background c)),
     (''bg_image'', case cv_bg_image c of None \<Rightarrow> JNull | Some s \<Rightarrow> JStr s)]"

definition rule_json :: "display_rule \<Rightarrow> json" where
  "rule_json r = JObj [(''when'', JStr (ru_when r)), (''style'', JObj (ru_style r))]"

definition widget_json :: "widget \<Rightarrow> json" where
  "widget_json w = JObj ([(''id'', JStr (wg_id w)), (''type'', JStr (wg_type w)), (''x'', JFloat (wg_x w)),
     (''y'', JFloat (wg_y w)), (''w'', JFloat (wg_w w)), (''h'', JFloat (wg_h w)),
     (''bind'', JObj (wg_bind w)), (''style'', JObj (wg_style w)),
     (''rules'', JList (map rule_json (wg_rules w)))] @ wg_extra w)"

definition link_json :: "nav_link \<Rightarrow> json" where
  "link_json l = JObj [(''type'', JStr (ln_type l)), (''widget'', JStr (ln_widget l)), (''target'', JStr (ln_target l))]"

definition to_json :: "synoptic_doc \<Rightarrow> json" where
  "to_json d = JObj [(''schema'', JInt (sd_schema d)), (''name'', JStr (sd_name d)),
     (''canvas'', canvas_json (sd_canvas d)), (''widgets'', JList (map widget_json (sd_widgets d))),
     (''links'', JList (map link_json (sd_links d)))]"

subsection \<open>Slugs derived from names are valid\<close>

text \<open>Two dashes never follow each other.\<close>

fun single_dashes :: "string \<Rightarrow> bool" where
  "single_dashes (a # b # r) = (\<not> (a = CHR ''-'' \<and> b = CHR ''-'') \<and> single_dashes (b # r))"
| "single_dashes _ = True"

definition slug_char :: "char \<Rightarrow> bool" where
  "slug_char c \<longleftrightarrow> is_lower_alnum c \<or> c = CHR ''-''"

lemma dash_not_alnum [simp]: "\<not> is_lower_alnum CHR ''-''"
  by (simp add: is_lower_alnum_def)

lemma slug_from_iff:
  "slug_from inside s \<longleftrightarrow> list_all slug_char s \<and> single_dashes s \<and>
     (s = [] \<longrightarrow> inside) \<and> (s \<noteq> [] \<longrightarrow> (hd s = CHR ''-'' \<longrightarrow> inside) \<and> last s \<noteq> CHR ''-'')"
proof (induction inside s rule: slug_from.induct)
  case (2 inside c cs)
  then show ?case by (cases cs) (auto simp: slug_char_def)
qed simp

lemma slug_text_iff:
  "slug_text s \<longleftrightarrow> s \<noteq> [] \<and> list_all slug_char s \<and> single_dashes s \<and> hd s \<noteq> CHR ''-'' \<and> last s \<noteq> CHR ''-''"
  by (auto simp: slug_text_def slug_from_iff)

lemma dashed_runs_ok: "list_all slug_char (dashed_runs g s) \<and> single_dashes (dashed_runs g s) \<and>
    (g \<longrightarrow> dashed_runs g s \<noteq> [] \<longrightarrow> hd (dashed_runs g s) \<noteq> CHR ''-'')"
proof (induction g s rule: dashed_runs.induct)
  case (2 g c cs)
  show ?case
  proof (cases "is_lower_alnum c")
    case True
    with 2 show ?thesis by (cases "dashed_runs False cs") (auto simp: slug_char_def)
  next
    case False
    with 2 show ?thesis by (cases "dashed_runs True cs") (auto simp: slug_char_def)
  qed
qed simp

lemma single_dashes_append: "single_dashes (a @ b) \<Longrightarrow> single_dashes a \<and> single_dashes b"
proof (induction a)
  case (Cons x a)
  then show ?case by (cases a; cases b) auto
qed simp

lemmas strip_dashes_part = strip_chars_part [where C = "{CHR ''-''}", folded strip_dashes_def]
lemmas strip_dashes_ends = strip_chars_ends [where C = "{CHR ''-''}", folded strip_dashes_def, simplified]
lemmas strip_dashes_length = strip_chars_length [where C = "{CHR ''-''}", folded strip_dashes_def]

lemma strip_dashes_slug:
  assumes "list_all slug_char s" "single_dashes s" "strip_dashes s \<noteq> []"
  shows "slug_text (strip_dashes s)"
proof -
  obtain a b where s: "s = a @ strip_dashes s @ b" using strip_dashes_part by blast
  have "list_all slug_char (strip_dashes s)" using assms(1) by (subst (asm) s) simp
  moreover have "single_dashes (strip_dashes s)"
    using assms(2) single_dashes_append [of a "strip_dashes s @ b"] single_dashes_append [of "strip_dashes s" b] s
    by metis
  ultimately show ?thesis using strip_dashes_ends [OF assms(3)] assms(3) by (simp add: slug_text_iff)
qed

text \<open>
  A slug derived from a name is valid: whatever the name, \<open>slugify\<close> returns lowercase letters
  and digits in segments separated by single dashes, without a dash at either end, of 1 to 64
  characters; so the check that follows never refuses it.
\<close>

theorem slugify_valid: "slug_text (slugify to_ascii name) \<and> is_valid_slug (slugify to_ascii name)"
proof -
  let ?d = "dashed_runs False (py_lower (to_ascii name))"
  let ?t = "take 64 (strip_dashes ?d)"
  obtain a b where d: "?d = a @ strip_dashes ?d @ b" using strip_dashes_part by blast
  obtain c where t: "strip_dashes ?d = ?t @ c" using append_take_drop_id [of 64] by metis
  have whole: "?d = a @ ?t @ c @ b" using d t by (metis append.assoc)
  have "list_all slug_char ?t" "single_dashes ?t"
    using dashed_runs_ok [of False "py_lower (to_ascii name)"] single_dashes_append
    by (metis whole list_all_append)+
  then have s: "slug_text (strip_dashes ?t)" if "strip_dashes ?t \<noteq> []"
    using that by (rule strip_dashes_slug)
  have default: "slug_text ''synoptique''" by code_simp
  have len: "length (strip_dashes ?t) \<le> 64" using strip_dashes_length [of ?t] by simp
  have "slug_text (slugify to_ascii name) \<and> length (slugify to_ascii name) \<le> 64"
    using s default len by (simp add: slugify_def Let_def)
  then show ?thesis by (simp add: is_valid_slug_def slug_pattern_def upto_end_def)
qed

subsection \<open>Documents\<close>

text \<open>
  C27. What the viewer may rely on: in a document the validation accepts, the identifiers of the
  widgets are distinct and every link leaves from one of them, every rule is a phrase of the
  expression grammar, and every style value is a number or a text of at most 100 characters
  without a semicolon, a brace or \<open>url(\<close>, in lower or upper case.
\<close>

theorem valid_document_safe:
  assumes "validate_document rp d = Valid"
  shows "distinct (map wg_id (sd_widgets d)) \<and>
    (\<forall>l \<in> set (sd_links d). \<exists>w \<in> set (sd_widgets d). wg_id w = ln_widget l) \<and>
    (\<forall>w \<in> set (sd_widgets d).
       (\<forall>r \<in> set (wg_rules w). \<exists>ts. tokens (ru_when r) = Inr ts \<and> derives L_Or ts) \<and>
       (\<forall>(k, v) \<in> set (wg_style w @ concat (map ru_style (wg_rules w))).
          (\<exists>i. v = JInt i) \<or> (\<exists>x. v = JFloat x) \<or>
          (\<exists>s. v = JStr s \<and> length s \<le> 100 \<and> \<not> contains ''url('' (py_lower s) \<and>
             CHR '';'' \<notin> set s \<and> CHR ''{'' \<notin> set s \<and> CHR ''}'' \<notin> set s)))"
proof -
  have refs: "references_ok d" and all: "\<And>w. w \<in> set (sd_widgets d) \<Longrightarrow> check_widget rp w = Valid"
    using assms by (auto simp: validate_document_def list_all_iff split: if_splits)
  have safe: "(\<exists>i. v = JInt i) \<or> (\<exists>x. v = JFloat x) \<or>
      (\<exists>s. v = JStr s \<and> length s \<le> 100 \<and> \<not> contains ''url('' (py_lower s) \<and>
         CHR '';'' \<notin> set s \<and> CHR ''{'' \<notin> set s \<and> CHR ''}'' \<notin> set s)" if "is_safe_css_value v" for v
    using that by (cases v) (auto simp: is_safe_css_value_def list_ex_iff)
  have "(\<exists>ts. tokens (ru_when r) = Inr ts \<and> derives L_Or ts) \<and> check_style (ru_style r)"
    if "w \<in> set (sd_widgets d)" "r \<in> set (wg_rules w)" for w r
  proof -
    have "rule_ok r"
      using all [OF that(1)] that(2) by (auto simp: check_widget_def widget_fields_ok_def list_all_iff split: if_splits)
    then show ?thesis using grammar_iff [of "ru_when r"] by (simp add: rule_ok_def)
  qed
  moreover have "check_style (wg_style w)" if "w \<in> set (sd_widgets d)" for w
    using all [OF that] by (auto simp: check_widget_def widget_fields_ok_def split: if_splits)
  ultimately show ?thesis
    using refs safe unfolding references_ok_def check_style_def list_all_iff
    by (fastforce simp del: contains.simps)
qed

text \<open>
  A document can break its validation: a binding whose \<open>points\<close> is null, a number or a boolean
  makes the loop over it raise \<open>TypeError\<close>, which is no validation error; the request then fails
  with an internal error instead of being refused.
\<close>

theorem points_not_iterable:
  assumes "w \<in> set (sd_widgets d)" "length (sd_widgets d) \<le> MAX_WIDGETS" "widget_fields_ok w"
    and "map_of (wg_bind w) ''point'' = None"
    and "map_of (wg_bind w) ''points'' = Some v" "v = JNull \<or> v = JInt i \<or> v = JBool b"
  shows "validate_document rp d = Crash"
proof -
  have "check_widget rp w = Crash"
    using assms(3-6) by (auto simp: check_widget_def check_properties_def iterated_def)
  with assms(1,2) show ?thesis by (auto simp: validate_document_def list_ex_iff)
qed

definition example_widget :: "(string \<times> json) list \<Rightarrow> widget" where
  "example_widget binding =
     \<lparr>wg_id = ''w1'', wg_type = ''value'', wg_x = Fin 10, wg_y = Fin 10, wg_w = Fin 100, wg_h = Fin 40,
      wg_bind = binding, wg_style = [(''color'', JStr ''#fff'')],
      wg_rules = [\<lparr>ru_when = ''value > 30'', ru_style = [(''color'', JStr ''red'')]\<rparr>], wg_extra = []\<rparr>"

definition example_doc :: "(string \<times> json) list \<Rightarrow> synoptic_doc" where
  "example_doc binding =
     \<lparr>sd_schema = 1, sd_name = ''Accueil'',
      sd_canvas = \<lparr>cv_width = 1920, cv_height = 1080, cv_background = ''#0f172a'', cv_bg_image = None\<rparr>,
      sd_widgets = [example_widget binding],
      sd_links = [\<lparr>ln_type = ''navigate'', ln_widget = ''w1'', ln_target = ''synoptic:salle-2''\<rparr>]\<rparr>"

lemma example_fields_ok: "widget_fields_ok (example_widget b)"
proof -
  have "widget_fields_ok (example_widget [])" by code_simp
  then show ?thesis by (simp add: widget_fields_ok_def example_widget_def)
qed

lemma example_doc_valid: "validate_document rp (example_doc []) = Valid"
proof -
  have "check_widget rp (example_widget []) = Valid"
    using example_fields_ok [of "[]"]
    by (simp add: check_widget_def check_properties_def iterated_def) (simp add: example_widget_def iterated_def)
  moreover have "is_safe_css_value (JStr ''#0f172a'')" by code_simp
  moreover have "target_pattern ''synoptic:salle-2''" by code_simp
  ultimately show ?thesis
    by (simp add: validate_document_def example_doc_def SCHEMA_VERSION_def canvas_ok_def MAX_WIDGETS_def
        link_ok_def references_ok_def) (simp add: example_widget_def)
qed

theorem valid_document_safe_witness:
  "\<exists>ts. tokens ''value > 30'' = Inr ts \<and> derives L_Or ts"
  using valid_document_safe [OF example_doc_valid [of "\<lambda>_. []"]]
  by (simp add: example_doc_def example_widget_def)

theorem points_not_iterable_witness:
  "validate_document (\<lambda>_. []) (example_doc [(''points'', JNull)]) = Crash"
  by (rule points_not_iterable [of "example_widget [(''points'', JNull)]" _ JNull])
    (simp_all add: example_doc_def MAX_WIDGETS_def example_fields_ok, simp_all add: example_widget_def)

end
