(* ===== verification/Api_Synoptics.thy ===== *)
theory Api_Synoptics
  imports Api_Auth Synoptic_Doc
begin

section \<open>Synoptics and their versions\<close>

text \<open>
  \<open>app/api/routes/synoptics.py\<close>: creating, saving, deleting and restoring synoptics; every save is a
  new version. What the handlers use of libraries is a record of functions: the size of
  \<open>json.dumps\<close>, the conversion of a body into the fields of a document (pydantic; \<open>None\<close> for a
  \<open>ValidationError\<close>), the text of a float and the removal of accents. A save reads the versions,
  then writes: \<open>seen\<close> is what it has read, so that two simultaneous saves can be expressed. A stored
  document is read back as it was written, up to the order of the keys of its objects.
\<close>

subsection \<open>Data\<close>

record doc_library =
  dl_size :: "json \<Rightarrow> nat"
  dl_parse :: "json \<Rightarrow> synoptic_doc option"
  dl_repr :: "json \<Rightarrow> string"
  dl_ascii :: "string \<Rightarrow> string"

record synoptic_summary =
  so_id :: uuid
  so_name :: string
  so_slug :: string
  so_version :: int
  so_updated_at :: time

record synoptic_out = synoptic_summary +
  so_doc :: json

record synoptic_create =
  sc_slug :: "string option"
  sc_doc :: json

record synoptic_save =
  ss_doc :: json
  ss_base_version :: "int option"

record version_out =
  vo_version :: int
  vo_created_at :: time
  vo_created_by :: "string option"

abbreviation TOO_LARGE :: nat where "TOO_LARGE \<equiv> 413"

definition int32 :: "int \<Rightarrow> bool" where
  "int32 i \<longleftrightarrow> - (2 ^ 31) \<le> i \<and> i < 2 ^ 31"

subsection \<open>Helpers\<close>

definition validated :: "doc_library \<Rightarrow> json \<Rightarrow> synoptic_doc answer" where
  "validated lib raw =
     (if dl_size lib raw > MAX_DOC_BYTES then Inl TOO_LARGE
      else case dl_parse lib raw of
        None \<Rightarrow> Inl UNPROCESSABLE
      | Some d \<Rightarrow>
          (case validate_document (dl_repr lib) d of
             Valid \<Rightarrow> Inr d
           | Invalid \<Rightarrow> Inl UNPROCESSABLE
           | Crash \<Rightarrow> Inl SERVER_ERROR))"

definition versions_of :: "uuid \<Rightarrow> synoptic_version_row list \<Rightarrow> synoptic_version_row list" where
  "versions_of sid vs = List.filter (\<lambda>v. sv_synoptic_id v = sid) vs"

text \<open>\<open>ORDER BY version DESC LIMIT 1\<close>\<close>

fun last_version :: "synoptic_version_row list \<Rightarrow> synoptic_version_row option" where
  "last_version [] = None"
| "last_version (v # vs) =
     (case last_version vs of
        None \<Rightarrow> Some v
      | Some w \<Rightarrow> if sv_version w > sv_version v then Some w else Some v)"

definition latest :: "synoptic_version_row list \<Rightarrow> uuid \<Rightarrow> synoptic_version_row option" where
  "latest vs sid = last_version (versions_of sid vs)"

definition by_slug :: "database \<Rightarrow> string \<Rightarrow> (uuid \<times> synoptic_row) answer" where
  "by_slug db slug =
     (case List.find (\<lambda>(sid, y). sy_slug y = slug) (db_synoptics db) of
        None \<Rightarrow> Inl NOT_FOUND
      | Some y \<Rightarrow> Inr y)"

definition by_id :: "database \<Rightarrow> uuid \<Rightarrow> synoptic_row answer" where
  "by_id db sid = (case map_of (db_synoptics db) sid of None \<Rightarrow> Inl NOT_FOUND | Some y \<Rightarrow> Inr y)"

definition summary_of :: "uuid \<Rightarrow> synoptic_row \<Rightarrow> synoptic_version_row \<Rightarrow> synoptic_summary" where
  "summary_of sid y v =
     \<lparr>so_id = sid, so_name = sy_name y, so_slug = sy_slug y, so_version = sv_version v,
      so_updated_at = sv_created_at v\<rparr>"

definition out_of :: "uuid \<Rightarrow> synoptic_row \<Rightarrow> synoptic_version_row \<Rightarrow> synoptic_out" where
  "out_of sid y v =
     \<lparr>so_id = sid, so_name = sy_name y, so_slug = sy_slug y, so_version = sv_version v,
      so_updated_at = sv_created_at v, so_doc = sv_content v\<rparr>"

text \<open>
  \<open>_add_version\<close> after it has read the versions \<open>seen\<close>: the row and the database with it, or the
  error. \<open>CONFLICT\<close> stands for \<open>IntegrityError\<close> (the number is taken, or the user is gone);
  a content that is no JSON for the database is another exception.
\<close>

definition add_version ::
  "synoptic_version_row list \<Rightarrow> time \<Rightarrow> uuid \<Rightarrow> json \<Rightarrow> uuid \<Rightarrow> database \<Rightarrow>
   (synoptic_version_row \<times> database) answer" where
  "add_version seen now sid doc user db =
     (let current = (case latest seen sid of None \<Rightarrow> 0 | Some v \<Rightarrow> sv_version v);
          row = \<lparr>sv_synoptic_id = sid, sv_version = current + 1, sv_content = doc,
                 sv_created_by = Some user, sv_created_at = now\<rparr>
      in if \<not> jsonb_ok doc \<or> \<not> int32 (current + 1) then Inl SERVER_ERROR
         else if (sid, current + 1) \<in> set (map (\<lambda>v. (sv_synoptic_id v, sv_version v)) (db_versions db)) \<or>
              map_of (db_users db) user = None \<or> map_of (db_synoptics db) sid = None then Inl CONFLICT
         else Inr (row, db\<lparr>db_versions := db_versions db @ [row]\<rparr>))"

subsection \<open>Reading\<close>

text \<open>The order of the names is the database's collation, a parameter.\<close>

definition list_synoptics :: "(string \<Rightarrow> 'k::linorder) \<Rightarrow> database \<Rightarrow> synoptic_summary list" where
  "list_synoptics collate db =
     map (\<lambda>(sid, y, v). summary_of sid y v)
       (sort_key (\<lambda>(sid, y, v). collate (sy_name y))
          (concat (map (\<lambda>(sid, y). case latest (db_versions db) sid of None \<Rightarrow> [] | Some v \<Rightarrow> [(sid, y, v)])
             (db_synoptics db))))"

definition get_synoptic :: "database \<Rightarrow> string \<Rightarrow> synoptic_out answer" where
  "get_synoptic db slug =
     (case by_slug db slug of
        Inl e \<Rightarrow> Inl e
      | Inr (sid, y) \<Rightarrow>
          (case latest (db_versions db) sid of None \<Rightarrow> Inl NOT_FOUND | Some v \<Rightarrow> Inr (out_of sid y v)))"

definition list_versions :: "database \<Rightarrow> string \<Rightarrow> version_out list answer" where
  "list_versions db slug =
     (case by_slug db slug of
        Inl e \<Rightarrow> Inl e
      | Inr (sid, y) \<Rightarrow>
          Inr (map (\<lambda>v. \<lparr>vo_version = sv_version v, vo_created_at = sv_created_at v,
                 vo_created_by = (case sv_created_by v of None \<Rightarrow> None
                   | Some u \<Rightarrow> map_option us_login (map_of (db_users db) u))\<rparr>)
            (sort_key (\<lambda>v. - sv_version v) (versions_of sid (db_versions db)))))"

definition find_version :: "database \<Rightarrow> uuid \<Rightarrow> int \<Rightarrow> synoptic_version_row answer" where
  "find_version db sid n =
     (if \<not> int32 n then Inl SERVER_ERROR
      else case List.find (\<lambda>v. sv_synoptic_id v = sid \<and> sv_version v = n) (db_versions db) of
        None \<Rightarrow> Inl NOT_FOUND
      | Some v \<Rightarrow> Inr v)"

definition get_version :: "database \<Rightarrow> string \<Rightarrow> int \<Rightarrow> synoptic_out answer" where
  "get_version db slug n =
     (case by_slug db slug of
        Inl e \<Rightarrow> Inl e
      | Inr (sid, y) \<Rightarrow>
          (case find_version db sid n of Inl e \<Rightarrow> Inl e | Inr v \<Rightarrow> Inr (out_of sid y v)))"

subsection \<open>The slug of a new synoptic\<close>

text \<open>The loop of \<open>create_synoptic\<close>: the next suffix while the slug is taken.\<close>

definition suffixed :: "string \<Rightarrow> nat \<Rightarrow> string" where
  "suffixed base n = take 60 base @ ''-'' @ nat_str n"

lemma suffixed_inj: "inj (suffixed base)"
  by (rule injI) (simp add: suffixed_def)

function free_slug :: "string list \<Rightarrow> string \<Rightarrow> string \<Rightarrow> nat \<Rightarrow> string" where
  "free_slug taken base slug suffix =
     (if slug \<in> set taken then free_slug taken base (suffixed base (suffix + 1)) (suffix + 1) else slug)"
  by pat_completeness auto

text \<open>It ends: the suffixes differ, and only finitely many of them make a slug that is taken.\<close>

termination
proof (relation "measure (\<lambda>(taken, base, slug, suffix).
    card {n. suffix < n \<and> suffixed base n \<in> set taken} + (if slug \<in> set taken then 1 else 0))")
  fix taken :: "string list" and base slug :: string and suffix :: nat
  assume taken: "slug \<in> set taken"
  let ?S = "\<lambda>k. {n. k < n \<and> suffixed base n \<in> set taken}"
  have fin: "finite (?S k)" for k
    by (rule finite_subset [OF _ finite_vimageI [OF finite_set suffixed_inj]]) auto
  have "?S suffix = (if suffixed base (suffix + 1) \<in> set taken then insert (suffix + 1) (?S (suffix + 1)) else ?S (suffix + 1))"
    by (auto simp: Suc_lessI) (metis Suc_lessI)+
  then have "card (?S suffix) = card (?S (suffix + 1)) + (if suffixed base (suffix + 1) \<in> set taken then 1 else 0)"
    using fin [of "suffix + 1"] by (simp split: if_splits)
  then show "((taken, base, suffixed base (suffix + 1), suffix + 1), taken, base, slug, suffix)
      \<in> measure (\<lambda>(taken, base, slug, suffix).
          card {n. suffix < n \<and> suffixed base n \<in> set taken} + (if slug \<in> set taken then 1 else 0))"
    using taken by simp
qed simp

declare free_slug.simps [simp del]

subsection \<open>Creating, saving, deleting, restoring\<close>

text \<open>The slug of a request: the one asked for, else the one derived from the name.\<close>

definition asked_slug :: "doc_library \<Rightarrow> synoptic_create \<Rightarrow> synoptic_doc \<Rightarrow> string" where
  "asked_slug lib body d =
     (case sc_slug body of
        Some s \<Rightarrow> if s = [] then slugify (dl_ascii lib) (sd_name d) else s
      | None \<Rightarrow> slugify (dl_ascii lib) (sd_name d))"

definition taken_slugs :: "database \<Rightarrow> string list" where
  "taken_slugs db = map sy_slug (dict_vals (db_synoptics db))"

definition created_slug :: "synoptic_create \<Rightarrow> string \<Rightarrow> database \<Rightarrow> string" where
  "created_slug body slug db =
     (if sc_slug body = None then free_slug (taken_slugs db) slug slug 1 else slug)"

definition version_json :: "int \<Rightarrow> json" where
  "version_json n = JObj [(''version'', JInt n)]"

definition saved_json :: "int \<Rightarrow> synoptic_doc \<Rightarrow> json" where
  "saved_json n d = JObj [(''version'', JInt n), (''widgets'', JInt (int (length (sd_widgets d))))]"

text \<open>\<open>sid\<close> is the identifier the database draws for the new row.\<close>

definition create_synoptic ::
  "doc_library \<Rightarrow> request \<Rightarrow> current_user \<Rightarrow> synoptic_create \<Rightarrow> uuid \<Rightarrow> database \<Rightarrow> synoptic_out answer \<times> database" where
  "create_synoptic lib rq user body sid db =
     (if (case sc_slug body of None \<Rightarrow> False | Some s \<Rightarrow> length s > 64) then (Inl UNPROCESSABLE, db)
      else case validated lib (sc_doc body) of
        Inl e \<Rightarrow> (Inl e, db)
      | Inr d \<Rightarrow>
          if \<not> is_valid_slug (asked_slug lib body d) then (Inl UNPROCESSABLE, db)
          else (let slug = created_slug body (asked_slug lib body d) db;
                    y = \<lparr>sy_name = sd_name d, sy_slug = slug, sy_owner_id = Some (cu_id user)\<rparr>
                in if map_of (db_synoptics db) sid \<noteq> None \<or> slug \<in> set (taken_slugs db) \<or>
                      map_of (db_users db) (cu_id user) = None then (Inl CONFLICT, db)
                   else (let db1 = db\<lparr>db_synoptics := AList.update sid y (db_synoptics db)\<rparr> in
                     case add_version (db_versions db1) (rq_now rq) sid (to_json d) (cu_id user) db1 of
                       Inl e \<Rightarrow> (Inl SERVER_ERROR, db)
                     | Inr (v, db2) \<Rightarrow>
                         finish db
                           [record_audit rq (Some (cu_id user)) ''synoptic.create'' (Some slug) None
                              (Some (saved_json (sv_version v) d))]
                           db2 (Inr (out_of sid y v)))))"

definition before_json :: "synoptic_version_row option \<Rightarrow> json" where
  "before_json newest = JObj [(''version'', case newest of None \<Rightarrow> JNull | Some v \<Rightarrow> JInt (sv_version v))]"

definition rename :: "uuid \<Rightarrow> string \<Rightarrow> database \<Rightarrow> database" where
  "rename sid name db =
     (case map_of (db_synoptics db) sid of
        None \<Rightarrow> db
      | Some y \<Rightarrow> db\<lparr>db_synoptics := AList.update sid (y\<lparr>sy_name := name\<rparr>) (db_synoptics db)\<rparr>)"

definition save_synoptic ::
  "doc_library \<Rightarrow> request \<Rightarrow> current_user \<Rightarrow> uuid \<Rightarrow> synoptic_save \<Rightarrow> synoptic_version_row list \<Rightarrow> database \<Rightarrow>
   synoptic_out answer \<times> database" where
  "save_synoptic lib rq user sid body seen db =
     (if (case ss_base_version body of None \<Rightarrow> False | Some b \<Rightarrow> b < 1) then (Inl UNPROCESSABLE, db)
      else case validated lib (ss_doc body) of
        Inl e \<Rightarrow> (Inl e, db)
      | Inr d \<Rightarrow>
          (case by_id db sid of
             Inl e \<Rightarrow> (Inl e, db)
           | Inr y \<Rightarrow>
               (let newest = latest seen sid in
                if (case (ss_base_version body, newest) of
                      (Some b, Some v) \<Rightarrow> sv_version v \<noteq> b
                    | _ \<Rightarrow> False) then (Inl CONFLICT, db)
                else case add_version seen (rq_now rq) sid (to_json d) (cu_id user) (rename sid (sd_name d) db) of
                  Inl e \<Rightarrow> (Inl e, db)
                | Inr (v, db2) \<Rightarrow>
                    finish db
                      [record_audit rq (Some (cu_id user)) ''synoptic.save'' (Some (sy_slug y))
                         (Some (before_json newest)) (Some (saved_json (sv_version v) d))]
                      db2 (Inr (out_of sid (y\<lparr>sy_name := sd_name d\<rparr>) v)))))"

definition delete_synoptic ::
  "request \<Rightarrow> current_user \<Rightarrow> uuid \<Rightarrow> database \<Rightarrow> unit answer \<times> database" where
  "delete_synoptic rq user sid db =
     (case by_id db sid of
        Inl e \<Rightarrow> (Inl e, db)
      | Inr y \<Rightarrow>
          finish db
            [record_audit rq (Some (cu_id user)) ''synoptic.delete'' (Some (sy_slug y))
               (Some (before_json (latest (db_versions db) sid))) None]
            (db\<lparr>db_versions := List.filter (\<lambda>v. sv_synoptic_id v \<noteq> sid) (db_versions db),
                db_synoptics := AList.delete sid (db_synoptics db)\<rparr>)
            (Inr ()))"

text \<open>A conflict on the new version is not caught here: it ends in an internal error.\<close>

definition restore_version ::
  "doc_library \<Rightarrow> request \<Rightarrow> current_user \<Rightarrow> uuid \<Rightarrow> int \<Rightarrow> synoptic_version_row list \<Rightarrow> database \<Rightarrow>
   synoptic_out answer \<times> database" where
  "restore_version lib rq user sid n seen db =
     (case by_id db sid of
        Inl e \<Rightarrow> (Inl e, db)
      | Inr y \<Rightarrow>
          (case find_version db sid n of
             Inl e \<Rightarrow> (Inl e, db)
           | Inr old \<Rightarrow>
               (case validated lib (sv_content old) of
                  Inl e \<Rightarrow> (Inl e, db)
                | Inr d \<Rightarrow>
                    (case add_version seen (rq_now rq) sid (to_json d) (cu_id user) (rename sid (sd_name d) db) of
                       Inl e \<Rightarrow> (Inl SERVER_ERROR, db)
                     | Inr (v, db2) \<Rightarrow>
                         finish db
                           [record_audit rq (Some (cu_id user)) ''synoptic.restore'' (Some (sy_slug y))
                              (Some (JObj [(''restored_version'', JInt n)])) (Some (version_json (sv_version v)))]
                           db2 (Inr (out_of sid (y\<lparr>sy_name := sd_name d\<rparr>) v))))))"

subsection \<open>The routes\<close>

datatype synoptic_request = Create_Synoptic synoptic_create uuid | Save_Synoptic uuid synoptic_save
  | Delete_Synoptic uuid | Restore_Version uuid int

fun synoptic_handler ::
  "doc_library \<Rightarrow> request \<Rightarrow> synoptic_request \<Rightarrow> database \<Rightarrow> current_user \<Rightarrow> synoptic_out option answer \<times> database" where
  "synoptic_handler lib rq (Create_Synoptic body sid) db user =
     map_prod (map_sum id Some) id (create_synoptic lib rq user body sid db)"
| "synoptic_handler lib rq (Save_Synoptic sid body) db user =
     map_prod (map_sum id Some) id (save_synoptic lib rq user sid body (db_versions db) db)"
| "synoptic_handler lib rq (Delete_Synoptic sid) db user =
     map_prod (map_sum id (\<lambda>_. None)) id (delete_synoptic rq user sid db)"
| "synoptic_handler lib rq (Restore_Version sid n) db user =
     map_prod (map_sum id Some) id (restore_version lib rq user sid n (db_versions db) db)"

definition synoptic_route ::
  "doc_library \<Rightarrow> (time \<Rightarrow> string \<Rightarrow> token_payload option) \<Rightarrow> (string \<Rightarrow> string) \<Rightarrow>
   request \<times> string option \<times> synoptic_request \<Rightarrow> database \<Rightarrow> synoptic_out option answer \<times> database" where
  "synoptic_route lib jwt_decode stamp_of call db =
     (case call of (rq, cookie, req) \<Rightarrow>
        guarded ENGINEER (authenticate jwt_decode stamp_of (rq_now rq) cookie db)
          (synoptic_handler lib rq req db) db)"

subsection \<open>Versions are numbered without gaps\<close>

definition numbered :: "synoptic_version_row list \<Rightarrow> uuid \<Rightarrow> int \<Rightarrow> bool" where
  "numbered vs sid n \<longleftrightarrow> map sv_version (versions_of sid vs) = [1..n]"

definition versions_ok :: "database \<Rightarrow> bool" where
  "versions_ok db \<longleftrightarrow>
     dict_wf (db_synoptics db) \<and> uq_slug (db_synoptics db) \<and>
     (\<forall>sid. (\<exists>n. numbered (db_versions db) sid n \<and> (1 \<le> n \<longleftrightarrow> map_of (db_synoptics db) sid \<noteq> None)))"

lemma versions_of_simps [simp]:
  "versions_of sid [] = []" "versions_of sid (vs @ ws) = versions_of sid vs @ versions_of sid ws"
  "versions_of sid (v # vs) = (if sv_synoptic_id v = sid then v # versions_of sid vs else versions_of sid vs)"
  by (simp_all add: versions_of_def)

lemma last_version_None [simp]: "last_version vs = None \<longleftrightarrow> vs = []"
  by (induction vs) (auto split: option.splits)

lemma last_version_Some:
  "last_version vs = Some v \<Longrightarrow> v \<in> set vs \<and> (\<forall>w \<in> set vs. sv_version w \<le> sv_version v)"
proof (induction vs arbitrary: v)
  case (Cons w vs)
  show ?case
  proof (cases "last_version vs")
    case None
    with Cons.prems show ?thesis by simp
  next
    case (Some u)
    with Cons.IH [OF Some] Cons.prems show ?thesis by (auto split: if_splits)
  qed
qed simp

lemma latest_numbered:
  assumes "numbered vs sid n"
  shows "(case latest vs sid of None \<Rightarrow> 0 | Some v \<Rightarrow> sv_version v) = max 0 n"
    and "latest vs sid = None \<longleftrightarrow> n < 1"
    and "latest vs sid = Some v \<Longrightarrow> v \<in> set vs \<and> sv_synoptic_id v = sid \<and> sv_version v = n"
proof -
  have nums: "sv_version ` set (versions_of sid vs) = {1..n}"
    using assms by (metis numbered_def set_map set_upto)
  have none: "versions_of sid vs = [] \<longleftrightarrow> n < 1"
    using assms by (metis numbered_def map_is_Nil_conv upto_empty upto_Nil2 upto_Nil)
  show empty: "latest vs sid = None \<longleftrightarrow> n < 1" by (simp add: latest_def none)
  have num: "v \<in> set (versions_of sid vs) \<and> sv_version v = n" if "latest vs sid = Some v" for v
  proof -
    have v: "v \<in> set (versions_of sid vs)" "\<And>w. w \<in> set (versions_of sid vs) \<Longrightarrow> sv_version w \<le> sv_version v"
      using last_version_Some that by (auto simp: latest_def)
    then have "sv_version v \<in> {1..n}" using nums by blast
    then have "n \<in> sv_version ` set (versions_of sid vs)" using nums by simp
    then obtain w where "w \<in> set (versions_of sid vs)" "sv_version w = n" by auto
    with v \<open>sv_version v \<in> {1..n}\<close> show ?thesis by fastforce
  qed
  then show "latest vs sid = Some v \<Longrightarrow> v \<in> set vs \<and> sv_synoptic_id v = sid \<and> sv_version v = n"
    by (auto simp: versions_of_def)
  show "(case latest vs sid of None \<Rightarrow> 0 | Some v \<Rightarrow> sv_version v) = max 0 n"
  proof (cases "latest vs sid")
    case (Some v)
    with num [OF Some] empty show ?thesis by simp
  qed (use empty in simp)
qed

lemma distinct_pairs:
  "distinct (map (\<lambda>v. (f v, g v)) xs) \<longleftrightarrow> (\<forall>s. distinct (map g (List.filter (\<lambda>v. f v = s) xs)))"
proof (induction xs)
  case (Cons x xs)
  then show ?case by (auto simp: image_iff)
qed simp

lemma versions_unique: "versions_ok db \<Longrightarrow> uq_version (db_versions db)"
proof -
  assume "versions_ok db"
  then have "distinct (map sv_version (versions_of sid (db_versions db)))" for sid
    by (metis versions_ok_def numbered_def distinct_upto)
  then show ?thesis by (simp add: uq_version_def distinct_pairs versions_of_def)
qed

text \<open>What adding a version does, when it is accepted.\<close>

lemma add_version_Inr:
  assumes "add_version seen now sid doc user db = Inr (v, db')" "numbered seen sid m"
  shows "v = \<lparr>sv_synoptic_id = sid, sv_version = max 0 m + 1, sv_content = doc, sv_created_by = Some user,
      sv_created_at = now\<rparr> \<and> db' = db\<lparr>db_versions := db_versions db @ [v]\<rparr> \<and>
    map_of (db_synoptics db) sid \<noteq> None \<and>
    (\<forall>w \<in> set (versions_of sid (db_versions db)). sv_version w \<noteq> max 0 m + 1)"
  using assms(1) latest_numbered(1) [OF assms(2)]
  by (auto simp: add_version_def Let_def versions_of_def image_iff split: if_splits)

lemma rename_simps [simp]:
  "db_versions (rename sid name db) = db_versions db" "db_users (rename sid name db) = db_users db"
  "db_audit (rename sid name db) = db_audit db"
  "dict_wf (db_synoptics db) \<Longrightarrow> dict_wf (db_synoptics (rename sid name db))"
  by (auto simp: rename_def split: option.splits)

lemma rename_get:
  "map_of (db_synoptics (rename sid name db)) s = (if s = sid then map_option (\<lambda>y. y\<lparr>sy_name := name\<rparr>) (map_of (db_synoptics db) s)
     else map_of (db_synoptics db) s)"
  by (auto simp: rename_def split: option.splits)

lemma uq_slug_iff: "dict_wf ss \<Longrightarrow> uq_slug ss \<longleftrightarrow>
    (\<forall>i j u v. map_of ss i = Some u \<and> map_of ss j = Some v \<and> sy_slug u = sy_slug v \<longrightarrow> i = j)"
  unfolding uq_slug_def by (rule unique_column_iff)

lemma uq_slug_add:
  assumes "dict_wf ss" "uq_slug ss" "\<And>i z. map_of ss i = Some z \<Longrightarrow> sy_slug y \<noteq> sy_slug z"
  shows "uq_slug (AList.update sid y ss)"
proof -
  have "i = j" if "map_of (AList.update sid y ss) i = Some u" "map_of (AList.update sid y ss) j = Some v"
    "sy_slug u = sy_slug v" for i j u v
    using that assms(2) assms(3) [of i u] assms(3) [of j v]
    unfolding uq_slug_iff [OF assms(1)] dict_get_set by (metis option.inject)
  then show ?thesis using uq_slug_iff [of "AList.update sid y ss"] assms(1) by (metis dict_wf_set)
qed

lemma rename_exists [simp]:
  "map_of (db_synoptics (rename sid name db)) s = None \<longleftrightarrow> map_of (db_synoptics db) s = None"
  by (simp add: rename_get)

lemma rename_ok: "versions_ok db \<Longrightarrow> versions_ok (rename sid name db)"
  by (auto simp: versions_ok_def uq_slug_iff rename_get split: if_splits option.splits)

text \<open>Adding the next version of a synoptic that exists, or of the one that was just added.\<close>

lemma add_version_ok:
  assumes add: "add_version (db_versions db) now sid doc user db = Inr (v, db')"
    and wf: "dict_wf (db_synoptics db)" "uq_slug (db_synoptics db)"
    and nums: "\<And>s. \<exists>n. numbered (db_versions db) s n \<and> (s \<noteq> sid \<longrightarrow> (1 \<le> n \<longleftrightarrow> map_of (db_synoptics db) s \<noteq> None))"
  shows "versions_ok db'"
proof -
  obtain m where m: "numbered (db_versions db) sid m" using nums by blast
  note a = add_version_Inr [OF add m]
  have "\<exists>n. numbered (db_versions db') s n \<and> (1 \<le> n \<longleftrightarrow> map_of (db_synoptics db') s \<noteq> None)" for s
  proof (cases "s = sid")
    case True
    have "map sv_version (versions_of sid (db_versions db)) = [1..max 0 m]"
      using m by (cases "0 \<le> m") (auto simp: numbered_def max_def)
    then have "numbered (db_versions db') sid (max 0 m + 1)"
      using a by (auto simp: numbered_def upto_rec2 [of 1 "max 0 m + 1"])
    then show ?thesis using a True by (intro exI [of _ "max 0 m + 1"]) auto
  next
    case False
    then show ?thesis using nums [of s] a by (auto simp: numbered_def)
  qed
  then show ?thesis using a wf by (auto simp: versions_ok_def)
qed

lemma versions_ok_audit [simp]: "versions_ok (db\<lparr>db_audit := rows\<rparr>) = versions_ok db"
  by (simp add: versions_ok_def)

lemma finish_versions_ok: "versions_ok db0 \<Longrightarrow> versions_ok db \<Longrightarrow> versions_ok (snd (finish db0 rows db ans))"
  by (simp add: finish_def commit_def)

lemma create_synoptic_ok: "versions_ok db \<Longrightarrow> versions_ok (snd (create_synoptic lib rq user body sid db))"
proof -
  assume ok: "versions_ok db"
  have step: "versions_ok db'"
    if "add_version (db_versions db) (rq_now rq) sid doc u (db\<lparr>db_synoptics := AList.update sid y (db_synoptics db)\<rparr>) = Inr (v, db')"
      and "map_of (db_synoptics db) sid = None" "sy_slug y \<notin> set (taken_slugs db)" for doc u v y db'
  proof (rule add_version_ok)
    have wf: "dict_wf (db_synoptics db)" using ok by (simp add: versions_ok_def)
    have new: "sy_slug y \<noteq> sy_slug z" if "map_of (db_synoptics db) i = Some z" for i z
      using that \<open>sy_slug y \<notin> set (taken_slugs db)\<close> set_dict_vals [OF wf, of z] by (auto simp: taken_slugs_def)
    show "uq_slug (db_synoptics (db\<lparr>db_synoptics := AList.update sid y (db_synoptics db)\<rparr>))"
      using uq_slug_add [OF wf _ new] ok by (simp add: versions_ok_def)
    show "\<exists>n. numbered (db_versions (db\<lparr>db_synoptics := AList.update sid y (db_synoptics db)\<rparr>)) s n \<and>
        (s \<noteq> sid \<longrightarrow> (1 \<le> n \<longleftrightarrow> map_of (db_synoptics (db\<lparr>db_synoptics := AList.update sid y (db_synoptics db)\<rparr>)) s \<noteq> None))" for s
      using ok [unfolded versions_ok_def, THEN conjunct2, THEN conjunct2, THEN spec, of s] by auto
  qed (use that ok in \<open>auto simp: versions_ok_def\<close>)
  then show ?thesis
    using ok by (auto simp: create_synoptic_def Let_def intro!: finish_versions_ok split: sum.splits)
qed

lemma next_version_ok:
  assumes "versions_ok db" "add_version (db_versions db) now sid doc user (rename sid name db) = Inr (v, db')"
  shows "versions_ok db'"
proof (rule add_version_ok [where db = "rename sid name db"])
  show "\<exists>n. numbered (db_versions (rename sid name db)) s n \<and>
      (s \<noteq> sid \<longrightarrow> (1 \<le> n \<longleftrightarrow> map_of (db_synoptics (rename sid name db)) s \<noteq> None))" for s
    using rename_ok [OF assms(1), of sid name] unfolding versions_ok_def by metis
qed (use rename_ok [OF assms(1), of sid name] assms(2) in \<open>auto simp: versions_ok_def\<close>)

lemma save_synoptic_ok:
  "versions_ok db \<Longrightarrow> versions_ok (snd (save_synoptic lib rq user sid body (db_versions db) db))"
  by (auto simp: save_synoptic_def Let_def intro!: finish_versions_ok dest: next_version_ok split: sum.splits)

lemma restore_version_ok:
  "versions_ok db \<Longrightarrow> versions_ok (snd (restore_version lib rq user sid n (db_versions db) db))"
  by (auto simp: restore_version_def Let_def intro!: finish_versions_ok dest: next_version_ok split: sum.splits)

lemma delete_synoptic_ok: "versions_ok db \<Longrightarrow> versions_ok (snd (delete_synoptic rq user sid db))"
proof -
  assume ok: "versions_ok db"
  let ?db = "db\<lparr>db_versions := List.filter (\<lambda>v. sv_synoptic_id v \<noteq> sid) (db_versions db),
      db_synoptics := AList.delete sid (db_synoptics db)\<rparr>"
  have vs: "versions_of s (db_versions ?db) = (if s = sid then [] else versions_of s (db_versions db))" for s
    by (auto simp: versions_of_def filter_empty_conv intro: filter_cong)
  have "\<exists>n. numbered (db_versions ?db) s n \<and> (1 \<le> n \<longleftrightarrow> map_of (db_synoptics ?db) s \<noteq> None)" for s
  proof (cases "s = sid")
    case True
    then have "numbered (db_versions ?db) s 0" by (simp only: numbered_def vs) simp
    then show ?thesis using True by (intro exI [of _ 0]) simp
  next
    case False
    then show ?thesis using ok unfolding numbered_def vs by (simp add: versions_ok_def numbered_def)
  qed
  moreover have "dict_wf (AList.delete sid (db_synoptics db))" "uq_slug (AList.delete sid (db_synoptics db))"
    using ok by (auto simp: versions_ok_def uq_slug_iff split: if_splits)
  ultimately have "versions_ok ?db" by (simp add: versions_ok_def)
  with ok show ?thesis by (auto simp: delete_synoptic_def intro!: finish_versions_ok split: sum.splits)
qed

lemma synoptic_route_ok: "versions_ok db \<Longrightarrow> versions_ok (snd (synoptic_route lib jwt_decode stamp_of call db))"
proof -
  assume ok: "versions_ok db"
  obtain rq cookie req where call: "call = (rq, cookie, req)" by (cases call)
  have "versions_ok (snd (synoptic_handler lib rq req db user))" for user
    using ok by (cases req) (simp_all add: create_synoptic_ok save_synoptic_ok delete_synoptic_ok restore_version_ok)
  then show ?thesis
    using ok by (auto simp: synoptic_route_def call guarded_def require_role_def split: sum.splits)
qed

text \<open>What a handler that changes something leaves in the audit log.\<close>

lemma finish_change:
  assumes "finish db0 [row] db1 ans = (res, db')" "db_audit db1 = db_audit db0" "db' \<noteq> db0"
  shows "res = ans \<and> db_audit db' = db_audit db0 @ [row] \<and> db' = db1\<lparr>db_audit := db_audit db1 @ [row]\<rparr>"
  using assms by (auto elim!: finish_cases)

lemma add_version_audit:
  "add_version seen now sid doc user db = Inr (v, db') \<Longrightarrow> db_audit db' = db_audit db"
  by (auto simp: add_version_def Let_def split: if_splits)

lemma synoptic_handler_audit:
  assumes "synoptic_handler lib rq req db user = (res, db')" "db' \<noteq> db"
  shows "\<exists>row. db_audit db' = db_audit db @ [row] \<and> au_user_id row = Some (cu_id user) \<and> au_ts row = rq_now rq"
proof -
  have one: "\<exists>row. db_audit db' = db_audit db @ [row] \<and> au_user_id row = Some (cu_id user) \<and> au_ts row = rq_now rq"
    if "finish db [record_audit rq (Some (cu_id user)) a t b c] db1 ans = (r, db')" "db_audit db1 = db_audit db"
    for a t b c db1 and ans r :: "'x answer"
    using finish_change [OF that assms(2)] by (auto simp: record_audit_def)
  show ?thesis
  proof (cases req)
    case (Create_Synoptic body sid)
    with assms show ?thesis
      by (auto simp: create_synoptic_def Let_def map_prod_def split: if_splits sum.splits prod.splits
          dest!: one add_version_audit)
  next
    case (Save_Synoptic sid body)
    with assms show ?thesis
      by (auto simp: save_synoptic_def Let_def map_prod_def split: if_splits sum.splits prod.splits
          dest!: one add_version_audit)
  next
    case (Delete_Synoptic sid)
    with assms show ?thesis
      by (auto simp: delete_synoptic_def map_prod_def split: sum.splits prod.splits dest!: one)
  next
    case (Restore_Version sid n)
    with assms show ?thesis
      by (auto simp: restore_version_def Let_def map_prod_def split: if_splits sum.splits prod.splits
          dest!: one add_version_audit)
  qed
qed

subsection \<open>The history\<close>

lemma finish_versions: "db_versions (snd (finish db0 rows db ans)) = db_versions db0 \<or>
    db_versions (snd (finish db0 rows db ans)) = db_versions db"
  by (simp add: finish_def commit_def)

lemma add_version_appends:
  "add_version seen now sid doc user db = Inr (v, db') \<Longrightarrow> db_versions db' = db_versions db @ [v]"
  by (auto simp: add_version_def Let_def split: if_splits)

lemma synoptic_handler_versions:
  assumes "req \<noteq> Delete_Synoptic sid"
  shows "\<exists>new. versions_of sid (db_versions (snd (synoptic_handler lib rq req db user))) =
    versions_of sid (db_versions db) @ new"
proof -
  have end_versions: "\<exists>new. versions_of sid (db_versions (snd (finish db rows db1 ans))) = versions_of sid (db_versions db) @ new"
    if "\<exists>new. versions_of sid (db_versions db1) = versions_of sid (db_versions db) @ new"
    for rows db1 and ans :: "'x answer"
    using finish_versions [of db rows db1 ans] that by auto
  have add: "\<exists>new. versions_of sid (db_versions db2) = versions_of sid (db_versions db) @ new"
    if "add_version seen now s doc u db1 = Inr (v, db2)" "db_versions db1 = db_versions db" for seen now s doc u db1 v db2
    using add_version_appends [OF that(1)] that(2) by auto
  show ?thesis
  proof (cases req)
    case (Create_Synoptic body s)
    then show ?thesis
      by (auto simp: create_synoptic_def Let_def intro!: end_versions elim: add split: sum.splits)
  next
    case (Save_Synoptic s body)
    then show ?thesis
      by (auto simp: save_synoptic_def Let_def intro!: end_versions elim: add split: sum.splits)
  next
    case (Delete_Synoptic s)
    with assms have "versions_of sid (List.filter (\<lambda>v. sv_synoptic_id v \<noteq> s) (db_versions db)) = versions_of sid (db_versions db)"
      by (auto simp: versions_of_def intro: filter_cong)
    with Delete_Synoptic show ?thesis
      by (auto simp: delete_synoptic_def intro!: end_versions split: sum.splits)
  next
    case (Restore_Version s n)
    then show ?thesis
      by (auto simp: restore_version_def Let_def intro!: end_versions elim: add split: sum.splits)
  qed
qed

text \<open>A request handled unless it deletes the synoptic \<open>sid\<close>.\<close>

definition step_but_delete ::
  "doc_library \<Rightarrow> (time \<Rightarrow> string \<Rightarrow> token_payload option) \<Rightarrow> (string \<Rightarrow> string) \<Rightarrow> uuid \<Rightarrow>
   request \<times> string option \<times> synoptic_request \<Rightarrow> database \<Rightarrow> database" where
  "step_but_delete lib jwt_decode stamp_of sid call db =
     (if snd (snd call) = Delete_Synoptic sid then db else snd (synoptic_route lib jwt_decode stamp_of call db))"

interpretation history: logging "step_but_delete lib jwt_decode stamp_of sid" versions_ok
  "\<lambda>db. versions_of sid (db_versions db)" for lib jwt_decode stamp_of sid
proof unfold_locales
  show "versions_ok (step_but_delete lib jwt_decode stamp_of sid call db)" if "versions_ok db" for db call
    using that by (simp add: step_but_delete_def synoptic_route_ok)
  show "\<exists>new. versions_of sid (db_versions (step_but_delete lib jwt_decode stamp_of sid call db)) =
      versions_of sid (db_versions db) @ new" for db call
    using synoptic_handler_versions [of _ sid lib "fst call" db]
    by (cases call) (auto simp: step_but_delete_def synoptic_route_def guarded_def require_role_def split: sum.splits)
qed

interpretation synoptics: event_driven "\<lambda>call db. snd (synoptic_route lib jwt_decode stamp_of call db)" versions_ok
  for lib jwt_decode stamp_of
  by unfold_locales (rule synoptic_route_ok)

text \<open>
  The history of a synoptic is never rewritten: whatever requests are handled, in whatever
  order, as long as none deletes the synoptic, its versions stay what they were and in their
  place, with the new ones after them.
\<close>

theorem history_kept:
  assumes "versions_ok db" "\<forall>call \<in> set calls. snd (snd call) \<noteq> Delete_Synoptic sid"
  shows "\<exists>new. versions_of sid (db_versions (fold (\<lambda>call db. snd (synoptic_route lib jwt_decode stamp_of call db)) calls db)) =
    versions_of sid (db_versions db) @ new"
proof -
  have "fold (\<lambda>call db. snd (synoptic_route lib jwt_decode stamp_of call db)) calls db =
      fold (step_but_delete lib jwt_decode stamp_of sid) calls db"
    by (rule fold_cong) (use assms(2) in \<open>auto simp: step_but_delete_def fun_eq_iff\<close>)
  with history.run_log [OF assms(1)] show ?thesis by metis
qed

lemma by_slug_found:
  assumes "versions_ok db" "map_of (db_synoptics db) sid = Some y"
  shows "by_slug db (sy_slug y) = Inr (sid, y)"
proof -
  have wf: "dict_wf (db_synoptics db)" using assms(1) by (simp add: versions_ok_def)
  have mem: "(sid, y) \<in> set (db_synoptics db)" using assms(2) map_of_mem [OF wf] by blast
  obtain k z where kz: "List.find (\<lambda>(s, x). sy_slug x = sy_slug y) (db_synoptics db) = Some (k, z)"
    using mem by (cases "List.find (\<lambda>(s, x). sy_slug x = sy_slug y) (db_synoptics db)")
      (auto simp: find_None_iff split_beta)
  then have "(k, z) \<in> set (db_synoptics db)" "sy_slug z = sy_slug y" using find_map_of by fastforce+
  then have "map_of (db_synoptics db) k = Some z" using map_of_mem [OF wf] by blast
  then have "k = sid" "z = y"
    using assms uq_slug_iff [OF wf] \<open>sy_slug z = sy_slug y\<close> by (metis versions_ok_def option.inject)+
  with kz show ?thesis by (simp add: by_slug_def)
qed

text \<open>
  C28. Versions are numbered without gaps: after any requests, a synoptic that exists is found by
  its slug, which no other has; its versions are numbered from 1 upwards in the order they were
  written, and the newest is what is shown.
\<close>

theorem newest_version_shown:
  assumes "versions_ok db"
    and "db' = fold (\<lambda>call db. snd (synoptic_route lib jwt_decode stamp_of call db)) calls db"
    and "map_of (db_synoptics db') sid = Some y"
  shows "\<exists>v. get_synoptic db' (sy_slug y) = Inr (out_of sid y v) \<and> v \<in> set (versions_of sid (db_versions db')) \<and>
    1 \<le> sv_version v \<and> map sv_version (versions_of sid (db_versions db')) = [1..sv_version v]"
proof -
  have ok: "versions_ok db'" unfolding assms(2) by (rule synoptics.run_inv [OF assms(1)])
  then obtain n where n: "numbered (db_versions db') sid n" "1 \<le> n"
    using assms(3) by (auto simp: versions_ok_def)
  obtain v where v: "latest (db_versions db') sid = Some v"
    using latest_numbered(2) [OF n(1)] n(2) by (cases "latest (db_versions db') sid") auto
  note l = latest_numbered(3) [OF n(1) v]
  with v n by_slug_found [OF ok assms(3)] show ?thesis
    by (intro exI [of _ v]) (auto simp: get_synoptic_def numbered_def versions_of_def)
qed

text \<open>
  C30. Every change of a synoptic is signed: a request that changes anything comes from an active
  user who is at least an engineer, and adds exactly one entry to the audit log, with that user
  and the instant of the request.
\<close>

theorem synoptic_changes_audited:
  assumes "synoptic_route lib jwt_decode stamp_of (rq, cookie, req) db = (res, db')" "db' \<noteq> db"
  shows "\<exists>row uid u role. db_audit db' = db_audit db @ [row] \<and> au_user_id row = Some uid \<and> au_ts row = rq_now rq \<and>
    map_of (db_users db) uid = Some u \<and> us_active u \<and> map_of (db_roles db) (us_role_id u) = Some role \<and>
    role \<in> {''engineer'', ''admin''}"
proof -
  from assms(1) have "guarded ENGINEER (authenticate jwt_decode stamp_of (rq_now rq) cookie db)
      (synoptic_handler lib rq req db) db = (res, db')"
    by (simp add: synoptic_route_def)
  then show ?thesis
  proof (cases rule: guarded_cases)
    case (handled cu)
    obtain r where r: "cu_role cu = role_value r" "level_of_min ENGINEER \<le> level_of_min r"
      using handled(2) has_role_cases by metis
    then have "cu_role cu \<in> {''engineer'', ''admin''}" by (cases r) simp_all
    moreover obtain row where "db_audit db' = db_audit db @ [row]" "au_user_id row = Some (cu_id cu)" "au_ts row = rq_now rq"
      using synoptic_handler_audit [OF handled(3) assms(2)] by blast
    moreover have "\<exists>u. map_of (db_users db) (cu_id cu) = Some u \<and> us_active u \<and>
        map_of (db_roles db) (us_role_id u) = Some (cu_role cu)"
      using handled(1) by (auto simp: authenticate_Inr load_user_Some)
    ultimately show ?thesis by blast
  qed (use assms(2) in simp)
qed

subsection \<open>Conflicts\<close>

lemma upto_prefix: "xs @ ys = [1..n] \<Longrightarrow> xs = [1..int (length xs)]"
proof (rule nth_equalityI)
  assume a: "xs @ ys = [1..n]"
  show "length xs = length [1..int (length xs)]" by simp
  show "xs ! i = [1..int (length xs)] ! i" if "i < length xs" for i
  proof -
    have "length xs + length ys = nat n" using arg_cong [OF a, of length] by simp
    moreover have "xs ! i = [1..n] ! i" using that a by (metis nth_append)
    ultimately show ?thesis using that by (simp add: nth_upto)
  qed
qed

lemma numbered_prefix:
  assumes "numbered vs sid n" "versions_of sid vs = versions_of sid seen @ since"
  shows "numbered seen sid (int (length (versions_of sid seen)))"
  using assms upto_prefix [of "map sv_version (versions_of sid seen)" "map sv_version since" n]
  by (simp add: numbered_def)

lemma finish_Inr:
  "finish db0 rows db ans = (Inr out, db') \<Longrightarrow> ans = Inr out \<and> db' = db\<lparr>db_audit := db_audit db @ rows\<rparr>"
  by (auto elim: finish_cases)

lemma save_synoptic_Inr:
  assumes "save_synoptic lib rq user sid body seen db = (Inr out, db')"
  shows "\<exists>d v. add_version seen (rq_now rq) sid (to_json d) (cu_id user) (rename sid (sd_name d) db) =
      Inr (v, (rename sid (sd_name d) db)\<lparr>db_versions := db_versions db @ [v]\<rparr>) \<and>
    db_versions db' = db_versions db @ [v] \<and> so_version out = sv_version v \<and>
    (\<forall>b w. ss_base_version body = Some b \<longrightarrow> latest seen sid = Some w \<longrightarrow> sv_version w = b)"
proof -
  let ?stale = "case (ss_base_version body, latest seen sid) of (Some b, Some v) \<Rightarrow> sv_version v \<noteq> b | _ \<Rightarrow> False"
  obtain d y where d: "validated lib (ss_doc body) = Inr d" "by_id db sid = Inr y" "\<not> ?stale"
    using assms by (auto simp: save_synoptic_def Let_def split: if_splits sum.splits)
  obtain v db2 where v: "add_version seen (rq_now rq) sid (to_json d) (cu_id user) (rename sid (sd_name d) db) = Inr (v, db2)"
    using assms d by (auto simp: save_synoptic_def Let_def split: if_splits sum.splits)
  then have db2: "db2 = (rename sid (sd_name d) db)\<lparr>db_versions := db_versions db @ [v]\<rparr>"
    by (auto simp: add_version_def Let_def split: if_splits)
  have "so_version out = sv_version v \<and> db_versions db' = db_versions db2"
    using assms d v by (auto simp: save_synoptic_def Let_def out_of_def split: if_splits dest!: finish_Inr)
  moreover have "\<forall>b w. ss_base_version body = Some b \<longrightarrow> latest seen sid = Some w \<longrightarrow> sv_version w = b"
    using d(3) by (auto split: option.splits)
  ultimately show ?thesis using v db2 by auto
qed


text \<open>
  Of two simultaneous saves one is refused: when two requests have read the same versions and
  one of them is written, the other cannot be any more, and leaves everything as it is.
\<close>

theorem simultaneous_saves:
  assumes "save_synoptic lib rq user sid body (db_versions db) db = (Inr out, db1)"
  shows "\<exists>e. save_synoptic lib rq' user' sid body' (db_versions db) db1 = (Inl e, db1)"
proof -
  obtain d v db2 where s:
    "add_version (db_versions db) (rq_now rq) sid (to_json d) (cu_id user) (rename sid (sd_name d) db) = Inr (v, db2)"
    "db_versions db1 = db_versions db @ [v]"
    using save_synoptic_Inr [OF assms] by blast
  have "\<exists>e. add_version (db_versions db) now sid doc u (rename sid name db1) = Inl e" for now doc u name
    using s by (auto simp: add_version_def Let_def split: if_splits)
  then show ?thesis
    by (auto simp: save_synoptic_def Let_def split: sum.splits)
      (metis sum.distinct(1) sum.sel(1))+
qed

subsection \<open>What is stored\<close>

definition stored_ok :: "doc_library \<Rightarrow> database \<Rightarrow> bool" where
  "stored_ok lib db \<longleftrightarrow>
     (\<forall>v \<in> set (db_versions db). \<exists>d. sv_content v = to_json d \<and> validate_document (dl_repr lib) d = Valid)"

lemma validated_Valid: "validated lib raw = Inr d \<Longrightarrow> validate_document (dl_repr lib) d = Valid"
  by (auto simp: validated_def split: if_splits option.splits verdict.splits)

lemma finish_stored_ok: "stored_ok lib db0 \<Longrightarrow> stored_ok lib db \<Longrightarrow> stored_ok lib (snd (finish db0 rows db ans))"
  using finish_versions [of db0 rows db ans] by (auto simp: stored_ok_def)

lemma add_version_stored:
  assumes "add_version seen now sid (to_json d) u db1 = Inr (v, db2)" "validated lib raw = Inr d"
    and "stored_ok lib db" "db_versions db1 = db_versions db"
  shows "stored_ok lib db2"
  using assms add_version_appends [OF assms(1)] validated_Valid [OF assms(2)]
  by (auto simp: stored_ok_def add_version_def Let_def split: if_splits)

lemma synoptic_handler_stored: "stored_ok lib db \<Longrightarrow> stored_ok lib (snd (synoptic_handler lib rq req db user))"
proof -
  assume ok: "stored_ok lib db"
  show ?thesis
  proof (cases req)
    case (Create_Synoptic body sid)
    with ok show ?thesis
      by (auto simp: create_synoptic_def Let_def intro!: finish_stored_ok elim: add_version_stored split: sum.splits)
  next
    case (Save_Synoptic sid body)
    with ok show ?thesis
      by (auto simp: save_synoptic_def Let_def intro!: finish_stored_ok elim: add_version_stored split: sum.splits)
  next
    case (Delete_Synoptic sid)
    have "stored_ok lib (db\<lparr>db_versions := List.filter (\<lambda>v. sv_synoptic_id v \<noteq> sid) (db_versions db),
        db_synoptics := AList.delete sid (db_synoptics db)\<rparr>)"
      using ok by (simp add: stored_ok_def)
    with ok Delete_Synoptic show ?thesis
      by (auto simp: delete_synoptic_def intro!: finish_stored_ok split: sum.splits)
  next
    case (Restore_Version sid n)
    with ok show ?thesis
      by (auto simp: restore_version_def Let_def intro!: finish_stored_ok elim: add_version_stored split: sum.splits)
  qed
qed

interpretation documents: event_driven "\<lambda>call db. snd (synoptic_route lib jwt_decode stamp_of call db)" "stored_ok lib"
  for lib jwt_decode stamp_of
  by unfold_locales
    (auto simp: synoptic_route_def guarded_def require_role_def synoptic_handler_stored split: sum.splits)

text \<open>
  Only validated documents are stored: whatever requests are handled, the content of every
  version is the written form of a document the validation accepts.
\<close>

theorem stored_documents_valid:
  assumes "stored_ok lib db"
    and "v \<in> set (db_versions (fold (\<lambda>call db. snd (synoptic_route lib jwt_decode stamp_of call db)) calls db))"
  shows "\<exists>d. sv_content v = to_json d \<and> validate_document (dl_repr lib) d = Valid"
  using documents.run_inv [OF assms(1)] assms(2) unfolding stored_ok_def by blast

lemma find_version_found:
  assumes "versions_ok db" "v \<in> set (versions_of sid (db_versions db))" "int32 (sv_version v)"
  shows "find_version db sid (sv_version v) = Inr v"
proof -
  have v: "v \<in> set (db_versions db)" "sv_synoptic_id v = sid" using assms(2) by (auto simp: versions_of_def)
  let ?P = "\<lambda>w. sv_synoptic_id w = sid \<and> sv_version w = sv_version v"
  obtain w where w: "List.find ?P (db_versions db) = Some w"
    using v by (cases "List.find ?P (db_versions db)") (auto simp: find_None_iff)
  then have "w \<in> set (db_versions db)" "?P w" using find_map_of [OF w] by blast+
  with v have "w = v"
    using versions_unique [OF assms(1)] by (auto simp: uq_version_def distinct_map dest: inj_onD)
  with w assms(3) show ?thesis by (simp add: find_version_def)
qed

text \<open>
  Restoring copies: when an old version is restored whose content is still valid and not too
  large, the answer and the new version have exactly its content, the new version has the next
  number and is the newest, and every older version is left as it was.
\<close>

theorem restore_copies:
  assumes "versions_ok db" "numbered (db_versions db) sid n" "n < 2 ^ 31 - 1"
    and "v \<in> set (versions_of sid (db_versions db))" "map_of (db_synoptics db) sid = Some y"
    and "dl_parse lib (sv_content v) = Some d" "to_json d = sv_content v"
    and "validate_document (dl_repr lib) d = Valid" "jsonb_ok (sv_content v)"
    and "dl_size lib (sv_content v) \<le> MAX_DOC_BYTES"
    and "map_of (db_users db) (cu_id user) = Some u" "fits_opt 45 (rq_ip rq)" "fits 255 (sy_slug y)"
  shows "\<exists>out db' w. restore_version lib rq user sid (sv_version v) (db_versions db) db = (Inr out, db') \<and>
    so_doc out = sv_content v \<and> so_version out = n + 1 \<and> sv_content w = sv_content v \<and>
    versions_of sid (db_versions db') = versions_of sid (db_versions db) @ [w] \<and> latest (db_versions db') sid = Some w"
proof -
  define w where "w = \<lparr>sv_synoptic_id = sid, sv_version = n + 1, sv_content = sv_content v,
    sv_created_by = Some (cu_id user), sv_created_at = rq_now rq\<rparr>"
  define db2 where "db2 = (rename sid (sd_name d) db)\<lparr>db_versions := db_versions db @ [w]\<rparr>"
  have nums: "sv_version ` set (versions_of sid (db_versions db)) = {1..n}"
    using assms(2) by (metis numbered_def set_map set_upto)
  have v: "1 \<le> sv_version v" "sv_version v \<le> n" using nums assms(4) by force+
  have "int32 (sv_version v)" using v assms(3) by (simp add: int32_def)
  note found = find_version_found [OF assms(1,4) this]
  have fresh: "(sid, n + 1) \<notin> (\<lambda>v. (sv_synoptic_id v, sv_version v)) ` set (db_versions db)"
  proof
    assume "(sid, n + 1) \<in> (\<lambda>v. (sv_synoptic_id v, sv_version v)) ` set (db_versions db)"
    then have "n + 1 \<in> sv_version ` set (versions_of sid (db_versions db))" by (auto simp: versions_of_def)
    with nums show False by simp
  qed
  have add: "add_version (db_versions db) (rq_now rq) sid (to_json d) (cu_id user) (rename sid (sd_name d) db) = Inr (w, db2)"
    using latest_numbered(1) [OF assms(2)] v fresh assms(3,5,7,9,11)
    by (simp add: add_version_def Let_def int32_def w_def db2_def max_def)
  have "audit_accepted db2 (record_audit rq (Some (cu_id user)) ''synoptic.restore'' (Some (sy_slug y))
      (Some (JObj [(''restored_version'', JInt (sv_version v))])) (Some (version_json (sv_version w))))"
    using assms(11-13) by (simp add: audit_accepted_def record_audit_def db2_def fits_def fits_opt_def jsonb_opt_def version_json_def)
  then obtain rows where "restore_version lib rq user sid (sv_version v) (db_versions db) db =
      (Inr (out_of sid (y\<lparr>sy_name := sd_name d\<rparr>) w), db2\<lparr>db_audit := rows\<rparr>)"
    using assms(5,6,8,10) found add by (simp add: restore_version_def by_id_def validated_def finish_def commit_def)
  moreover have "numbered (db_versions db2) sid (n + 1)"
    using assms(2) v by (simp add: numbered_def db2_def w_def upto_rec2 [of 1 "n + 1"])
  then have "latest (db_versions db2) sid = Some w"
    using latest_numbered(2,3) [of "db_versions db2" sid "n + 1"] v fresh
    by (cases "latest (db_versions db2) sid") (auto simp: db2_def image_iff)
  then have "latest (db_versions (db2\<lparr>db_audit := rows\<rparr>)) sid = Some w" by simp
  moreover have "so_doc (out_of sid (y\<lparr>sy_name := sd_name d\<rparr>) w) = sv_content v"
    "so_version (out_of sid (y\<lparr>sy_name := sd_name d\<rparr>) w) = n + 1" "sv_content w = sv_content v"
    "versions_of sid (db_versions (db2\<lparr>db_audit := rows\<rparr>)) = versions_of sid (db_versions db) @ [w]"
    by (simp_all add: out_of_def w_def db2_def)
  ultimately show ?thesis by blast
qed

subsection \<open>Slugs of new synoptics\<close>

text \<open>
  The search for a free slug ends with one that no synoptic has: the derived slug itself, or
  its first 60 characters with a numeric suffix.
\<close>

theorem free_slug_found:
  "free_slug taken base slug suffix \<notin> set taken \<and>
   (free_slug taken base slug suffix = slug \<or> (\<exists>n > suffix. free_slug taken base slug suffix = suffixed base n))"
proof (induction taken base slug suffix rule: free_slug.induct)
  case (1 taken base slug suffix)
  show ?case
  proof (cases "slug \<in> set taken")
    case True
    with 1 show ?thesis by (subst (1 2 3) free_slug.simps) (auto intro: Suc_lessD)
  next
    case False
    then show ?thesis by (simp add: free_slug.simps)
  qed
qed

text \<open>
  A slug made free can be no slug: two synoptics whose name gives a slug with a dash in 60th
  place get, for the second, a slug with two dashes in a row, which no link and no request may name.
\<close>

theorem derived_slug_invalid:
  "is_valid_slug (replicate 59 CHR ''a'' @ ''-b'') \<and>
   \<not> is_valid_slug (free_slug [replicate 59 CHR ''a'' @ ''-b''] (replicate 59 CHR ''a'' @ ''-b'') (replicate 59 CHR ''a'' @ ''-b'') 1)"
proof
  show "is_valid_slug (replicate 59 CHR ''a'' @ ''-b'')" by code_simp
  let ?s = "replicate 59 CHR ''a'' @ ''-b''"
  have "nat_str 2 = ''2''" by code_simp
  then have sx: "suffixed ?s 2 = replicate 59 CHR ''a'' @ ''--2''" by (simp add: suffixed_def)
  have two: "(1::nat) + 1 = 2" by simp
  have "free_slug [?s] ?s ?s 1 = free_slug [?s] ?s (suffixed ?s 2) 2"
    by (subst free_slug.simps) (simp only: two list.set insertI1 if_True)
  also have "\<dots> = suffixed ?s 2" by (subst free_slug.simps) (simp add: sx)
  finally have "free_slug [?s] ?s ?s 1 = suffixed ?s 2" .
  moreover have "\<not> is_valid_slug (replicate 59 CHR ''a'' @ ''--2'')" by code_simp
  ultimately show "\<not> is_valid_slug (free_slug [?s] ?s ?s 1)" using sx by argo
qed

subsection \<open>Examples\<close>

definition example_library :: doc_library where
  "example_library = \<lparr>dl_size = \<lambda>_. 900, dl_parse = \<lambda>raw. if raw = to_json (example_doc []) then Some (example_doc []) else None,
     dl_repr = \<lambda>_. [], dl_ascii = id\<rparr>"

definition example_version :: "int \<Rightarrow> synoptic_version_row" where
  "example_version n = \<lparr>sv_synoptic_id = 1, sv_version = n, sv_content = to_json (example_doc []),
     sv_created_by = Some 6, sv_created_at = 0\<rparr>"

definition example_synoptics :: database where
  "example_synoptics = empty_db
     \<lparr>db_users := [(6, \<lparr>us_login = ''eve'', us_password_hash = ''x'', us_role_id = 3, us_active = True\<rparr>)],
      db_synoptics := [(1, \<lparr>sy_name = ''Accueil'', sy_slug = ''accueil'', sy_owner_id = Some 6\<rparr>)],
      db_versions := [example_version 1, example_version 2]\<rparr>"

definition eve :: current_user where
  "eve = \<lparr>cu_id = 6, cu_login = ''eve'', cu_role = ''engineer'', cu_stamp = ''x''\<rparr>"

definition eve_cookie :: "string option" where
  "eve_cookie = ck_access (set_cookies plain_encode example_settings 10 6 ''x'')"

definition at_20 :: request where "at_20 = \<lparr>rq_now = 20, rq_ip = None\<rparr>"

definition example_save :: synoptic_save where
  "example_save = \<lparr>ss_doc = to_json (example_doc []), ss_base_version = Some 2\<rparr>"

lemma eve_authenticated: "authenticate plain_decode id 20 eve_cookie example_synoptics = Inr eve"
proof -
  have "decode_token plain_decode 20 eve_cookie ''access'' = Some \<lparr>tc_user_id = 6, tc_kind = ''access'',
      tc_expires_at = 70, tc_stamp = ''x''\<rparr>"
    unfolding eve_cookie_def by (subst set_cookies_access(1) [OF plain_jwt]) (simp_all add: example_settings_def)
  then show ?thesis
    by (simp add: authenticate_def load_user_def eve_def example_synoptics_def empty_db_def)
qed

lemma example_numbered: "numbered (db_versions example_synoptics) sid (if sid = 1 then 2 else 0)"
  by (simp add: numbered_def example_synoptics_def example_version_def upto.simps)

lemma example_synoptics_ok: "versions_ok example_synoptics"
proof -
  have "\<exists>n. numbered (db_versions example_synoptics) sid n \<and> (1 \<le> n \<longleftrightarrow> map_of (db_synoptics example_synoptics) sid \<noteq> None)"
    for sid
    using example_numbered [of sid]
    by (intro exI [of _ "if sid = 1 then 2 else 0"]) (simp add: example_synoptics_def)
  then show ?thesis by (simp add: versions_ok_def example_synoptics_def uq_slug_def)
qed

lemma example_stored_ok: "stored_ok example_library example_synoptics"
  using example_doc_valid by (auto simp: stored_ok_def example_synoptics_def example_version_def)

lemma example_content_ok: "jsonb_ok (to_json (example_doc []))"
  by code_simp

lemma example_saved:
  "\<exists>out db'. save_synoptic example_library at_20 eve 1 example_save (db_versions example_synoptics) example_synoptics =
     (Inr out, db')"
proof -
  have "validated example_library (to_json (example_doc [])) = Inr (example_doc [])"
    using example_doc_valid by (simp add: validated_def example_library_def MAX_DOC_BYTES_def)
  moreover have "latest (db_versions example_synoptics) 1 = Some (example_version 2)"
    by (simp add: latest_def example_synoptics_def example_version_def)
  ultimately show ?thesis
    using example_content_ok
    by (simp add: save_synoptic_def example_save_def add_version_def by_id_def example_synoptics_def rename_def
        example_version_def int32_def eve_def at_20_def finish_def commit_def audit_accepted_def record_audit_def
        fits_def fits_opt_def jsonb_opt_def before_json_def saved_json_def Let_def)
qed

theorem history_kept_witness:
  "\<exists>new. versions_of 1 (db_versions (snd (synoptic_route example_library plain_decode id
      (at_20, eve_cookie, Save_Synoptic 1 example_save) example_synoptics))) =
    versions_of 1 (db_versions example_synoptics) @ new"
  using history_kept [OF example_synoptics_ok,
      of "[(at_20, eve_cookie, Save_Synoptic 1 example_save)]" 1 example_library plain_decode id] by simp

theorem newest_version_shown_witness:
  "\<exists>v. get_synoptic example_synoptics ''accueil'' =
      Inr (out_of 1 \<lparr>sy_name = ''Accueil'', sy_slug = ''accueil'', sy_owner_id = Some 6\<rparr> v) \<and> 1 \<le> sv_version v"
proof -
  have "authenticate plain_decode id (rq_now at_20) None example_synoptics = Inl UNAUTHORIZED"
    by (simp add: authenticate_def decode_token_def)
  then have "example_synoptics = fold (\<lambda>call db. snd (synoptic_route example_library plain_decode id call db))
      [(at_20, None, Delete_Synoptic 1)] example_synoptics"
    by (simp add: synoptic_route_def guarded_def)
  from newest_version_shown [OF example_synoptics_ok this, of 1 "\<lparr>sy_name = ''Accueil'', sy_slug = ''accueil'', sy_owner_id = Some 6\<rparr>"]
  show ?thesis by (auto simp: example_synoptics_def)
qed

theorem synoptic_changes_audited_witness:
  "\<exists>row uid. db_audit (snd (synoptic_route example_library plain_decode id (at_20, eve_cookie, Delete_Synoptic 1)
      example_synoptics)) = [row] \<and> au_user_id row = Some uid"
proof -
  obtain res db' where r: "synoptic_route example_library plain_decode id (at_20, eve_cookie, Delete_Synoptic 1)
      example_synoptics = (res, db')" by fastforce
  have now: "rq_now at_20 = 20" by (simp add: at_20_def)
  have role: "has_role (cu_role eve) ENGINEER" by code_simp
  have "db_synoptics (snd (delete_synoptic at_20 eve 1 example_synoptics)) = []"
    by (simp add: delete_synoptic_def by_id_def example_synoptics_def finish_def commit_def audit_accepted_def
        record_audit_def at_20_def eve_def fits_def fits_opt_def jsonb_opt_def before_json_def latest_def example_version_def)
  moreover have "db' = snd (delete_synoptic at_20 eve 1 example_synoptics)"
    using r by (simp add: synoptic_route_def now eve_authenticated guarded_def require_role_def role)
      (metis snd_map_prod id_apply snd_conv)
  ultimately have "db' \<noteq> example_synoptics" by (auto simp: example_synoptics_def)
  from synoptic_changes_audited [OF r this] r show ?thesis
    by (auto simp: example_synoptics_def empty_db_def)
qed


theorem simultaneous_saves_witness:
  "\<exists>out db' e. save_synoptic example_library at_20 eve 1 example_save (db_versions example_synoptics) example_synoptics =
     (Inr out, db') \<and>
   save_synoptic example_library at_20 eve 1 example_save (db_versions example_synoptics) db' = (Inl e, db')"
  using example_saved simultaneous_saves by metis

theorem stored_documents_valid_witness:
  "\<exists>d. sv_content (example_version 2) = to_json d \<and> validate_document (\<lambda>_. []) d = Valid"
  using stored_documents_valid [OF example_stored_ok, of "example_version 2" plain_decode id "[]"]
  by (simp add: example_synoptics_def example_library_def)

theorem restore_copies_witness:
  "\<exists>out db'. restore_version example_library at_20 eve 1 1 (db_versions example_synoptics) example_synoptics = (Inr out, db') \<and>
     so_doc out = to_json (example_doc []) \<and> so_version out = 3"
proof -
  have n: "numbered (db_versions example_synoptics) 1 2" using example_numbered [of 1] by simp
  have v: "example_version 1 \<in> set (versions_of 1 (db_versions example_synoptics))"
    by (simp add: example_synoptics_def example_version_def)
  have y: "map_of (db_synoptics example_synoptics) 1 = Some \<lparr>sy_name = ''Accueil'', sy_slug = ''accueil'', sy_owner_id = Some 6\<rparr>"
    by (simp add: example_synoptics_def)
  have c: "sv_content (example_version 1) = to_json (example_doc [])" "sv_version (example_version 1) = 1"
    by (simp_all add: example_version_def)
  have u: "map_of (db_users example_synoptics) (cu_id eve) =
      Some \<lparr>us_login = ''eve'', us_password_hash = ''x'', us_role_id = 3, us_active = True\<rparr>"
    by (simp add: example_synoptics_def eve_def)
  have "dl_parse example_library (sv_content (example_version 1)) = Some (example_doc [])"
    "validate_document (dl_repr example_library) (example_doc []) = Valid" "jsonb_ok (sv_content (example_version 1))"
    "dl_size example_library (sv_content (example_version 1)) \<le> MAX_DOC_BYTES" "fits_opt 45 (rq_ip at_20)"
    "fits 255 (sy_slug \<lparr>sy_name = ''Accueil'', sy_slug = ''accueil'', sy_owner_id = Some 6\<rparr>)"
    using example_doc_valid example_content_ok
    by (simp_all add: c(1) example_library_def MAX_DOC_BYTES_def at_20_def fits_def fits_opt_def)
  note r = restore_copies [OF example_synoptics_ok n _ v y this(1) c(1) [symmetric] this(2-4) u this(5,6)]
  have "(2::int) < 2 ^ 31 - 1" by simp
  from r [OF this] show ?thesis unfolding c by force
qed

end
