(* ===== verification/Api_Writes.thy ===== *)
theory Api_Writes
  imports Api_Auth Collector_Writer
begin

section \<open>Writing a set point\<close>

text \<open>
  \<open>app/api/commands.py\<close> and \<open>app/api/routes/write.py\<close>: a command is put in the stream of the
  collector and its result awaited. The bound on the length of the stream (old entries are
  trimmed beyond 10000) is not modelled.
\<close>

subsection \<open>Sending a command\<close>

text \<open>
  What waiting ends with: a call to Redis raised or the answer is no JSON, no answer in time, or
  the decoded answer.
\<close>

datatype waited = Redis_Error | No_Reply | Reply json

text \<open>
  The loop of \<open>send_and_wait\<close>: each turn reads the clock, then \<open>get_message\<close> answers with a message,
  decoded or not, or with nothing.
\<close>

fun wait_reply :: "time \<Rightarrow> (time \<times> json option option) list \<Rightarrow> waited" where
  "wait_reply deadline [] = No_Reply"
| "wait_reply deadline ((now, m) # polls) =
     (if deadline - now > 0 then
        (case m of
           None \<Rightarrow> wait_reply deadline polls
         | Some None \<Rightarrow> Redis_Error
         | Some (Some payload) \<Rightarrow> Reply payload)
      else No_Reply)"

definition send_and_wait ::
  "bool \<Rightarrow> time \<Rightarrow> rat \<Rightarrow> (time \<times> json option option) list \<Rightarrow> json \<Rightarrow> message list \<Rightarrow> waited \<times> message list" where
  "send_and_wait up now timeout_s polls command stream =
     (if up then (wait_reply (now + timeout_s) polls, stream @ [(length stream, Some command)])
      else (Redis_Error, stream))"

subsection \<open>The route\<close>

record write_body =
  wb_value :: "pyfloat option"
  wb_priority :: int

abbreviation BAD_GATEWAY :: nat where "BAD_GATEWAY \<equiv> 502"
abbreviation GATEWAY_TIMEOUT :: nat where "GATEWAY_TIMEOUT \<equiv> 504"

definition refused_text :: "string \<Rightarrow> string" where
  "refused_text detail = ''refus'' @ [CHR 0xE9] @ '': '' @ detail"

definition attempt_json :: "write_body \<Rightarrow> (string \<times> json) list" where
  "attempt_json body = [(''value'', json_opt (wb_value body)), (''priority'', JInt (wb_priority body))]"

definition point_label :: "uuid \<Rightarrow> string option \<Rightarrow> string" where
  "point_label pid lp = (case lp of None \<Rightarrow> uuid_str pid | Some s \<Rightarrow> if s = [] then uuid_str pid else s)"

text \<open>The checks before the command is sent: the status, the reason and the label of a refusal.\<close>

definition write_check ::
  "(json \<Rightarrow> string) \<Rightarrow> current_user \<Rightarrow> uuid \<Rightarrow> write_body \<Rightarrow> database \<Rightarrow> (nat \<times> string \<times> string) option" where
  "write_check rp user pid body db =
     (if \<not> has_role (cu_role user) OPERATOR then Some (FORBIDDEN, ''droits insuffisants'', uuid_str pid)
      else case map_of (db_points db) pid of
        None \<Rightarrow> Some (NOT_FOUND, ''point introuvable'', uuid_str pid)
      | Some p \<Rightarrow>
          (let label = point_label pid (pt_path p) in
           if \<not> pt_writable p then Some (CONFLICT, ''point non inscriptible'', label)
           else case wb_value body of
             None \<Rightarrow> None
           | Some v \<Rightarrow>
               if (case pt_write_min p of None \<Rightarrow> False | Some lo \<Rightarrow> fl_lt v lo)
               then Some (UNPROCESSABLE, ''valeur inf'' @ [CHR 0xE9] @ ''rieure au minimum ('' @
                      rp (JFloat (the (pt_write_min p))) @ '')'', label)
               else if (case pt_write_max p of None \<Rightarrow> False | Some hi \<Rightarrow> fl_lt hi v)
               then Some (UNPROCESSABLE, ''valeur sup'' @ [CHR 0xE9] @ ''rieure au maximum ('' @
                      rp (JFloat (the (pt_write_max p))) @ '')'', label)
               else None))"

definition write_command :: "string \<Rightarrow> uuid \<Rightarrow> write_body \<Rightarrow> uuid \<Rightarrow> time \<Rightarrow> json" where
  "write_command cid pid body uid now =
     JObj [(''command_id'', JStr cid), (''point_id'', JStr (uuid_str pid)),
       (''value'', json_opt (wb_value body)), (''priority'', JInt (wb_priority body)),
       (''user_id'', JStr (uuid_str uid)), (''issued_at'', JFloat (Fin now))]"

definition refuse_write ::
  "request \<Rightarrow> current_user \<Rightarrow> write_body \<Rightarrow> nat \<Rightarrow> string \<Rightarrow> string \<Rightarrow> database \<Rightarrow> string answer \<times> database" where
  "refuse_write rq user body code detail label db =
     finish db
       [record_audit rq (Some (cu_id user)) ''point.write'' (Some label) None
          (Some (JObj (attempt_json body @ [(''result'', JStr (refused_text detail))])))]
       db (Inl code)"

text \<open>\<open>run\<close> is what sending a command and waiting ends with.\<close>

definition write_point ::
  "(json \<Rightarrow> string) \<Rightarrow> (json \<Rightarrow> waited) \<Rightarrow> request \<Rightarrow> current_user \<Rightarrow> uuid \<Rightarrow> write_body \<Rightarrow> string \<Rightarrow> database \<Rightarrow>
   string answer \<times> database" where
  "write_point rp run rq user pid body cid db =
     (if \<not> (1 \<le> wb_priority body \<and> wb_priority body \<le> 16) then (Inl UNPROCESSABLE, db)
      else case write_check rp user pid body db of
        Some (code, detail, label) \<Rightarrow> refuse_write rq user body code detail label db
      | None \<Rightarrow>
          (case run (write_command cid pid body (cu_id user) (rq_now rq)) of
             Redis_Error \<Rightarrow> (Inl SERVER_ERROR, db)
           | No_Reply \<Rightarrow>
               refuse_write rq user body GATEWAY_TIMEOUT (''le collecteur n'' @ [CHR 0x27] @ ''a pas r'' @ [CHR 0xE9] @ ''pondu'')
                 (point_label pid (Option.bind (map_of (db_points db) pid) pt_path)) db
           | Reply r \<Rightarrow>
               (case json_get r ''status'' of
                  None \<Rightarrow> (Inl SERVER_ERROR, db)
                | Some s \<Rightarrow> if s \<noteq> JStr ''ok'' then (Inl BAD_GATEWAY, db) else (Inr cid, db))))"

text \<open>The role is checked in the handler, so that a refusal for lack of rights is recorded too.\<close>

definition write_route ::
  "(time \<Rightarrow> string \<Rightarrow> token_payload option) \<Rightarrow> (string \<Rightarrow> string) \<Rightarrow> (json \<Rightarrow> string) \<Rightarrow> (json \<Rightarrow> waited) \<Rightarrow>
   request \<Rightarrow> string option \<Rightarrow> uuid \<Rightarrow> write_body \<Rightarrow> string \<Rightarrow> database \<Rightarrow> string answer \<times> database" where
  "write_route jwt_decode stamp_of rp run rq cookie pid body cid db =
     (case authenticate jwt_decode stamp_of (rq_now rq) cookie db of
        Inl e \<Rightarrow> (Inl e, db)
      | Inr user \<Rightarrow> write_point rp run rq user pid body cid db)"

subsection \<open>The API and the collector\<close>

text \<open>
  The collector reads what the API wrote: the fields it decodes from the command of a write
  request are the point, the value, the priority and the user of the request.
\<close>

theorem write_command_understood:
  assumes "pid < 2 ^ 128" "uid < 2 ^ 128"
  shows "command_fields rp (write_command cid pid body uid now) =
    Some (pid, wb_value body, wb_priority body, Some uid)"
proof -
  have "uuid_str uid \<noteq> []" by (simp add: uuid_str_def dashed_def)
  then show ?thesis
    using assms by (cases "wb_value body")
      (simp_all add: command_fields_def write_command_def json_opt_def py_float_def py_int_def py_bool_def)
qed

lemma checks_agree:
  assumes "1 \<le> wb_priority body" "wb_priority body \<le> 16"
    and "map_of (db_points db) pid = Some p" "map_of (db_devices db) (pt_device_id p) = Some d"
  shows "write_check rp user pid body db = None \<longleftrightarrow>
    refusal (get_write_target db pid) (wb_value body) (wb_priority body) (Some (cu_id user)) (Some (cu_role user)) = None"
proof -
  have roles: "cu_role user \<in> set WRITER_ROLES \<longleftrightarrow> has_role (cu_role user) OPERATOR"
    by (auto simp: WRITER_ROLES_def has_role_operator)
  show ?thesis
    using assms unfolding write_check_def refusal_def get_write_target_def roles
    by (auto simp: Let_def roles split: option.splits)
qed

text \<open>
  The API and the collector agree: for a point whose device is known, the checks of the API
  pass exactly when the collector, reading the same tables for the same user, does not refuse the
  command.
\<close>

theorem api_and_collector_agree:
  assumes "1 \<le> wb_priority body" "wb_priority body \<le> 16"
    and "map_of (db_points db) pid = Some p" "map_of (db_devices db) (pt_device_id p) = Some d"
  shows "write_check rp user pid body db = None \<longleftrightarrow>
    refusal (get_write_target db pid) (wb_value body) (wb_priority body) (Some (cu_id user)) (Some (cu_role user)) = None"
  using assms by (rule checks_agree)


subsection \<open>Examples\<close>

definition example_setpoint :: point_row where
  "example_setpoint =
     \<lparr>pt_device_id = 2, pt_object_type = ''analogValue'', pt_object_instance = 1, pt_name = ''Consigne'',
      pt_description = None, pt_unit = None, pt_writable = True, pt_cov_capable = False, pt_poll_interval_s = None,
      pt_path = Some ''salle/consigne'', pt_missing = False, pt_deadband = Fin 0, pt_max_interval_s = 900,
      pt_write_min = Some (Fin 10), pt_write_max = Some (Fin 30), pt_state_text = None\<rparr>"

definition example_site :: "string \<Rightarrow> database" where
  "example_site role = empty_db
     \<lparr>db_users := [(6, \<lparr>us_login = ''op'', us_password_hash = ''x'', us_role_id = 9, us_active = True\<rparr>)],
      db_roles := [(9, role)],
      db_devices := [(2, \<lparr>dv_network_id = 1, dv_instance = 7, dv_name = ''CTA'', dv_address = ''10.0.0.7'',
         dv_online = True, dv_last_seen = None, dv_vendor = None, dv_model = None\<rparr>)],
      db_points := [(3, example_setpoint)]\<rparr>"

definition op_cookie :: "string option" where
  "op_cookie = ck_access (set_cookies plain_encode example_settings 10 6 ''x'')"

lemma op_authenticated: "authenticate plain_decode id 20 op_cookie (example_site role) =
    Inr \<lparr>cu_id = 6, cu_login = ''op'', cu_role = role, cu_stamp = ''x''\<rparr>"
proof -
  have "decode_token plain_decode 20 op_cookie ''access'' = Some \<lparr>tc_user_id = 6, tc_kind = ''access'',
      tc_expires_at = 70, tc_stamp = ''x''\<rparr>"
    unfolding op_cookie_def by (subst set_cookies_access(1) [OF plain_jwt]) (simp_all add: example_settings_def)
  then show ?thesis by (simp add: authenticate_def load_user_def example_site_def)
qed

theorem write_command_understood_witness:
  "command_fields (\<lambda>_. []) (write_command ''c1'' 3 \<lparr>wb_value = Some (Fin 21), wb_priority = 8\<rparr> 6 20) =
     Some (3, Some (Fin 21), 8, Some 6)"
  by (subst write_command_understood) simp_all

theorem api_and_collector_agree_witness:
  "refusal (get_write_target (example_site ''operator'') 3) (Some (Fin 21)) 8 (Some 6) (Some ''operator'') = None"
proof -
  have "has_role ''operator'' OPERATOR" by code_simp
  then have "write_check (\<lambda>_. []) \<lparr>cu_id = 6, cu_login = ''op'', cu_role = ''operator'', cu_stamp = ''x''\<rparr> 3
      \<lparr>wb_value = Some (Fin 21), wb_priority = 8\<rparr> (example_site ''operator'') = None"
    by (simp add: write_check_def example_site_def example_setpoint_def)
  with api_and_collector_agree [of "\<lparr>wb_value = Some (Fin 21), wb_priority = 8\<rparr>" "example_site ''operator''" 3
      example_setpoint _ "\<lambda>_. []" "\<lparr>cu_id = 6, cu_login = ''op'', cu_role = ''operator'', cu_stamp = ''x''\<rparr>"]
  show ?thesis by (simp add: example_site_def example_setpoint_def)
qed


end
