(* ===== verification/Api_History.thy ===== *)
theory Api_History
  imports Api_Writes
begin

section \<open>The history of a point\<close>

text \<open>
  \<open>_parse_bucket\<close>, \<open>format_bucket\<close>, \<open>auto_bucket_seconds\<close> and \<open>point_history\<close> of
  \<open>app/api/routes/points.py\<close>: raw samples or, per bucket of time, their number and the average,
  least and greatest of their values. The query itself is SQL: its buckets are those of
  \<open>date_bin\<close> and \<open>time_bucket\<close> with the origin the code gives, its aggregates ignore nulls and
  count every row, and order NaN after every number.
\<close>

subsection \<open>Buckets\<close>

definition MAX_HISTORY_ROWS :: nat where "MAX_HISTORY_ROWS = 20000"

definition NICE_BUCKETS :: "int list" where
  "NICE_BUCKETS = [5, 10, 30, 60, 300, 900, 1800, 3600, 10800, 21600, 43200, 86400]"

definition UNIT_SECONDS :: "(char, int) dict" where
  "UNIT_SECONDS = [(CHR ''s'', 1), (CHR ''m'', 60), (CHR ''h'', 3600), (CHR ''d'', 86400)]"

text \<open>The two groups of \<open>(\d+)([smhd])\<close>.\<close>

definition bucket_groups :: "string \<Rightarrow> (nat \<times> int) option" where
  "bucket_groups s =
     (case (digits_value digit_of 10 0 (takeWhile is_digit s), dropWhile is_digit s) of
        (Some n, [u]) \<Rightarrow> if takeWhile is_digit s = [] then None else map_option (\<lambda>k. (n, k)) (map_of UNIT_SECONDS u)
      | _ \<Rightarrow> None)"

definition bucket_match :: "string \<Rightarrow> (nat \<times> int) option" where
  "bucket_match s =
     (case bucket_groups s of
        Some g \<Rightarrow> Some g
      | None \<Rightarrow> if s \<noteq> [] \<and> last s = newline then bucket_groups (butlast s) else None)"

definition parse_bucket :: "string \<Rightarrow> int answer" where
  "parse_bucket s =
     (let seconds = (case bucket_match s of None \<Rightarrow> 0 | Some (n, u) \<Rightarrow> int n * u)
      in if seconds \<le> 0 then Inl UNPROCESSABLE else Inr seconds)"

definition format_bucket :: "int \<Rightarrow> string" where
  "format_bucket seconds =
     (case List.find (\<lambda>(u, n). seconds mod n = 0) [(CHR ''d'', 86400), (CHR ''h'', 3600), (CHR ''m'', 60)] of
        Some (u, n) \<Rightarrow> int_str (seconds div n) @ [u]
      | None \<Rightarrow> int_str seconds @ ''s'')"

definition auto_bucket_seconds :: "rat \<Rightarrow> int \<Rightarrow> int" where
  "auto_bucket_seconds span_s max_points =
     (let wanted = span_s / of_int max_points
      in if wanted \<le> 1 then 0
         else case List.find (\<lambda>n. of_int n \<ge> wanted) NICE_BUCKETS of
           Some n \<Rightarrow> n
         | None \<Rightarrow> \<lceil>wanted / 86400\<rceil> * 86400)"

subsection \<open>Aggregates\<close>

definition ORIGIN :: time where "ORIGIN = 946684800"

definition bucket_start :: "int \<Rightarrow> time \<Rightarrow> time" where
  "bucket_start secs ts = ORIGIN + of_int (secs * \<lfloor>(ts - ORIGIN) / of_int secs\<rfloor>)"

fun fl_div_nat :: "pyfloat \<Rightarrow> nat \<Rightarrow> pyfloat" where
  "fl_div_nat (Fin a) n = Fin (a / of_nat n)"
| "fl_div_nat x _ = x"

definition sql_less :: "pyfloat \<Rightarrow> pyfloat \<Rightarrow> bool" where
  "sql_less a b \<longleftrightarrow> (a \<noteq> NaN \<and> b = NaN) \<or> fl_lt a b"

fun sql_min :: "pyfloat list \<Rightarrow> pyfloat option" where
  "sql_min [] = None"
| "sql_min (x # xs) = (case sql_min xs of None \<Rightarrow> Some x | Some m \<Rightarrow> Some (if sql_less m x then m else x))"

fun sql_max :: "pyfloat list \<Rightarrow> pyfloat option" where
  "sql_max [] = None"
| "sql_max (x # xs) = (case sql_max xs of None \<Rightarrow> Some x | Some m \<Rightarrow> Some (if sql_less x m then m else x))"

definition sql_avg :: "pyfloat list \<Rightarrow> pyfloat option" where
  "sql_avg xs = (if xs = [] then None else Some (fl_div_nat (foldr fl_add xs (Fin 0)) (length xs)))"

record history_item =
  hi_ts :: time
  hi_value :: "pyfloat option"
  hi_status :: "point_status option"
  hi_min :: "pyfloat option"
  hi_max :: "pyfloat option"
  hi_count :: "nat option"

record history_out =
  ho_point_id :: uuid
  ho_bucket :: "string option"
  ho_truncated :: bool
  ho_items :: "history_item list"

definition values_of :: "sample_row list \<Rightarrow> pyfloat list" where
  "values_of rows = concat (map (\<lambda>s. case sa_value s of None \<Rightarrow> [] | Some v \<Rightarrow> [v]) rows)"

definition bucket_item :: "int \<Rightarrow> sample_row list \<Rightarrow> time \<Rightarrow> history_item" where
  "bucket_item secs rows b =
     (let grp = List.filter (\<lambda>s. bucket_start secs (sa_ts s) = b) rows
      in \<lparr>hi_ts = b, hi_value = sql_avg (values_of grp), hi_status = None, hi_min = sql_min (values_of grp),
          hi_max = sql_max (values_of grp), hi_count = Some (length grp)\<rparr>)"

definition aggregated :: "int \<Rightarrow> sample_row list \<Rightarrow> history_item list" where
  "aggregated secs rows = map (bucket_item secs rows) (sort (remdups (map (\<lambda>s. bucket_start secs (sa_ts s)) rows)))"

definition raw_item :: "sample_row \<Rightarrow> history_item" where
  "raw_item s =
     \<lparr>hi_ts = sa_ts s, hi_value = sa_value s, hi_status = Some (sa_status s), hi_min = None, hi_max = None,
      hi_count = None\<rparr>"

subsection \<open>The route\<close>

text \<open>
  An instant of a query may lack its time zone. Comparing one that lacks it with one that has it
  raises, and so does giving one that lacks it to the database.
\<close>

datatype instant = Aware time | Naive time

definition samples_between :: "uuid \<Rightarrow> time \<Rightarrow> time \<Rightarrow> database \<Rightarrow> sample_row list" where
  "samples_between pid start end' db =
     List.filter (\<lambda>s. sa_point_id s = pid \<and> start \<le> sa_ts s \<and> sa_ts s < end') (db_samples db)"

text \<open>The bounds and whether they have a time zone.\<close>

definition history_range :: "time \<Rightarrow> instant option \<Rightarrow> instant option \<Rightarrow> (time \<times> time \<times> bool) answer" where
  "history_range now from' to' =
     (let end' = (case to' of None \<Rightarrow> Aware now | Some t \<Rightarrow> t);
          start = (case from' of Some t \<Rightarrow> t
                   | None \<Rightarrow> (case end' of Aware t \<Rightarrow> Aware (t - 86400) | Naive t \<Rightarrow> Naive (t - 86400)))
      in case (start, end') of
           (Aware s, Aware e) \<Rightarrow> if s \<ge> e then Inl UNPROCESSABLE else Inr (s, e, True)
         | (Naive s, Naive e) \<Rightarrow> if s \<ge> e then Inl UNPROCESSABLE else Inr (s, e, False)
         | _ \<Rightarrow> Inl SERVER_ERROR)"

definition bucket_seconds :: "string option \<Rightarrow> rat \<Rightarrow> int \<Rightarrow> int answer" where
  "bucket_seconds bucket span_s max_points =
     (case bucket of
        None \<Rightarrow> Inr 0
      | Some b \<Rightarrow> if b = ''auto'' then Inr (auto_bucket_seconds span_s max_points) else parse_bucket b)"

definition point_history ::
  "time \<Rightarrow> uuid \<Rightarrow> instant option \<Rightarrow> instant option \<Rightarrow> string option \<Rightarrow> int \<Rightarrow> database \<Rightarrow> history_out answer" where
  "point_history now pid from' to' bucket max_points db =
     (if \<not> (10 \<le> max_points \<and> max_points \<le> 5000) then Inl UNPROCESSABLE
      else if map_of (db_points db) pid = None then Inl NOT_FOUND
      else case history_range now from' to' of
        Inl e \<Rightarrow> Inl e
      | Inr (s, e, aware) \<Rightarrow>
          (case bucket_seconds bucket (e - s) max_points of
             Inl err \<Rightarrow> Inl err
           | Inr seconds \<Rightarrow>
               if seconds = 0 then
                 (if \<not> aware then Inl SERVER_ERROR
                  else let rows = take (MAX_HISTORY_ROWS + 1) (sort_key sa_ts (samples_between pid s e db))
                       in Inr \<lparr>ho_point_id = pid, ho_bucket = None, ho_truncated = MAX_HISTORY_ROWS < length rows,
                               ho_items = map raw_item (take MAX_HISTORY_ROWS rows)\<rparr>)
               else if (e - s) / of_int seconds > of_nat MAX_HISTORY_ROWS then Inl UNPROCESSABLE
               else if \<not> aware then Inl SERVER_ERROR
               else Inr \<lparr>ho_point_id = pid, ho_bucket = Some (format_bucket seconds), ho_truncated = False,
                         ho_items = aggregated seconds (samples_between pid s e db)\<rparr>))"

subsection \<open>Buckets are read back\<close>

lemma nat_str_digits: "c \<in> set (nat_str n) \<Longrightarrow> is_digit c"
proof (induction n rule: nat_str.induct)
  case (1 n)
  have digit: "d < 10 \<Longrightarrow> is_digit (char_of (d + 48))" for d :: nat
    by (simp add: is_digit_def digit_of_def Let_def)
  show ?case
    using 1 digit [of n] digit [of "n mod 10"] by (subst (asm) (2) nat_str.simps) (auto split: if_splits)
qed

lemma nat_str_nonempty [simp]: "nat_str n \<noteq> []"
  by (subst nat_str.simps) simp

lemma bucket_groups_read: "\<not> is_digit u \<Longrightarrow> map_of UNIT_SECONDS u = Some k \<Longrightarrow> bucket_groups (nat_str n @ [u]) = Some (n, k)"
  using nat_str_digits [of _ n]
  by (simp add: bucket_groups_def takeWhile_append2 dropWhile_append2 nat_str_value)

text \<open>
  Bucket widths are read back: the text the answer gives for a width is accepted as the
  parameter of a request and means the same number of seconds.
\<close>

theorem bucket_roundtrip:
  assumes "0 < seconds"
  shows "parse_bucket (format_bucket seconds) = Inr seconds"
proof -
  have units: "\<not> is_digit CHR ''s''" "\<not> is_digit CHR ''m''" "\<not> is_digit CHR ''h''" "\<not> is_digit CHR ''d''"
    by (simp_all add: is_digit_def digit_of_def)
  have read: "parse_bucket (int_str q @ [u]) = Inr (q * k)"
    if "0 < q" "\<not> is_digit u" "map_of UNIT_SECONDS u = Some k" "0 < k" for q u k
    using that bucket_groups_read [OF that(2,3), of "nat q"] mult_pos_pos [OF that(1,4)]
    by (simp add: parse_bucket_def bucket_match_def int_str_def Let_def mult_le_0_iff)
  have pos: "0 < seconds div k" "seconds div k * k = seconds" if "seconds mod k = 0" "0 < k" for k :: int
  proof -
    show e: "seconds div k * k = seconds" using that(1) by (metis add.right_neutral div_mult_mod_eq)
    show "0 < seconds div k" using assms that(2) e by (metis zero_less_mult_pos2)
  qed
  have unit: "map_of UNIT_SECONDS CHR ''s'' = Some 1" "map_of UNIT_SECONDS CHR ''m'' = Some 60"
    "map_of UNIT_SECONDS CHR ''h'' = Some 3600" "map_of UNIT_SECONDS CHR ''d'' = Some 86400"
    by (simp_all add: UNIT_SECONDS_def)
  consider "seconds mod 86400 = 0" | "seconds mod 86400 \<noteq> 0" "seconds mod 3600 = 0"
    | "seconds mod 86400 \<noteq> 0" "seconds mod 3600 \<noteq> 0" "seconds mod 60 = 0"
    | "seconds mod 86400 \<noteq> 0" "seconds mod 3600 \<noteq> 0" "seconds mod 60 \<noteq> 0" by blast
  then show ?thesis
  proof cases
    case 1
    with read [OF pos(1) units(4) unit(4)] pos(2) [of 86400] show ?thesis by (simp add: format_bucket_def)
  next
    case 2
    with read [OF pos(1) units(3) unit(3)] pos(2) [of 3600] show ?thesis by (simp add: format_bucket_def)
  next
    case 3
    with read [OF pos(1) units(2) unit(2)] pos(2) [of 60] show ?thesis by (simp add: format_bucket_def)
  next
    case 4
    with read [OF assms units(1) unit(1)] show ?thesis by (simp add: format_bucket_def)
  qed
qed

subsection \<open>Automatic buckets\<close>

lemma auto_bucket:
  assumes "0 < span_s" "0 < m" "k = auto_bucket_seconds span_s m"
  shows "(k = 0 \<and> span_s \<le> of_int m) \<or> (0 < k \<and> span_s \<le> of_int k * of_int m)"
proof -
  define w where "w = span_s / of_int m"
  have w: "0 < w" "span_s = w * of_int m" using assms(1,2) by (simp_all add: w_def)
  have up: "span_s \<le> of_int n * of_int m" if "w \<le> of_int n" for n
    using that w(2) assms(2) by (simp add: mult_right_mono)
  show ?thesis
  proof (cases "w \<le> 1")
    case True
    then have "k = 0" using assms(3) by (simp add: auto_bucket_seconds_def w_def Let_def)
    with up [of 1] True show ?thesis by simp
  next
    case False
    show ?thesis
    proof (cases "List.find (\<lambda>n. of_int n \<ge> w) NICE_BUCKETS")
      case (Some n)
      then have "k = n" using assms(3) False by (simp add: auto_bucket_seconds_def w_def Let_def)
      moreover have "n \<in> set NICE_BUCKETS" "w \<le> of_int n" using find_map_of [OF Some] by simp_all
      moreover have "0 < n" using \<open>n \<in> set NICE_BUCKETS\<close> by (auto simp: NICE_BUCKETS_def)
      ultimately show ?thesis using up by simp
    next
      case None
      then have k: "k = \<lceil>w / 86400\<rceil> * 86400"
        using assms(3) False by (simp add: auto_bucket_seconds_def w_def Let_def)
      have "w / 86400 \<le> of_int \<lceil>w / 86400\<rceil>" by (rule le_of_int_ceiling)
      then have "w \<le> of_int \<lceil>w / 86400\<rceil> * 86400" by linarith
      then have "w \<le> of_int k" unfolding k by (simp only: of_int_mult of_int_numeral)
      moreover have "0 < k" using w(1) unfolding k by simp
      ultimately show ?thesis using up by simp
    qed
  qed
qed

lemma bucket_start_bounds:
  assumes "0 < secs"
  shows "bucket_start secs ts \<le> ts \<and> ts < bucket_start secs ts + of_int secs"
proof -
  let ?q = "(ts - ORIGIN) / of_int secs"
  have "of_int \<lfloor>?q\<rfloor> \<le> ?q" "?q < of_int \<lfloor>?q\<rfloor> + 1" by linarith+
  then have "of_int secs * of_int \<lfloor>?q\<rfloor> \<le> of_int secs * ?q" "of_int secs * ?q < of_int secs * (of_int \<lfloor>?q\<rfloor> + 1)"
    using assms by (intro mult_left_mono mult_strict_left_mono; simp)+
  moreover have "of_int secs * ?q = ts - ORIGIN" using assms by simp
  ultimately have "of_int secs * of_int \<lfloor>?q\<rfloor> \<le> ts - ORIGIN" "ts - ORIGIN < of_int secs * of_int \<lfloor>?q\<rfloor> + of_int secs"
    by (simp_all only: distrib_left mult_1_right)
  then show ?thesis unfolding bucket_start_def of_int_mult by linarith
qed

text \<open>The number of buckets a range of time touches.\<close>

lemma touched_buckets:
  assumes "0 < secs" "s < e" "\<And>x. x \<in> set rows \<Longrightarrow> s \<le> sa_ts x \<and> sa_ts x < e"
    and "e - s \<le> of_int secs * of_int m"
  shows "int (length (aggregated secs rows)) \<le> m + 1"
proof -
  define f where "f t = \<lfloor>(t - ORIGIN) / of_int secs\<rfloor>" for t
  have mono: "f a \<le> f b" if "a \<le> b" for a b
    using that assms(1) by (auto simp: f_def intro!: floor_mono divide_right_mono)
  have "set (map (\<lambda>x. bucket_start secs (sa_ts x)) rows) \<subseteq> (\<lambda>j. ORIGIN + of_int (secs * j)) ` {f s..f e}"
    using assms(3) mono by (fastforce simp: bucket_start_def f_def)
  then have "card (set (map (\<lambda>x. bucket_start secs (sa_ts x)) rows)) \<le> card {f s..f e}"
    by (metis card_image_le card_mono finite_atLeastAtMost_int finite_imageI le_trans)
  moreover have "length (aggregated secs rows) = card (set (map (\<lambda>x. bucket_start secs (sa_ts x)) rows))"
    by (simp add: aggregated_def length_remdups_card_conv)
  moreover have "f e - f s \<le> m"
  proof -
    have "(e - ORIGIN) / of_int secs - (s - ORIGIN) / of_int secs \<le> of_int m"
      using assms(1,4) by (simp add: field_simps)
    moreover have "of_int (f e) \<le> (e - ORIGIN) / of_int secs" "(s - ORIGIN) / of_int secs < of_int (f s) + 1"
      unfolding f_def by linarith+
    ultimately have "(of_int (f e) :: rat) < of_int (f s + 1 + m)" by simp
    then show ?thesis by linarith
  qed
  moreover have "f s \<le> f e" using assms(2) by (intro mono) simp
  ultimately show ?thesis by simp
qed

text \<open>
  An automatic bucket always answers, with few items: for a point that exists and a range that
  is one, the request is not refused; when it groups by bucket there are at most one more buckets
  than asked for, else at most 20000 samples.
\<close>

theorem auto_history_bounded:
  assumes "10 \<le> m" "m \<le> 5000" "map_of (db_points db) pid = Some p"
    and "history_range now from' to' = Inr (s, e, True)"
  shows "\<exists>h. point_history now pid from' to' (Some ''auto'') m db = Inr h \<and> length (ho_items h) \<le> MAX_HISTORY_ROWS \<and>
    (ho_bucket h = None \<or> int (length (ho_items h)) \<le> m + 1)"
proof -
  have se: "s < e" using assms(4) by (auto simp: history_range_def Let_def split: instant.splits option.splits if_splits)
  define k where "k = auto_bucket_seconds (e - s) m"
  note b = auto_bucket [OF _ _ k_def, simplified]
  show ?thesis
  proof (cases "k = 0")
    case True
    with assms show ?thesis by (simp add: point_history_def bucket_seconds_def k_def [symmetric] Let_def)
  next
    case False
    with b se assms(1) have k: "0 < k" "e - s \<le> of_int k * of_int m" by auto
    then have "(e - s) / of_int k \<le> of_int m" by (simp add: field_simps)
    moreover have "(of_int m :: rat) \<le> of_int 5000" using assms(2) by (simp only: of_int_le_iff)
    ultimately have "\<not> (e - s) / of_int k > of_nat MAX_HISTORY_ROWS" by (simp add: MAX_HISTORY_ROWS_def)
    moreover have "int (length (aggregated k (samples_between pid s e db))) \<le> m + 1"
      by (rule touched_buckets [OF k(1) se _ k(2)]) (simp add: samples_between_def)
    ultimately show ?thesis
      using assms False by (simp add: point_history_def bucket_seconds_def k_def [symmetric] MAX_HISTORY_ROWS_def)
  qed
qed

lemma count_groups: "distinct ks \<Longrightarrow> set (map f xs) \<subseteq> set ks \<Longrightarrow>
    sum_list (map (\<lambda>k. length (List.filter (\<lambda>x. f x = k) xs)) ks) = length xs"
proof (induction xs)
  case (Cons x xs)
  have one: "sum_list (map (\<lambda>k. if f x = k then 1 else 0) ks) = (1::nat)"
    using Cons.prems by (simp add: sum_list_distinct_conv_sum_set)
  have "sum_list (map (\<lambda>k. length (List.filter (\<lambda>x. f x = k) (x # xs))) ks) =
      sum_list (map (\<lambda>k. (if f x = k then 1 else 0) + length (List.filter (\<lambda>x. f x = k) xs)) ks)"
    by (intro arg_cong [where f = sum_list] map_cong) auto
  also have "\<dots> = 1 + length xs"
    using Cons one by (simp add: sum_list_addf)
  finally show ?case by simp
qed simp

text \<open>
  Grouping loses no sample: the buckets of an answer are in the order of time, every sample of
  the range lies in one of them, and their counts add up to the number of samples.
\<close>

theorem buckets_hold_every_sample:
  assumes "point_history now pid from' to' bucket m db = Inr h" "ho_bucket h \<noteq> None"
    and "history_range now from' to' = Inr (s, e, True)" "bucket_seconds bucket (e - s) m = Inr secs" "0 < secs"
  shows "sum_list (map (\<lambda>i. the (hi_count i)) (ho_items h)) = length (samples_between pid s e db) \<and>
    sorted_wrt (<) (map hi_ts (ho_items h)) \<and>
    (\<forall>x \<in> set (samples_between pid s e db). \<exists>i \<in> set (ho_items h). hi_ts i \<le> sa_ts x \<and> sa_ts x < hi_ts i + of_int secs)"
proof -
  let ?rows = "samples_between pid s e db"
  let ?ks = "sort (remdups (map (\<lambda>x. bucket_start secs (sa_ts x)) ?rows))"
  have items: "ho_items h = map (bucket_item secs ?rows) ?ks"
    using assms by (auto simp: point_history_def aggregated_def Let_def split: if_splits)
  have "sum_list (map (\<lambda>i. the (hi_count i)) (ho_items h)) =
      sum_list (map (\<lambda>k. length (List.filter (\<lambda>x. bucket_start secs (sa_ts x) = k) ?rows)) ?ks)"
    unfolding items by (simp add: bucket_item_def comp_def Let_def)
  also have "\<dots> = length ?rows" by (rule count_groups) auto
  finally have "sum_list (map (\<lambda>i. the (hi_count i)) (ho_items h)) = length ?rows" .
  moreover have "map hi_ts (ho_items h) = ?ks"
    unfolding items by (simp add: bucket_item_def comp_def Let_def)
  moreover have "\<exists>i \<in> set (ho_items h). hi_ts i \<le> sa_ts x \<and> sa_ts x < hi_ts i + of_int secs" if "x \<in> set ?rows" for x
    using that bucket_start_bounds [OF assms(5), of "sa_ts x"] unfolding items
    by (intro bexI [of _ "bucket_item secs ?rows (bucket_start secs (sa_ts x))"]) (auto simp: bucket_item_def Let_def)
  ultimately show ?thesis by (simp add: strict_sorted_iff)
qed

subsection \<open>Examples\<close>

definition example_history :: database where
  "example_history = (example_site ''viewer'')
     \<lparr>db_samples := [\<lparr>sa_point_id = 3, sa_ts = 10, sa_value = Some (Fin 20), sa_status = OK\<rparr>,
        \<lparr>sa_point_id = 3, sa_ts = 50, sa_value = None, sa_status = FAULT\<rparr>,
        \<lparr>sa_point_id = 3, sa_ts = 20, sa_value = Some (Fin 22), sa_status = OK\<rparr>]\<rparr>"

theorem bucket_roundtrip_witness: "format_bucket 300 = ''5m'' \<and> parse_bucket ''5m'' = Inr 300"
proof -
  have "format_bucket 300 = ''5m''" by code_simp
  with bucket_roundtrip [of 300] show ?thesis by simp
qed

theorem auto_history_bounded_witness:
  "\<exists>h. point_history 0 3 (Some (Aware 0)) (Some (Aware 7200)) (Some ''auto'') 500 example_history = Inr h \<and>
     length (ho_items h) \<le> MAX_HISTORY_ROWS"
proof -
  have "map_of (db_points example_history) 3 = Some example_setpoint"
    by (simp add: example_history_def example_site_def)
  moreover have "history_range 0 (Some (Aware 0)) (Some (Aware 7200)) = Inr (0, 7200, True)"
    by (simp add: history_range_def)
  ultimately show ?thesis using auto_history_bounded [of 500 example_history 3] by force
qed

theorem buckets_hold_every_sample_witness:
  "\<exists>h. point_history 0 3 (Some (Aware 0)) (Some (Aware 60)) (Some ''30s'') 500 example_history = Inr h \<and>
     sum_list (map (\<lambda>i. the (hi_count i)) (ho_items h)) = 3"
proof -
  have r: "history_range 0 (Some (Aware 0)) (Some (Aware 60)) = Inr (0, 60, True)"
    by (simp add: history_range_def)
  have "parse_bucket ''30s'' = Inr 30" by code_simp
  then have b: "bucket_seconds (Some ''30s'') (60 - 0) 500 = Inr 30" by (simp add: bucket_seconds_def)
  then obtain h where h: "point_history 0 3 (Some (Aware 0)) (Some (Aware 60)) (Some ''30s'') 500 example_history = Inr h"
    "ho_bucket h \<noteq> None"
    using r by (simp add: point_history_def MAX_HISTORY_ROWS_def example_history_def example_site_def)
  have "length (samples_between 3 0 60 example_history) = 3"
    by (simp add: samples_between_def example_history_def)
  with buckets_hold_every_sample [OF h r b] h(1) show ?thesis by auto
qed

end
