(* ===== verification/Api_Points.thy ===== *)
theory Api_Points
  imports Api_History Synoptic_Doc "HOL-Library.List_Lexorder" "HOL-Library.Char_ord"
begin

section \<open>Finding and setting points\<close>

text \<open>
  The rest of \<open>app/api/routes/points.py\<close>: the search, the tree of paths, the details of a point, and
  the change of its settings. Where the database sorts texts its collation is a parameter; texts
  sorted by the code itself are sorted by code points.
\<close>

subsection \<open>Search\<close>

record point_filter =
  pf_path :: "string option"
  pf_tag :: "string option"
  pf_device :: "uuid option"
  pf_q :: "string option"
  pf_writable :: "bool option"
  pf_include_missing :: bool

text \<open>\<open>ILIKE\<close> with the text in the middle; a null column matches nothing.\<close>

definition icontains :: "string \<Rightarrow> string option \<Rightarrow> bool" where
  "icontains q col = (case col of None \<Rightarrow> False | Some s \<Rightarrow> contains (py_lower q) (py_lower s))"

definition given_text :: "string option \<Rightarrow> string option" where
  "given_text s = (case s of None \<Rightarrow> None | Some t \<Rightarrow> if t = [] then None else Some t)"

definition point_selected :: "database \<Rightarrow> point_filter \<Rightarrow> uuid \<times> point_row \<Rightarrow> bool" where
  "point_selected db f kp =
     (case kp of (pid, p) \<Rightarrow>
        (pf_include_missing f \<or> \<not> pt_missing p) \<and>
        (case given_text (pf_path f) of None \<Rightarrow> True
         | Some s \<Rightarrow> (case pt_path p of None \<Rightarrow> False | Some t \<Rightarrow> starts_with s t)) \<and>
        (case pf_device f of None \<Rightarrow> True | Some d \<Rightarrow> pt_device_id p = d) \<and>
        (case given_text (pf_q f) of None \<Rightarrow> True
         | Some q \<Rightarrow> icontains q (Some (pt_name p)) \<or> icontains q (pt_description p) \<or> icontains q (pt_path p)) \<and>
        (case given_text (pf_tag f) of None \<Rightarrow> True | Some t \<Rightarrow> (pid, t) \<in> set (db_tags db)) \<and>
        (case pf_writable f of None \<Rightarrow> True | Some b \<Rightarrow> pt_writable p = b))"

record point_out =
  po_id :: uuid
  po_row :: point_row
  po_tags :: "string list"
  po_latest :: "latest_row option"

text \<open>\<open>_decorate\<close>; the collation of the database may order tags otherwise than by code points.\<close>

definition decorate :: "database \<Rightarrow> uuid \<times> point_row \<Rightarrow> point_out" where
  "decorate db kp =
     (case kp of (pid, p) \<Rightarrow>
        \<lparr>po_id = pid, po_row = p, po_tags = sort (map snd (List.filter (\<lambda>t. fst t = pid) (db_tags db))),
         po_latest = map_of (db_latest db) pid\<rparr>)"

record point_page =
  pp_items :: "point_out list"
  pp_total :: nat
  pp_limit :: nat
  pp_offset :: nat

definition point_order :: "(string option \<Rightarrow> 'k::linorder) \<Rightarrow> (string \<Rightarrow> 'k) \<Rightarrow> (uuid \<times> point_row) list \<Rightarrow> (uuid \<times> point_row) list" where
  "point_order path_key name_key ps =
     sort_key (\<lambda>(pid, p). path_key (pt_path p)) (sort_key (\<lambda>(pid, p). name_key (pt_name p)) ps)"

definition MAX_PAGE :: nat where "MAX_PAGE = 500"

definition list_points ::
  "(string option \<Rightarrow> 'k::linorder) \<Rightarrow> (string \<Rightarrow> 'k) \<Rightarrow> point_filter \<Rightarrow> nat \<Rightarrow> nat \<Rightarrow> database \<Rightarrow> point_page answer" where
  "list_points path_key name_key f limit offset db =
     (if \<not> (1 \<le> limit \<and> limit \<le> MAX_PAGE) then Inl UNPROCESSABLE
      else let ps = List.filter (point_selected db f) (db_points db)
           in Inr \<lparr>pp_items = map (decorate db) (page limit offset (point_order path_key name_key ps)),
                   pp_total = length ps, pp_limit = limit, pp_offset = offset\<rparr>)"

definition get_point :: "database \<Rightarrow> uuid \<Rightarrow> point_out answer" where
  "get_point db pid =
     (case map_of (db_points db) pid of None \<Rightarrow> Inl NOT_FOUND | Some p \<Rightarrow> Inr (decorate db (pid, p)))"

subsection \<open>The tree\<close>

record tree_folder =
  tf_name :: string
  tf_path :: string
  tf_count :: nat

record tree_out =
  to_path :: string
  to_folders :: "tree_folder list"
  to_points :: "point_out list"

definition NO_PATH :: string where "NO_PATH = ''(sans chemin)''"
definition MAX_TREE_POINTS :: nat where "MAX_TREE_POINTS = 200"

definition logical_path :: "point_row \<Rightarrow> string" where
  "logical_path p = (case pt_path p of None \<Rightarrow> NO_PATH @ ''/'' @ pt_name p | Some s \<Rightarrow> s)"

definition strip_slashes :: "string \<Rightarrow> string" where
  "strip_slashes s = strip_chars {CHR ''/''} s"

definition tree_stem :: "string \<Rightarrow> string" where
  "tree_stem prefix = (if prefix = [] then [] else prefix @ ''/'')"

text \<open>The points below a stem, with what follows the stem in their path.\<close>

definition below :: "string \<Rightarrow> database \<Rightarrow> (uuid \<times> string) list" where
  "below stem db =
     map (\<lambda>(pid, p). (pid, drop (length stem) (logical_path p)))
       (List.filter (\<lambda>(pid, p). \<not> pt_missing p \<and> starts_with stem (logical_path p)) (db_points db))"

text \<open>The loop over the points: the folders with their counts, the points of this level.\<close>

fun tree_level :: "(uuid \<times> string) list \<Rightarrow> (string, nat) dict \<times> uuid list \<Rightarrow> (string, nat) dict \<times> uuid list" where
  "tree_level [] acc = acc"
| "tree_level ((pid, r) # rs) (counts, leaves) =
     (case partition_at CHR ''/'' r of
        (folder, found, _) \<Rightarrow>
          if found
          then tree_level rs (AList.update folder ((case map_of counts folder of None \<Rightarrow> 0 | Some n \<Rightarrow> n) + 1) counts, leaves)
          else tree_level rs (counts, leaves @ [pid]))"

definition points_tree :: "(string \<Rightarrow> 'k::linorder) \<Rightarrow> string \<Rightarrow> database \<Rightarrow> tree_out" where
  "points_tree name_key tree_path db =
     (let prefix = strip_slashes tree_path; stem = tree_stem prefix;
          (counts, leaves) = tree_level (below stem db) ([], []);
          shown = take (MAX_TREE_POINTS * 5) leaves;
          ps = take MAX_TREE_POINTS (sort_key (\<lambda>(pid, p). name_key (pt_name p))
                 (List.filter (\<lambda>(pid, p). pid \<in> set shown) (db_points db)))
      in \<lparr>to_path = prefix,
          to_folders = map (\<lambda>(name, n). \<lparr>tf_name = name, tf_path = stem @ name, tf_count = n\<rparr>) (sort_key fst counts),
          to_points = map (decorate db) ps\<rparr>)"

subsection \<open>Settings\<close>

record point_update =
  pu_path :: "string option option"
  pu_deadband :: "pyfloat option option"
  pu_max_interval_s :: "int option option"
  pu_poll_interval_s :: "int option option"
  pu_write_min :: "pyfloat option option"
  pu_write_max :: "pyfloat option option"
  pu_tags :: "string list option option"

definition valid_point_update :: "point_update \<Rightarrow> bool" where
  "valid_point_update b \<longleftrightarrow>
     (case pu_path b of Some (Some s) \<Rightarrow> length s \<le> 512 | _ \<Rightarrow> True) \<and>
     (case pu_deadband b of Some (Some x) \<Rightarrow> \<not> fl_lt x (Fin 0) | _ \<Rightarrow> True) \<and>
     (case pu_max_interval_s b of Some (Some n) \<Rightarrow> 1 \<le> n \<and> n \<le> 86400 | _ \<Rightarrow> True) \<and>
     (case pu_poll_interval_s b of Some (Some n) \<Rightarrow> 1 \<le> n \<and> n \<le> 86400 | _ \<Rightarrow> True) \<and>
     (case pu_tags b of Some (Some ts) \<Rightarrow> length ts \<le> 32 \<and> list_all (\<lambda>t. 1 \<le> length t \<and> length t \<le> 64) ts | _ \<Rightarrow> True)"

text \<open>The field of a point as JSON, and \<open>!=\<close> between two of them (NaN differs from itself).\<close>

definition json_text :: "string option \<Rightarrow> json" where
  "json_text s = (case s of None \<Rightarrow> JNull | Some t \<Rightarrow> JStr t)"

definition json_int :: "int option \<Rightarrow> json" where
  "json_int i = (case i of None \<Rightarrow> JNull | Some n \<Rightarrow> JInt n)"

definition json_neq :: "json \<Rightarrow> json \<Rightarrow> bool" where
  "json_neq a b = (case (a, b) of (JFloat x, JFloat y) \<Rightarrow> \<not> fl_eq x y | _ \<Rightarrow> a \<noteq> b)"

text \<open>The requested fields: name, present value, requested value; in the order of \<open>_UPDATABLE\<close>.\<close>

definition requested :: "point_update \<Rightarrow> point_row \<Rightarrow> (string \<times> json \<times> json) list" where
  "requested b p =
     (case pu_path b of None \<Rightarrow> [] | Some v \<Rightarrow> [(''path'', json_text (pt_path p), json_text v)]) @
     (case pu_deadband b of None \<Rightarrow> [] | Some v \<Rightarrow> [(''deadband'', JFloat (pt_deadband p), json_opt v)]) @
     (case pu_max_interval_s b of None \<Rightarrow> [] | Some v \<Rightarrow> [(''max_interval_s'', JInt (pt_max_interval_s p), json_int v)]) @
     (case pu_poll_interval_s b of None \<Rightarrow> [] | Some v \<Rightarrow> [(''poll_interval_s'', json_int (pt_poll_interval_s p), json_int v)]) @
     (case pu_write_min b of None \<Rightarrow> [] | Some v \<Rightarrow> [(''write_min'', json_opt (pt_write_min p), json_opt v)]) @
     (case pu_write_max b of None \<Rightarrow> [] | Some v \<Rightarrow> [(''write_max'', json_opt (pt_write_max p), json_opt v)])"

definition set_requested :: "point_update \<Rightarrow> point_row \<Rightarrow> point_row" where
  "set_requested b p = p
     \<lparr>pt_path := (case pu_path b of None \<Rightarrow> pt_path p | Some v \<Rightarrow> v),
      pt_deadband := (case pu_deadband b of Some (Some v) \<Rightarrow> v | _ \<Rightarrow> pt_deadband p),
      pt_max_interval_s := (case pu_max_interval_s b of Some (Some v) \<Rightarrow> v | _ \<Rightarrow> pt_max_interval_s p),
      pt_poll_interval_s := (case pu_poll_interval_s b of None \<Rightarrow> pt_poll_interval_s p | Some v \<Rightarrow> v),
      pt_write_min := (case pu_write_min b of None \<Rightarrow> pt_write_min p | Some v \<Rightarrow> v),
      pt_write_max := (case pu_write_max b of None \<Rightarrow> pt_write_max p | Some v \<Rightarrow> v)\<rparr>"

definition limits_crossed :: "point_row \<Rightarrow> bool" where
  "limits_crossed p = (case (pt_write_min p, pt_write_max p) of (Some lo, Some hi) \<Rightarrow> fl_lt hi lo | _ \<Rightarrow> False)"

definition tags_of :: "database \<Rightarrow> uuid \<Rightarrow> string list" where
  "tags_of db pid = sort (map snd (List.filter (\<lambda>t. fst t = pid) (db_tags db)))"

definition wanted_tags :: "string list \<Rightarrow> string list" where
  "wanted_tags ts = sort (remdups (map (\<lambda>t. py_lower (py_strip t)) (List.filter (\<lambda>t. py_strip t \<noteq> []) ts)))"

text \<open>The change of tags, if there is one: what they were and what they become.\<close>

definition tag_change :: "point_update \<Rightarrow> uuid \<Rightarrow> database \<Rightarrow> (string list \<times> string list) option" where
  "tag_change b pid db =
     (case pu_tags b of
        Some (Some ts) \<Rightarrow> if wanted_tags ts \<noteq> tags_of db pid then Some (tags_of db pid, wanted_tags ts) else None
      | _ \<Rightarrow> None)"

text \<open>
  The last component says whether the collector is told. A refusal undoes what was set, as the
  session is not committed.
\<close>

definition update_point ::
  "request \<Rightarrow> current_user \<Rightarrow> uuid \<Rightarrow> point_update \<Rightarrow> database \<Rightarrow> point_out answer \<times> database \<times> bool" where
  "update_point rq user pid body db =
     (if \<not> valid_point_update body then (Inl UNPROCESSABLE, db, False)
      else case map_of (db_points db) pid of
        None \<Rightarrow> (Inl NOT_FOUND, db, False)
      | Some p \<Rightarrow>
          if pu_deadband body = Some None \<or> pu_max_interval_s body = Some None then (Inl UNPROCESSABLE, db, False)
          else (let changes = List.filter (\<lambda>(name, old, new). json_neq old new) (requested body p);
                    p' = set_requested body p
                in if limits_crossed p' then (Inl UNPROCESSABLE, db, False)
                   else (let tags = tag_change body pid db;
                     before = map (\<lambda>(name, old, new). (name, old)) changes @
                       (case tags of None \<Rightarrow> [] | Some (cur, want) \<Rightarrow> [(''tags'', JList (map JStr cur))]);
                     after = map (\<lambda>(name, old, new). (name, new)) changes @
                       (case tags of None \<Rightarrow> [] | Some (cur, want) \<Rightarrow> [(''tags'', JList (map JStr want))]);
                     db1 = db\<lparr>db_points := AList.update pid p' (db_points db),
                       db_tags := (case tags of None \<Rightarrow> db_tags db
                         | Some (cur, want) \<Rightarrow> List.filter (\<lambda>t. fst t \<noteq> pid) (db_tags db) @ map (\<lambda>t. (pid, t)) want)\<rparr>
                   in if after = [] then (Inr (decorate db (pid, p')), db, False)
                      else case commit [record_audit rq (Some (cu_id user)) ''point.update'' (Some (point_label pid (pt_path p')))
                             (Some (JObj before)) (Some (JObj after))] db1 of
                        None \<Rightarrow> (Inl SERVER_ERROR, db, False)
                      | Some db2 \<Rightarrow> (Inr (decorate db2 (pid, p')), db2,
                          list_ex (\<lambda>kv. fst kv \<in> {''deadband'', ''max_interval_s'', ''poll_interval_s''}) after))))"

definition point_route ::
  "(time \<Rightarrow> string \<Rightarrow> token_payload option) \<Rightarrow> (string \<Rightarrow> string) \<Rightarrow>
   request \<times> string option \<times> uuid \<times> point_update \<Rightarrow> database \<Rightarrow> point_out answer \<times> database \<times> bool" where
  "point_route jwt_decode stamp_of call db =
     (case call of (rq, cookie, pid, body) \<Rightarrow>
        guarded ENGINEER (authenticate jwt_decode stamp_of (rq_now rq) cookie db)
          (\<lambda>user. update_point rq user pid body db) (db, False))"

subsection \<open>The tree shows every point\<close>

definition tally :: "(string, nat) dict \<Rightarrow> string \<Rightarrow> nat" where
  "tally counts folder = (case map_of counts folder of None \<Rightarrow> 0 | Some n \<Rightarrow> n)"

definition in_folder :: "string \<Rightarrow> uuid \<times> string \<Rightarrow> bool" where
  "in_folder folder pr = (case partition_at CHR ''/'' (snd pr) of (a, found, _) \<Rightarrow> found \<and> a = folder)"

lemma sum_update_tally:
  "dict_wf d \<Longrightarrow> sum_list (map snd (AList.update k (tally d k + n) d)) = sum_list (map snd d) + n"
  by (induction d) (auto simp: tally_def split: option.splits)

lemma tree_level_total:
  "dict_wf (fst acc) \<Longrightarrow> dict_wf (fst (tree_level rs acc)) \<and>
    sum_list (map snd (fst (tree_level rs acc))) + length (snd (tree_level rs acc)) =
    sum_list (map snd (fst acc)) + length (snd acc) + length rs"
proof (induction rs acc rule: tree_level.induct)
  case (2 pid r rs counts leaves)
  obtain a f b where p: "partition_at CHR ''/'' r = (a, f, b)" by (cases "partition_at CHR ''/'' r")
  show ?case
  proof (cases f)
    case True
    with 2 p sum_update_tally [of counts a 1] show ?thesis by (simp add: tally_def)
  next
    case False
    with 2 p show ?thesis by simp
  qed
qed simp

lemma tree_level_tally:
  "tally (fst (tree_level rs acc)) folder = tally (fst acc) folder + length (List.filter (in_folder folder) rs)"
proof (induction rs acc rule: tree_level.induct)
  case (2 pid r rs counts leaves)
  obtain a f b where p: "partition_at CHR ''/'' r = (a, f, b)" by (cases "partition_at CHR ''/'' r")
  with 2 show ?case by (cases f) (auto simp: tally_def in_folder_def split: option.splits)
qed simp

text \<open>A folder without a slash in its name is below the stem with its name and a slash.\<close>

lemma starts_with_iff: "starts_with p s \<longleftrightarrow> (\<exists>t. s = p @ t)"
proof
  assume "starts_with p s"
  then show "\<exists>t. s = p @ t" unfolding starts_with_def by (metis append_take_drop_id)
qed (auto simp: starts_with_def)

lemma starts_with_append: "starts_with (a @ b) s \<longleftrightarrow> starts_with a s \<and> starts_with b (drop (length a) s)"
  by (auto simp: starts_with_iff)

lemma partition_at_prefix:
  assumes "CHR ''/'' \<notin> set name"
  shows "(case partition_at CHR ''/'' r of (a, found, _) \<Rightarrow> found \<and> a = name) \<longleftrightarrow> starts_with (name @ ''/'') r"
proof
  assume l: "case partition_at CHR ''/'' r of (a, found, _) \<Rightarrow> found \<and> a = name"
  obtain a f b where "partition_at CHR ''/'' r = (a, f, b)" by (cases "partition_at CHR ''/'' r")
  with l partition_at_found [of "CHR ''/''" r] show "starts_with (name @ ''/'') r"
    by (auto simp: starts_with_def split: if_splits)
next
  assume "starts_with (name @ ''/'') r"
  then obtain t where "r = name @ CHR ''/'' # t" by (auto simp: starts_with_iff)
  with assms show "case partition_at CHR ''/'' r of (a, found, _) \<Rightarrow> found \<and> a = name" by simp
qed

lemma opened_folder:
  assumes "CHR ''/'' \<notin> set name"
  shows "length (List.filter (in_folder name) (below stem db)) = length (below (stem @ name @ ''/'') db)"
proof -
  have "in_folder name (pid, drop (length stem) (logical_path p)) \<longleftrightarrow> starts_with (name @ ''/'') (drop (length stem) (logical_path p))"
    for pid p
    using partition_at_prefix [OF assms] by (simp add: in_folder_def)
  then have "List.filter (\<lambda>(pid, p). in_folder name (pid, drop (length stem) (logical_path p)))
        (List.filter (\<lambda>(pid, p). \<not> pt_missing p \<and> starts_with stem (logical_path p)) (db_points db)) =
      List.filter (\<lambda>(pid, p). \<not> pt_missing p \<and> starts_with (stem @ name @ ''/'') (logical_path p)) (db_points db)"
    by (auto simp: starts_with_append [of stem] intro!: filter_cong)
  then show ?thesis by (simp add: below_def filter_map comp_def split_beta)
qed

lemma update_keys: "set (map fst (AList.update k v d)) = insert k (set (map fst d))"
  by (induction d) auto

lemma tree_level_names: "folder \<in> set (map fst (fst (tree_level rs acc))) \<Longrightarrow>
    folder \<in> set (map fst (fst acc)) \<or> CHR ''/'' \<notin> set folder"
proof (induction rs acc rule: tree_level.induct)
  case (2 pid r rs counts leaves)
  obtain a f b where p: "partition_at CHR ''/'' r = (a, f, b)" by (cases "partition_at CHR ''/'' r")
  have slash: "CHR ''/'' \<notin> set a" using partition_at_found [OF p] by simp
  show ?case
  proof (cases f)
    case True
    with 2 p slash update_keys [of a _ counts] show ?thesis by (simp del: list.set_map) blast
  next
    case False
    with 2 p show ?thesis by simp
  qed
qed simp

text \<open>
  A folder holds what it says: the number shown beside a folder of the tree (with a name) is
  the number of points found when it is opened, those in its folders and those directly in it.
\<close>

theorem tree_folder_count:
  assumes "f \<in> set (to_folders (points_tree key tree_path db))" "tf_name f \<noteq> []"
  shows "tf_count f = sum_list (map snd (fst (tree_level (below (tree_stem (strip_slashes (tf_path f))) db) ([], [])))) +
    length (snd (tree_level (below (tree_stem (strip_slashes (tf_path f))) db) ([], [])))"
proof -
  define stem where "stem = tree_stem (strip_slashes tree_path)"
  let ?counts = "fst (tree_level (below stem db) ([], []))"
  have wf: "dict_wf ?counts" using tree_level_total [of "([], [])"] by simp
  have mem: "(tf_name f, tf_count f) \<in> set ?counts" and path: "tf_path f = stem @ tf_name f"
    using assms(1) by (auto simp: points_tree_def Let_def stem_def split_beta)
  have slash: "CHR ''/'' \<notin> set (tf_name f)"
    using tree_level_names [of "tf_name f" "below stem db" "([], [])"] mem by force
  have "tf_count f = tally ?counts (tf_name f)"
    using map_of_is_SomeI [OF wf mem] by (simp add: tally_def)
  also have "\<dots> = length (List.filter (in_folder (tf_name f)) (below stem db))"
    by (simp add: tree_level_tally) (simp add: tally_def)
  also have "\<dots> = length (below (stem @ tf_name f @ ''/'') db)" by (rule opened_folder [OF slash])
  also have "stem @ tf_name f @ ''/'' = tree_stem (strip_slashes (tf_path f))"
  proof -
    have "hd (tf_path f) \<noteq> CHR ''/''"
      using strip_chars_ends [of "{CHR ''/''}" tree_path] assms(2) slash unfolding path stem_def tree_stem_def strip_slashes_def
      by (auto simp: hd_append) (metis list.set_sel(1))+
    moreover have "last (tf_path f) \<noteq> CHR ''/''"
      using assms(2) slash unfolding path by simp (metis last_in_set)
    ultimately have "strip_slashes (tf_path f) = tf_path f"
      using assms(2) unfolding strip_slashes_def by (intro strip_chars_id) (simp_all add: path)
    then show ?thesis using assms(2) by (simp add: tree_stem_def path)
  qed
  finally show ?thesis using tree_level_total [of "([], [])"] by simp
qed

subsection \<open>Settings stay within their bounds\<close>

definition settings_ok :: "point_row \<Rightarrow> bool" where
  "settings_ok p \<longleftrightarrow>
     \<not> fl_lt (pt_deadband p) (Fin 0) \<and> 1 \<le> pt_max_interval_s p \<and> pt_max_interval_s p \<le> 86400 \<and>
     (case pt_poll_interval_s p of None \<Rightarrow> True | Some n \<Rightarrow> 1 \<le> n \<and> n \<le> 86400) \<and> \<not> limits_crossed p"

definition points_ok :: "database \<Rightarrow> bool" where
  "points_ok db \<longleftrightarrow> (\<forall>pid p. map_of (db_points db) pid = Some p \<longrightarrow> settings_ok p)"

lemma set_requested_ok:
  assumes "settings_ok p" "valid_point_update b" "\<not> limits_crossed (set_requested b p)"
  shows "settings_ok (set_requested b p)"
proof -
  note v = assms(2) [unfolded valid_point_update_def]
  have "\<not> fl_lt (pt_deadband (set_requested b p)) (Fin 0)"
    using assms(1) v [THEN conjunct2, THEN conjunct1] by (auto simp: settings_ok_def set_requested_def split: option.splits)
  moreover have "1 \<le> pt_max_interval_s (set_requested b p) \<and> pt_max_interval_s (set_requested b p) \<le> 86400"
    using assms(1) v [THEN conjunct2, THEN conjunct2, THEN conjunct1]
    by (auto simp: settings_ok_def set_requested_def split: option.splits)
  moreover have "case pt_poll_interval_s (set_requested b p) of None \<Rightarrow> True | Some n \<Rightarrow> 1 \<le> n \<and> n \<le> 86400"
    using assms(1) v [THEN conjunct2, THEN conjunct2, THEN conjunct2, THEN conjunct1]
    by (auto simp: settings_ok_def set_requested_def split: option.splits)
  ultimately show ?thesis using assms(3) by (simp add: settings_ok_def)
qed

lemma points_ok_other [simp]:
  "points_ok (db\<lparr>db_tags := tags\<rparr>) = points_ok db" "points_ok (db\<lparr>db_audit := rows\<rparr>) = points_ok db"
  by (simp_all add: points_ok_def)

lemma points_ok_set: "points_ok db \<Longrightarrow> settings_ok p \<Longrightarrow> points_ok (db\<lparr>db_points := AList.update pid p (db_points db)\<rparr>)"
  by (simp add: points_ok_def)

lemma update_point_ok:
  assumes "points_ok db"
  shows "points_ok (fst (snd (update_point rq user pid body db)))"
proof (cases "map_of (db_points db) pid")
  case (Some p)
  with assms have p: "settings_ok p" by (simp add: points_ok_def)
  show ?thesis
    using assms Some set_requested_ok [OF p]
    by (auto simp: update_point_def Let_def commit_def points_ok_set split: option.splits)
qed (use assms in \<open>simp add: update_point_def\<close>)

interpretation settings: event_driven "\<lambda>call db. fst (snd (point_route jwt_decode stamp_of call db))" points_ok
  for jwt_decode stamp_of
  by unfold_locales (auto simp: point_route_def guarded_def require_role_def update_point_ok split: sum.splits)

text \<open>
  The settings of points stay within their bounds, whatever requests are handled: a deadband is
  not negative, the intervals are between a second and a day, and the least value that may be
  written is not above the greatest.
\<close>

theorem settings_bounded:
  assumes "points_ok db"
    and "map_of (db_points (fold (\<lambda>call db. fst (snd (point_route jwt_decode stamp_of call db))) calls db)) pid = Some p"
  shows "\<not> fl_lt (pt_deadband p) (Fin 0) \<and> 1 \<le> pt_max_interval_s p \<and> pt_max_interval_s p \<le> 86400 \<and>
    (\<forall>lo hi. pt_write_min p = Some lo \<longrightarrow> pt_write_max p = Some hi \<longrightarrow> \<not> fl_lt hi lo)"
proof -
  have "settings_ok p"
    using settings.run_inv [OF assms(1)] assms(2) unfolding points_ok_def by blast
  then show ?thesis by (auto simp: settings_ok_def limits_crossed_def)
qed

text \<open>
  The column and the body of a request allow paths of 512 characters, the audit log 255: a change
  of path to a longer one never succeeds, and nothing is changed.
\<close>

theorem long_path_fails:
  assumes "map_of (db_points db) pid = Some p" "pt_path p \<noteq> Some s" "pu_path body = Some (Some s)" "255 < length s"
  shows "\<exists>e. update_point rq user pid body db = (Inl e, db, False)"
proof -
  have "pt_path (set_requested body p) = Some s" using assms(3) by (simp add: set_requested_def)
  then have "\<not> fits_opt 255 (Some (point_label pid (pt_path (set_requested body p))))"
    using assms(4) by (auto simp: point_label_def fits_opt_def fits_def)
  then have none: "commit [record_audit rq (Some (cu_id user)) ''point.update'' (Some (point_label pid (pt_path (set_requested body p))))
      b a] d = None" for b a d
    by (simp add: commit_def audit_accepted_def record_audit_def)
  have "json_neq (json_text (pt_path p)) (json_text (Some s))"
    using assms(2) by (auto simp: json_neq_def json_text_def split: option.splits)
  then have change: "List.filter (\<lambda>(name, old, new). json_neq old new) (requested body p) \<noteq> []"
    using assms(3) by (simp add: requested_def)
  show ?thesis
    using assms(1) none change unfolding update_point_def Let_def by simp
qed

subsection \<open>Examples\<close>

theorem tree_folder_count_witness:
  "\<exists>f. to_folders (points_tree id [] (example_site ''viewer'')) = [f] \<and>
     tf_count f = sum_list (map snd (fst (tree_level (below (tree_stem (strip_slashes (tf_path f))) (example_site ''viewer'')) ([], [])))) +
       length (snd (tree_level (below (tree_stem (strip_slashes (tf_path f))) (example_site ''viewer'')) ([], [])))"
proof -
  have f: "to_folders (points_tree id [] (example_site ''viewer'')) = [\<lparr>tf_name = ''salle'', tf_path = ''salle'', tf_count = 1\<rparr>]"
    by code_simp
  show ?thesis
    using tree_folder_count [of "\<lparr>tf_name = ''salle'', tf_path = ''salle'', tf_count = 1\<rparr>" id "[]" "example_site ''viewer''"] f
    by simp
qed

theorem settings_bounded_witness:
  "1 \<le> pt_max_interval_s example_setpoint \<and> \<not> fl_lt (pt_deadband example_setpoint) (Fin 0)"
proof -
  let ?b = "\<lparr>pu_path = None, pu_deadband = Some (Some (Fin (-1))), pu_max_interval_s = None, pu_poll_interval_s = None,
    pu_write_min = None, pu_write_max = None, pu_tags = None\<rparr>"
  have ok: "points_ok (example_site ''engineer'')"
    by (simp add: points_ok_def example_site_def settings_ok_def limits_crossed_def example_setpoint_def)
  have "has_role ''engineer'' ENGINEER" by code_simp
  then have "map_of (db_points (fold (\<lambda>call db. fst (snd (point_route plain_decode id call db)))
      [(\<lparr>rq_now = 20, rq_ip = None\<rparr>, op_cookie, 3, ?b)] (example_site ''engineer''))) 3 = Some example_setpoint"
    by (simp add: point_route_def op_authenticated guarded_def require_role_def update_point_def valid_point_update_def)
      (simp add: example_site_def)
  from settings_bounded [OF ok this] show ?thesis by simp
qed

end
