(* ===== verification/Api_Browse.thy ===== *)
theory Api_Browse
  imports Api_Points
begin

section \<open>Devices, audit log, discovery and health\<close>

text \<open>
  \<open>app/api/routes/devices.py\<close>, \<open>app/api/routes/audit.py\<close>, \<open>app/api/routes/discovery.py\<close> and
  \<open>app/api/health.py\<close>. The entries of the audit log have no identifier in the model: they are
  numbered in the order they were written, which is the order of the list.
\<close>

subsection \<open>Networks and devices\<close>

record device_out =
  do_id :: uuid
  do_row :: device_row
  do_point_count :: nat

definition points_present :: "database \<Rightarrow> uuid \<Rightarrow> nat" where
  "points_present db did =
     length (List.filter (\<lambda>(pid, p). pt_device_id p = did \<and> \<not> pt_missing p) (db_points db))"

definition device_to_out :: "database \<Rightarrow> uuid \<times> device_row \<Rightarrow> device_out" where
  "device_to_out db kd =
     \<lparr>do_id = fst kd, do_row = snd kd, do_point_count = points_present db (fst kd)\<rparr>"

definition list_networks :: "(string \<Rightarrow> 'k::linorder) \<Rightarrow> database \<Rightarrow> (uuid \<times> network_row) list" where
  "list_networks collate db = sort_key (\<lambda>kn. collate (nw_name (snd kn))) (db_networks db)"

definition list_devices :: "uuid option \<Rightarrow> bool option \<Rightarrow> database \<Rightarrow> device_out list" where
  "list_devices network online db =
     map (device_to_out db) (sort_key (\<lambda>kd. dv_instance (snd kd))
       (List.filter (\<lambda>(did, d). (case network of None \<Rightarrow> True | Some n \<Rightarrow> dv_network_id d = n) \<and>
           (case online of None \<Rightarrow> True | Some b \<Rightarrow> dv_online d = b)) (db_devices db)))"

definition get_device :: "database \<Rightarrow> uuid \<Rightarrow> device_out answer" where
  "get_device db did =
     (case map_of (db_devices db) did of None \<Rightarrow> Inl NOT_FOUND | Some d \<Rightarrow> Inr (device_to_out db (did, d)))"

subsection \<open>The audit log\<close>

record audit_filter =
  uf_from :: "time option"
  uf_to :: "time option"
  uf_user :: "uuid option"
  uf_action :: "string option"

definition audit_selected :: "audit_filter \<Rightarrow> audit_row \<Rightarrow> bool" where
  "audit_selected f a \<longleftrightarrow>
     (case uf_from f of None \<Rightarrow> True | Some t \<Rightarrow> t \<le> au_ts a) \<and>
     (case uf_to f of None \<Rightarrow> True | Some t \<Rightarrow> au_ts a < t) \<and>
     (case uf_user f of None \<Rightarrow> True | Some u \<Rightarrow> au_user_id a = Some u) \<and>
     (case given_text (uf_action f) of None \<Rightarrow> True | Some s \<Rightarrow> starts_with s (au_action a))"

text \<open>Newest first; entries of one instant, last written first.\<close>

definition list_audit :: "audit_filter \<Rightarrow> nat \<Rightarrow> database \<Rightarrow> audit_row list answer" where
  "list_audit f limit db =
     (if \<not> (1 \<le> limit \<and> limit \<le> 1000) then Inl UNPROCESSABLE
      else Inr (take limit (sort_key (\<lambda>a. - au_ts a) (rev (List.filter (audit_selected f) (db_audit db))))))"

definition audit_route ::
  "(time \<Rightarrow> string \<Rightarrow> token_payload option) \<Rightarrow> (string \<Rightarrow> string) \<Rightarrow> time \<Rightarrow> string option \<Rightarrow> audit_filter \<Rightarrow> nat \<Rightarrow> database \<Rightarrow>
   audit_row list answer" where
  "audit_route jwt_decode stamp_of now cookie f limit db =
     fst (guarded ADMIN (authenticate jwt_decode stamp_of now cookie db) (\<lambda>_. (list_audit f limit db, ())) ())"

subsection \<open>Discovery on demand\<close>

abbreviation UNAVAILABLE :: nat where "UNAVAILABLE \<equiv> 503"

text \<open>\<open>receivers\<close> is what publishing answers: how many received the message, \<open>None\<close> if it raises.\<close>

definition request_discovery ::
  "nat option \<Rightarrow> request \<Rightarrow> current_user \<Rightarrow> database \<Rightarrow> unit answer \<times> database" where
  "request_discovery receivers rq user db =
     (case receivers of
        None \<Rightarrow> (Inl SERVER_ERROR, db)
      | Some n \<Rightarrow>
          if n = 0 then (Inl UNAVAILABLE, db)
          else finish db [record_audit rq (Some (cu_id user)) ''discovery.run'' None None None] db (Inr ()))"

subsection \<open>Health\<close>

record health_status =
  hs_ok :: bool
  hs_db :: bool
  hs_redis :: bool

definition health :: "bool \<Rightarrow> bool \<Rightarrow> nat \<times> health_status" where
  "health db_up redis_up =
     (if db_up \<and> redis_up then 200 else UNAVAILABLE, \<lparr>hs_ok = (db_up \<and> redis_up), hs_db = db_up, hs_redis = redis_up\<rparr>)"

subsection \<open>Who reads the audit log, and what\<close>

text \<open>
  The audit log is for administrators: an answer that is no refusal is for an active administrator,
  and its entries are selected by the filter and go back in time.
\<close>

theorem audit_for_administrators:
  assumes "audit_route jwt_decode stamp_of now cookie f limit db = Inr rows"
  shows "(\<exists>cu. authenticate jwt_decode stamp_of now cookie db = Inr cu \<and> cu_role cu = ''admin'') \<and>
    set rows \<subseteq> {a \<in> set (db_audit db). audit_selected f a} \<and> sorted_wrt (\<ge>) (map au_ts rows)"
proof -
  obtain cu where cu: "authenticate jwt_decode stamp_of now cookie db = Inr cu" "has_role (cu_role cu) ADMIN"
    and rows: "list_audit f limit db = Inr rows"
    using assms by (auto simp: audit_route_def guarded_def require_role_def split: sum.splits if_splits)
  obtain r where "cu_role cu = role_value r" "level_of_min ADMIN \<le> level_of_min r"
    using cu(2) has_role_cases by metis
  then have "cu_role cu = ''admin''" by (cases r) simp_all
  moreover have "sorted_wrt (\<ge>) (map au_ts rows)"
  proof -
    let ?xs = "sort_key (\<lambda>a. - au_ts a) (rev (List.filter (audit_selected f) (db_audit db)))"
    have "sorted_wrt (\<le>) (map (\<lambda>a. - au_ts a) ?xs)" by (rule sorted_sort_key)
    then have "sorted_wrt (\<lambda>a b. au_ts b \<le> au_ts a) ?xs" by (simp add: sorted_wrt_map)
    then have "sorted_wrt (\<lambda>a b. au_ts b \<le> au_ts a) (take limit ?xs)" by (rule sorted_wrt_take)
    with rows show ?thesis by (auto simp: list_audit_def sorted_wrt_map split: if_splits)
  qed
  moreover have "set rows \<subseteq> {a \<in> set (db_audit db). audit_selected f a}"
    using rows by (auto simp: list_audit_def split: if_splits dest!: in_set_takeD)
  ultimately show ?thesis using cu(1) by blast
qed

end
