(* ===== verification/Api_Realtime.thy ===== *)
theory Api_Realtime
  imports Api_Points Alarm_Commands
begin

section \<open>Live values over a WebSocket\<close>

text \<open>
  \<open>app/api/routes/ws.py\<close>: a connection follows points and every alarm. Two tasks share it: one
  handles what the client sends, the other relays what Redis publishes. A run is a sequence of
  turns of the one or the other, each taken whole: in the code the relay may also send a message
  while a subscription waits for Redis or for the database. \<open>isot\<close> is the text of an
  instant. Sets have no order: where the code goes through one, the order is that of the list here.
\<close>

subsection \<open>The connection\<close>

definition MAX_SUBSCRIPTIONS :: nat where "MAX_SUBSCRIPTIONS = 500"
definition CHANNEL_ALARM_EVENT :: string where "CHANNEL_ALARM_EVENT = ''alarm.event''"

text \<open>
  \<open>cn_open\<close>: the client is connected; \<open>cn_relaying\<close>: the task that relays has not ended.
\<close>

record connection =
  cn_points :: "uuid list"
  cn_channels :: "string list"
  cn_sent :: "json list"
  cn_open :: bool
  cn_relaying :: bool

definition ws_open :: connection where
  "ws_open = \<lparr>cn_points = [], cn_channels = [CHANNEL_ALARM_EVENT], cn_sent = [], cn_open = True, cn_relaying = True\<rparr>"

definition ws_authenticate ::
  "(time \<Rightarrow> string \<Rightarrow> token_payload option) \<Rightarrow> (string \<Rightarrow> string) \<Rightarrow> time \<Rightarrow> string option \<Rightarrow> database \<Rightarrow>
   (current_user \<times> token_claims) option" where
  "ws_authenticate jwt_decode stamp_of now cookie db =
     (case decode_token jwt_decode now cookie ''access'' of
        None \<Rightarrow> None
      | Some claims \<Rightarrow> map_option (\<lambda>u. (u, claims)) (load_user stamp_of db (tc_user_id claims) (Some (tc_stamp claims))))"

definition ws_send :: "json \<Rightarrow> connection \<Rightarrow> connection" where
  "ws_send m c = c\<lparr>cn_sent := cn_sent c @ [m]\<rparr>"

definition error_message :: "string \<Rightarrow> json" where
  "error_message t = JObj [(''type'', JStr ''error''), (''message'', JStr t)]"

definition value_message :: "(time \<Rightarrow> string) \<Rightarrow> uuid \<times> latest_row \<Rightarrow> json" where
  "value_message isot row =
     JObj [(''type'', JStr ''value''), (''point'', JStr (uuid_str (fst row))), (''ts'', JStr (isot (pl_ts (snd row)))),
       (''value'', json_opt (pl_value (snd row))), (''status'', JStr (point_status_value (pl_status (snd row))))]"

subsection \<open>What the client asks\<close>

text \<open>The identifiers as a set; \<open>None\<close> when one of them is none.\<close>

definition wanted_ids :: "(json \<Rightarrow> string) \<Rightarrow> json list \<Rightarrow> uuid list option" where
  "wanted_ids rp raw =
     (let ids = map (\<lambda>r. uuid_of_str (py_str rp r)) raw
      in if None \<in> set ids then None else Some (remdups (map the ids)))"

definition ws_subscribe :: "(json \<Rightarrow> string) \<Rightarrow> (time \<Rightarrow> string) \<Rightarrow> database \<Rightarrow> json list \<Rightarrow> connection \<Rightarrow> connection" where
  "ws_subscribe rp isot db raw c =
     (case wanted_ids rp raw of
        None \<Rightarrow> ws_send (error_message ''identifiant de point invalide'') c
      | Some ids \<Rightarrow>
          (let new = List.filter (\<lambda>p. p \<notin> set (cn_points c)) ids in
           if length (cn_points c) + length new > MAX_SUBSCRIPTIONS
           then ws_send (error_message (''limite de '' @ nat_str MAX_SUBSCRIPTIONS @ '' points par connexion'')) c
           else if new = [] then c
           else let c1 = c\<lparr>cn_channels := cn_channels c @ map point_value_channel new, cn_points := cn_points c @ new\<rparr>
                in fold (\<lambda>row. ws_send (value_message isot row))
                     (List.filter (\<lambda>row. fst row \<in> set new) (db_latest db)) c1))"

definition ws_unsubscribe :: "(json \<Rightarrow> string) \<Rightarrow> json list \<Rightarrow> connection \<Rightarrow> connection" where
  "ws_unsubscribe rp raw c =
     (case wanted_ids rp raw of
        None \<Rightarrow> ws_send (error_message ''identifiant de point invalide'') c
      | Some ids \<Rightarrow>
          (let gone = List.filter (\<lambda>p. p \<in> set (cn_points c)) ids in
           c\<lparr>cn_channels := List.filter (\<lambda>ch. ch \<notin> set (map point_value_channel gone)) (cn_channels c),
             cn_points := List.filter (\<lambda>p. p \<notin> set gone) (cn_points c)\<rparr>))"

text \<open>
  One turn of the loop: the text received, decoded if it is JSON. A \<open>points\<close> that cannot be iterated
  raises outside of the handler of errors and ends the connection.
\<close>

definition ws_request :: "(json \<Rightarrow> string) \<Rightarrow> (time \<Rightarrow> string) \<Rightarrow> database \<Rightarrow> json option \<Rightarrow> connection \<Rightarrow> connection" where
  "ws_request rp isot db received c =
     (case received of
        None \<Rightarrow> ws_send (error_message ''message invalide'') c
      | Some req \<Rightarrow>
          (case json_item req ''action'' of
             None \<Rightarrow> ws_send (error_message ''message invalide'') c
           | Some action \<Rightarrow>
               (let raw = iterated (case json_item req ''points'' of None \<Rightarrow> JList [] | Some v \<Rightarrow> v) in
                if action = JStr ''subscribe'' then
                  (case raw of None \<Rightarrow> c\<lparr>cn_open := False, cn_relaying := False\<rparr> | Some ids \<Rightarrow> ws_subscribe rp isot db ids c)
                else if action = JStr ''unsubscribe'' then
                  (case raw of None \<Rightarrow> c\<lparr>cn_open := False, cn_relaying := False\<rparr> | Some ids \<Rightarrow> ws_unsubscribe rp ids c)
                else if action = JStr ''ping'' then ws_send (JObj [(''type'', JStr ''pong'')]) c
                else ws_send (error_message (''action inconnue : '' @ py_str rp action)) c)))"

subsection \<open>What Redis publishes\<close>

definition merged :: "(string \<times> json) list \<Rightarrow> (string \<times> json) list \<Rightarrow> (string \<times> json) list" where
  "merged base kvs = fold (\<lambda>(k, v). AList.update k v) kvs base"

text \<open>
  One turn of \<open>_pump\<close>: the clock, then a message (its channel and its data, decoded if it is JSON)
  or none. An exception ends the task and nothing more is relayed.
\<close>

definition ws_pump :: "token_claims \<Rightarrow> time \<Rightarrow> (string \<times> json option) option \<Rightarrow> connection \<Rightarrow> connection" where
  "ws_pump claims now m c =
     (if now \<ge> tc_expires_at claims then c\<lparr>cn_open := False, cn_relaying := False\<rparr>
      else case m of
        None \<Rightarrow> c
      | Some (channel, None) \<Rightarrow> c\<lparr>cn_relaying := False\<rparr>
      | Some (channel, Some data) \<Rightarrow>
          if channel = CHANNEL_ALARM_EVENT then ws_send (JObj [(''type'', JStr ''alarm''), (''event'', data)]) c
          else if starts_with VALUE_PREFIX channel then
            (case data of
               JObj kvs \<Rightarrow> ws_send (JObj (merged [(''type'', JStr ''value''),
                             (''point'', JStr (drop (length VALUE_PREFIX) channel))] kvs)) c
             | _ \<Rightarrow> c\<lparr>cn_relaying := False\<rparr>)
          else c)"

datatype ws_event = From_Client database "json option" | From_Redis time "(string \<times> json option) option"

fun ws_step :: "(json \<Rightarrow> string) \<Rightarrow> (time \<Rightarrow> string) \<Rightarrow> token_claims \<Rightarrow> ws_event \<Rightarrow> connection \<Rightarrow> connection" where
  "ws_step rp isot claims (From_Client db received) c = (if cn_open c then ws_request rp isot db received c else c)"
| "ws_step rp isot claims (From_Redis now m) c = (if cn_open c \<and> cn_relaying c then ws_pump claims now m c else c)"

subsection \<open>A connection listens to what it follows\<close>

lemma ws_send_simps [simp]:
  "cn_points (ws_send m c) = cn_points c" "cn_channels (ws_send m c) = cn_channels c"
  "cn_open (ws_send m c) = cn_open c" "cn_relaying (ws_send m c) = cn_relaying c"
  "cn_sent (ws_send m c) = cn_sent c @ [m]"
  by (simp_all add: ws_send_def)

lemma send_all [simp]:
  "cn_points (fold (\<lambda>r. ws_send (g r)) rs c) = cn_points c"
  "cn_channels (fold (\<lambda>r. ws_send (g r)) rs c) = cn_channels c"
  "cn_open (fold (\<lambda>r. ws_send (g r)) rs c) = cn_open c"
  "cn_sent (fold (\<lambda>r. ws_send (g r)) rs c) = cn_sent c @ map g rs"
  by (induction rs arbitrary: c) simp_all

definition listens :: "connection \<Rightarrow> bool" where
  "listens c \<longleftrightarrow> distinct (cn_points c) \<and> length (cn_points c) \<le> MAX_SUBSCRIPTIONS \<and> list_all (\<lambda>p. p < 2 ^ 128) (cn_points c) \<and>
     set (cn_channels c) = insert CHANNEL_ALARM_EVENT (point_value_channel ` set (cn_points c))"

lemma wanted_ids_Some: "wanted_ids rp raw = Some ids \<Longrightarrow> distinct ids \<and> list_all (\<lambda>p. p < 2 ^ 128) ids"
proof -
  assume w: "wanted_ids rp raw = Some ids"
  let ?ids = "map (\<lambda>r. uuid_of_str (py_str rp r)) raw"
  have all: "None \<notin> set ?ids" and ids: "ids = remdups (map the ?ids)"
    using w by (auto simp: wanted_ids_def Let_def split: if_splits)
  have "p < 2 ^ 128" if p: "p \<in> set ids" for p
  proof -
    obtain i where i: "i \<in> set ?ids" "p = the i" using p by (auto simp: ids)
    have "i \<noteq> None"
    proof
      assume "i = None"
      with i(1) all show False by (simp only:)
    qed
    with i(2) have "i = Some p" by simp
    with i(1) show ?thesis using uuid_of_str_less by auto
  qed
  then show ?thesis by (simp add: ids list_all_iff)
qed

lemma channel_inj: "p < 2 ^ 128 \<Longrightarrow> q < 2 ^ 128 \<Longrightarrow> point_value_channel p = point_value_channel q \<longleftrightarrow> p = q"
  using uuid_str_roundtrip by (metis point_value_channel_def same_append_eq option.inject)

lemma alarm_channel_other: "point_value_channel p \<noteq> CHANNEL_ALARM_EVENT"
  by (simp add: point_value_channel_def VALUE_PREFIX_def CHANNEL_ALARM_EVENT_def)

lemma subscribe_listens: "listens c \<Longrightarrow> listens (ws_subscribe rp isot db raw c)"
proof (cases "wanted_ids rp raw")
  case (Some ids)
  assume "listens c"
  with Some wanted_ids_Some [OF Some] show ?thesis
    by (auto simp: ws_subscribe_def Let_def listens_def list_all_iff)
qed (simp add: ws_subscribe_def listens_def)

lemma unsubscribe_listens:
  assumes "listens c"
  shows "listens (ws_unsubscribe rp raw c)"
proof (cases "wanted_ids rp raw")
  case (Some ids)
  define gone where "gone = List.filter (\<lambda>p. p \<in> set (cn_points c)) ids"
  have small: "p < 2 ^ 128" if "p \<in> set (cn_points c)" for p
    using that assms by (auto simp: listens_def list_all_iff)
  have "set (List.filter (\<lambda>ch. ch \<notin> set (map point_value_channel gone)) (cn_channels c)) =
      insert CHANNEL_ALARM_EVENT (point_value_channel ` (set (cn_points c) - set gone))"
    using assms small channel_inj alarm_channel_other [THEN not_sym]
    by (fastforce simp: listens_def gone_def)
  moreover have "length (List.filter (\<lambda>p. p \<notin> set gone) (cn_points c)) \<le> MAX_SUBSCRIPTIONS"
    using assms length_filter_le [of "\<lambda>p. p \<notin> set gone" "cn_points c"] unfolding listens_def by linarith
  ultimately show ?thesis
    using assms Some by (auto simp: ws_unsubscribe_def Let_def listens_def list_all_iff set_diff_eq simp flip: gone_def)
qed (use assms in \<open>simp add: ws_unsubscribe_def listens_def\<close>)

lemma listens_other [simp]:
  "listens (ws_send m c) = listens c" "listens (c\<lparr>cn_open := b1\<rparr>) = listens c" "listens (c\<lparr>cn_relaying := b2\<rparr>) = listens c"
  by (simp_all add: listens_def)

interpretation follows: event_driven "ws_step rp isot claims" listens for rp isot claims
proof
  fix c e
  assume "listens c"
  then show "listens (ws_step rp isot claims e c)"
    by (cases e) (auto simp: ws_request_def ws_pump_def Let_def subscribe_listens unsubscribe_listens split: option.splits json.splits)
qed

text \<open>
  A connection listens to exactly what it follows: after any messages of the client and of the
  services, it follows at most 500 points, each once, and the channels it has opened are those of
  its points and the one of the alarms.
\<close>

theorem connection_listens:
  assumes "c = fold (ws_step rp isot claims) es ws_open"
  shows "distinct (cn_points c) \<and> length (cn_points c) \<le> 500 \<and>
    set (cn_channels c) = insert CHANNEL_ALARM_EVENT (point_value_channel ` set (cn_points c))"
proof -
  have "listens ws_open" by (simp add: listens_def ws_open_def)
  then show ?thesis
    using follows.run_inv [of ws_open rp isot claims es] assms by (simp add: listens_def MAX_SUBSCRIPTIONS_def)
qed

lemma closed_silent: "\<not> cn_open c \<Longrightarrow> fold (ws_step rp isot claims) es c = c"
proof (induction es)
  case (Cons e es)
  then show ?case by (cases e) simp_all
qed simp

text \<open>
  Nothing is relayed once the token has expired: the first turn of the relay at or after that
  instant closes the connection, and nothing is sent on it any more, whatever happens.
\<close>

theorem silent_after_expiry:
  assumes "c = fold (ws_step rp isot claims) es ws_open" "cn_relaying c" "tc_expires_at claims \<le> now"
  shows "cn_sent (fold (ws_step rp isot claims) (es @ From_Redis now m # es') ws_open) = cn_sent c"
proof -
  let ?c = "ws_step rp isot claims (From_Redis now m) c"
  have "\<not> cn_open ?c \<and> cn_sent ?c = cn_sent c" using assms(2,3) by (simp add: ws_pump_def)
  then show ?thesis using closed_silent [of ?c] assms(1) by simp
qed

text \<open>
  Following starts with the present value: when a subscription is accepted, the client follows
  each point it named and is sent, for each that is new, the latest value there is in the table.
\<close>

theorem subscription_answers:
  assumes "wanted_ids rp raw = Some ids"
    and "length (cn_points c) + length (List.filter (\<lambda>p. p \<notin> set (cn_points c)) ids) \<le> 500"
  shows "set (cn_points (ws_subscribe rp isot db raw c)) = set (cn_points c) \<union> set ids \<and>
    cn_sent (ws_subscribe rp isot db raw c) = cn_sent c @
      map (value_message isot) (List.filter (\<lambda>row. fst row \<in> set ids - set (cn_points c)) (db_latest db))"
proof -
  define new where "new = List.filter (\<lambda>p. p \<notin> set (cn_points c)) ids"
  have s: "set new = set ids - set (cn_points c)" by (auto simp: new_def)
  show ?thesis
  proof (cases "new = []")
    case True
    with s have "set ids - set (cn_points c) = {}" by simp
    with True assms show ?thesis
      by (auto simp: ws_subscribe_def Let_def MAX_SUBSCRIPTIONS_def filter_empty_conv simp flip: new_def)
  next
    case False
    with assms s show ?thesis
      by (auto simp: ws_subscribe_def Let_def MAX_SUBSCRIPTIONS_def simp flip: new_def)
  qed
qed

subsection \<open>Examples\<close>

definition follow_point :: json where
  "follow_point = JObj [(''action'', JStr ''subscribe''), (''points'', JList [JStr (uuid_str 3)])]"

definition example_claims :: token_claims where
  "example_claims = \<lparr>tc_user_id = 6, tc_kind = ''access'', tc_expires_at = 70, tc_stamp = ''x''\<rparr>"

definition example_connection :: connection where
  "example_connection = fold (ws_step (\<lambda>_. []) (\<lambda>_. ''t'') example_claims) [From_Client empty_db (Some follow_point)] ws_open"

lemma example_wanted: "wanted_ids (\<lambda>_. []) [JStr (uuid_str 3)] = Some [3]"
  by (simp add: wanted_ids_def py_str_def uuid_str_roundtrip)

theorem connection_listens_witness:
  "distinct (cn_points example_connection) \<and> cn_points example_connection = [3]"
proof -
  have "cn_points example_connection = [3]"
    using example_wanted
    by (simp add: example_connection_def ws_open_def ws_request_def follow_point_def iterated_def ws_subscribe_def
        MAX_SUBSCRIPTIONS_def empty_db_def)
  with connection_listens [OF example_connection_def] show ?thesis by simp
qed

theorem silent_after_expiry_witness:
  "cn_sent (fold (ws_step (\<lambda>_. []) (\<lambda>_. ''t'') example_claims)
     ([From_Client empty_db (Some follow_point)] @ From_Redis 70 (Some (CHANNEL_ALARM_EVENT, Some JNull)) #
      [From_Client empty_db None]) ws_open) = cn_sent example_connection"
proof (rule silent_after_expiry [OF example_connection_def])
  show "cn_relaying example_connection"
    using example_wanted
    by (simp add: example_connection_def ws_open_def ws_request_def follow_point_def iterated_def ws_subscribe_def
        MAX_SUBSCRIPTIONS_def empty_db_def)
  show "tc_expires_at example_claims \<le> 70" by (simp add: example_claims_def)
qed

theorem subscription_answers_witness:
  "set (cn_points (ws_subscribe (\<lambda>_. []) (\<lambda>_. ''t'') empty_db [JStr (uuid_str 3)] ws_open)) = {3}"
  using subscription_answers [OF example_wanted, of ws_open "\<lambda>_. ''t''" empty_db] by (simp add: ws_open_def)

end
