(* ===== verification/Api_Alarms.thy ===== *)
theory Api_Alarms
  imports Api_Writes Alarm_Commands
begin

section \<open>Alarms and alarm rules in the API\<close>

text \<open>
  \<open>app/api/routes/alarms.py\<close>, the bodies of its requests in \<open>app/api/schemas.py\<close> and
  \<open>app/alarms/channels.py\<close>: the list of alarms, acknowledging, and the rules. A request that changes
  a rule tells the engine to read the rules again; whether it does is the last component of the
  answer (the failure of that message is ignored by the code).
\<close>

subsection \<open>Notification channels\<close>

text \<open>\<open>[^@\s]+@[^@\s]+\.[^@\s]+\<close>\<close>

definition email_chars :: "string \<Rightarrow> bool" where
  "email_chars s \<longleftrightarrow> s \<noteq> [] \<and> list_all (\<lambda>c. c \<noteq> CHR ''@'' \<and> \<not> is_space c) s"

definition email_text :: "string \<Rightarrow> bool" where
  "email_text s =
     (case partition_at CHR ''@'' s of
        (a, found, r) \<Rightarrow> found \<and> email_chars a \<and> email_chars r \<and> CHR ''.'' \<in> set (butlast (tl r)))"

text \<open>
  \<open>urllib.parse.urlparse\<close> as far as the code looks: the scheme before the first colon, and the text
  between two slashes and the next slash, question mark or hash. \<open>brackets_ok\<close> says whether the
  library accepts a host that holds both brackets.
\<close>

definition url_stripped :: "string \<Rightarrow> string" where
  "url_stripped s = List.filter (\<lambda>c. c \<notin> {CHR 0x09, CHR 0x0A, CHR 0x0D}) (dropWhile (\<lambda>c. (of_char c :: nat) \<le> 32) s)"

definition url_host :: "string \<Rightarrow> string" where
  "url_host r = (if starts_with ''//'' r then takeWhile (\<lambda>c. c \<notin> {CHR ''/'', CHR ''?'', CHR ''#''}) (drop 2 r) else [])"

definition valid_webhook_url :: "(string \<Rightarrow> bool) \<Rightarrow> string \<Rightarrow> bool" where
  "valid_webhook_url brackets_ok url =
     (case partition_at CHR '':'' (url_stripped url) of
        (scheme, found, r) \<Rightarrow>
          found \<and> py_lower scheme \<in> {''http'', ''https''} \<and> url_host r \<noteq> [] \<and>
          (CHR ''['' \<in> set (url_host r) \<longleftrightarrow> CHR '']'' \<in> set (url_host r)) \<and>
          (CHR ''['' \<in> set (url_host r) \<longrightarrow> brackets_ok (url_host r)))"

definition MAX_CHANNELS :: nat where "MAX_CHANNELS = 10"

definition validate_channel :: "(string \<Rightarrow> bool) \<Rightarrow> string \<Rightarrow> bool" where
  "validate_channel brackets_ok channel =
     (case partition_at CHR '':'' channel of
        (word, _, dest) \<Rightarrow>
          (word = ''email'' \<and> (dest = [] \<or> upto_end email_text dest)) \<or>
          (word = ''webhook'' \<and> valid_webhook_url brackets_ok dest))"

subsection \<open>Bodies\<close>

record alarm_rule_in =
  ri_point_id :: uuid
  ri_name :: "string option"
  ri_kind :: alarm_kind
  ri_threshold :: "pyfloat option"
  ri_hysteresis :: pyfloat
  ri_delay_s :: int
  ri_severity :: severity
  ri_notify :: "string list"
  ri_enabled :: bool

text \<open>Bounds are refused when the value is below or above: NaN is neither.\<close>

definition threshold_ok :: "alarm_kind \<Rightarrow> pyfloat option \<Rightarrow> bool" where
  "threshold_ok k t \<longleftrightarrow>
     \<not> (k \<in> THRESHOLD_KINDS \<and> t = None) \<and>
     \<not> (k = STALE \<and> fl_le (case t of None \<Rightarrow> Fin 0 | Some x \<Rightarrow> x) (Fin 0))"

definition valid_rule_in :: "(string \<Rightarrow> bool) \<Rightarrow> alarm_rule_in \<Rightarrow> bool" where
  "valid_rule_in brackets_ok b \<longleftrightarrow>
     fits_opt 255 (ri_name b) \<and> \<not> fl_lt (ri_hysteresis b) (Fin 0) \<and>
     0 \<le> ri_delay_s b \<and> ri_delay_s b \<le> 86400 \<and>
     length (ri_notify b) \<le> MAX_CHANNELS \<and> list_all (validate_channel brackets_ok) (ri_notify b) \<and>
     threshold_ok (ri_kind b) (ri_threshold b)"

text \<open>
  A partial modification: \<open>None\<close> for a field that is absent, \<open>Some None\<close> for one that is null.
\<close>

record alarm_rule_update =
  ru_name :: "string option option"
  ru_kind :: "alarm_kind option option"
  ru_threshold :: "pyfloat option option"
  ru_hysteresis :: "pyfloat option option"
  ru_delay_s :: "int option option"
  ru_severity :: "severity option option"
  ru_notify :: "string list option option"
  ru_enabled :: "bool option option"

definition given :: "('a \<Rightarrow> bool) \<Rightarrow> 'a option option \<Rightarrow> bool" where
  "given ok f = (case f of Some (Some x) \<Rightarrow> ok x | _ \<Rightarrow> True)"

definition valid_rule_update :: "alarm_rule_update \<Rightarrow> bool" where
  "valid_rule_update b \<longleftrightarrow>
     given (fits 255) (ru_name b) \<and> given (\<lambda>h. \<not> fl_lt h (Fin 0)) (ru_hysteresis b) \<and>
     given (\<lambda>d. 0 \<le> d \<and> d \<le> 86400) (ru_delay_s b) \<and> given (\<lambda>n. length n \<le> MAX_CHANNELS) (ru_notify b)"

subsection \<open>Alarms\<close>

definition OPEN_STATES :: "alarm_state list" where
  "OPEN_STATES = [ACTIVE_UNACKED, ACTIVE_ACKED, CLEARED_UNACKED]"

definition STATE_GROUPS :: "(string, alarm_state list) dict" where
  "STATE_GROUPS =
     [(''open'', OPEN_STATES), (''active'', [ACTIVE_UNACKED, ACTIVE_ACKED]),
      (''unacked'', [ACTIVE_UNACKED, CLEARED_UNACKED]), (''closed'', [NORMAL])]"

definition ACKABLE :: "alarm_state list" where
  "ACKABLE = [ACTIVE_UNACKED, CLEARED_UNACKED]"

record alarm_out =
  ao_id :: uuid
  ao_rule_id :: uuid
  ao_rule_name :: "string option"
  ao_kind :: alarm_kind
  ao_severity :: severity
  ao_state :: alarm_state
  ao_point_id :: uuid
  ao_point_name :: string
  ao_path :: "string option"
  ao_unit :: "string option"
  ao_threshold :: "pyfloat option"
  ao_value :: "pyfloat option"
  ao_raised_at :: time
  ao_acked_at :: "time option"
  ao_acked_by :: "string option"
  ao_cleared_at :: "time option"

type_synonym alarm_join = "(uuid \<times> alarm_event_row) \<times> alarm_rule_row \<times> point_row"

text \<open>\<open>_alarm_query\<close>: the events joined with their rule and its point.\<close>

definition join_event :: "database \<Rightarrow> uuid \<times> alarm_event_row \<Rightarrow> alarm_join list" where
  "join_event db ev =
     (case map_of (db_rules db) (ae_rule_id (snd ev)) of
        None \<Rightarrow> []
      | Some r \<Rightarrow> (case map_of (db_points db) (ar_point_id r) of None \<Rightarrow> [] | Some p \<Rightarrow> [(ev, r, p)]))"

definition alarm_query :: "database \<Rightarrow> alarm_join list" where
  "alarm_query db = concat (map (join_event db) (db_events db))"

definition to_alarm :: "alarm_join \<Rightarrow> alarm_out" where
  "to_alarm row =
     (case row of ((eid, e), r, p) \<Rightarrow>
        \<lparr>ao_id = eid, ao_rule_id = ae_rule_id e, ao_rule_name = ar_name r, ao_kind = ar_kind r,
         ao_severity = ar_severity r, ao_state = ae_state e, ao_point_id = ar_point_id r, ao_point_name = pt_name p,
         ao_path = pt_path p, ao_unit = pt_unit p, ao_threshold = ar_threshold r, ao_value = ae_raised_value e,
         ao_raised_at = ae_raised_at e, ao_acked_at = ae_acked_at e, ao_acked_by = ae_acked_by e,
         ao_cleared_at = ae_cleared_at e\<rparr>)"

definition load_alarm :: "database \<Rightarrow> uuid \<Rightarrow> alarm_out answer" where
  "load_alarm db eid =
     (case List.find (\<lambda>((k, e), r, p). k = eid) (alarm_query db) of
        None \<Rightarrow> Inl NOT_FOUND
      | Some row \<Rightarrow> Inr (to_alarm row))"

text \<open>The states a filter selects; \<open>None\<close> selects them all.\<close>

definition state_filter :: "string \<Rightarrow> alarm_state list option answer" where
  "state_filter s =
     (case map_of STATE_GROUPS s of
        Some states \<Rightarrow> Inr (Some states)
      | None \<Rightarrow>
          if s = ''all'' then Inr None
          else (case List.find (\<lambda>a. alarm_state_value a = s) alarm_states of
                  None \<Rightarrow> Inl UNPROCESSABLE
                | Some a \<Rightarrow> Inr (Some [a])))"

record alarm_filter =
  af_state :: string
  af_severity :: "string option"
  af_path :: "string option"
  af_point :: "uuid option"

text \<open>An empty text filters nothing; a point without a path has no prefix.\<close>

definition alarm_selected :: "alarm_state list option \<Rightarrow> alarm_filter \<Rightarrow> alarm_join \<Rightarrow> bool" where
  "alarm_selected states f row =
     (case row of ((eid, e), r, p) \<Rightarrow>
        (case states of None \<Rightarrow> True | Some ss \<Rightarrow> ae_state e \<in> set ss) \<and>
        (case af_severity f of None \<Rightarrow> True | Some s \<Rightarrow> s = [] \<or> severity_value (ar_severity r) = s) \<and>
        (case af_path f of None \<Rightarrow> True
         | Some s \<Rightarrow> s = [] \<or> (case pt_path p of None \<Rightarrow> False | Some t \<Rightarrow> starts_with s t)) \<and>
        (case af_point f of None \<Rightarrow> True | Some pid \<Rightarrow> ar_point_id r = pid))"

text \<open>Newest first, then by identifier.\<close>

definition alarm_order :: "alarm_join list \<Rightarrow> alarm_join list" where
  "alarm_order rows =
     sort_key (\<lambda>((eid, e), r, p). - ae_raised_at e) (sort_key (\<lambda>((eid, e), r, p). eid) rows)"

record alarm_page =
  ap_items :: "alarm_out list"
  ap_total :: nat
  ap_limit :: nat
  ap_offset :: nat

definition list_alarms :: "alarm_filter \<Rightarrow> nat \<Rightarrow> nat \<Rightarrow> database \<Rightarrow> alarm_page answer" where
  "list_alarms f limit offset db =
     (if \<not> (1 \<le> limit \<and> limit \<le> 500) then Inl UNPROCESSABLE
      else case state_filter (af_state f) of
        Inl e \<Rightarrow> Inl e
      | Inr states \<Rightarrow>
          (let rows = List.filter (alarm_selected states f) (alarm_query db)
           in Inr \<lparr>ap_items = map to_alarm (page limit offset (alarm_order rows)), ap_total = length rows,
                   ap_limit = limit, ap_offset = offset\<rparr>))"

subsection \<open>Acknowledging\<close>

definition ack_command :: "string \<Rightarrow> uuid \<Rightarrow> uuid \<Rightarrow> time \<Rightarrow> json" where
  "ack_command cid eid uid now =
     JObj [(''command_id'', JStr cid), (''action'', JStr ''ack''), (''event_id'', JStr (uuid_str eid)),
       (''user_id'', JStr (uuid_str uid)), (''issued_at'', JFloat (Fin now))]"

definition alarm_label :: "alarm_out \<Rightarrow> string" where
  "alarm_label a = (case ao_path a of None \<Rightarrow> ao_point_name a | Some s \<Rightarrow> if s = [] then ao_point_name a else s)"

definition state_json :: "alarm_state \<Rightarrow> string \<times> json" where
  "state_json s = (''state'', JStr (alarm_state_value s))"

definition refuse_ack ::
  "request \<Rightarrow> current_user \<Rightarrow> alarm_out \<Rightarrow> nat \<Rightarrow> string \<Rightarrow> database \<Rightarrow> alarm_out answer \<times> database" where
  "refuse_ack rq user a code detail db =
     finish db
       [record_audit rq (Some (cu_id user)) ''alarm.ack'' (Some (alarm_label a)) (Some (JObj [state_json (ao_state a)]))
          (Some (JObj [(''result'', JStr (refused_text detail))]))]
       db (Inl code)"

text \<open>
  \<open>db\<close> is the database when the request arrives, \<open>run\<close> gives for the command what waiting ends with
  and the database then, which the engine may have changed.
\<close>

definition acknowledge_alarm ::
  "(json \<Rightarrow> string) \<Rightarrow> (json \<Rightarrow> waited \<times> database) \<Rightarrow> request \<Rightarrow> current_user \<Rightarrow> uuid \<Rightarrow> string \<Rightarrow> database \<Rightarrow>
   alarm_out answer \<times> database" where
  "acknowledge_alarm rp run rq user eid cid db =
     (case load_alarm db eid of
        Inl e \<Rightarrow> (Inl e, db)
      | Inr a \<Rightarrow>
          if ao_state a \<notin> set ACKABLE
          then refuse_ack rq user a CONFLICT
                 (''acquittement impossible dans l'' @ [CHR 0x27, CHR 0xE9] @ ''tat '' @ alarm_state_value (ao_state a)) db
          else (case run (ack_command cid eid (cu_id user) (rq_now rq)) of
             (Redis_Error, db1) \<Rightarrow> (Inl SERVER_ERROR, db1)
           | (No_Reply, db1) \<Rightarrow>
               refuse_ack rq user a GATEWAY_TIMEOUT
                 (''le moteur d'' @ [CHR 0x27] @ ''alarmes n'' @ [CHR 0x27] @ ''a pas r'' @ [CHR 0xE9] @ ''pondu'') db1
           | (Reply r, db1) \<Rightarrow>
               (case (json_get r ''status'', json_get r ''message'') of
                  (Some s, Some m) \<Rightarrow>
                    if s \<noteq> JStr ''ok''
                    then refuse_ack rq user a CONFLICT
                           (if py_bool m then py_str rp m else ''acquittement refus'' @ [CHR 0xE9]) db1
                    else (case load_alarm db1 eid of
                       Inl e \<Rightarrow> (Inl e, db1)
                     | Inr b \<Rightarrow>
                         finish db1
                           [record_audit rq (Some (cu_id user)) ''alarm.ack'' (Some (alarm_label a))
                              (Some (JObj [state_json (ao_state a)]))
                              (Some (JObj [state_json (ao_state b), (''result'', JStr ''ok'')]))]
                           db1 (Inr b))
                | _ \<Rightarrow> (Inl SERVER_ERROR, db1))))"

subsection \<open>Rules\<close>

record alarm_rule_out =
  ro_id :: uuid
  ro_row :: alarm_rule_row
  ro_point_name :: string
  ro_path :: "string option"

definition rule_out :: "uuid \<Rightarrow> alarm_rule_row \<Rightarrow> point_row \<Rightarrow> alarm_rule_out" where
  "rule_out rid r p = \<lparr>ro_id = rid, ro_row = r, ro_point_name = pt_name p, ro_path = pt_path p\<rparr>"

definition rule_values :: "alarm_rule_row \<Rightarrow> (string \<times> json) list" where
  "rule_values r =
     [(''name'', case ar_name r of None \<Rightarrow> JNull | Some s \<Rightarrow> JStr s), (''kind'', JStr (alarm_kind_value (ar_kind r))),
      (''threshold'', json_opt (ar_threshold r)), (''hysteresis'', JFloat (ar_hysteresis r)),
      (''delay_s'', JInt (ar_delay_s r)), (''severity'', JStr (severity_value (ar_severity r))),
      (''notify'', JList (map JStr (ar_notify r))), (''enabled'', JBool (ar_enabled r))]"

definition row_of_rule :: "alarm_rule_in \<Rightarrow> alarm_rule_row" where
  "row_of_rule b =
     \<lparr>ar_point_id = ri_point_id b, ar_name = ri_name b, ar_kind = ri_kind b, ar_threshold = ri_threshold b,
      ar_hysteresis = ri_hysteresis b, ar_delay_s = ri_delay_s b, ar_severity = ri_severity b,
      ar_notify = ri_notify b, ar_enabled = ri_enabled b\<rparr>"

definition rule_and_point :: "database \<Rightarrow> uuid \<Rightarrow> (alarm_rule_row \<times> point_row) answer" where
  "rule_and_point db rid =
     (case map_of (db_rules db) rid of
        None \<Rightarrow> Inl NOT_FOUND
      | Some r \<Rightarrow> (case map_of (db_points db) (ar_point_id r) of None \<Rightarrow> Inl NOT_FOUND | Some p \<Rightarrow> Inr (r, p)))"

text \<open>The order is the database's: by path (its collation is a parameter), then by kind.\<close>

definition list_rules ::
  "(string option \<Rightarrow> 'k::linorder) \<Rightarrow> (string \<Rightarrow> 'k) \<Rightarrow> uuid option \<Rightarrow> bool option \<Rightarrow> database \<Rightarrow> alarm_rule_out list" where
  "list_rules path_key kind_key pid enabled db =
     sort_key (\<lambda>o'. path_key (ro_path o')) (sort_key (\<lambda>o'. kind_key (alarm_kind_value (ar_kind (ro_row o'))))
       (concat (map (\<lambda>(rid, r).
          if (case pid of None \<Rightarrow> True | Some i \<Rightarrow> ar_point_id r = i) \<and>
             (case enabled of None \<Rightarrow> True | Some b \<Rightarrow> ar_enabled r = b)
          then (case map_of (db_points db) (ar_point_id r) of None \<Rightarrow> [] | Some p \<Rightarrow> [rule_out rid r p])
          else []) (db_rules db))))"

definition get_rule :: "database \<Rightarrow> uuid \<Rightarrow> alarm_rule_out answer" where
  "get_rule db rid = (case rule_and_point db rid of Inl e \<Rightarrow> Inl e | Inr (r, p) \<Rightarrow> Inr (rule_out rid r p))"

text \<open>The end of a modification: the engine is told once the transaction is committed.\<close>

definition finish_announced ::
  "database \<Rightarrow> audit_row list \<Rightarrow> database \<Rightarrow> 'a \<Rightarrow> 'a answer \<times> database \<times> bool" where
  "finish_announced db0 rows db ans =
     (case commit rows db of None \<Rightarrow> (Inl SERVER_ERROR, db0, False) | Some db' \<Rightarrow> (Inr ans, db', True))"

text \<open>\<open>rid\<close> is the identifier the database draws for the new row.\<close>

definition create_rule ::
  "(string \<Rightarrow> bool) \<Rightarrow> request \<Rightarrow> current_user \<Rightarrow> alarm_rule_in \<Rightarrow> uuid \<Rightarrow> database \<Rightarrow>
   alarm_rule_out answer \<times> database \<times> bool" where
  "create_rule brackets_ok rq user body rid db =
     (if \<not> valid_rule_in brackets_ok body then (Inl UNPROCESSABLE, db, False)
      else case map_of (db_points db) (ri_point_id body) of
        None \<Rightarrow> (Inl NOT_FOUND, db, False)
      | Some p \<Rightarrow>
          if map_of (db_rules db) rid \<noteq> None then (Inl SERVER_ERROR, db, False)
          else finish_announced db
            [record_audit rq (Some (cu_id user)) ''alarm_rule.create'' (Some (point_label (ri_point_id body) (pt_path p))) None
               (Some (JObj (rule_values (row_of_rule body))))]
            (db\<lparr>db_rules := AList.update rid (row_of_rule body) (db_rules db)\<rparr>)
            (rule_out rid (row_of_rule body) p))"

text \<open>The rule with the fields that are given; a null where the rule needs a value is refused.\<close>

definition merged_rule :: "alarm_rule_row \<Rightarrow> alarm_rule_update \<Rightarrow> alarm_rule_in option" where
  "merged_rule r b =
     (if ru_kind b = Some None \<or> ru_hysteresis b = Some None \<or> ru_delay_s b = Some None \<or>
         ru_severity b = Some None \<or> ru_notify b = Some None \<or> ru_enabled b = Some None then None
      else Some
        \<lparr>ri_point_id = ar_point_id r, ri_name = (case ru_name b of None \<Rightarrow> ar_name r | Some v \<Rightarrow> v),
         ri_kind = (case ru_kind b of Some (Some v) \<Rightarrow> v | _ \<Rightarrow> ar_kind r),
         ri_threshold = (case ru_threshold b of None \<Rightarrow> ar_threshold r | Some v \<Rightarrow> v),
         ri_hysteresis = (case ru_hysteresis b of Some (Some v) \<Rightarrow> v | _ \<Rightarrow> ar_hysteresis r),
         ri_delay_s = (case ru_delay_s b of Some (Some v) \<Rightarrow> v | _ \<Rightarrow> ar_delay_s r),
         ri_severity = (case ru_severity b of Some (Some v) \<Rightarrow> v | _ \<Rightarrow> ar_severity r),
         ri_notify = (case ru_notify b of Some (Some v) \<Rightarrow> v | _ \<Rightarrow> ar_notify r),
         ri_enabled = (case ru_enabled b of Some (Some v) \<Rightarrow> v | _ \<Rightarrow> ar_enabled r)\<rparr>)"

text \<open>
  The entries of one version of the rule whose value differs in the other (no stored number is NaN,
  which would differ from itself).
\<close>

definition changed_values :: "(string \<times> json) list \<Rightarrow> (string \<times> json) list \<Rightarrow> (string \<times> json) list" where
  "changed_values vs ws = map fst (List.filter (\<lambda>(v, w). v \<noteq> w) (zip vs ws))"

definition update_rule ::
  "(string \<Rightarrow> bool) \<Rightarrow> request \<Rightarrow> current_user \<Rightarrow> uuid \<Rightarrow> alarm_rule_update \<Rightarrow> database \<Rightarrow>
   alarm_rule_out answer \<times> database \<times> bool" where
  "update_rule brackets_ok rq user rid body db =
     (if \<not> valid_rule_update body then (Inl UNPROCESSABLE, db, False)
      else case rule_and_point db rid of
        Inl e \<Rightarrow> (Inl e, db, False)
      | Inr (r, p) \<Rightarrow>
          (case merged_rule r body of
             None \<Rightarrow> (Inl UNPROCESSABLE, db, False)
           | Some m \<Rightarrow>
               if \<not> valid_rule_in brackets_ok m then (Inl UNPROCESSABLE, db, False)
               else (let new = row_of_rule m; before = rule_values r; after = rule_values new
                     in if after = before then (Inr (rule_out rid new p), db, False)
                        else finish_announced db
                          [record_audit rq (Some (cu_id user)) ''alarm_rule.update''
                             (Some (point_label (ar_point_id r) (pt_path p)))
                             (Some (JObj (changed_values before after))) (Some (JObj (changed_values after before)))]
                          (db\<lparr>db_rules := AList.update rid new (db_rules db)\<rparr>)
                          (rule_out rid new p))))"

text \<open>Deleting a rule deletes its past alarms with it; a rule with an open alarm stays.\<close>

definition delete_rule ::
  "request \<Rightarrow> current_user \<Rightarrow> uuid \<Rightarrow> database \<Rightarrow> unit answer \<times> database \<times> bool" where
  "delete_rule rq user rid db =
     (case rule_and_point db rid of
        Inl e \<Rightarrow> (Inl e, db, False)
      | Inr (r, p) \<Rightarrow>
          if list_ex (\<lambda>(eid, e). ae_rule_id e = rid \<and> ae_state e \<noteq> NORMAL) (db_events db)
          then (Inl CONFLICT, db, False)
          else finish_announced db
            [record_audit rq (Some (cu_id user)) ''alarm_rule.delete''
               (Some (point_label (ar_point_id r) (pt_path p))) (Some (JObj (rule_values r))) None]
            (db\<lparr>db_rules := AList.delete rid (db_rules db),
                db_events := List.filter (\<lambda>(eid, e). ae_rule_id e \<noteq> rid) (db_events db)\<rparr>)
            ())"

datatype rule_request = Create_Rule alarm_rule_in uuid | Update_Rule uuid alarm_rule_update | Delete_Rule uuid

fun rule_handler ::
  "(string \<Rightarrow> bool) \<Rightarrow> request \<Rightarrow> rule_request \<Rightarrow> database \<Rightarrow> current_user \<Rightarrow>
   alarm_rule_out option answer \<times> database \<times> bool" where
  "rule_handler brackets_ok rq (Create_Rule body rid) db user =
     map_prod (map_sum id Some) id (create_rule brackets_ok rq user body rid db)"
| "rule_handler brackets_ok rq (Update_Rule rid body) db user =
     map_prod (map_sum id Some) id (update_rule brackets_ok rq user rid body db)"
| "rule_handler brackets_ok rq (Delete_Rule rid) db user =
     map_prod (map_sum id (\<lambda>_. None)) id (delete_rule rq user rid db)"

definition rule_route ::
  "(string \<Rightarrow> bool) \<Rightarrow> (time \<Rightarrow> string \<Rightarrow> token_payload option) \<Rightarrow> (string \<Rightarrow> string) \<Rightarrow>
   request \<times> string option \<times> rule_request \<Rightarrow> database \<Rightarrow> alarm_rule_out option answer \<times> database \<times> bool" where
  "rule_route brackets_ok jwt_decode stamp_of call db =
     (case call of (rq, cookie, req) \<Rightarrow>
        guarded ENGINEER (authenticate jwt_decode stamp_of (rq_now rq) cookie db)
          (rule_handler brackets_ok rq req db) (db, False))"

subsection \<open>What the routes promise\<close>

text \<open>
  The pages of a list make the whole list: with a filter that is accepted, the pages of one
  size, one after the other, hold every selected alarm, newest first, none twice and none missing.
\<close>

theorem alarm_pages_complete:
  assumes "1 \<le> limit" "limit \<le> 500" "state_filter (af_state f) = Inr states"
    and "length (List.filter (alarm_selected states f) (alarm_query db)) \<le> n * limit"
  shows "concat (map (\<lambda>k. case list_alarms f limit (k * limit) db of Inl e \<Rightarrow> [] | Inr pg \<Rightarrow> ap_items pg) [0..<n]) =
    map to_alarm (alarm_order (List.filter (alarm_selected states f) (alarm_query db)))"
proof -
  let ?rows = "alarm_order (List.filter (alarm_selected states f) (alarm_query db))"
  have "concat (map (\<lambda>k. case list_alarms f limit (k * limit) db of Inl e \<Rightarrow> [] | Inr pg \<Rightarrow> ap_items pg) [0..<n]) =
      concat (map (\<lambda>k. map to_alarm (page limit (k * limit) ?rows)) [0..<n])"
    using assms(1-3) by (simp add: list_alarms_def Let_def)
  also have "\<dots> = map to_alarm (concat (map (\<lambda>k. page limit (k * limit) ?rows) [0..<n]))"
    by (simp add: map_concat comp_def)
  also have "\<dots> = map to_alarm ?rows"
    using assms(4) by (simp add: concat_pages alarm_order_def)
  finally show ?thesis .
qed

text \<open>The body a stored rule would be accepted from.\<close>

definition in_of_row :: "alarm_rule_row \<Rightarrow> alarm_rule_in" where
  "in_of_row r =
     \<lparr>ri_point_id = ar_point_id r, ri_name = ar_name r, ri_kind = ar_kind r, ri_threshold = ar_threshold r,
      ri_hysteresis = ar_hysteresis r, ri_delay_s = ar_delay_s r, ri_severity = ar_severity r,
      ri_notify = ar_notify r, ri_enabled = ar_enabled r\<rparr>"

lemma in_of_row_of [simp]: "in_of_row (row_of_rule b) = b"
  by (simp add: in_of_row_def row_of_rule_def)

definition rules_ok :: "(string \<Rightarrow> bool) \<Rightarrow> database \<Rightarrow> bool" where
  "rules_ok brackets_ok db \<longleftrightarrow> dict_wf (db_rules db) \<and>
     (\<forall>rid r. map_of (db_rules db) rid = Some r \<longrightarrow> valid_rule_in brackets_ok (in_of_row r))"

lemma finish_announced_cases:
  assumes "finish_announced db0 rows db ans = (res, db', told)"
  obtains (kept) "res = Inr ans" "db' = db\<lparr>db_audit := db_audit db @ rows\<rparr>" "told"
  | (undone) "res = Inl SERVER_ERROR" "db' = db0" "\<not> told"
  using assms by (auto simp: finish_announced_def commit_def split: if_splits)

lemma finish_announced_inv:
  assumes "P db0" "P db" "\<And>rows. P db \<Longrightarrow> P (db\<lparr>db_audit := rows\<rparr>)"
  shows "P (fst (snd (finish_announced db0 rows db ans)))"
  using assms by (simp add: finish_announced_def commit_def)

lemma rules_ok_audit: "rules_ok ax db \<Longrightarrow> rules_ok ax (db\<lparr>db_audit := rows\<rparr>)"
  by (simp add: rules_ok_def)

lemma rules_ok_set:
  "rules_ok ax db \<Longrightarrow> valid_rule_in ax b \<Longrightarrow> rules_ok ax (db\<lparr>db_rules := AList.update rid (row_of_rule b) (db_rules db)\<rparr>)"
  by (simp add: rules_ok_def)

lemma rule_handler_ok:
  assumes "rules_ok ax db"
  shows "rules_ok ax (fst (snd (rule_handler ax rq req db user)))"
proof (cases req)
  case (Create_Rule body rid)
  with assms show ?thesis
    by (auto simp: create_rule_def intro!: finish_announced_inv rules_ok_audit rules_ok_set split: option.splits)
next
  case (Update_Rule rid body)
  with assms show ?thesis
    by (auto simp: update_rule_def Let_def intro!: finish_announced_inv rules_ok_audit rules_ok_set
        split: sum.splits option.splits)
next
  case (Delete_Rule rid)
  have "rules_ok ax (db\<lparr>db_rules := AList.delete rid (db_rules db),
      db_events := List.filter (\<lambda>(eid, e). ae_rule_id e \<noteq> rid) (db_events db)\<rparr>)"
    using assms by (auto simp: rules_ok_def split: if_splits)
  with assms Delete_Rule show ?thesis
    by (auto simp: delete_rule_def intro!: finish_announced_inv rules_ok_audit split: sum.splits)
qed

interpretation rules: event_driven "\<lambda>call db. fst (snd (rule_route ax jwt_decode stamp_of call db))" "rules_ok ax"
  for ax jwt_decode stamp_of
  by unfold_locales (auto simp: rule_route_def guarded_def require_role_def rule_handler_ok split: sum.splits)

text \<open>
  C38. The rules in the table are coherent, whatever requests are handled: a rule on a value has a
  threshold, one on staleness a positive duration (if it is a number), its delay is between 0 and
  a day, and it has at most ten channels, all of a known form.
\<close>

theorem stored_rules_coherent:
  assumes "rules_ok ax db"
    and "map_of (db_rules (fold (\<lambda>call db. fst (snd (rule_route ax jwt_decode stamp_of call db))) calls db)) rid = Some r"
  shows "(ar_kind r \<in> THRESHOLD_KINDS \<longrightarrow> ar_threshold r \<noteq> None) \<and>
    (ar_kind r = STALE \<longrightarrow> ar_threshold r = Some (Fin q) \<longrightarrow> 0 < q) \<and>
    0 \<le> ar_delay_s r \<and> ar_delay_s r \<le> 86400 \<and>
    length (ar_notify r) \<le> 10 \<and> list_all (validate_channel ax) (ar_notify r)"
proof -
  have "valid_rule_in ax (in_of_row r)"
    using rules.run_inv [OF assms(1)] assms(2) unfolding rules_ok_def by blast
  then show ?thesis
    by (auto simp: valid_rule_in_def in_of_row_def threshold_ok_def MAX_CHANNELS_def)
qed

text \<open>An open alarm that is in the table.\<close>

definition alarm_open_in :: "uuid \<Rightarrow> alarm_event_row \<Rightarrow> database \<Rightarrow> bool" where
  "alarm_open_in eid e db \<longleftrightarrow> dict_wf (db_events db) \<and> map_of (db_events db) eid = Some e \<and> is_open e"

lemma alarm_open_in_audit [simp]: "alarm_open_in eid e (db\<lparr>db_audit := rows\<rparr>) = alarm_open_in eid e db"
  by (simp add: alarm_open_in_def)

lemma rule_handler_events:
  assumes "alarm_open_in eid e db"
  shows "alarm_open_in eid e (fst (snd (rule_handler ax rq req db user)))"
proof (cases req)
  case (Create_Rule body rid)
  with assms show ?thesis
    by (auto simp: create_rule_def alarm_open_in_def finish_announced_def commit_def split: option.splits)
next
  case (Update_Rule rid body)
  with assms show ?thesis
    by (auto simp: update_rule_def Let_def alarm_open_in_def finish_announced_def commit_def
        split: sum.splits option.splits)
next
  case (Delete_Rule rid)
  let ?es = "List.filter (\<lambda>(eid, e). ae_rule_id e \<noteq> rid) (db_events db)"
  have wf: "dict_wf (db_events db)" "dict_wf ?es" and mem: "(eid, e) \<in> set (db_events db)"
    using assms map_of_mem [of "db_events db" eid e] by (auto simp: alarm_open_in_def distinct_map_filter)
  have "alarm_open_in eid e (db\<lparr>db_rules := AList.delete rid (db_rules db), db_events := ?es\<rparr>)"
    if "\<not> list_ex (\<lambda>(eid, e). ae_rule_id e = rid \<and> ae_state e \<noteq> NORMAL) (db_events db)"
  proof -
    have "(eid, e) \<in> set ?es"
      using that mem assms by (auto simp: list_ex_iff alarm_open_in_def is_open_def)
    then have "map_of ?es eid = Some e" using map_of_mem [OF wf(2)] by blast
    with wf(2) assms show ?thesis by (simp add: alarm_open_in_def)
  qed
  then have "alarm_open_in eid e (fst (snd (delete_rule rq user rid db)))"
    using assms unfolding delete_rule_def by (auto intro!: finish_announced_inv [where P = "alarm_open_in eid e"] split: sum.splits)
  with Delete_Rule show ?thesis by (simp add: snd_map_prod)
qed

interpretation open_alarms: event_driven "\<lambda>call db. fst (snd (rule_route ax jwt_decode stamp_of call db))" "alarm_open_in eid e"
  for ax jwt_decode stamp_of eid e
  by unfold_locales (auto simp: rule_route_def guarded_def require_role_def rule_handler_events split: sum.splits)

text \<open>
  Changing rules never loses an open alarm: whatever requests on the rules are handled, an
  alarm that is open stays in the table as it is.
\<close>

theorem open_alarms_kept:
  assumes "dict_wf (db_events db)" "map_of (db_events db) eid = Some e" "ae_state e \<noteq> NORMAL"
  shows "map_of (db_events (fold (\<lambda>call db. fst (snd (rule_route ax jwt_decode stamp_of call db))) calls db)) eid = Some e"
  using open_alarms.run_inv [of eid e db] assms by (simp add: alarm_open_in_def is_open_def)

text \<open>
  C37. An acknowledgement asked of the API is the one the engine applies: for a user who may
  acknowledge, the engine's service executes the command the API sends, when it is not too old, by
  acknowledging that alarm for that user.
\<close>

theorem acknowledgement_reaches_engine:
  assumes "eid < 2 ^ 128" "uid < 2 ^ 128"
    and "io (en_world (aa_engine a)) = (False, w)" "user_role (aw_db w) uid = Some r" "has_role r OPERATOR"
    and "aa_now a - sent \<le> MAX_COMMAND_AGE_S"
    and "acknowledge uuid_str (aa_now a) eid uid ((aa_engine a)\<lparr>en_world := w\<rparr>) = (res, en)"
  shows "alarm_execute rp MAX_COMMAND_AGE_S (ack_command cid eid uid sent) a =
    (Some (case res of Inl e \<Rightarrow> Inl (Engine_Refusal e) | Inr u \<Rightarrow> Inr u),
     a\<lparr>aa_clock := tl (aa_clock a), aa_engine := en\<rparr>)"
proof -
  have "r \<in> set ACK_ROLES" using assms(5) by (auto simp: ACK_ROLES_def has_role_operator)
  with assms show ?thesis
    by (simp add: alarm_execute_def ack_command_def command_expired_def py_float_def Let_def)
qed

subsection \<open>Examples\<close>

definition example_rule_row :: alarm_rule_row where
  "example_rule_row =
     \<lparr>ar_point_id = 3, ar_name = None, ar_kind = HIGH, ar_threshold = Some (Fin 30), ar_hysteresis = Fin 1,
      ar_delay_s = 60, ar_severity = CRITICAL, ar_notify = [''email:a@b.fr''], ar_enabled = True\<rparr>"

definition example_event_row :: alarm_event_row where
  "example_event_row =
     \<lparr>ae_rule_id = 4, ae_raised_at = 5, ae_acked_at = None, ae_acked_by = None, ae_cleared_at = None,
      ae_state = ACTIVE_UNACKED, ae_raised_value = Some (Fin 31)\<rparr>"

definition example_alarms :: database where
  "example_alarms = (example_site ''engineer'')
     \<lparr>db_rules := [(4, example_rule_row)], db_events := [(5, example_event_row)]\<rparr>"

theorem alarm_pages_complete_witness:
  "\<exists>pg. list_alarms \<lparr>af_state = ''open'', af_severity = None, af_path = Some ''salle'', af_point = None\<rparr> 1 0 example_alarms = Inr pg \<and>
     map ao_id (ap_items pg) = [5]"
proof -
  let ?f = "\<lparr>af_state = ''open'', af_severity = None, af_path = Some ''salle'', af_point = None\<rparr>"
  have states: "state_filter (af_state ?f) = Inr (Some OPEN_STATES)"
    by (simp add: state_filter_def STATE_GROUPS_def)
  have rows: "map to_alarm (alarm_order (List.filter (alarm_selected (Some OPEN_STATES) ?f) (alarm_query example_alarms))) =
      [to_alarm ((5, example_event_row), example_rule_row, example_setpoint)]"
    "length (List.filter (alarm_selected (Some OPEN_STATES) ?f) (alarm_query example_alarms)) \<le> 1 * 1"
    by code_simp+
  have "list_alarms ?f 1 0 example_alarms = Inr (case list_alarms ?f 1 0 example_alarms of Inr pg \<Rightarrow> pg)"
    using states by (simp add: list_alarms_def Let_def)
  then show ?thesis
    using alarm_pages_complete [OF _ _ states rows(2)] rows(1)
    by (cases "list_alarms ?f 1 0 example_alarms") (simp_all add: to_alarm_def)
qed

lemma example_rules_ok: "rules_ok (\<lambda>_. False) example_alarms"
proof -
  have "valid_rule_in (\<lambda>_. False) (in_of_row example_rule_row)"
  proof -
    have "list_all (validate_channel (\<lambda>_. False)) (ar_notify example_rule_row)" by code_simp
    then show ?thesis
      by (simp add: valid_rule_in_def in_of_row_def example_rule_row_def fits_opt_def MAX_CHANNELS_def threshold_ok_def)
  qed
  then show ?thesis by (simp add: rules_ok_def example_alarms_def)
qed

theorem stored_rules_coherent_witness:
  "0 \<le> ar_delay_s example_rule_row \<and> list_all (validate_channel (\<lambda>_. False)) (ar_notify example_rule_row)"
proof -
  have "authenticate plain_decode id 20 None example_alarms = Inl UNAUTHORIZED"
    by (simp add: authenticate_def decode_token_def)
  then have "map_of (db_rules (fold (\<lambda>call db. fst (snd (rule_route (\<lambda>_. False) plain_decode id call db)))
      [(\<lparr>rq_now = 20, rq_ip = None\<rparr>, None, Delete_Rule 4)] example_alarms)) 4 = Some example_rule_row"
    by (simp add: rule_route_def guarded_def example_alarms_def)
  from stored_rules_coherent [OF example_rules_ok this] show ?thesis by simp
qed

theorem open_alarms_kept_witness:
  "map_of (db_events (fst (snd (rule_route (\<lambda>_. False) plain_decode id
      (\<lparr>rq_now = 20, rq_ip = None\<rparr>, op_cookie, Delete_Rule 4) example_alarms)))) 5 = Some example_event_row"
  using open_alarms_kept [of example_alarms 5 example_event_row "\<lambda>_. False" plain_decode id
      "[(\<lparr>rq_now = 20, rq_ip = None\<rparr>, op_cookie, Delete_Rule 4)]"]
  by (simp add: example_alarms_def example_event_row_def)

theorem acknowledgement_reaches_engine_witness:
  "\<exists>res en. alarm_execute (\<lambda>_. []) MAX_COMMAND_AGE_S (ack_command ''c1'' 10 6 1) example_app =
     (Some res, example_app\<lparr>aa_clock := tl (aa_clock example_app), aa_engine := en\<rparr>)"
proof -
  have f: "fst (io (en_world (aa_engine example_app))) = False" by code_simp
  obtain w where io: "io (en_world (aa_engine example_app)) = (False, w)"
    by (metis f prod.collapse)
  have "user_role (aw_db (snd (io (en_world (aa_engine example_app))))) 6 = Some ''operator''" by code_simp
  then have role: "user_role (aw_db w) 6 = Some ''operator''" by (simp add: io)
  have op: "has_role ''operator'' OPERATOR" by code_simp
  have age: "aa_now example_app - 1 \<le> MAX_COMMAND_AGE_S" by code_simp
  obtain res en where ack: "acknowledge uuid_str (aa_now example_app) 10 6 ((aa_engine example_app)\<lparr>en_world := w\<rparr>) = (res, en)"
    by fastforce
  show ?thesis
    using acknowledgement_reaches_engine [OF _ _ io role op age ack, of "\<lambda>_. []" "''c1''"] by auto
qed

end
