(* ===== verification/Api_Roles.thy ===== *)
theory Api_Roles
  imports Api_Writes
begin

section \<open>Which role each route requires\<close>

text \<open>
  The declarations of the routes in \<open>app/api/routes\<close> and \<open>app/api/health.py\<close> (method, path, dependencies in the order
  of the parameters), \<open>required_role\<close> and \<open>route_roles\<close> of \<open>app/api/apidoc.py\<close>, which read the minimal
  role of each route in its dependencies, and what the dependencies do to a request. FastAPI
  resolves dependencies in order, those of a dependency before itself, up to the first that raises, and
  sends a request to the first route declared whose method and path match.
\<close>

subsection \<open>Dependencies\<close>

datatype dependency_call = Current_User | Require_Role role_name | Other_Call string

datatype dependant = Dependant dependency_call "dependant list"

definition plain_dep :: "string \<Rightarrow> dependant list \<Rightarrow> dependant" where
  "plain_dep name subs = Dependant (Other_Call name) subs"

definition session_dep :: dependant where
  "session_dep = plain_dep ''get_session'' [plain_dep ''get_sessions'' []]"

definition settings_dep :: dependant where "settings_dep = plain_dep ''get_settings_dep'' []"

definition redis_dep :: dependant where "redis_dep = plain_dep ''get_redis'' []"

definition engine_dep :: dependant where "engine_dep = plain_dep ''get_engine'' []"

definition guard_dep :: dependant where "guard_dep = plain_dep ''get_login_guard'' []"

definition user_dep :: dependant where
  "user_dep = Dependant Current_User [session_dep, settings_dep]"

text \<open>\<open>Depends(require_role(minimum))\<close>: the inner function asks for the current user.\<close>

definition role_dep :: "role_name \<Rightarrow> dependant" where
  "role_dep minimum = Dependant (Require_Role minimum) [user_dep]"

text \<open>\<open>rt_declared\<close> is the mark of \<open>checked_in_handler\<close>.\<close>

record api_route =
  rt_method :: string
  rt_path :: string
  rt_router :: "dependant list"
  rt_dependencies :: "dependant list"
  rt_parameters :: "dependant list"
  rt_declared :: "role_name option"

subsection \<open>The routes\<close>

definition r_login :: api_route where
  "r_login = \<lparr>rt_method = ''POST'', rt_path = ''/auth/login'', rt_router = [], rt_dependencies = [],
     rt_parameters = [session_dep, settings_dep, guard_dep], rt_declared = None\<rparr>"

definition r_refresh :: api_route where
  "r_refresh = \<lparr>rt_method = ''POST'', rt_path = ''/auth/refresh'', rt_router = [], rt_dependencies = [],
     rt_parameters = [session_dep, settings_dep], rt_declared = None\<rparr>"

definition r_logout :: api_route where
  "r_logout = \<lparr>rt_method = ''POST'', rt_path = ''/auth/logout'', rt_router = [], rt_dependencies = [],
     rt_parameters = [session_dep], rt_declared = None\<rparr>"

definition r_me :: api_route where
  "r_me = \<lparr>rt_method = ''GET'', rt_path = ''/auth/me'', rt_router = [], rt_dependencies = [],
     rt_parameters = [user_dep], rt_declared = None\<rparr>"

definition r_list_networks :: api_route where
  "r_list_networks = \<lparr>rt_method = ''GET'', rt_path = ''/networks'', rt_router = [role_dep VIEWER], rt_dependencies = [],
     rt_parameters = [session_dep], rt_declared = None\<rparr>"

definition r_list_devices :: api_route where
  "r_list_devices = \<lparr>rt_method = ''GET'', rt_path = ''/devices'', rt_router = [role_dep VIEWER], rt_dependencies = [],
     rt_parameters = [session_dep], rt_declared = None\<rparr>"

definition r_get_device :: api_route where
  "r_get_device = \<lparr>rt_method = ''GET'', rt_path = ''/devices/{device_id}'', rt_router = [role_dep VIEWER], rt_dependencies = [],
     rt_parameters = [session_dep], rt_declared = None\<rparr>"

definition r_run_discovery :: api_route where
  "r_run_discovery = \<lparr>rt_method = ''POST'', rt_path = ''/discovery/run'', rt_router = [], rt_dependencies = [],
     rt_parameters = [session_dep, redis_dep, role_dep ENGINEER], rt_declared = None\<rparr>"

definition r_list_points :: api_route where
  "r_list_points = \<lparr>rt_method = ''GET'', rt_path = ''/points'', rt_router = [role_dep VIEWER], rt_dependencies = [],
     rt_parameters = [session_dep], rt_declared = None\<rparr>"

definition r_points_tree :: api_route where
  "r_points_tree = \<lparr>rt_method = ''GET'', rt_path = ''/points/tree'', rt_router = [role_dep VIEWER], rt_dependencies = [],
     rt_parameters = [session_dep], rt_declared = None\<rparr>"

definition r_get_point :: api_route where
  "r_get_point = \<lparr>rt_method = ''GET'', rt_path = ''/points/{point_id}'', rt_router = [role_dep VIEWER], rt_dependencies = [],
     rt_parameters = [session_dep], rt_declared = None\<rparr>"

definition r_point_history :: api_route where
  "r_point_history = \<lparr>rt_method = ''GET'', rt_path = ''/points/{point_id}/history'', rt_router = [role_dep VIEWER], rt_dependencies = [],
     rt_parameters = [session_dep], rt_declared = None\<rparr>"

definition r_update_point :: api_route where
  "r_update_point = \<lparr>rt_method = ''PATCH'', rt_path = ''/points/{point_id}'', rt_router = [role_dep VIEWER], rt_dependencies = [],
     rt_parameters = [session_dep, redis_dep, role_dep ENGINEER], rt_declared = None\<rparr>"

definition r_write_point :: api_route where
  "r_write_point = \<lparr>rt_method = ''POST'', rt_path = ''/points/{point_id}/write'', rt_router = [], rt_dependencies = [],
     rt_parameters = [session_dep, redis_dep, settings_dep, user_dep], rt_declared = Some OPERATOR\<rparr>"

definition r_list_alarms :: api_route where
  "r_list_alarms = \<lparr>rt_method = ''GET'', rt_path = ''/alarms'', rt_router = [], rt_dependencies = [role_dep VIEWER],
     rt_parameters = [session_dep], rt_declared = None\<rparr>"

definition r_get_alarm :: api_route where
  "r_get_alarm = \<lparr>rt_method = ''GET'', rt_path = ''/alarms/{alarm_id}'', rt_router = [], rt_dependencies = [role_dep VIEWER],
     rt_parameters = [session_dep], rt_declared = None\<rparr>"

definition r_acknowledge :: api_route where
  "r_acknowledge = \<lparr>rt_method = ''POST'', rt_path = ''/alarms/{alarm_id}/ack'', rt_router = [], rt_dependencies = [],
     rt_parameters = [session_dep, redis_dep, settings_dep, role_dep OPERATOR], rt_declared = None\<rparr>"

definition r_list_rules :: api_route where
  "r_list_rules = \<lparr>rt_method = ''GET'', rt_path = ''/alarm-rules'', rt_router = [], rt_dependencies = [],
     rt_parameters = [session_dep, role_dep ENGINEER], rt_declared = None\<rparr>"

definition r_get_rule :: api_route where
  "r_get_rule = \<lparr>rt_method = ''GET'', rt_path = ''/alarm-rules/{rule_id}'', rt_router = [], rt_dependencies = [],
     rt_parameters = [session_dep, role_dep ENGINEER], rt_declared = None\<rparr>"

definition r_create_rule :: api_route where
  "r_create_rule = \<lparr>rt_method = ''POST'', rt_path = ''/alarm-rules'', rt_router = [], rt_dependencies = [],
     rt_parameters = [session_dep, redis_dep, role_dep ENGINEER], rt_declared = None\<rparr>"

definition r_update_rule :: api_route where
  "r_update_rule = \<lparr>rt_method = ''PATCH'', rt_path = ''/alarm-rules/{rule_id}'', rt_router = [], rt_dependencies = [],
     rt_parameters = [session_dep, redis_dep, role_dep ENGINEER], rt_declared = None\<rparr>"

definition r_delete_rule :: api_route where
  "r_delete_rule = \<lparr>rt_method = ''DELETE'', rt_path = ''/alarm-rules/{rule_id}'', rt_router = [], rt_dependencies = [],
     rt_parameters = [session_dep, redis_dep, role_dep ENGINEER], rt_declared = None\<rparr>"

definition r_list_synoptics :: api_route where
  "r_list_synoptics = \<lparr>rt_method = ''GET'', rt_path = ''/synoptics'', rt_router = [], rt_dependencies = [role_dep VIEWER],
     rt_parameters = [session_dep], rt_declared = None\<rparr>"

definition r_get_synoptic :: api_route where
  "r_get_synoptic = \<lparr>rt_method = ''GET'', rt_path = ''/synoptics/{slug}'', rt_router = [], rt_dependencies = [role_dep VIEWER],
     rt_parameters = [session_dep], rt_declared = None\<rparr>"

definition r_create_synoptic :: api_route where
  "r_create_synoptic = \<lparr>rt_method = ''POST'', rt_path = ''/synoptics'', rt_router = [], rt_dependencies = [],
     rt_parameters = [session_dep, role_dep ENGINEER], rt_declared = None\<rparr>"

definition r_save_synoptic :: api_route where
  "r_save_synoptic = \<lparr>rt_method = ''PUT'', rt_path = ''/synoptics/{synoptic_id}'', rt_router = [], rt_dependencies = [],
     rt_parameters = [session_dep, role_dep ENGINEER], rt_declared = None\<rparr>"

definition r_delete_synoptic :: api_route where
  "r_delete_synoptic = \<lparr>rt_method = ''DELETE'', rt_path = ''/synoptics/{synoptic_id}'', rt_router = [], rt_dependencies = [],
     rt_parameters = [session_dep, role_dep ENGINEER], rt_declared = None\<rparr>"

definition r_list_versions :: api_route where
  "r_list_versions = \<lparr>rt_method = ''GET'', rt_path = ''/synoptics/{slug}/versions'', rt_router = [], rt_dependencies = [],
     rt_parameters = [session_dep, role_dep ENGINEER], rt_declared = None\<rparr>"

definition r_get_version :: api_route where
  "r_get_version = \<lparr>rt_method = ''GET'', rt_path = ''/synoptics/{slug}/versions/{version}'', rt_router = [], rt_dependencies = [],
     rt_parameters = [session_dep, role_dep ENGINEER], rt_declared = None\<rparr>"

definition r_restore_version :: api_route where
  "r_restore_version = \<lparr>rt_method = ''POST'', rt_path = ''/synoptics/{synoptic_id}/restore/{version}'', rt_router = [], rt_dependencies = [],
     rt_parameters = [session_dep, role_dep ENGINEER], rt_declared = None\<rparr>"

definition r_list_roles :: api_route where
  "r_list_roles = \<lparr>rt_method = ''GET'', rt_path = ''/roles'', rt_router = [], rt_dependencies = [],
     rt_parameters = [role_dep ADMIN], rt_declared = None\<rparr>"

definition r_list_users :: api_route where
  "r_list_users = \<lparr>rt_method = ''GET'', rt_path = ''/users'', rt_router = [], rt_dependencies = [],
     rt_parameters = [session_dep, guard_dep, role_dep ADMIN], rt_declared = None\<rparr>"

definition r_create_user :: api_route where
  "r_create_user = \<lparr>rt_method = ''POST'', rt_path = ''/users'', rt_router = [], rt_dependencies = [],
     rt_parameters = [session_dep, role_dep ADMIN], rt_declared = None\<rparr>"

definition r_update_user :: api_route where
  "r_update_user = \<lparr>rt_method = ''PATCH'', rt_path = ''/users/{user_id}'', rt_router = [], rt_dependencies = [],
     rt_parameters = [session_dep, guard_dep, role_dep ADMIN], rt_declared = None\<rparr>"

definition r_unlock_user :: api_route where
  "r_unlock_user = \<lparr>rt_method = ''POST'', rt_path = ''/users/{user_id}/unlock'', rt_router = [], rt_dependencies = [],
     rt_parameters = [session_dep, guard_dep, role_dep ADMIN], rt_declared = None\<rparr>"

definition r_delete_user :: api_route where
  "r_delete_user = \<lparr>rt_method = ''DELETE'', rt_path = ''/users/{user_id}'', rt_router = [], rt_dependencies = [],
     rt_parameters = [session_dep, role_dep ADMIN], rt_declared = None\<rparr>"

definition r_list_audit :: api_route where
  "r_list_audit = \<lparr>rt_method = ''GET'', rt_path = ''/audit'', rt_router = [role_dep ADMIN], rt_dependencies = [],
     rt_parameters = [session_dep], rt_declared = None\<rparr>"

definition r_health :: api_route where
  "r_health = \<lparr>rt_method = ''GET'', rt_path = ''/health'', rt_router = [], rt_dependencies = [],
     rt_parameters = [engine_dep, redis_dep], rt_declared = None\<rparr>"

text \<open>\<open>API_MODULES\<close>, each with its routes in order, then the state of the services.\<close>

definition API_PREFIX :: string where "API_PREFIX = ''/api/v1''"

definition API_MODULES :: "api_route list list" where
  "API_MODULES =
     [[r_login, r_refresh, r_logout, r_me], [r_list_networks, r_list_devices, r_get_device], [r_run_discovery],
      [r_list_points, r_points_tree, r_get_point, r_point_history, r_update_point], [r_write_point],
      [r_list_alarms, r_get_alarm, r_acknowledge, r_list_rules, r_get_rule, r_create_rule, r_update_rule, r_delete_rule],
      [r_list_synoptics, r_get_synoptic, r_create_synoptic, r_save_synoptic, r_delete_synoptic, r_list_versions,
       r_get_version, r_restore_version],
      [r_list_roles, r_list_users, r_create_user, r_update_user, r_unlock_user, r_delete_user], [r_list_audit]]"

definition routes :: "api_route list" where
  "routes = concat API_MODULES @ [r_health]"

subsection \<open>The documented role\<close>

fun walk :: "dependant \<Rightarrow> dependency_call list"
and walk_all :: "dependant list \<Rightarrow> dependency_call list" where
  "walk (Dependant c subs) = walk_all subs"
| "walk_all [] = []"
| "walk_all (Dependant c subs # ds) = c # walk_all subs @ walk_all ds"

definition call_of :: "dependant \<Rightarrow> dependency_call" where
  "call_of d = (case d of Dependant c _ \<Rightarrow> c)"

text \<open>The tree of a route: FastAPI puts the dependencies of the router and of the decorator first.\<close>

definition route_deps :: "api_route \<Rightarrow> dependant list" where
  "route_deps r = rt_router r @ rt_dependencies r @ rt_parameters r"

definition call_level :: "dependency_call \<Rightarrow> nat" where
  "call_level c = (case c of
     Current_User \<Rightarrow> level_of_min VIEWER | Require_Role m \<Rightarrow> level_of_min m | Other_Call _ \<Rightarrow> 0)"

definition required_level :: "api_route \<Rightarrow> nat" where
  "required_level r =
     fold (\<lambda>c best. max best (call_level c))
       (map call_of (rt_router r @ rt_dependencies r) @ walk_all (route_deps r))
       (case rt_declared r of None \<Rightarrow> 0 | Some m \<Rightarrow> level_of_min m)"

text \<open>\<open>next(name for name, level in ROLE_LEVEL.items() if level == best)\<close>\<close>

definition required_role :: "api_route \<Rightarrow> string" where
  "required_role r =
     (if required_level r = 0 then ''public''
      else fst (hd (List.filter (\<lambda>(_, level). level = required_level r) ROLE_LEVEL)))"

definition route_roles :: "((string \<times> string) \<times> string) list" where
  "route_roles = map (\<lambda>r. ((rt_method r, API_PREFIX @ rt_path r), required_role r)) routes"

subsection \<open>What a request meets\<close>

text \<open>
  The status a dependency refuses a request with; \<open>user\<close> is what \<open>current_user\<close> answers to it.
\<close>

definition call_refuses :: "current_user answer \<Rightarrow> dependency_call \<Rightarrow> nat option" where
  "call_refuses user c =
     (case c of
        Other_Call _ \<Rightarrow> None
      | Current_User \<Rightarrow> (case user of Inl e \<Rightarrow> Some e | Inr _ \<Rightarrow> None)
      | Require_Role m \<Rightarrow> (case user of Inl e \<Rightarrow> Some e
          | Inr u \<Rightarrow> (case require_role m u of Inl e \<Rightarrow> Some e | Inr _ \<Rightarrow> None)))"

fun first_refusal :: "current_user answer \<Rightarrow> dependant list \<Rightarrow> nat option" where
  "first_refusal user [] = None"
| "first_refusal user (Dependant c subs # ds) =
     (case first_refusal user subs of
        Some e \<Rightarrow> Some e
      | None \<Rightarrow> (case call_refuses user c of Some e \<Rightarrow> Some e | None \<Rightarrow> first_refusal user ds))"

text \<open>The role checked in the handler itself comes after its dependencies.\<close>

definition route_refuses :: "current_user answer \<Rightarrow> api_route \<Rightarrow> nat option" where
  "route_refuses user r =
     (case first_refusal user (route_deps r) of
        Some e \<Rightarrow> Some e
      | None \<Rightarrow> (case rt_declared r of None \<Rightarrow> None | Some m \<Rightarrow> call_refuses user (Require_Role m)))"

subsection \<open>The documented role is the one enforced\<close>

lemma level_of_min_pos [simp]: "0 < level_of_min m"
  by (cases m) simp_all

lemma call_refuses_unknown: "call_refuses (Inl e) c = (if call_level c = 0 then None else Some e)"
  by (cases c) (simp_all add: call_refuses_def call_level_def)

lemma call_refuses_user:
  "cu_role u = role_value m \<Longrightarrow>
   call_refuses (Inr u) c = (if call_level c \<le> level_of_min m then None else Some FORBIDDEN)"
  by (cases c) (simp_all add: call_refuses_def call_level_def require_role_def has_role_value Suc_le_eq)

text \<open>A walk that refuses alike at every call above a level refuses the tree if one call is above.\<close>

lemma first_refusal_level:
  assumes "\<And>c. call_refuses user c = (if call_level c \<le> n then None else Some e)"
  shows "first_refusal user ds = (if list_all (\<lambda>c. call_level c \<le> n) (walk_all ds) then None else Some e)"
  using assms by (induction user ds rule: first_refusal.induct) (auto split: option.split)

lemma fold_max_le: "fold (\<lambda>c best. max best (f c)) cs (a :: nat) \<le> n \<longleftrightarrow> a \<le> n \<and> list_all (\<lambda>c. f c \<le> n) cs"
  by (induction cs arbitrary: a) auto

lemma walk_all_append [simp]: "walk_all (a @ b) = walk_all a @ walk_all b"
proof (induction a)
  case (Cons d a)
  then show ?case by (cases d) simp
qed simp

lemma set_call_of: "set (map call_of ds) \<subseteq> set (walk_all ds)"
proof (induction ds)
  case (Cons d ds)
  then show ?case by (cases d) (auto simp: call_of_def)
qed simp

lemma required_level_le:
  "required_level r \<le> n \<longleftrightarrow>
     list_all (\<lambda>c. call_level c \<le> n) (walk_all (route_deps r)) \<and>
     (case rt_declared r of None \<Rightarrow> True | Some m \<Rightarrow> level_of_min m \<le> n)"
proof -
  have "set (map call_of (rt_router r @ rt_dependencies r)) \<subseteq> set (walk_all (route_deps r))"
    using set_call_of [of "rt_router r @ rt_dependencies r"] by (auto simp: route_deps_def)
  then show ?thesis
    by (auto simp: required_level_def fold_max_le list_all_iff split: option.split)
qed

lemma route_refuses_level:
  assumes "\<And>c. call_refuses user c = (if call_level c \<le> n then None else Some e)"
  shows "route_refuses user r = (if required_level r \<le> n then None else Some e)"
  unfolding required_level_le
  by (auto simp: route_refuses_def first_refusal_level [OF assms] assms call_level_def split: option.split)

text \<open>The level found is the one of a member of the enumeration, or no role is required.\<close>

lemma call_level_cases: "call_level c = 0 \<or> call_level c \<in> range level_of_min"
  by (cases c) (auto simp: call_level_def simp del: level_of_min_simps)

lemma fold_max_cases:
  "(a :: nat) \<in> A \<Longrightarrow> (\<And>c. f c \<in> A) \<Longrightarrow> fold (\<lambda>c best. max best (f c)) cs a \<in> A"
  by (induction cs arbitrary: a) (auto simp: max_def)

lemma required_level_cases: "required_level r \<in> insert 0 (range level_of_min)"
  unfolding required_level_def
  by (rule fold_max_cases) (use call_level_cases in \<open>auto split: option.split simp del: level_of_min_simps\<close>)

lemma role_of_required:
  "required_level r = level_of_min m \<Longrightarrow> role_of (required_role r) = Some m"
  "required_level r = 0 \<Longrightarrow> role_of (required_role r) = None"
  by (cases m) (simp_all add: required_role_def ROLE_LEVEL_def role_of_def role_names_def)

lemma documented:
  assumes "case user of Inl _ \<Rightarrow> True | Inr u \<Rightarrow> role_of (cu_role u) \<noteq> None"
  shows "route_refuses user r =
    (case role_of (required_role r) of
       None \<Rightarrow> None
     | Some m \<Rightarrow> (case user of Inl e \<Rightarrow> Some e
         | Inr u \<Rightarrow> if has_role (cu_role u) m then None else Some FORBIDDEN))"
proof (cases user)
  case (Inl e)
  have r: "route_refuses (Inl e) r = (if required_level r \<le> 0 then None else Some e)"
    by (rule route_refuses_level) (simp add: call_refuses_unknown)
  show ?thesis
    using required_level_cases [of r] by (auto simp: r Inl role_of_required simp del: level_of_min_simps)
next
  case (Inr u)
  with assms obtain k where "role_of (cu_role u) = Some k" by auto
  then have k: "cu_role u = role_value k" by (auto simp: role_of_def find_Some_iff)
  have r: "route_refuses (Inr u) r = (if required_level r \<le> level_of_min k then None else Some FORBIDDEN)"
    by (rule route_refuses_level) (rule call_refuses_user [OF k])
  show ?thesis
    using required_level_cases [of r]
    by (auto simp: r Inr role_of_required k has_role_value simp del: level_of_min_simps)
qed

text \<open>The guard of the modelled routes is the refusal of their declaration.\<close>

lemma guarded_route:
  assumes "case user of Inl _ \<Rightarrow> True | Inr u \<Rightarrow> role_of (cu_role u) \<noteq> None"
    and "role_of (required_role r) = Some m"
  shows "guarded m user handler s =
    (case route_refuses user r of Some e \<Rightarrow> (Inl e, s)
       | None \<Rightarrow> (case user of Inl e \<Rightarrow> (Inl e, s) | Inr u \<Rightarrow> handler u))"
  unfolding documented [OF assms(1)] assms(2)
  by (auto simp: guarded_def require_role_def split: sum.split)

subsection \<open>One handler for each request\<close>

text \<open>A parameter \<open>{name}\<close> of a path stands for one segment that is not empty.\<close>

definition segments :: "string \<Rightarrow> string list" where
  "segments url = pieces CHR ''/'' url"

definition wildcard :: "string \<Rightarrow> bool" where
  "wildcard s \<longleftrightarrow> starts_with ''{'' s"

definition matches :: "string \<Rightarrow> string \<Rightarrow> bool" where
  "matches pattern url \<longleftrightarrow>
     list_all2 (\<lambda>s x. if wildcard s then x \<noteq> [] else s = x) (segments pattern) (segments url)"

definition overlap :: "string \<Rightarrow> string \<Rightarrow> bool" where
  "overlap p q \<longleftrightarrow> list_all2 (\<lambda>s t. wildcard s \<or> wildcard t \<or> s = t) (segments p) (segments q)"

definition handler_of :: "string \<Rightarrow> string \<Rightarrow> api_route option" where
  "handler_of m url = List.find (\<lambda>r. rt_method r = m \<and> matches (API_PREFIX @ rt_path r) url) routes"

lemma matches_overlap: "matches p x \<Longrightarrow> matches q x \<Longrightarrow> overlap p q"
  by (auto simp: matches_def overlap_def list_all2_conv_all_nth split: if_splits) metis

text \<open>A split evaluated once.\<close>

lemma pieces_once [code]:
  "pieces c [] = [[]]"
  "pieces c (x # xs) =
     (case pieces c xs of [] \<Rightarrow> [] | p # ps \<Rightarrow> if x = c then [] # p # ps else (x # p) # ps)"
  by (simp_all split: list.split)

text \<open>The method and the segments after the prefix.\<close>

definition route_key :: "api_route \<Rightarrow> string \<times> string list" where
  "route_key r = (rt_method r, drop 3 (segments (API_PREFIX @ rt_path r)))"

definition clash :: "string \<times> string list \<Rightarrow> string \<times> string list \<Rightarrow> bool" where
  "clash k l \<longleftrightarrow> fst k = fst l \<and> list_all2 (\<lambda>s t. wildcard s \<or> wildcard t \<or> s = t) (snd k) (snd l)"

text \<open>Two routes of one method clash only at the tree of points, declared before the details of a point.\<close>

lemma route_keys_clash:
  "sorted_wrt (\<lambda>k l. \<not> clash k l \<or>
      k = (''GET'', [''points'', ''tree'']) \<and> l = (''GET'', [''points'', ''{point_id}''])) (map route_key routes)"
  by code_simp

lemma route_roles_table:
  "route_roles =
     [((''POST'', ''/api/v1/auth/login''), ''public''),
      ((''POST'', ''/api/v1/auth/refresh''), ''public''),
      ((''POST'', ''/api/v1/auth/logout''), ''public''),
      ((''GET'', ''/api/v1/auth/me''), ''viewer''),
      ((''GET'', ''/api/v1/networks''), ''viewer''),
      ((''GET'', ''/api/v1/devices''), ''viewer''),
      ((''GET'', ''/api/v1/devices/{device_id}''), ''viewer''),
      ((''POST'', ''/api/v1/discovery/run''), ''engineer''),
      ((''GET'', ''/api/v1/points''), ''viewer''),
      ((''GET'', ''/api/v1/points/tree''), ''viewer''),
      ((''GET'', ''/api/v1/points/{point_id}''), ''viewer''),
      ((''GET'', ''/api/v1/points/{point_id}/history''), ''viewer''),
      ((''PATCH'', ''/api/v1/points/{point_id}''), ''engineer''),
      ((''POST'', ''/api/v1/points/{point_id}/write''), ''operator''),
      ((''GET'', ''/api/v1/alarms''), ''viewer''),
      ((''GET'', ''/api/v1/alarms/{alarm_id}''), ''viewer''),
      ((''POST'', ''/api/v1/alarms/{alarm_id}/ack''), ''operator''),
      ((''GET'', ''/api/v1/alarm-rules''), ''engineer''),
      ((''GET'', ''/api/v1/alarm-rules/{rule_id}''), ''engineer''),
      ((''POST'', ''/api/v1/alarm-rules''), ''engineer''),
      ((''PATCH'', ''/api/v1/alarm-rules/{rule_id}''), ''engineer''),
      ((''DELETE'', ''/api/v1/alarm-rules/{rule_id}''), ''engineer''),
      ((''GET'', ''/api/v1/synoptics''), ''viewer''),
      ((''GET'', ''/api/v1/synoptics/{slug}''), ''viewer''),
      ((''POST'', ''/api/v1/synoptics''), ''engineer''),
      ((''PUT'', ''/api/v1/synoptics/{synoptic_id}''), ''engineer''),
      ((''DELETE'', ''/api/v1/synoptics/{synoptic_id}''), ''engineer''),
      ((''GET'', ''/api/v1/synoptics/{slug}/versions''), ''engineer''),
      ((''GET'', ''/api/v1/synoptics/{slug}/versions/{version}''), ''engineer''),
      ((''POST'', ''/api/v1/synoptics/{synoptic_id}/restore/{version}''), ''engineer''),
      ((''GET'', ''/api/v1/roles''), ''admin''),
      ((''GET'', ''/api/v1/users''), ''admin''),
      ((''POST'', ''/api/v1/users''), ''admin''),
      ((''PATCH'', ''/api/v1/users/{user_id}''), ''admin''),
      ((''POST'', ''/api/v1/users/{user_id}/unlock''), ''admin''),
      ((''DELETE'', ''/api/v1/users/{user_id}''), ''admin''),
      ((''GET'', ''/api/v1/audit''), ''admin''),
      ((''GET'', ''/api/v1/health''), ''public'')]"
  by code_simp

lemma first_match:
  assumes "sorted_wrt (\<lambda>k l. \<not> clash k l \<or> k = a \<and> l = b) (map route_key rs)" "r \<in> set rs" "P r"
    and "\<And>q q'. P q \<Longrightarrow> P q' \<Longrightarrow> clash (route_key q) (route_key q')"
  shows "\<exists>q \<in> set rs. List.find P rs = Some q \<and> P q \<and> (q = r \<or> route_key q = a \<and> route_key r = b)"
  using assms(1,2)
proof (induction rs)
  case (Cons x rs)
  show ?case
  proof (cases "P x")
    case True
    with assms(4) [OF True assms(3)] Cons.prems show ?thesis by auto
  next
    case False
    with Cons assms(3) show ?thesis by auto
  qed
qed simp

lemma matches_clash:
  assumes "rt_method r = rt_method q" "matches (API_PREFIX @ rt_path r) url" "matches (API_PREFIX @ rt_path q) url"
  shows "clash (route_key r) (route_key q)"
  using matches_overlap [OF assms(2,3)] assms(1)
  by (simp add: clash_def route_key_def overlap_def list_all2_dropI)

lemma tree_keys:
  "List.filter (\<lambda>r. route_key r = (''GET'', [''points'', ''tree''])) routes = [r_points_tree]"
  "List.filter (\<lambda>r. route_key r = (''GET'', [''points'', ''{point_id}''])) routes = [r_get_point]"
  by code_simp+

lemma filter_single: "List.filter P xs = [y] \<Longrightarrow> x \<in> set xs \<Longrightarrow> P x \<Longrightarrow> x = y"
proof -
  assume f: "List.filter P xs = [y]"
  assume "x \<in> set xs" "P x"
  then have "x \<in> set (List.filter P xs)" by simp
  then show "x = y" unfolding f by simp
qed

lemma route_found:
  assumes r: "r \<in> set routes" and m: "matches (API_PREFIX @ rt_path r) url"
  shows "handler_of (rt_method r) url =
    (if r = r_get_point \<and> matches (API_PREFIX @ rt_path r_points_tree) url then Some r_points_tree else Some r)"
proof -
  let ?P = "\<lambda>q m. rt_method q = m \<and> matches (API_PREFIX @ rt_path q) url"
  have found: "\<exists>q \<in> set routes. handler_of (rt_method x) url = Some q \<and> ?P q (rt_method x) \<and>
      (q = x \<or> q = r_points_tree \<and> x = r_get_point)"
    if x: "x \<in> set routes" "matches (API_PREFIX @ rt_path x) url" for x
  proof -
    have c: "clash (route_key q) (route_key q')" if "?P q (rt_method x)" "?P q' (rt_method x)" for q q'
      using that by (auto intro: matches_clash)
    have "?P x (rt_method x)" using x(2) by simp
    from first_match [OF route_keys_clash x(1), of "\<lambda>q. ?P q (rt_method x)", OF this c]
    obtain q where q: "q \<in> set routes" "handler_of (rt_method x) url = Some q" "?P q (rt_method x)"
      "q = x \<or> route_key q = (''GET'', [''points'', ''tree'']) \<and> route_key x = (''GET'', [''points'', ''{point_id}''])"
      unfolding handler_of_def by blast
    then show ?thesis
      using filter_single [OF tree_keys(1) q(1)] filter_single [OF tree_keys(2) x(1)] by blast
  qed
  show ?thesis
  proof (cases "r = r_get_point \<and> matches (API_PREFIX @ rt_path r_points_tree) url")
    case True
    have t: "r_points_tree \<in> set routes" "rt_method r_points_tree = rt_method r_get_point" "r_points_tree \<noteq> r_get_point"
      by (simp_all add: routes_def API_MODULES_def r_points_tree_def r_get_point_def)
    from found [OF t(1)] True t(2,3) show ?thesis by auto
  next
    case False
    with found [OF r m] show ?thesis by auto
  qed
qed

lemma public_routes:
  "map fst (List.filter (\<lambda>(_, role). role = ''public'') route_roles) =
     [(''POST'', ''/api/v1/auth/login''), (''POST'', ''/api/v1/auth/refresh''), (''POST'', ''/api/v1/auth/logout''),
      (''GET'', ''/api/v1/health'')]"
  unfolding route_roles_table by code_simp

lemma changing_routes:
  "list_all (\<lambda>((m, url), role). m = ''GET'' \<or> starts_with ''/api/v1/auth/'' url \<or> has_role role OPERATOR) route_roles"
  unfolding route_roles_table by code_simp

lemma administration_routes:
  "list_all (\<lambda>(_, role). role = role_value ADMIN)
     (List.filter (\<lambda>((m, url), _). list_ex (\<lambda>p. starts_with p url)
        [''/api/v1/users'', ''/api/v1/roles'', ''/api/v1/audit'']) route_roles)"
  unfolding route_roles_table by code_simp

subsection \<open>Properties\<close>


text \<open>
  Rights by route: only signing in, renewing, signing out and the state of the services are public; every
  route that is not a reading, those of the session apart, requires at least an operator; accounts, roles and the audit log are for
  administrators. A request whose path matches a declared route is handled by this route and no other,
  but for the tree of points, which is declared before the details of a point and wins over it.
\<close>

theorem rights_by_route:
  "map fst (List.filter (\<lambda>(_, role). role = ''public'') route_roles) =
     [(''POST'', ''/api/v1/auth/login''), (''POST'', ''/api/v1/auth/refresh''), (''POST'', ''/api/v1/auth/logout''),
      (''GET'', ''/api/v1/health'')] \<and>
   list_all (\<lambda>((m, url), role). m = ''GET'' \<or> starts_with ''/api/v1/auth/'' url \<or> has_role role OPERATOR) route_roles \<and>
   list_all (\<lambda>(_, role). role = role_value ADMIN)
     (List.filter (\<lambda>((m, url), _). list_ex (\<lambda>p. starts_with p url)
        [''/api/v1/users'', ''/api/v1/roles'', ''/api/v1/audit'']) route_roles) \<and>
   (\<forall>url. list_all
      (\<lambda>r. handler_of (rt_method r) url =
        (if r = r_get_point \<and> matches (API_PREFIX @ rt_path r_points_tree) url then Some r_points_tree else Some r))
      (List.filter (\<lambda>r. matches (API_PREFIX @ rt_path r) url) routes))"
  by (intro conjI public_routes changing_routes administration_routes) (simp add: list_all_iff route_found)

definition signed_in :: "role_name \<Rightarrow> current_user" where
  "signed_in m = \<lparr>cu_id = 1, cu_login = ''eve'', cu_role = role_value m, cu_stamp = []\<rparr>"


end
