(* ===== verification/Api_Document.thy ===== *)
theory Api_Document
  imports Api_Roles "HOL-Library.List_Lexorder" "HOL-Library.Char_ord" "HOL-Library.Product_Lexorder"
    "HOL-Library.Sublist" "HOL-Library.Multiset"
begin

section \<open>The generated document of the API\<close>

text \<open>
  \<open>build_markdown\<close> of \<open>app/api/apidoc.py\<close>: the lines of \<open>docs/API.md\<close>, from the OpenAPI description that FastAPI
  makes of the routes and from the roles of \<open>Api_Roles\<close>. The description is a parameter, given by what the
  code reads of it; the values of enumerations in it are texts.
\<close>

subsection \<open>The description\<close>

datatype json_schema = Schema (sc_ref: "string option") (sc_any_of: "json_schema list option") (sc_enum: "string list")
  (sc_type: "string option") (sc_items: "json_schema option")

record op_parameter =
  pm_name :: string
  pm_in :: string
  pm_schema :: "json_schema option"
  pm_required :: bool

text \<open>The schemas of bodies and responses are those of \<open>application/json\<close>, when there is one.\<close>

record api_operation =
  op_tags :: "string list"
  op_description :: "string option"
  op_parameters :: "op_parameter list"
  op_body :: "json_schema option"
  op_responses :: "(string \<times> json_schema option) list"

record component_schema =
  cs_properties :: "(string \<times> json_schema) list option"
  cs_required :: "string list"

record api_spec =
  sp_paths :: "(string \<times> (string \<times> api_operation) list) list"
  sp_schemas :: "(string, component_schema) dict"

subsection \<open>Types and fields\<close>

fun separated :: "string \<Rightarrow> string list \<Rightarrow> string" where
  "separated sep [] = []"
| "separated sep [x] = x"
| "separated sep (x # xs) = x @ sep @ separated sep xs"

text \<open>\<open>rsplit("/", 1)[-1]\<close>\<close>

definition after_slash :: "string \<Rightarrow> string" where
  "after_slash s = rev (takeWhile (\<lambda>c. c \<noteq> CHR ''/'') (rev s))"

definition empty_schema :: json_schema where
  "empty_schema = Schema None None [] None None"

fun type_label :: "json_schema \<Rightarrow> string" where
  "type_label (Schema (Some r) any enum ty items) = after_slash r"
| "type_label (Schema None (Some ss) enum ty items) = separated '' | '' (map type_label ss)"
| "type_label (Schema None None enum ty items) =
     (if enum \<noteq> [] then separated '' | '' (map (\<lambda>v. CHR 0x22 # v @ [CHR 0x22]) enum)
      else (case ty of
          None \<Rightarrow> ''objet''
        | Some k \<Rightarrow> if k = ''array''
            then ''liste de '' @ (case items of None \<Rightarrow> ''objet'' | Some s \<Rightarrow> type_label s) else k))"

definition code_text :: "string \<Rightarrow> string" where
  "code_text s = CHR 0x60 # s @ [CHR 0x60]"

definition fields_of :: "string \<Rightarrow> api_spec \<Rightarrow> string list" where
  "fields_of name spec =
     (case map_of (sp_schemas spec) name of
        None \<Rightarrow> []
      | Some c \<Rightarrow> (case cs_properties c of
          None \<Rightarrow> []
        | Some ps \<Rightarrow> map (\<lambda>(field, s).
            code_text field @ (if field \<in> set (cs_required c) then [] else '' (facultatif)'') @ '' : '' @ type_label s) ps))"

definition body_label :: "api_operation \<Rightarrow> string option" where
  "body_label op = map_option type_label (op_body op)"

definition responses_of :: "api_operation \<Rightarrow> string" where
  "responses_of op = separated '', ''
     (map (\<lambda>(status, content). case content of None \<Rightarrow> status | Some s \<Rightarrow> status @ '' ('' @ type_label s @ '')'')
       (List.filter (\<lambda>(status, content). status \<noteq> ''422'') (op_responses op)))"

subsection \<open>Groups and their order\<close>

text \<open>Methods are ASCII: \<open>upper\<close> changes its letters only.\<close>

definition ascii_upper :: "string \<Rightarrow> string" where
  "ascii_upper s = map (\<lambda>c. if CHR ''a'' \<le> c \<and> c \<le> CHR ''z'' then char_of (of_char c - 32 :: nat) else c) s"

definition METHOD_ORDER :: "(string, nat) dict" where
  "METHOD_ORDER = [(''GET'', 0), (''POST'', 1), (''PUT'', 2), (''PATCH'', 3), (''DELETE'', 4)]"

definition method_rank :: "string \<Rightarrow> nat" where
  "method_rank m = (case map_of METHOD_ORDER m of None \<Rightarrow> 9 | Some n \<Rightarrow> n)"

type_synonym entry = "string \<times> string \<times> api_operation"

definition tag_of :: "api_operation \<Rightarrow> string" where
  "tag_of op = (case op_tags op of [] \<Rightarrow> ''divers'' | tag # _ \<Rightarrow> tag)"

definition entries_of :: "api_spec \<Rightarrow> entry list" where
  "entries_of spec = concat (map (\<lambda>(url, item). map (\<lambda>(meth, op). (ascii_upper meth, url, op)) item) (sp_paths spec))"

definition add_entry :: "entry \<Rightarrow> (string, entry list) dict \<Rightarrow> (string, entry list) dict" where
  "add_entry e g =
     (let tag = tag_of (snd (snd e)) in
      AList.update tag ((case map_of g tag of None \<Rightarrow> [] | Some es \<Rightarrow> es) @ [e]) g)"

definition groups_of :: "api_spec \<Rightarrow> (string, entry list) dict" where
  "groups_of spec = fold add_entry (entries_of spec) []"

definition in_order :: "entry list \<Rightarrow> entry list" where
  "in_order es = sort_key (\<lambda>(meth, url, op). (url, method_rank meth)) es"

subsection \<open>The lines\<close>

definition documented_role :: "string \<Rightarrow> string \<Rightarrow> string" where
  "documented_role meth url = (case map_of route_roles (meth, url) of None \<Rightarrow> ''public'' | Some r \<Rightarrow> r)"

definition heading :: "string \<Rightarrow> string \<Rightarrow> string" where
  "heading meth url = ''### '' @ code_text (meth @ '' '' @ url)"

definition role_line :: "string \<Rightarrow> string" where
  "role_line r = ''R'' @ [CHR 0xF4] @ ''le minimal : **'' @ r @ ''**''"

text \<open>\<open>(operation.get("description") or "").strip().split("\n")[0]\<close>\<close>

definition summary_line :: "api_operation \<Rightarrow> string" where
  "summary_line op =
     (case op_description op of None \<Rightarrow> [] | Some d \<Rightarrow> takeWhile (\<lambda>c. c \<noteq> newline) (py_strip d))"

definition parameter_line :: "op_parameter \<Rightarrow> string" where
  "parameter_line p =
     ''| '' @ code_text (pm_name p) @ '' | '' @ pm_in p @ '' | '' @
       type_label (case pm_schema p of None \<Rightarrow> empty_schema | Some s \<Rightarrow> s) @ '' | '' @
       (if pm_required p then ''oui'' else ''non'') @ '' |''"

definition parameter_table :: "op_parameter list \<Rightarrow> string list" where
  "parameter_table ps =
     (if ps = [] then []
      else ['''', ''| Param'' @ [CHR 0xE8] @ ''tre | O'' @ [CHR 0xF9] @ '' | Type | Requis |'', ''|---|---|---|---|'']
        @ map parameter_line ps)"

definition entry_lines :: "api_spec \<Rightarrow> entry \<Rightarrow> string list" where
  "entry_lines spec e =
     (case e of (meth, url, op) \<Rightarrow>
       ['''', heading meth url, '''', role_line (documented_role meth url)]
       @ (if summary_line op = [] then [] else ['''', summary_line op])
       @ parameter_table (op_parameters op)
       @ (case body_label op of
            None \<Rightarrow> []
          | Some b \<Rightarrow> if b = [] then []
              else ['''', ''Corps JSON : '' @ code_text b] @ map (\<lambda>f. ''- '' @ f) (fields_of b spec))
       @ (if responses_of op = [] then []
          else ['''', ''R'' @ [CHR 0xE9] @ ''ponses : '' @ responses_of op]))"

definition section_lines :: "api_spec \<Rightarrow> string \<Rightarrow> string list" where
  "section_lines spec tag =
     ['''', ''## '' @ tag] @
     concat (map (entry_lines spec) (in_order (case map_of (groups_of spec) tag of None \<Rightarrow> [] | Some es \<Rightarrow> es)))"

definition PREAMBLE :: "string list" where
  "PREAMBLE =
     [''# API REST'',
      '''',
      ''G'' @ [CHR 0xE9] @ ''n'' @ [CHR 0xE9] @ ''r'' @ [CHR 0xE9] @ '' depuis l'' @ [CHR 0x27] @ ''OpenAPI (`python -m app.api.apidoc`) : ne pas modifier '' @ [CHR 0xE0] @ '' la main.'',
      ''Documentation interactive sur `/api/docs`, sch'' @ [CHR 0xE9] @ ''ma brut sur `/api/openapi.json`.'',
      '''',
      ''Authentification : cookie `access_token` (JWT, HttpOnly, 15 min) obtenu par'',
      ''`POST /api/v1/auth/login`, renouvel'' @ [CHR 0xE9] @ '' par `POST /api/v1/auth/refresh`.'',
      ''R'' @ [CHR 0xF4] @ ''le minimal : `public` (aucun), `viewer` (tout compte'',
      ''connect'' @ [CHR 0xE9] @ ''), `operator`, `engineer`, `admin` ; un r'' @ [CHR 0xF4] @ ''le inclut ceux qui le pr'' @ [CHR 0xE9] @ ''c'' @ [CHR 0xE8] @ ''dent.'',
      ''R'' @ [CHR 0xE9] @ ''ponses d'' @ [CHR 0x27] @ ''erreur : `{'' @ [CHR 0x22] @ ''detail'' @ [CHR 0x22] @ '': ...}` ; 401 non authentifi'' @ [CHR 0xE9] @ '', 403 droits insuffisants,'',
      ''422 requ'' @ [CHR 0xEA] @ ''te invalide, 429 compte verrouill'' @ [CHR 0xE9] @ ''.'']"

definition document_lines :: "api_spec \<Rightarrow> string list" where
  "document_lines spec = PREAMBLE @ concat (map (section_lines spec) (sort (dict_keys (groups_of spec))))"

definition build_markdown :: "api_spec \<Rightarrow> string" where
  "build_markdown spec = separated [newline] (document_lines spec) @ [newline]"

subsection \<open>Every operation is in the document\<close>

lemma add_entry_get:
  "map_of (add_entry e g) tag =
     (if tag = tag_of (snd (snd e)) then Some ((case map_of g tag of None \<Rightarrow> [] | Some es \<Rightarrow> es) @ [e]) else map_of g tag)"
  by (simp add: add_entry_def Let_def)

lemma grouped_get:
  "map_of (fold add_entry es g) tag =
     (let new = List.filter (\<lambda>e. tag_of (snd (snd e)) = tag) es in
      if new = [] then map_of g tag else Some ((case map_of g tag of None \<Rightarrow> [] | Some old \<Rightarrow> old) @ new))"
  by (induction es arbitrary: g) (auto simp: add_entry_get Let_def split: option.splits)

text \<open>A group holds the operations of its tag, in the order of the description.\<close>

lemma group_of_tag:
  "map_of (groups_of spec) tag =
     (let es = List.filter (\<lambda>e. tag_of (snd (snd e)) = tag) (entries_of spec) in if es = [] then None else Some es)"
  by (simp add: groups_of_def grouped_get Let_def)

lemma sublist_after: "sublist ys xs \<Longrightarrow> sublist ys (ps @ xs)"
  unfolding sublist_def by (metis append.assoc)

lemma sublist_concat:
  assumes "x \<in> set xs" "sublist ys (f x)" shows "sublist ys (concat (map f xs))"
proof -
  obtain us vs where "xs = us @ x # vs" using assms(1) by (auto dest: split_list)
  moreover obtain ps ss where "f x = ps @ ys @ ss" using assms(2) by (auto simp: sublist_def)
  ultimately have "concat (map f xs) = (concat (map f us) @ ps) @ ys @ (ss @ concat (map f vs))" by simp
  then show ?thesis unfolding sublist_def by blast
qed

lemma entry_in_document:
  assumes "e \<in> set (entries_of spec)"
  shows "sublist (entry_lines spec e) (document_lines spec)"
proof -
  let ?tag = "tag_of (snd (snd e))"
  let ?es = "List.filter (\<lambda>x. tag_of (snd (snd x)) = ?tag) (entries_of spec)"
  have e: "e \<in> set ?es" using assms by simp
  then have "?es \<noteq> []" by (cases ?es) simp_all
  then have es: "map_of (groups_of spec) ?tag = Some ?es" by (simp only: group_of_tag Let_def if_False)
  then have "?tag \<in> set (dict_keys (groups_of spec))" by (force dest: map_of_SomeD)
  moreover have "sublist (entry_lines spec e) (section_lines spec ?tag)"
    unfolding section_lines_def using es e
    by (intro sublist_after sublist_concat [where x = e and f = "entry_lines spec"]) (simp_all add: in_order_def)
  ultimately show ?thesis
    unfolding document_lines_def by (intro sublist_after sublist_concat [where x = ?tag and f = "section_lines spec"]) simp_all
qed

lemma route_roles_wf: "dict_wf route_roles"
  unfolding route_roles_table by code_simp

lemma documented_route: "r \<in> set routes \<Longrightarrow> documented_role (rt_method r) (API_PREFIX @ rt_path r) = required_role r"
proof -
  assume "r \<in> set routes"
  then have "((rt_method r, API_PREFIX @ rt_path r), required_role r) \<in> set route_roles"
    by (auto simp: route_roles_def)
  with route_roles_wf show ?thesis by (simp add: documented_role_def)
qed

text \<open>
  The document states the role that is enforced: an operation of the description that stands for a
  declared route has its heading in the document, followed by the minimal role of that route, the
  one its dependencies require, whatever the tags and the order of the operations.
\<close>

theorem document_states_roles:
  assumes "(API_PREFIX @ rt_path r, item) \<in> set (sp_paths spec)" "(meth, op) \<in> set item"
    and "r \<in> set routes" "ascii_upper meth = rt_method r"
  shows "sublist [heading (rt_method r) (API_PREFIX @ rt_path r), [], role_line (required_role r)] (document_lines spec)"
proof -
  let ?e = "(rt_method r, API_PREFIX @ rt_path r, op)"
  have "?e \<in> set (entries_of spec)" using assms(1,2,4) by (force simp: entries_of_def)
  then obtain ps ss where doc: "document_lines spec = ps @ entry_lines spec ?e @ ss"
    using entry_in_document [of ?e spec] by (auto simp: sublist_def)
  obtain rest where "entry_lines spec ?e =
      [[], heading (rt_method r) (API_PREFIX @ rt_path r), [], role_line (required_role r)] @ rest"
    unfolding entry_lines_def prod.case documented_route [OF assms(3)] by blast
  with doc have "document_lines spec = (ps @ [[]]) @
      [heading (rt_method r) (API_PREFIX @ rt_path r), [], role_line (required_role r)] @ rest @ ss" by simp
  then show ?thesis unfolding sublist_def by blast
qed

definition example_spec :: api_spec where
  "example_spec = \<lparr>sp_paths = [(''/api/v1/points/{point_id}'',
     [(''patch'', \<lparr>op_tags = [''points''], op_description = None, op_parameters = [], op_body = None,
        op_responses = [(''200'', None)]\<rparr>)])], sp_schemas = []\<rparr>"

theorem document_states_roles_witness:
  "sublist [''### `PATCH /api/v1/points/{point_id}`'', [], role_line ''engineer''] (document_lines example_spec)"
proof -
  have key: "API_PREFIX @ rt_path r_update_point = ''/api/v1/points/{point_id}''" "rt_method r_update_point = ''PATCH''"
    by (simp_all add: API_PREFIX_def r_update_point_def)
  have "r_update_point \<in> set routes" by (simp add: routes_def API_MODULES_def)
  moreover have "ascii_upper ''patch'' = rt_method r_update_point" by code_simp
  moreover have "required_role r_update_point = ''engineer''"
    "heading ''PATCH'' ''/api/v1/points/{point_id}'' = ''### `PATCH /api/v1/points/{point_id}`''" by code_simp+
  ultimately show ?thesis
    using document_states_roles [of r_update_point _ example_spec "''patch''"] unfolding key
    by (simp add: example_spec_def)
qed

end
