(* ===== verification/Number_Text.thy ===== *)
theory Number_Text
  imports Py_Values
begin

section \<open>Numbers in messages\<close>

text \<open>
  The format \<open>g\<close> of Python: six significant digits, rounded half to even, without the zeros at the
  end; the exponent is written out below -4 and from 6 on.
\<close>

definition round_even :: "rat \<Rightarrow> int" where
  "round_even q =
     (let f = \<lfloor>q\<rfloor>; d = q - of_int f
      in if d < 1 / 2 then f else if 1 / 2 < d then f + 1 else if even f then f else f + 1)"

lemma floor_tenth:
  fixes x :: rat
  assumes "1 \<le> x" shows "\<lfloor>x / 10\<rfloor> < \<lfloor>x\<rfloor>"
proof -
  have "1 \<le> \<lfloor>x\<rfloor>" using assms by (simp add: le_floor_iff)
  then have "(1 :: rat) \<le> of_int \<lfloor>x\<rfloor>" by simp
  moreover have "x < of_int \<lfloor>x\<rfloor> + 1" by linarith
  ultimately have "x < of_int \<lfloor>x\<rfloor> * 10" by linarith
  then have "x / 10 < of_int \<lfloor>x\<rfloor>" by simp
  then show ?thesis by (simp add: floor_less_iff)
qed

text \<open>The exponent of the first digit of a positive number.\<close>

function decade_up :: "rat \<Rightarrow> int" where
  "decade_up q = (if 10 \<le> q then 1 + decade_up (q / 10) else 0)"
  by auto
termination
  using floor_tenth by (relation "measure (\<lambda>q. nat \<lfloor>q\<rfloor>)") auto

function decade_down :: "rat \<Rightarrow> int" where
  "decade_down q = (if 0 < q \<and> q < 1 then decade_down (q * 10) - 1 else 0)"
  by auto
termination
proof (relation "measure (\<lambda>q. nat \<lfloor>1 / q\<rfloor>)")
  fix q :: rat assume q: "0 < q \<and> q < 1"
  then have "1 \<le> 1 / q" by simp
  with floor_tenth [of "1 / q"] show "(q * 10, q) \<in> measure (\<lambda>q. nat \<lfloor>1 / q\<rfloor>)" by simp
qed simp

declare decade_up.simps [simp del] decade_down.simps [simp del]

definition decade :: "rat \<Rightarrow> int" where
  "decade q = (if q < 1 then decade_down q else decade_up q)"

definition six_digits :: "rat \<Rightarrow> nat \<times> int" where
  "six_digits q =
     (let e = decade q; m = round_even (if 5 \<le> e then q / 10 ^ nat (e - 5) else q * 10 ^ nat (5 - e))
      in if m = 1000000 then (100000, e + 1) else (nat m, e))"

definition no_zeros :: "string \<Rightarrow> string" where
  "no_zeros s = rev (dropWhile (\<lambda>c. c = CHR ''0'') (rev s))"

definition with_fraction :: "string \<Rightarrow> string \<Rightarrow> string" where
  "with_fraction whole part = (if no_zeros part = [] then whole else whole @ ''.'' @ no_zeros part)"

definition exponent_text :: "int \<Rightarrow> string" where
  "exponent_text e =
     (if e < 0 then ''-'' else ''+'') @ (if \<bar>e\<bar> < 10 then ''0'' else []) @ nat_str (nat \<bar>e\<bar>)"

definition positive_text :: "rat \<Rightarrow> string" where
  "positive_text q =
     (let (m, e) = six_digits q; ds = nat_str m
      in if -4 \<le> e \<and> e < 0 then with_fraction ''0'' (replicate (nat (- e - 1)) CHR ''0'' @ ds)
         else if 0 \<le> e \<and> e < 6 then with_fraction (take (nat (e + 1)) ds) (drop (nat (e + 1)) ds)
         else with_fraction (take 1 ds) (drop 1 ds) @ ''e'' @ exponent_text e)"

fun number_text :: "pyfloat \<Rightarrow> string" where
  "number_text (Fin q) = (if q = 0 then ''0'' else if q < 0 then ''-'' @ positive_text (- q) else positive_text q)"
| "number_text PosInf = ''inf''"
| "number_text NegInf = ''-inf''"
| "number_text NaN = ''nan''"

end
