(* ===== verification/Alarm_Messages.thy ===== *)
theory Alarm_Messages
  imports Number_Text Api_Alarms Alarm_Notifier
begin

section \<open>The texts of notifications and their senders\<close>

text \<open>
  \<open>app/alarms/messages.py\<close> and \<open>app/alarms/senders.py\<close>: the subject and the body of a message, the
  digest, the e-mail and the HTTP request made of them. Names are Latin-1 texts; a body may hold the
  long dash of a missing value, so bodies and headers are lists of code points. The connection to
  the mail server, the HTTP request and the text of an instant (\<open>isot\<close>) are parameters.
\<close>

type_synonym utext = "nat list"

definition latin :: "string \<Rightarrow> utext" where
  "latin s = map of_char s"

lemma latin_append [simp]: "latin (a @ b) = latin a @ latin b"
  by (simp add: latin_def)

lemma latin_empty [simp]: "latin [] = []" "latin s = [] \<longleftrightarrow> s = []"
  by (simp_all add: latin_def)

subsection \<open>Labels\<close>

fun severity_label :: "severity \<Rightarrow> string" where
  "severity_label INFO = ''INFO''"
| "severity_label WARNING = ''AVERTISSEMENT''"
| "severity_label CRITICAL = ''CRITIQUE''"

fun kind_label :: "alarm_kind \<Rightarrow> string" where
  "kind_label HIGH = ''Seuil haut''"
| "kind_label LOW = ''Seuil bas''"
| "kind_label STATE = CHR 0xC9 # ''tat anormal''"
| "kind_label STALE = ''Valeur fig'' @ [CHR 0xE9] @ ''e''"
| "kind_label COMM_LOST = ''Communication perdue''"
| "kind_label BACNET_EVENT = CHR 0xC9 # ''v'' @ [CHR 0xE9] @ ''nement BACnet''"

fun verb :: "transition_kind \<Rightarrow> string" where
  "verb T_RAISED = ''d'' @ [CHR 0xE9] @ ''clench'' @ [CHR 0xE9] @ ''e''"
| "verb T_CLEARED = ''termin'' @ [CHR 0xE9] @ ''e ('' @ [CHR 0xE0] @ '' acquitter)''"
| "verb T_ACKED = ''acquitt'' @ [CHR 0xE9] @ ''e''"
| "verb T_NORMAL = ''retour '' @ [CHR 0xE0] @ '' la normale''"
| "verb T_PENDING = ''pending''"
| "verb T_CANCELLED = ''cancelled''"

fun transition_value :: "transition_kind \<Rightarrow> string" where
  "transition_value T_PENDING = ''pending''"
| "transition_value T_CANCELLED = ''cancelled''"
| "transition_value T_RAISED = ''raised''"
| "transition_value T_CLEARED = ''cleared''"
| "transition_value T_ACKED = ''acked''"
| "transition_value T_NORMAL = ''normal''"

subsection \<open>One notification\<close>

text \<open>\<open>a or b\<close> for a text that may be missing or empty.\<close>

definition or_else :: "string option \<Rightarrow> string \<Rightarrow> string" where
  "or_else a b = (case a of None \<Rightarrow> b | Some s \<Rightarrow> if s = [] then b else s)"

definition alarm_title :: "alarm_info \<Rightarrow> string" where
  "alarm_title i = or_else (ai_rule_name i) (kind_label (ai_kind i))"

definition alarm_place :: "alarm_info \<Rightarrow> string" where
  "alarm_place i = or_else (ai_path i) (ai_point_name i)"

definition as_dict :: "(time \<Rightarrow> string) \<Rightarrow> alarm_info \<Rightarrow> json" where
  "as_dict isot i =
     (let str_or_null = (\<lambda>s. case s of None \<Rightarrow> JNull | Some x \<Rightarrow> JStr x);
          num_or_null = (\<lambda>v. case v of None \<Rightarrow> JNull | Some x \<Rightarrow> JFloat x)
      in JObj
       [(''id'', JStr (uuid_str (ai_event_id i))), (''rule_id'', JStr (uuid_str (ai_rule_id i))),
        (''rule_name'', str_or_null (ai_rule_name i)), (''kind'', JStr (alarm_kind_value (ai_kind i))),
        (''severity'', JStr (severity_value (ai_severity i))), (''state'', JStr (alarm_state_value (ai_state i))),
        (''point_id'', JStr (uuid_str (ai_point_id i))), (''point_name'', JStr (ai_point_name i)),
        (''path'', str_or_null (ai_path i)), (''unit'', str_or_null (ai_unit i)),
        (''threshold'', num_or_null (ai_threshold i)), (''value'', num_or_null (ai_value i)),
        (''raised_at'', JStr (isot (ai_raised_at i))),
        (''acked_at'', str_or_null (map_option isot (ai_acked_at i))),
        (''acked_by'', str_or_null (ai_acked_by i)),
        (''cleared_at'', str_or_null (map_option isot (ai_cleared_at i)))])"

definition number_unit :: "pyfloat option \<Rightarrow> string option \<Rightarrow> utext" where
  "number_unit v u =
     (case v of
        None \<Rightarrow> [0x2014]
      | Some x \<Rightarrow> latin (number_text x @ (case u of None \<Rightarrow> [] | Some s \<Rightarrow> if s = [] then [] else '' '' @ s)))"

definition subject_of :: "alarm_info \<Rightarrow> transition_kind \<Rightarrow> string" where
  "subject_of i k =
     ''['' @ severity_label (ai_severity i) @ ''] '' @ alarm_title i @ '' - '' @ alarm_place i @ '' : '' @ verb k"

fun join_lines :: "utext list \<Rightarrow> utext" where
  "join_lines [] = []"
| "join_lines [l] = l"
| "join_lines (l # ls) = l @ [10] @ join_lines ls"

definition body_of :: "(time \<Rightarrow> string) \<Rightarrow> alarm_info \<Rightarrow> transition_kind \<Rightarrow> utext" where
  "body_of isot i k = join_lines
     ([latin (subject_of i k), [], latin (''Point : '' @ alarm_place i),
       latin (''Type : '' @ kind_label (ai_kind i)),
       latin (''S'' @ [CHR 0xE9] @ ''v'' @ [CHR 0xE9] @ ''rit'' @ [CHR 0xE9] @ '' : '' @ severity_label (ai_severity i)),
       latin ''Valeur : '' @ number_unit (ai_value i) (ai_unit i)] @
      (if ai_threshold i \<noteq> None \<and> ai_kind i \<in> {HIGH, LOW, STATE, STALE}
       then [latin ''Seuil : '' @
             number_unit (ai_threshold i) (if ai_kind i \<noteq> STALE then ai_unit i else Some ''s'')]
       else []) @
      [latin (''D'' @ [CHR 0xE9] @ ''clench'' @ [CHR 0xE9] @ ''e le : '' @ isot (ai_raised_at i))] @
      (case ai_cleared_at i of
         None \<Rightarrow> [] | Some t \<Rightarrow> [latin (''Termin'' @ [CHR 0xE9] @ ''e le : '' @ isot t)]) @
      (case ai_acked_at i of
         None \<Rightarrow> []
       | Some t \<Rightarrow> [latin (''Acquitt'' @ [CHR 0xE9] @ ''e le : '' @ isot t @ '' par '' @
             (case ai_acked_by i of None \<Rightarrow> ''None'' | Some u \<Rightarrow> u))]))"

definition no_subject :: "notification \<Rightarrow> string" where
  "no_subject n = subject_of (no_payload n) (no_kind n)"

subsection \<open>The digest\<close>

definition digest_subject :: "nat \<Rightarrow> time \<Rightarrow> string" where
  "digest_subject n window =
     ''[Supervision] '' @ nat_str n @ '' changements d'' @ [CHR 0x27] @ ''alarme en '' @
     number_text (Fin window) @ '' s''"

definition digest_lines :: "notification list \<Rightarrow> time \<Rightarrow> nat \<Rightarrow> utext list" where
  "digest_lines ns window limit =
     [latin (digest_subject (length ns) window), []] @
     map (\<lambda>n. latin (''- '' @ no_subject n)) (take limit ns) @
     (if limit < length ns
      then [latin (''... et '' @ nat_str (length ns - limit) @ '' autres (voir la liste des alarmes)'')]
      else [])"

definition digest_text :: "notification list \<Rightarrow> time \<Rightarrow> nat \<Rightarrow> string \<times> utext" where
  "digest_text ns window limit =
     (digest_subject (length ns) window, join_lines (digest_lines ns window limit))"

subsection \<open>E-mail\<close>

text \<open>
  The boundaries of \<open>str.splitlines\<close>; \<open>EmailMessage\<close> refuses a header that has more than one line.
\<close>

definition line_break :: "nat \<Rightarrow> bool" where
  "line_break c \<longleftrightarrow> c \<in> {10, 11, 12, 13, 28, 29, 30, 133, 0x2028, 0x2029}"

function splitlines :: "utext \<Rightarrow> utext list" where
  "splitlines s =
     (if s = [] then []
      else takeWhile (\<lambda>c. \<not> line_break c) s #
        (case dropWhile (\<lambda>c. \<not> line_break c) s of
           [] \<Rightarrow> []
         | c # cs \<Rightarrow> splitlines (if c = 13 \<and> cs \<noteq> [] \<and> hd cs = 10 then tl cs else cs)))"
  by auto
termination
proof (relation "measure length")
  fix s :: utext and c cs
  assume d: "dropWhile (\<lambda>c. \<not> line_break c) s = c # cs"
  have "length (dropWhile (\<lambda>c. \<not> line_break c) s) \<le> length s" by (rule length_dropWhile_le)
  with d have "length cs < length s" by simp
  then show "(if c = 13 \<and> cs \<noteq> [] \<and> hd cs = 10 then tl cs else cs, s) \<in> measure length" by auto
qed simp

declare splitlines.simps [simp del]

record mail =
  ml_from :: utext
  ml_to :: utext
  ml_subject :: utext
  ml_body :: utext

text \<open>\<open>_message\<close>; \<open>None\<close> is the \<open>ValueError\<close> of a header.\<close>

definition email_message :: "string \<Rightarrow> string \<Rightarrow> string \<Rightarrow> utext \<Rightarrow> mail option" where
  "email_message sender dest subject body =
     (if list_all (\<lambda>h. length (splitlines (latin h)) \<le> 1) [sender, dest, subject]
      then Some \<lparr>ml_from = latin sender, ml_to = latin dest, ml_subject = latin subject, ml_body = body\<rparr>
      else None)"

record email_sender =
  es_port :: int
  es_sender :: string
  es_user :: "string option"
  es_starttls :: bool

text \<open>The calls of \<open>_deliver\<close>, in order; those made are the ones up to the first that raises.\<close>

datatype smtp_call = Connect_SSL | Connect_Plain | Starttls | Login string | Send_Message mail

definition email_calls :: "email_sender \<Rightarrow> mail \<Rightarrow> smtp_call list" where
  "email_calls es m =
     (if es_port es = 465 then [Connect_SSL] else [Connect_Plain]) @
     (if es_starttls es \<and> es_port es \<noteq> 465 then [Starttls] else []) @
     (case es_user es of None \<Rightarrow> [] | Some u \<Rightarrow> if u = [] then [] else [Login u]) @ [Send_Message m]"

fun calls_made :: "('c \<Rightarrow> bool) \<Rightarrow> 'c list \<Rightarrow> 'c list \<times> bool" where
  "calls_made fails [] = ([], False)"
| "calls_made fails (c # cs) =
     (if fails c then ([c], True) else let (made, raised) = calls_made fails cs in (c # made, raised))"

definition email_of :: "email_sender \<Rightarrow> (time \<Rightarrow> string) \<Rightarrow> time \<Rightarrow> job \<Rightarrow> mail option" where
  "email_of es isot window j =
     (let (subject, body) =
        (if jb_digest j then digest_text (jb_items j) window 50
         else let n = hd (jb_items j) in (no_subject n, body_of isot (no_payload n) (no_kind n)))
      in email_message (es_sender es) (snd (jb_target j)) subject body)"

definition email_send ::
  "email_sender \<Rightarrow> (time \<Rightarrow> string) \<Rightarrow> time \<Rightarrow> job \<Rightarrow> (smtp_call \<Rightarrow> bool) \<Rightarrow> smtp_call list \<times> bool" where
  "email_send es isot window j fails =
     (case email_of es isot window j of
        None \<Rightarrow> ([], True)
      | Some m \<Rightarrow> calls_made fails (email_calls es m))"

subsection \<open>Webhook\<close>

definition webhook_body :: "(time \<Rightarrow> string) \<Rightarrow> time \<Rightarrow> time \<Rightarrow> job \<Rightarrow> json" where
  "webhook_body isot now window j =
     (if jb_digest j then
        JObj [(''event'', JStr ''alarm.digest''), (''sent_at'', JStr (isot now)),
              (''window_s'', JFloat (Fin window)), (''count'', JInt (int (length (jb_items j)))),
              (''alarms'', JList (map (\<lambda>n. JObj ((''transition'', JStr (transition_value (no_kind n))) #
                 (case as_dict isot (no_payload n) of JObj d \<Rightarrow> d | _ \<Rightarrow> []))) (take 200 (jb_items j))))]
      else
        JObj [(''event'', JStr (''alarm.'' @ transition_value (no_kind (hd (jb_items j))))),
              (''sent_at'', JStr (isot now)), (''alarm'', as_dict isot (no_payload (hd (jb_items j))))])"

text \<open>\<open>_post\<close>: the requests made and whether it raises; \<open>fails\<close> is the answer of the server.\<close>

definition webhook_send ::
  "(string \<Rightarrow> bool) \<Rightarrow> (time \<Rightarrow> string) \<Rightarrow> time \<Rightarrow> time \<Rightarrow> job \<Rightarrow> (string \<times> json \<Rightarrow> bool) \<Rightarrow>
   (string \<times> json) list \<times> bool" where
  "webhook_send brackets_ok isot now window j fails =
     (let url = snd (jb_target j)
      in if \<not> valid_webhook_url brackets_ok url then ([], True)
         else calls_made fails [(url, webhook_body isot now window j)])"

subsection \<open>When an e-mail can be sent\<close>

lemma splitlines_nonempty: "s \<noteq> [] \<Longrightarrow> splitlines s \<noteq> []"
  by (subst splitlines.simps) simp

lemma splitlines_one:
  "list_all (\<lambda>c. \<not> line_break c) s \<Longrightarrow> length (splitlines s) \<le> 1"
  by (subst splitlines.simps) (auto simp: list_all_iff dropWhile_eq_Nil_conv [THEN iffD2])

text \<open>A text that ends with a letter is one line exactly when it has no line boundary.\<close>

lemma splitlines_one_iff:
  assumes "\<not> line_break z"
  shows "length (splitlines (a @ [z])) \<le> 1 \<longleftrightarrow> list_all (\<lambda>c. \<not> line_break c) a"
proof
  assume l: "length (splitlines (a @ [z])) \<le> 1"
  show "list_all (\<lambda>c. \<not> line_break c) a"
  proof (rule ccontr)
    assume "\<not> list_all (\<lambda>c. \<not> line_break c) a"
    then obtain x where x: "x \<in> set a" "line_break x" by (auto simp: list_all_iff)
    then obtain c cs where d: "dropWhile (\<lambda>c. \<not> line_break c) a = c # cs"
      by (cases "dropWhile (\<lambda>c. \<not> line_break c) a") (auto simp: dropWhile_eq_Nil_conv)
    with x have dz: "dropWhile (\<lambda>c. \<not> line_break c) (a @ [z]) = c # cs @ [z]"
      by (simp add: dropWhile_append1 [of x])
    let ?r = "if c = 13 \<and> cs @ [z] \<noteq> [] \<and> hd (cs @ [z]) = 10 then tl (cs @ [z]) else cs @ [z]"
    have "z \<noteq> 10" using assms by (auto simp: line_break_def)
    then have "?r \<noteq> []" by (cases cs) auto
    then have "splitlines ?r \<noteq> []" by (rule splitlines_nonempty)
    moreover have "splitlines (a @ [z]) = takeWhile (\<lambda>c. \<not> line_break c) (a @ [z]) # splitlines ?r"
      by (subst splitlines.simps) (simp add: dz)
    ultimately show False using l by simp
  qed
next
  assume "list_all (\<lambda>c. \<not> line_break c) a"
  with assms show "length (splitlines (a @ [z])) \<le> 1" by (intro splitlines_one) simp
qed

definition clean :: "string \<Rightarrow> bool" where
  "clean s \<longleftrightarrow> list_all (\<lambda>c. \<not> line_break c) (latin s)"

lemma clean_append [simp]: "clean (a @ b) \<longleftrightarrow> clean a \<and> clean b"
  by (simp add: clean_def)

lemma clean_empty [simp]: "clean []" by (simp add: clean_def)

lemma clean_Cons: "clean (c # s) \<longleftrightarrow> \<not> line_break (of_char c) \<and> clean s"
  by (simp add: clean_def latin_def)

lemma verb_last: "\<exists>a z. verb k = a @ [z] \<and> clean a \<and> clean [z]"
proof -
  have "verb k \<noteq> [] \<and> clean (verb k)"
    by (cases k) (simp_all add: clean_def latin_def line_break_def)
  then have "verb k = butlast (verb k) @ [last (verb k)]" "clean (butlast (verb k) @ [last (verb k)])"
    by simp_all
  then show ?thesis by (metis clean_append)
qed

lemma severity_label_clean [simp]: "clean (severity_label s)"
  by (cases s) (simp_all add: clean_def latin_def line_break_def)

lemma subject_one_line:
  "length (splitlines (latin (subject_of i k))) \<le> 1 \<longleftrightarrow> clean (alarm_title i) \<and> clean (alarm_place i)"
proof -
  obtain a z where v: "verb k = a @ [z]" "clean a" "clean [z]" using verb_last by blast
  let ?p = "''['' @ severity_label (ai_severity i) @ ''] '' @ alarm_title i @ '' - '' @ alarm_place i @ '' : '' @ a"
  have "latin (subject_of i k) = latin ?p @ [of_char z]" by (simp add: subject_of_def v(1) latin_def)
  moreover have "\<not> line_break (of_char z)" using v(3) by (simp add: clean_def latin_def)
  ultimately have "length (splitlines (latin (subject_of i k))) \<le> 1 \<longleftrightarrow> clean ?p"
    using splitlines_one_iff [of "of_char z" "latin ?p"] by (simp add: clean_def)
  moreover have "clean ''[''" "clean ''] ''" "clean '' - ''" "clean '' : ''"
    by (simp_all add: clean_def latin_def line_break_def)
  ultimately show ?thesis using v(2) by (simp only: clean_append severity_label_clean simp_thms)
qed

text \<open>The subject of a digest holds only digits and fixed words.\<close>

lemma clean_subset: "set a \<subseteq> set b \<Longrightarrow> clean b \<Longrightarrow> clean a"
  by (auto simp: clean_def latin_def list_all_iff)

lemma clean_nat_str [simp]: "clean (nat_str n)"
proof (induction n rule: nat_str.induct)
  case (1 n)
  have digit: "clean [char_of (d + 48)]" if "d < 10" for d :: nat
    using that by (auto simp: clean_def latin_def line_break_def take_bit_eq_mod)
  show ?case
  proof (cases "n < 10")
    case True
    then show ?thesis using digit by (simp add: nat_str.simps [of n])
  next
    case False
    then have "nat_str n = nat_str (n div 10) @ [char_of (n mod 10 + 48)]" by (subst nat_str.simps) simp
    then show ?thesis using 1 [OF False] digit [of "n mod 10"] by simp
  qed
qed

lemma clean_words [simp]: "clean ''0''" "clean ''.''" "clean ''e''" "clean ''-''" "clean ''+''" "clean ''inf''" "clean ''nan''"
  by (simp_all add: clean_def latin_def line_break_def)

lemma clean_with_fraction:
  assumes "clean a" "clean b" shows "clean (with_fraction a b)"
proof -
  have "set (no_zeros b) \<subseteq> set b"
    by (auto simp: no_zeros_def dest: set_dropWhileD)
  then have "clean (no_zeros b)" using assms(2) by (rule clean_subset)
  with assms(1) show ?thesis by (simp add: with_fraction_def clean_Cons line_break_def)
qed

lemma clean_number_text [simp]: "clean (number_text x)"
proof -
  have p: "clean (positive_text q)" for q
  proof -
    obtain m e where me: "six_digits q = (m, e)" by (cases "six_digits q")
    have parts: "clean (take n (nat_str m))" "clean (drop n (nat_str m))" for n
      by (rule clean_subset [OF set_take_subset clean_nat_str], rule clean_subset [OF set_drop_subset clean_nat_str])
    have "clean (replicate n CHR ''0'' @ nat_str m)" for n
      by (simp add: clean_subset [of "replicate n CHR ''0''" "''0''"] set_replicate_conv_if)
    then show ?thesis
      by (auto simp: positive_text_def me Let_def exponent_text_def clean_Cons line_break_def intro!: clean_with_fraction parts)
  qed
  show ?thesis by (cases x) (simp_all add: p clean_Cons line_break_def)
qed

lemma digest_subject_clean: "clean (digest_subject n window)"
proof -
  have "clean ''[Supervision] ''" "clean '' changements d''" "clean [CHR 0x27]" "clean ''alarme en ''" "clean '' s''"
    by (simp_all add: clean_def latin_def line_break_def)
  then show ?thesis by (simp only: digest_subject_def clean_append clean_nat_str clean_number_text simp_thms)
qed

lemma digest_subject_one_line: "length (splitlines (latin (digest_subject n window))) \<le> 1"
  using digest_subject_clean [of n window] unfolding clean_def by (rule splitlines_one)

lemma calls_made_raised: "snd (calls_made fails cs) \<longleftrightarrow> list_ex fails cs"
  by (induction cs) (auto simp: split_beta)

lemma deliver_sent:
  "fst (deliver senders n delay raises j) \<longleftrightarrow> fst (jb_target j) \<in> senders \<and> (\<exists>k \<in> {1..n}. \<not> raises k)"
proof -
  have "{1..<1 + n} = {1..n}" by auto
  with attempts_from_sent [of n 1] show ?thesis by (simp add: deliver_def)
qed

text \<open>
  C25. One strange name silences the e-mails of an alarm: with a sender and a recipient without line
  boundaries, a notification that leaves alone is sent exactly when the mail server accepts one of
  the attempts and neither the rule's name nor the path or name of its point holds a line boundary;
  with one, every attempt raises before the server is reached. A digest has no such condition.
\<close>

theorem email_sent_iff:
  assumes "fst (jb_target j) \<in> senders" "clean (es_sender es)" "clean (snd (jb_target j))"
  shows "(email_of es isot window j \<noteq> None \<longleftrightarrow>
      jb_digest j \<or> (let i = no_payload (hd (jb_items j)) in clean (alarm_title i) \<and> clean (alarm_place i))) \<and>
    (fst (deliver senders n delay (\<lambda>k. snd (email_send es isot window j (fails k))) j) \<longleftrightarrow>
      (\<exists>m. email_of es isot window j = Some m \<and> (\<exists>k \<in> {1..n}. \<not> list_ex (fails k) (email_calls es m))))"
proof -
  have "length (splitlines (latin (es_sender es))) \<le> 1" "length (splitlines (latin (snd (jb_target j)))) \<le> 1"
    using assms(2,3) unfolding clean_def by (auto intro: splitlines_one simp del: One_nat_def)
  then have "email_of es isot window j \<noteq> None \<longleftrightarrow>
      jb_digest j \<or> (let i = no_payload (hd (jb_items j)) in clean (alarm_title i) \<and> clean (alarm_place i))"
    by (auto simp: email_of_def email_message_def digest_text_def digest_subject_one_line no_subject_def
        subject_one_line Let_def simp del: One_nat_def)
  moreover have "fst (deliver senders n delay (\<lambda>k. snd (email_send es isot window j (fails k))) j) \<longleftrightarrow>
      (\<exists>m. email_of es isot window j = Some m \<and> (\<exists>k \<in> {1..n}. \<not> list_ex (fails k) (email_calls es m)))"
    by (auto simp: deliver_sent assms(1) email_send_def calls_made_raised split: option.splits)
  ultimately show ?thesis by blast
qed

subsection \<open>The digest accounts for everything\<close>

lemma pieces_join_lines: "ls \<noteq> [] \<Longrightarrow> \<forall>l \<in> set ls. 10 \<notin> set l \<Longrightarrow> pieces 10 (join_lines ls) = ls"
  by (induction ls rule: join_lines.induct) (simp_all add: pieces_part pieces_whole)

lemma clean_no_newline: "clean s \<Longrightarrow> 10 \<notin> set (latin s)"
  by (auto simp: clean_def list_all_iff line_break_def)

lemma digest_shape:
  "ls = [a, b] @ es @ (if k then [c] else []) \<Longrightarrow>
   length ls = 2 + length es + (if k then 1 else 0) \<and> ls ! 0 = a \<and> take (length es) (drop 2 ls) = es \<and>
   (last ls = c \<or> \<not> k)"
  by (cases k) (simp_all only: if_True if_False append_Nil2, simp_all)

text \<open>
  The digest accounts for every notification: read line by line, its body has the subject, which
  holds their number, a blank line, the subject of each of the first 50 in order, and, when there are more, a
  last line with the number of the others.
\<close>

theorem digest_read_back:
  assumes "\<forall>n \<in> set (take limit ns). 10 \<notin> set (latin (no_subject n))"
  shows "let ls = pieces 10 (snd (digest_text ns window limit)) in
    length ls = 2 + min limit (length ns) + (if limit < length ns then 1 else 0) \<and>
    ls ! 0 = latin (fst (digest_text ns window limit)) \<and>
    map (drop 2) (take (min limit (length ns)) (drop 2 ls)) = map (latin \<circ> no_subject) (take limit ns) \<and>
    (last ls = latin (''... et '' @ nat_str (length ns - limit) @ '' autres (voir la liste des alarmes)'')
       \<or> length ns \<le> limit)"
proof -
  have "10 \<notin> set (latin (digest_subject n window))" for n
    using digest_subject_clean by (rule clean_no_newline)
  moreover have "10 \<notin> set (latin (''... et '' @ nat_str m @ '' autres (voir la liste des alarmes)''))" for m
    by (rule clean_no_newline) (simp add: clean_Cons line_break_def)
  ultimately have all: "\<forall>l \<in> set (digest_lines ns window limit). 10 \<notin> set l"
    using assms by (auto simp: digest_lines_def latin_def)
  have "digest_lines ns window limit \<noteq> []" by (simp add: digest_lines_def)
  then have "pieces 10 (join_lines (digest_lines ns window limit)) = digest_lines ns window limit"
    using all by (rule pieces_join_lines)
  moreover have "drop 2 (latin (''- '' @ s)) = latin s" for s
    by (simp add: latin_def)
  then have "map (drop 2) (map (\<lambda>n. latin (''- '' @ no_subject n)) (take limit ns)) = map (latin \<circ> no_subject) (take limit ns)"
    by (simp add: comp_def del: append.simps)
  moreover note digest_shape [OF digest_lines_def [of ns window limit]]
  ultimately show ?thesis
    by (simp only: digest_text_def snd_conv fst_conv Let_def length_map length_take min.commute simp_thms)
      (simp add: not_less del: append.simps map_map)
qed

subsection \<open>Channels\<close>

text \<open>\<open>build_notifier\<close>: the default recipients and the channels that have a sender.\<close>

definition default_email :: "string \<Rightarrow> string list" where
  "default_email alarm_email_to =
     List.filter (\<lambda>a. a \<noteq> []) (map py_strip (pieces CHR '','' alarm_email_to))"

definition senders :: "string option \<Rightarrow> string set" where
  "senders smtp_host =
     (case smtp_host of None \<Rightarrow> {''webhook''} | Some h \<Rightarrow> if h = [] then {''webhook''} else {''webhook'', ''email''})"

text \<open>
  A channel the API accepts leads somewhere: for every channel of an accepted rule there is either
  exactly one target, an address or a URL the sender does not refuse, or it means the default
  recipients of the configuration, none of which is empty.
\<close>

theorem accepted_channel_served:
  assumes "validate_channel brackets_ok channel"
  shows "let ts = targets (default_email alarm_email_to) channel in
    (\<exists>dest. ts = [(''email'', dest)] \<and> upto_end email_text dest) \<or>
    (\<exists>url. ts = [(''webhook'', url)] \<and>
       (\<forall>fails j. jb_target j = (''webhook'', url) \<longrightarrow>
          (fst (webhook_send brackets_ok isot now window j fails) = [(url, webhook_body isot now window j)] \<and>
           snd (webhook_send brackets_ok isot now window j fails) = fails (url, webhook_body isot now window j)))) \<or>
    (ts = map (Pair ''email'') (default_email alarm_email_to) \<and> (''email'', []) \<notin> set ts)"
proof -
  obtain word found dest where p: "partition_at CHR '':'' channel = (word, found, dest)"
    by (cases "partition_at CHR '':'' channel")
  have not_empty: "\<not> valid_webhook_url brackets_ok []" by (simp add: valid_webhook_url_def url_stripped_def)
  from assms p have "word = ''email'' \<and> (dest = [] \<or> upto_end email_text dest) \<or>
      word = ''webhook'' \<and> valid_webhook_url brackets_ok dest"
    by (simp add: validate_channel_def)
  then show ?thesis
    using not_empty p
    by (cases "dest = []") (auto simp: targets_def webhook_send_def default_email_def Let_def)
qed

subsection \<open>Examples\<close>

definition example_alarm :: alarm_info where
  "example_alarm = \<lparr>ai_event_id = 1, ai_rule_id = 2, ai_rule_name = Some (''Soufflage'' @ [newline] @ ''bureau''),
     ai_kind = HIGH, ai_severity = CRITICAL, ai_state = ACTIVE_UNACKED, ai_point_id = 3, ai_point_name = ''AI1'',
     ai_path = None, ai_unit = Some ''C'', ai_threshold = Some (Fin 30), ai_value = Some (Fin 31), ai_raised_at = 0,
     ai_acked_at = None, ai_acked_by = None, ai_cleared_at = None\<rparr>"

definition example_notice :: notification where
  "example_notice = build_notification example_alarm T_RAISED [''email:a@b.fr'']"

definition example_job :: job where
  "example_job = \<lparr>jb_target = (''email'', ''a@b.fr''), jb_items = [example_notice], jb_digest = False\<rparr>"

definition example_sender :: email_sender where
  "example_sender = \<lparr>es_port = 587, es_sender = ''s@b.fr'', es_user = None, es_starttls = True\<rparr>"

text \<open>A rule whose name has two lines: no e-mail leaves, however often it is tried.\<close>

theorem email_sent_iff_witness:
  "email_of example_sender (\<lambda>_. []) 60 example_job = None \<and>
   \<not> fst (deliver {''email''} 3 1 (\<lambda>k. snd (email_send example_sender (\<lambda>_. []) 60 example_job (\<lambda>_. False))) example_job)"
proof -
  have "\<not> clean (alarm_title example_alarm)"
    by (simp add: example_alarm_def alarm_title_def or_else_def newline_def clean_Cons line_break_def)
  moreover have "fst (jb_target example_job) \<in> {''email''}" "clean (es_sender example_sender)"
    "clean (snd (jb_target example_job))"
    by (simp_all add: example_job_def example_sender_def clean_Cons line_break_def)
  note email_sent_iff [OF this, of "\<lambda>_. []" 60 3 1 "\<lambda>_ _. False"]
  ultimately show ?thesis
    by (simp add: example_job_def example_notice_def build_notification_def)
qed

theorem digest_read_back_witness:
  "(let ls = pieces 10 (snd (digest_text (replicate 3 (example_notice\<lparr>no_payload := example_alarm\<lparr>ai_rule_name := None\<rparr>\<rparr>)) 60 2))
    in length ls = 5)"
proof -
  let ?n = "example_notice\<lparr>no_payload := example_alarm\<lparr>ai_rule_name := None\<rparr>\<rparr>"
  have "clean (no_subject ?n)"
    by (simp add: no_subject_def subject_of_def alarm_title_def alarm_place_def or_else_def example_alarm_def
        example_notice_def build_notification_def clean_Cons line_break_def)
  then have "\<forall>n \<in> set (take 2 (replicate 3 ?n)). 10 \<notin> set (latin (no_subject n))"
    using clean_no_newline by (auto dest!: in_set_takeD)
  from digest_read_back [OF this, of 60] show ?thesis by (simp add: Let_def)
qed

theorem accepted_channel_served_witness:
  "targets (default_email ''a@b.fr, c@d.fr'') ''email'' = [(''email'', ''a@b.fr''), (''email'', ''c@d.fr'')] \<and>
   targets (default_email ''a@b.fr, c@d.fr'') ''email'' =
     map (Pair ''email'') (default_email ''a@b.fr, c@d.fr'')"
proof -
  have "validate_channel (\<lambda>_. False) ''email''" by code_simp
  note t = accepted_channel_served [OF this, of "''a@b.fr, c@d.fr''" "\<lambda>_. []" 0 60]
  have e: "targets (default_email ''a@b.fr, c@d.fr'') ''email'' = [(''email'', ''a@b.fr''), (''email'', ''c@d.fr'')]"
    by code_simp
  from t have "targets (default_email ''a@b.fr, c@d.fr'') ''email'' =
      map (Pair ''email'') (default_email ''a@b.fr, c@d.fr'')"
    unfolding Let_def e by auto
  with e show ?thesis by simp
qed

end
