(* ===== verification/Schema.thy ===== *)
theory Schema
  imports Database
begin

section \<open>The schema and its migrations\<close>

text \<open>
  \<open>app/db/models.py\<close> and \<open>alembic/versions\<close>: the tables the program declares, the three
  migrations that build them in a database, and the retention of the history set by
  \<open>app/db/timescale.py\<close>. A migration is the list of the statements it sends; what each statement does to
  the schema, or that it is refused, is written out. Constraints without a name get the one of
  \<open>NAMING_CONVENTION\<close>.
\<close>

subsection \<open>Tables\<close>

datatype column_type =
  Uuid | Integer | Big_Integer | String nat | Text | Boolean | Double | Date_Time | JSONB

record column =
  cl_name :: string
  cl_type :: column_type
  cl_nullable :: bool
  cl_primary :: bool
  cl_identity :: bool
  cl_default :: "string option"
  cl_references :: "(string \<times> string option) option"

record index =
  ix_columns :: "string list"
  ix_unique :: bool
  ix_where :: "string option"

text \<open>The columns in order, the unique constraints and the indexes by name.\<close>

record table =
  tb_columns :: "column list"
  tb_uniques :: "(string, string list) dict"
  tb_indexes :: "(string, index) dict"

definition column_of :: "string \<Rightarrow> column_type \<Rightarrow> bool \<Rightarrow> column" where
  "column_of name ty nullable =
     \<lparr>cl_name = name, cl_type = ty, cl_nullable = nullable, cl_primary = False, cl_identity = False,
      cl_default = None, cl_references = None\<rparr>"

definition server_default :: "string \<Rightarrow> column \<Rightarrow> column" where
  "server_default d c = c\<lparr>cl_default := Some d\<rparr>"

definition primary_key :: "column \<Rightarrow> column" where
  "primary_key c = c\<lparr>cl_primary := True, cl_nullable := False\<rparr>"

definition foreign_key :: "string \<Rightarrow> string option \<Rightarrow> column \<Rightarrow> column" where
  "foreign_key target ondelete c = c\<lparr>cl_references := Some (target, ondelete)\<rparr>"

definition identity :: "column \<Rightarrow> column" where
  "identity c = c\<lparr>cl_identity := True\<rparr>"

definition uuid_pk :: column where
  "uuid_pk = server_default ''gen_random_uuid()'' (primary_key (column_of ''id'' Uuid False))"

definition fk :: "string \<Rightarrow> string \<Rightarrow> string option \<Rightarrow> bool \<Rightarrow> column" where
  "fk name target ondelete nullable = foreign_key target ondelete (column_of name Uuid nullable)"

text \<open>\<open>uq_%(table_name)s_%(column_0_N_name)s\<close>\<close>

fun joined :: "string list \<Rightarrow> string" where
  "joined [] = []"
| "joined [s] = s"
| "joined (s # ss) = s @ ''_'' @ joined ss"

definition unique_name :: "string \<Rightarrow> string list \<Rightarrow> string" where
  "unique_name table cols = ''uq_'' @ table @ ''_'' @ joined cols"

subsection \<open>The declared tables\<close>

definition plain_table :: "column list \<Rightarrow> table" where
  "plain_table cols = \<lparr>tb_columns = cols, tb_uniques = [], tb_indexes = []\<rparr>"

definition role_table :: table where
  "role_table =
     (plain_table
       [identity (primary_key (column_of ''id'' Integer False)), column_of ''name'' (String 32) False])
     \<lparr>tb_uniques := [(unique_name ''role'' [''name''], [''name''])]\<rparr>"

definition user_table :: table where
  "user_table =
     (plain_table
       [uuid_pk, column_of ''login'' (String 64) False, column_of ''password_hash'' (String 255) False,
        foreign_key ''role.id'' None (column_of ''role_id'' Integer False),
        server_default ''true'' (column_of ''active'' Boolean False)])
     \<lparr>tb_uniques := [(unique_name ''user'' [''login''], [''login''])]\<rparr>"

definition network_table :: table where
  "network_table = plain_table
     [uuid_pk, column_of ''name'' (String 128) False, column_of ''bind_ip'' (String 64) False,
      server_default ''47808'' (column_of ''port'' Integer False),
      column_of ''bbmd_ip'' (String 64) True, column_of ''bbmd_ttl'' Integer True]"

definition device_table :: table where
  "device_table =
     (plain_table
       [uuid_pk, fk ''network_id'' ''network.id'' (Some ''CASCADE'') False,
        column_of ''instance'' Integer False, column_of ''name'' (String 255) False,
        column_of ''address'' (String 128) False, server_default ''false'' (column_of ''online'' Boolean False),
        column_of ''last_seen'' Date_Time True, column_of ''vendor'' (String 128) True,
        column_of ''model'' (String 128) True])
     \<lparr>tb_uniques := [(''uq_device_network_id_instance'', [''network_id'', ''instance''])]\<rparr>"

definition point_table :: table where
  "point_table =
     \<lparr>tb_columns =
       [uuid_pk, fk ''device_id'' ''device.id'' (Some ''CASCADE'') False,
        column_of ''object_type'' (String 32) False, column_of ''object_instance'' Integer False,
        column_of ''name'' (String 255) False, column_of ''description'' Text True,
        column_of ''unit'' (String 32) True, server_default ''false'' (column_of ''writable'' Boolean False),
        server_default ''false'' (column_of ''cov_capable'' Boolean False),
        column_of ''poll_interval_s'' Integer True, column_of ''path'' (String 512) True,
        server_default ''false'' (column_of ''missing'' Boolean False),
        server_default ''0'' (column_of ''deadband'' Double False),
        server_default ''900'' (column_of ''max_interval_s'' Integer False),
        column_of ''write_min'' Double True, column_of ''write_max'' Double True,
        column_of ''state_text'' JSONB True],
      tb_uniques = [(''uq_point_device_object'', [''device_id'', ''object_type'', ''object_instance''])],
      tb_indexes = [(''ix_point_path'', \<lparr>ix_columns = [''path''], ix_unique = False, ix_where = None\<rparr>)]\<rparr>"

definition point_tag_table :: table where
  "point_tag_table = plain_table
     [primary_key (fk ''point_id'' ''point.id'' (Some ''CASCADE'') False),
      primary_key (column_of ''tag'' (String 64) False)]"

definition sample_table :: table where
  "sample_table = plain_table
     [primary_key (fk ''point_id'' ''point.id'' (Some ''CASCADE'') False),
      primary_key (column_of ''ts'' Date_Time False), column_of ''value'' Double True,
      server_default (CHR 0x27 # ''ok'' @ [CHR 0x27]) (column_of ''status'' (String 16) False)]"

definition point_latest_table :: table where
  "point_latest_table = plain_table
     [primary_key (fk ''point_id'' ''point.id'' (Some ''CASCADE'') False),
      column_of ''ts'' Date_Time False, column_of ''value'' Double True,
      server_default (CHR 0x27 # ''ok'' @ [CHR 0x27]) (column_of ''status'' (String 16) False)]"

definition alarm_rule_table :: table where
  "alarm_rule_table = plain_table
     [uuid_pk, fk ''point_id'' ''point.id'' (Some ''CASCADE'') False, column_of ''name'' (String 255) True,
      column_of ''kind'' (String 32) False, column_of ''threshold'' Double True,
      server_default ''0'' (column_of ''hysteresis'' Double False),
      server_default ''0'' (column_of ''delay_s'' Integer False), column_of ''severity'' (String 16) False,
      server_default (CHR 0x27 # ''[]'' @ CHR 0x27 # ''::jsonb'') (column_of ''notify'' JSONB False),
      server_default ''true'' (column_of ''enabled'' Boolean False)]"

definition open_alarm :: string where
  "open_alarm = ''state <> '' @ CHR 0x27 # ''normal'' @ [CHR 0x27]"

definition alarm_event_table :: table where
  "alarm_event_table =
     \<lparr>tb_columns =
       [uuid_pk, fk ''rule_id'' ''alarm_rule.id'' (Some ''CASCADE'') False,
        column_of ''raised_at'' Date_Time False, column_of ''acked_at'' Date_Time True,
        column_of ''acked_by'' (String 64) True, column_of ''cleared_at'' Date_Time True,
        column_of ''state'' (String 32) False, column_of ''raised_value'' Double True],
      tb_uniques = [],
      tb_indexes =
       [(''uq_alarm_event_open_rule'', \<lparr>ix_columns = [''rule_id''], ix_unique = True, ix_where = Some open_alarm\<rparr>),
        (''ix_alarm_event_state_raised'',
         \<lparr>ix_columns = [''state'', ''raised_at''], ix_unique = False, ix_where = None\<rparr>)]\<rparr>"

definition synoptic_table :: table where
  "synoptic_table =
     (plain_table
       [uuid_pk, column_of ''name'' (String 255) False, column_of ''slug'' (String 128) False,
        fk ''owner_id'' ''user.id'' (Some ''SET NULL'') True])
     \<lparr>tb_uniques := [(unique_name ''synoptic'' [''slug''], [''slug''])]\<rparr>"

definition synoptic_version_table :: table where
  "synoptic_version_table =
     (plain_table
       [uuid_pk, fk ''synoptic_id'' ''synoptic.id'' (Some ''CASCADE'') False,
        column_of ''version'' Integer False, column_of ''json'' JSONB False,
        fk ''created_by'' ''user.id'' (Some ''SET NULL'') True,
        server_default ''now()'' (column_of ''created_at'' Date_Time False)])
     \<lparr>tb_uniques := [(''uq_synoptic_version_synoptic_id_version'', [''synoptic_id'', ''version''])]\<rparr>"

definition audit_log_table :: table where
  "audit_log_table =
     (plain_table
       [identity (primary_key (column_of ''id'' Big_Integer False)),
        server_default ''now()'' (column_of ''ts'' Date_Time False),
        fk ''user_id'' ''user.id'' (Some ''SET NULL'') True, column_of ''action'' (String 64) False,
        column_of ''target'' (String 255) True, column_of ''before'' JSONB True, column_of ''after'' JSONB True,
        column_of ''ip'' (String 45) True])
     \<lparr>tb_indexes := [(''ix_audit_log_ts'', \<lparr>ix_columns = [''ts''], ix_unique = False, ix_where = None\<rparr>)]\<rparr>"

text \<open>\<open>Base.metadata\<close>\<close>

definition metadata :: "(string, table) dict" where
  "metadata =
     [(''role'', role_table), (''user'', user_table), (''network'', network_table), (''device'', device_table),
      (''point'', point_table), (''point_tag'', point_tag_table), (''sample'', sample_table),
      (''point_latest'', point_latest_table), (''alarm_rule'', alarm_rule_table),
      (''alarm_event'', alarm_event_table), (''synoptic'', synoptic_table),
      (''synoptic_version'', synoptic_version_table), (''audit_log'', audit_log_table)]"

subsection \<open>Statements\<close>

text \<open>
  What the operations of Alembic and the functions of TimescaleDB the migrations call ask for. The
  flag of a policy is \<open>if_not_exists\<close> or \<open>if_exists\<close>; its number is in days.
\<close>

datatype statement =
    Create_Table string table
  | Drop_Table string
  | Add_Column string column
  | Drop_Column string string
  | Create_Index string string index
  | Drop_Index string string
  | Bulk_Insert string string "string list"
  | Create_Extension string
  | Create_Hypertable string string int
  | Set_Compress string
  | Add_Compression string int bool
  | Remove_Compression string bool
  | Add_Retention string int bool
  | Remove_Retention string bool
  | Decompress_Chunks string

record schema =
  sc_tables :: "(string, table) dict"
  sc_rows :: "(string \<times> string \<times> string list) list"
  sc_extensions :: "string list"
  sc_hypertables :: "(string, string) dict"
  sc_compressed :: "string list"
  sc_compression :: "(string, int) dict"
  sc_retention :: "(string, int) dict"

definition no_schema :: schema where
  "no_schema = \<lparr>sc_tables = [], sc_rows = [], sc_extensions = [], sc_hypertables = [], sc_compressed = [],
     sc_compression = [], sc_retention = []\<rparr>"

definition column_names :: "table \<Rightarrow> string list" where
  "column_names tb = map cl_name (tb_columns tb)"

definition target_of :: "string \<Rightarrow> string \<times> string" where
  "target_of s = (case partition_at CHR ''.'' s of (t, _, c) \<Rightarrow> (t, c))"

text \<open>A foreign key needs its target: a column that is, alone, the key of a table that exists.\<close>

definition reference_ok :: "(string, table) dict \<Rightarrow> column \<Rightarrow> bool" where
  "reference_ok tbs c =
     (case cl_references c of
        None \<Rightarrow> True
      | Some (target, _) \<Rightarrow>
          (case target_of target of (t, k) \<Rightarrow>
             (case map_of tbs t of
                None \<Rightarrow> False
              | Some tb \<Rightarrow>
                  map (\<lambda>x. (cl_name x, cl_type x)) (List.filter cl_primary (tb_columns tb)) = [(k, cl_type c)])))"

definition references :: "string \<Rightarrow> table \<Rightarrow> bool" where
  "references t tb = list_ex
     (\<lambda>c. case cl_references c of None \<Rightarrow> False | Some (target, _) \<Rightarrow> fst (target_of target) = t) (tb_columns tb)"

definition index_names :: "(string, table) dict \<Rightarrow> string list" where
  "index_names tbs = concat (map (\<lambda>(_, tb). map fst (tb_indexes tb) @ map fst (tb_uniques tb)) tbs)"

definition valid_table :: "(string, table) dict \<Rightarrow> string \<Rightarrow> table \<Rightarrow> bool" where
  "valid_table tbs t tb \<longleftrightarrow>
     map_of tbs t = None \<and> distinct (column_names tb) \<and>
     list_all (reference_ok tbs) (tb_columns tb) \<and>
     list_all (\<lambda>(n, cols). n \<notin> set (index_names tbs) \<and> set cols \<subseteq> set (column_names tb)) (tb_uniques tb)"

definition drop_key :: "'k \<Rightarrow> ('k, 'v) dict \<Rightarrow> ('k, 'v) dict" where
  "drop_key k d = List.filter (\<lambda>kv. fst kv \<noteq> k) d"

text \<open>What a statement makes of the schema; \<open>None\<close> when the database refuses it.\<close>

fun apply_statement :: "statement \<Rightarrow> schema \<Rightarrow> schema option" where
  "apply_statement (Create_Table t tb) s =
     (if valid_table (sc_tables s) t tb then Some (s\<lparr>sc_tables := sc_tables s @ [(t, tb)]\<rparr>) else None)"
| "apply_statement (Drop_Table t) s =
     (if map_of (sc_tables s) t \<noteq> None \<and>
         \<not> list_ex (\<lambda>(u, tb). u \<noteq> t \<and> references t tb) (sc_tables s)
      then Some (s\<lparr>sc_tables := drop_key t (sc_tables s),
                   sc_rows := List.filter (\<lambda>r. fst r \<noteq> t) (sc_rows s),
                   sc_hypertables := drop_key t (sc_hypertables s),
                   sc_compressed := List.filter (\<lambda>u. u \<noteq> t) (sc_compressed s),
                   sc_compression := drop_key t (sc_compression s),
                   sc_retention := drop_key t (sc_retention s)\<rparr>)
      else None)"
| "apply_statement (Add_Column t c) s =
     (case map_of (sc_tables s) t of
        None \<Rightarrow> None
      | Some tb \<Rightarrow>
          if cl_name c \<notin> set (column_names tb) \<and> reference_ok (sc_tables s) c \<and>
             (cl_nullable c \<or> cl_default c \<noteq> None)
          then Some (s\<lparr>sc_tables := AList.update t (tb\<lparr>tb_columns := tb_columns tb @ [c]\<rparr>) (sc_tables s)\<rparr>)
          else None)"
| "apply_statement (Drop_Column t n) s =
     (case map_of (sc_tables s) t of
        None \<Rightarrow> None
      | Some tb \<Rightarrow>
          if n \<in> set (column_names tb)
          then Some (s\<lparr>sc_tables := AList.update t
                 (tb\<lparr>tb_columns := List.filter (\<lambda>c. cl_name c \<noteq> n) (tb_columns tb),
                     tb_uniques := List.filter (\<lambda>(_, cols). n \<notin> set cols) (tb_uniques tb),
                     tb_indexes := List.filter (\<lambda>(_, ix). n \<notin> set (ix_columns ix)) (tb_indexes tb)\<rparr>) (sc_tables s)\<rparr>)
          else None)"
| "apply_statement (Create_Index i t ix) s =
     (case map_of (sc_tables s) t of
        None \<Rightarrow> None
      | Some tb \<Rightarrow>
          if i \<notin> set (index_names (sc_tables s)) \<and> set (ix_columns ix) \<subseteq> set (column_names tb)
          then Some (s\<lparr>sc_tables := AList.update t (tb\<lparr>tb_indexes := tb_indexes tb @ [(i, ix)]\<rparr>) (sc_tables s)\<rparr>)
          else None)"
| "apply_statement (Drop_Index i t) s =
     (case map_of (sc_tables s) t of
        None \<Rightarrow> None
      | Some tb \<Rightarrow>
          if map_of (tb_indexes tb) i \<noteq> None
          then Some (s\<lparr>sc_tables := AList.update t (tb\<lparr>tb_indexes := drop_key i (tb_indexes tb)\<rparr>) (sc_tables s)\<rparr>)
          else None)"
| "apply_statement (Bulk_Insert t col vals) s =
     (case map_of (sc_tables s) t of
        None \<Rightarrow> None
      | Some tb \<Rightarrow>
          if col \<in> set (column_names tb) \<and> distinct vals
          then Some (s\<lparr>sc_rows := sc_rows s @ [(t, col, vals)]\<rparr>) else None)"
| "apply_statement (Create_Extension e) s =
     Some (s\<lparr>sc_extensions := List.insert e (sc_extensions s)\<rparr>)"
| "apply_statement (Create_Hypertable t col days) s =
     (case map_of (sc_tables s) t of
        None \<Rightarrow> None
      | Some tb \<Rightarrow>
          if ''timescaledb'' \<in> set (sc_extensions s) \<and>
             col \<in> set (map cl_name (List.filter cl_primary (tb_columns tb)))
          then Some (s\<lparr>sc_hypertables := dict_setdefault t col (sc_hypertables s)\<rparr>) else None)"
| "apply_statement (Set_Compress t) s =
     (if map_of (sc_hypertables s) t = None then None
      else Some (s\<lparr>sc_compressed := List.insert t (sc_compressed s)\<rparr>))"
| "apply_statement (Add_Compression t days lenient) s =
     (if map_of (sc_hypertables s) t = None \<or> t \<notin> set (sc_compressed s) then None
      else if map_of (sc_compression s) t \<noteq> None then (if lenient then Some s else None)
      else Some (s\<lparr>sc_compression := AList.update t days (sc_compression s)\<rparr>))"
| "apply_statement (Remove_Compression t lenient) s =
     (if map_of (sc_hypertables s) t = None then None
      else if map_of (sc_compression s) t = None then (if lenient then Some s else None)
      else Some (s\<lparr>sc_compression := drop_key t (sc_compression s)\<rparr>))"
| "apply_statement (Add_Retention t days lenient) s =
     (if map_of (sc_hypertables s) t = None then None
      else if map_of (sc_retention s) t \<noteq> None then (if lenient then Some s else None)
      else Some (s\<lparr>sc_retention := AList.update t days (sc_retention s)\<rparr>))"
| "apply_statement (Remove_Retention t lenient) s =
     (if map_of (sc_hypertables s) t = None then None
      else if map_of (sc_retention s) t = None then (if lenient then Some s else None)
      else Some (s\<lparr>sc_retention := drop_key t (sc_retention s)\<rparr>))"
| "apply_statement (Decompress_Chunks t) s =
     (if map_of (sc_hypertables s) t = None then None else Some s)"

fun run_statements :: "statement list \<Rightarrow> schema \<Rightarrow> schema option" where
  "run_statements [] s = Some s"
| "run_statements (st # sts) s =
     (case apply_statement st s of None \<Rightarrow> None | Some s' \<Rightarrow> run_statements sts s')"

lemma run_append:
  "run_statements (a @ b) s = (case run_statements a s of None \<Rightarrow> None | Some s' \<Rightarrow> run_statements b s')"
  by (induction a arbitrary: s) (auto split: option.split)

subsection \<open>The migrations\<close>

text \<open>\<open>0001_initial\<close>\<close>

definition ROLES :: "string list" where
  "ROLES = [''viewer'', ''operator'', ''engineer'', ''admin'']"

definition initial_accounts :: "statement list" where
  "initial_accounts =
     [Create_Extension ''timescaledb'',
      Create_Table ''role''
        \<lparr>tb_columns =
           [identity (primary_key (column_of ''id'' Integer True)), column_of ''name'' (String 32) False],
         tb_uniques = [(''uq_role_name'', [''name''])], tb_indexes = []\<rparr>,
      Bulk_Insert ''role'' ''name'' ROLES,
      Create_Table ''user''
        \<lparr>tb_columns =
           [uuid_pk, column_of ''login'' (String 64) False, column_of ''password_hash'' (String 255) False,
            foreign_key ''role.id'' None (column_of ''role_id'' Integer False),
            server_default ''true'' (column_of ''active'' Boolean False)],
         tb_uniques = [(''uq_user_login'', [''login''])], tb_indexes = []\<rparr>]"

definition initial_devices :: "statement list" where
  "initial_devices =
     [Create_Table ''network'' (plain_table
        [uuid_pk, column_of ''name'' (String 128) False, column_of ''bind_ip'' (String 64) False,
         server_default ''47808'' (column_of ''port'' Integer False), column_of ''bbmd_ip'' (String 64) True,
         column_of ''bbmd_ttl'' Integer True]),
      Create_Table ''device''
        \<lparr>tb_columns =
           [uuid_pk, fk ''network_id'' ''network.id'' (Some ''CASCADE'') False,
            column_of ''instance'' Integer False, column_of ''name'' (String 255) False,
            column_of ''address'' (String 128) False,
            server_default ''false'' (column_of ''online'' Boolean False),
            column_of ''last_seen'' Date_Time True, column_of ''vendor'' (String 128) True,
            column_of ''model'' (String 128) True],
         tb_uniques = [(''uq_device_network_id_instance'', [''network_id'', ''instance''])], tb_indexes = []\<rparr>]"

definition initial_points :: "statement list" where
  "initial_points =
     [Create_Table ''point''
        \<lparr>tb_columns =
           [uuid_pk, fk ''device_id'' ''device.id'' (Some ''CASCADE'') False,
            column_of ''object_type'' (String 32) False, column_of ''object_instance'' Integer False,
            column_of ''name'' (String 255) False, column_of ''description'' Text True,
            column_of ''unit'' (String 32) True, server_default ''false'' (column_of ''writable'' Boolean False),
            server_default ''false'' (column_of ''cov_capable'' Boolean False),
            column_of ''poll_interval_s'' Integer True, column_of ''path'' (String 512) True,
            server_default ''false'' (column_of ''missing'' Boolean False),
            server_default ''0'' (column_of ''deadband'' Double False),
            server_default ''900'' (column_of ''max_interval_s'' Integer False),
            column_of ''write_min'' Double True, column_of ''write_max'' Double True,
            column_of ''state_text'' JSONB True],
         tb_uniques = [(''uq_point_device_object'', [''device_id'', ''object_type'', ''object_instance''])],
         tb_indexes = []\<rparr>,
      Create_Index ''ix_point_path'' ''point'' \<lparr>ix_columns = [''path''], ix_unique = False, ix_where = None\<rparr>,
      Create_Table ''point_tag'' (plain_table
        [primary_key (fk ''point_id'' ''point.id'' (Some ''CASCADE'') True),
         primary_key (column_of ''tag'' (String 64) True)]),
      Create_Table ''sample'' (plain_table
        [primary_key (fk ''point_id'' ''point.id'' (Some ''CASCADE'') True),
         primary_key (column_of ''ts'' Date_Time True), column_of ''value'' Double True,
         server_default (CHR 0x27 # ''ok'' @ [CHR 0x27]) (column_of ''status'' (String 16) False)]),
      Create_Table ''point_latest'' (plain_table
        [primary_key (fk ''point_id'' ''point.id'' (Some ''CASCADE'') True),
         column_of ''ts'' Date_Time False, column_of ''value'' Double True,
         server_default (CHR 0x27 # ''ok'' @ [CHR 0x27]) (column_of ''status'' (String 16) False)])]"

definition initial_alarms :: "statement list" where
  "initial_alarms =
     [Create_Table ''alarm_rule'' (plain_table
        [uuid_pk, fk ''point_id'' ''point.id'' (Some ''CASCADE'') False, column_of ''kind'' (String 32) False,
         column_of ''threshold'' Double True, server_default ''0'' (column_of ''hysteresis'' Double False),
         server_default ''0'' (column_of ''delay_s'' Integer False), column_of ''severity'' (String 16) False,
         server_default (CHR 0x27 # ''[]'' @ CHR 0x27 # ''::jsonb'') (column_of ''notify'' JSONB False),
         server_default ''true'' (column_of ''enabled'' Boolean False)]),
      Create_Table ''alarm_event'' (plain_table
        [uuid_pk, fk ''rule_id'' ''alarm_rule.id'' (Some ''CASCADE'') False,
         column_of ''raised_at'' Date_Time False, column_of ''acked_at'' Date_Time True,
         column_of ''acked_by'' (String 64) True, column_of ''cleared_at'' Date_Time True,
         column_of ''state'' (String 32) False])]"

definition initial_synoptics :: "statement list" where
  "initial_synoptics =
     [Create_Table ''synoptic''
        \<lparr>tb_columns =
           [uuid_pk, column_of ''name'' (String 255) False, column_of ''slug'' (String 128) False,
            fk ''owner_id'' ''user.id'' (Some ''SET NULL'') True],
         tb_uniques = [(''uq_synoptic_slug'', [''slug''])], tb_indexes = []\<rparr>,
      Create_Table ''synoptic_version''
        \<lparr>tb_columns =
           [uuid_pk, fk ''synoptic_id'' ''synoptic.id'' (Some ''CASCADE'') False,
            column_of ''version'' Integer False, column_of ''json'' JSONB False,
            fk ''created_by'' ''user.id'' (Some ''SET NULL'') True,
            server_default ''now()'' (column_of ''created_at'' Date_Time False)],
         tb_uniques = [(''uq_synoptic_version_synoptic_id_version'', [''synoptic_id'', ''version''])],
         tb_indexes = []\<rparr>,
      Create_Table ''audit_log'' (plain_table
        [identity (primary_key (column_of ''id'' Big_Integer True)),
         server_default ''now()'' (column_of ''ts'' Date_Time False),
         fk ''user_id'' ''user.id'' (Some ''SET NULL'') True, column_of ''action'' (String 64) False,
         column_of ''target'' (String 255) True, column_of ''before'' JSONB True, column_of ''after'' JSONB True,
         column_of ''ip'' (String 45) True]),
      Create_Index ''ix_audit_log_ts'' ''audit_log'' \<lparr>ix_columns = [''ts''], ix_unique = False, ix_where = None\<rparr>]"

definition upgrade_initial :: "statement list" where
  "upgrade_initial = initial_accounts @ initial_devices @ initial_points @ initial_alarms @ initial_synoptics"

definition downgrade_initial :: "statement list" where
  "downgrade_initial = map Drop_Table
     [''audit_log'', ''synoptic_version'', ''synoptic'', ''alarm_event'', ''alarm_rule'', ''point_latest'',
      ''sample'', ''point_tag'', ''point'', ''device'', ''network'', ''user'', ''role'']"

text \<open>\<open>0002_timescale_sample\<close>\<close>

definition DEFAULT_RETENTION_DAYS :: int where
  "DEFAULT_RETENTION_DAYS = 730"

definition upgrade_sample :: "statement list" where
  "upgrade_sample =
     [Create_Hypertable ''sample'' ''ts'' 1, Set_Compress ''sample'', Add_Compression ''sample'' 7 True,
      Add_Retention ''sample'' DEFAULT_RETENTION_DAYS True]"

definition downgrade_sample :: "statement list" where
  "downgrade_sample = [Remove_Retention ''sample'' True, Remove_Compression ''sample'' True, Decompress_Chunks ''sample'']"

text \<open>\<open>0003_alarm_columns\<close>\<close>

definition upgrade_alarms :: "statement list" where
  "upgrade_alarms =
     [Add_Column ''alarm_rule'' (column_of ''name'' (String 255) True),
      Add_Column ''alarm_event'' (column_of ''raised_value'' Double True),
      Create_Index ''uq_alarm_event_open_rule'' ''alarm_event''
        \<lparr>ix_columns = [''rule_id''], ix_unique = True, ix_where = Some open_alarm\<rparr>,
      Create_Index ''ix_alarm_event_state_raised'' ''alarm_event''
        \<lparr>ix_columns = [''state'', ''raised_at''], ix_unique = False, ix_where = None\<rparr>]"

definition downgrade_alarms :: "statement list" where
  "downgrade_alarms =
     [Drop_Index ''ix_alarm_event_state_raised'' ''alarm_event'',
      Drop_Index ''uq_alarm_event_open_rule'' ''alarm_event'',
      Drop_Column ''alarm_event'' ''raised_value'', Drop_Column ''alarm_rule'' ''name'']"

text \<open>The scripts in the order of \<open>down_revision\<close>, with what each sends up and down.\<close>

definition migrations :: "(string \<times> string option \<times> statement list \<times> statement list) list" where
  "migrations =
     [(''0001'', None, upgrade_initial, downgrade_initial),
      (''0002'', Some ''0001'', upgrade_sample, downgrade_sample),
      (''0003'', Some ''0002'', upgrade_alarms, downgrade_alarms)]"

definition upgrade_all :: "statement list" where
  "upgrade_all = concat (map (\<lambda>(_, _, up, _). up) migrations)"

definition downgrade_all :: "statement list" where
  "downgrade_all = concat (map (\<lambda>(_, _, _, down). down) (rev migrations))"

subsection \<open>The migrations build the declared tables\<close>

text \<open>The same columns, whatever their order, and the same constraints and indexes.\<close>

definition same_table :: "table \<Rightarrow> table \<Rightarrow> bool" where
  "same_table a b \<longleftrightarrow>
     distinct (column_names a) \<and> distinct (column_names b) \<and>
     set (tb_columns a) = set (tb_columns b) \<and> set (tb_uniques a) = set (tb_uniques b) \<and>
     set (tb_indexes a) = set (tb_indexes b)"

definition same_tables :: "(string, table) dict \<Rightarrow> (string, table) dict \<Rightarrow> bool" where
  "same_tables xs ys \<longleftrightarrow>
     map fst xs = map fst ys \<and> list_all2 (\<lambda>(_, a) (_, b). same_table a b) xs ys"

lemma migrated_same:
  "case run_statements upgrade_all no_schema of
     None \<Rightarrow> False
   | Some s \<Rightarrow> same_tables (sc_tables s) metadata \<and> sc_rows s = [(''role'', ''name'', map role_value role_names)] \<and>
       sc_hypertables s = [(''sample'', ''ts'')] \<and> sc_retention s = [(''sample'', DEFAULT_RETENTION_DAYS)]"
  by code_simp

lemma migrated_back:
  "run_statements (upgrade_all @ downgrade_all) no_schema = Some (no_schema\<lparr>sc_extensions := [''timescaledb'']\<rparr>)"
  by code_simp

subsection \<open>Sound schemas\<close>

text \<open>Constraints and indexes are over columns of their table.\<close>

definition table_wf :: "table \<Rightarrow> bool" where
  "table_wf tb \<longleftrightarrow>
     distinct (column_names tb) \<and>
     (\<forall>(n, cols) \<in> set (tb_uniques tb). set cols \<subseteq> set (column_names tb)) \<and>
     (\<forall>(n, ix) \<in> set (tb_indexes tb). set (ix_columns ix) \<subseteq> set (column_names tb))"

definition schema_wf :: "schema \<Rightarrow> bool" where
  "schema_wf s \<longleftrightarrow> dict_wf (sc_tables s) \<and> (\<forall>(t, tb) \<in> set (sc_tables s). table_wf tb)"

lemma schema_wf_table: "schema_wf s \<Longrightarrow> map_of (sc_tables s) t = Some tb \<Longrightarrow> table_wf tb"
  by (auto simp: schema_wf_def dest: map_of_SomeD)

lemma schema_wf_update:
  "schema_wf s \<Longrightarrow> table_wf tb \<Longrightarrow> schema_wf (s\<lparr>sc_tables := AList.update t tb (sc_tables s)\<rparr>)"
  by (auto simp: schema_wf_def set_dict_set)

lemma update_same: "map_of d k = Some v \<Longrightarrow> AList.update k v d = d"
  by (induction d) (auto split: if_splits)

lemma index_fresh: "map_of tbs t = Some tb \<Longrightarrow> i \<notin> set (index_names tbs) \<Longrightarrow> map_of (tb_indexes tb) i = None"
  unfolding index_names_def map_of_eq_None_iff by (drule map_of_SomeD) auto

text \<open>Each pair of statements of the third migration cancels.\<close>

lemma drop_added_column:
  assumes "schema_wf s" "apply_statement (Add_Column t c) s = Some s'"
  shows "apply_statement (Drop_Column t (cl_name c)) s' = Some s"
proof -
  from assms(2) obtain tb where tb: "map_of (sc_tables s) t = Some tb" "cl_name c \<notin> set (column_names tb)"
    and s': "s' = s\<lparr>sc_tables := AList.update t (tb\<lparr>tb_columns := tb_columns tb @ [c]\<rparr>) (sc_tables s)\<rparr>"
    by (auto split: option.splits if_splits)
  have wf: "table_wf tb" using assms(1) tb(1) by (rule schema_wf_table)
  have "List.filter (\<lambda>x. cl_name x \<noteq> cl_name c) (tb_columns tb) = tb_columns tb"
    using tb(2) unfolding column_names_def by (intro filter_True ballI) (metis image_eqI set_map)
  moreover have "List.filter (\<lambda>(_, cols). cl_name c \<notin> set cols) (tb_uniques tb) = tb_uniques tb"
    "List.filter (\<lambda>(_, ix). cl_name c \<notin> set (ix_columns ix)) (tb_indexes tb) = tb_indexes tb"
    using wf tb(2) by (fastforce simp: table_wf_def filter_id_conv)+
  ultimately show ?thesis using tb s' by (simp add: column_names_def update_same)
qed

lemma drop_created_index:
  assumes "apply_statement (Create_Index i t ix) s = Some s'"
  shows "apply_statement (Drop_Index i t) s' = Some s"
proof -
  from assms obtain tb where tb: "map_of (sc_tables s) t = Some tb" "i \<notin> set (index_names (sc_tables s))"
    and s': "s' = s\<lparr>sc_tables := AList.update t (tb\<lparr>tb_indexes := tb_indexes tb @ [(i, ix)]\<rparr>) (sc_tables s)\<rparr>"
    by (auto split: option.splits if_splits)
  have "map_of (tb_indexes tb) i = None" using tb by (rule index_fresh)
  then have "drop_key i (tb_indexes tb) = tb_indexes tb"
    by (force simp: drop_key_def map_of_eq_None_iff filter_id_conv)
  then show ?thesis using tb s' by (simp add: drop_key_def update_same)
qed

lemma add_column_wf:
  assumes "schema_wf s" "apply_statement (Add_Column t c) s = Some s'" shows "schema_wf s'"
proof -
  from assms(2) obtain tb where tb: "map_of (sc_tables s) t = Some tb" "cl_name c \<notin> set (column_names tb)"
    and s': "s' = s\<lparr>sc_tables := AList.update t (tb\<lparr>tb_columns := tb_columns tb @ [c]\<rparr>) (sc_tables s)\<rparr>"
    by (auto split: option.splits if_splits)
  have "table_wf tb" using assms(1) tb(1) by (rule schema_wf_table)
  then have "table_wf (tb\<lparr>tb_columns := tb_columns tb @ [c]\<rparr>)"
    using tb(2) by (fastforce simp: table_wf_def column_names_def)
  with assms(1) show ?thesis unfolding s' by (rule schema_wf_update)
qed

lemma undo_statement:
  assumes "apply_statement st s = Some s1" "run_statements sts s1 = Some s'"
    and "apply_statement un s1 = Some s" "run_statements uns s' = Some s1"
  shows "run_statements (uns @ [un]) s' = Some s"
  using assms by (simp add: run_append)

lemma alarms_undone:
  assumes wf: "schema_wf s" and up: "run_statements upgrade_alarms s = Some s'"
  shows "run_statements downgrade_alarms s' = Some s"
proof -
  from up obtain s1 s2 s3 where
    1: "apply_statement (Add_Column ''alarm_rule'' (column_of ''name'' (String 255) True)) s = Some s1" and
    2: "apply_statement (Add_Column ''alarm_event'' (column_of ''raised_value'' Double True)) s1 = Some s2" and
    3: "apply_statement (Create_Index ''uq_alarm_event_open_rule'' ''alarm_event''
        \<lparr>ix_columns = [''rule_id''], ix_unique = True, ix_where = Some open_alarm\<rparr>) s2 = Some s3" and
    4: "apply_statement (Create_Index ''ix_alarm_event_state_raised'' ''alarm_event''
        \<lparr>ix_columns = [''state'', ''raised_at''], ix_unique = False, ix_where = None\<rparr>) s3 = Some s'"
    unfolding upgrade_alarms_def run_statements.simps by (auto simp del: apply_statement.simps split: option.splits)
  have w1: "schema_wf s1" using wf 1 by (rule add_column_wf)
  have c: "cl_name (column_of n ty nu) = n" for n ty nu by (simp add: column_of_def)
  show ?thesis
    using drop_created_index [OF 4] drop_created_index [OF 3] drop_added_column [OF w1 2] drop_added_column [OF wf 1]
    by (simp add: downgrade_alarms_def c del: apply_statement.simps)
qed

subsection \<open>Retention\<close>

text \<open>\<open>has_timescale\<close>, \<open>sample_is_hypertable\<close> and \<open>sync_retention\<close>: one transaction, undone if it fails.\<close>

definition has_timescale :: "schema \<Rightarrow> bool" where
  "has_timescale s \<longleftrightarrow> ''timescaledb'' \<in> set (sc_extensions s)"

definition sample_is_hypertable :: "schema \<Rightarrow> bool" where
  "sample_is_hypertable s \<longleftrightarrow> has_timescale s \<and> map_of (sc_hypertables s) ''sample'' \<noteq> None"

definition sync_statements :: "int \<Rightarrow> statement list" where
  "sync_statements days =
     Remove_Retention ''sample'' True # (if days > 0 then [Add_Retention ''sample'' days False] else [])"

definition sync_retention :: "int \<Rightarrow> schema \<Rightarrow> schema" where
  "sync_retention days s =
     (if \<not> sample_is_hypertable s then s
      else case run_statements (sync_statements days) s of None \<Rightarrow> s | Some s' \<Rightarrow> s')"

lemma drop_key_get [simp]: "map_of (drop_key k d) j = (if j = k then None else map_of d j)"
  by (induction d) (auto simp: drop_key_def)

lemma sync_runs:
  "sample_is_hypertable s \<Longrightarrow> \<exists>s'. run_statements (sync_statements days) s = Some s' \<and>
     s'\<lparr>sc_retention := sc_retention s\<rparr> = s \<and>
     map_of (sc_retention s') = (map_of (sc_retention s))(''sample'' := if days > 0 then Some days else None)"
  by (auto simp: sample_is_hypertable_def sync_statements_def fun_eq_iff)

subsection \<open>Properties\<close>


text \<open>
  The columns added for the alarms can be taken back: on any schema whose constraints and indexes are
  over columns of their tables, if the third migration is accepted, its downgrade is accepted and
  gives back the schema it started from, the order of tables, columns and indexes included.
\<close>

theorem alarm_columns_undone:
  assumes "schema_wf s" "run_statements upgrade_alarms s = Some s'"
  shows "run_statements downgrade_alarms s' = Some s"
  using assms by (rule alarms_undone)

definition before_alarms :: schema where
  "before_alarms = the (run_statements (upgrade_initial @ upgrade_sample) no_schema)"

lemma before_alarms_wf: "schema_wf before_alarms"
  by code_simp

lemma before_alarms_accepts:
  "run_statements upgrade_alarms before_alarms = Some (the (run_statements upgrade_alarms before_alarms))"
proof -
  have "run_statements upgrade_alarms before_alarms \<noteq> None" by code_simp
  then show ?thesis by auto
qed

lemma alarm_columns_undone_witness:
  "run_statements downgrade_alarms (the (run_statements upgrade_alarms before_alarms)) = Some before_alarms"
  using before_alarms_wf before_alarms_accepts by (rule alarm_columns_undone)

text \<open>
  The retention of the history is the one configured: when the service starts on a database whose
  table of samples is partitioned, the policy in force afterwards is the configured number of days,
  none when it is not positive, whatever policy was there before; nothing else of the schema changes, and nothing at
  all when the table is not partitioned or the extension is missing. The setting of the last start wins.
\<close>

theorem retention_in_force:
  "map_of (sc_retention (sync_retention days s)) =
     (if sample_is_hypertable s
      then (map_of (sc_retention s))(''sample'' := if days > 0 then Some days else None)
      else map_of (sc_retention s)) \<and>
   (sync_retention days s)\<lparr>sc_retention := sc_retention s\<rparr> = s \<and>
   map_of (sc_retention (sync_retention days (sync_retention days' s))) = map_of (sc_retention (sync_retention days s))"
proof -
  have rest: "(sync_retention d s)\<lparr>sc_retention := sc_retention s\<rparr> = s" for d
    using sync_runs [of s d] by (auto simp: sync_retention_def)
  have same: "sample_is_hypertable (sync_retention d s) = sample_is_hypertable s" for d
    using arg_cong [OF rest, of sample_is_hypertable d] by (simp add: sample_is_hypertable_def has_timescale_def)
  have kept: "map_of (sc_retention (sync_retention d r)) =
     (if sample_is_hypertable r
      then (map_of (sc_retention r))(''sample'' := if d > 0 then Some d else None)
      else map_of (sc_retention r))" for d r
    using sync_runs [of r d] by (auto simp: sync_retention_def)
  show ?thesis by (simp only: kept same rest) (simp add: fun_eq_iff)
qed

end
