(* ===== verification/Api_Service.thy ===== *)
theory Api_Service
  imports Api_Roles Api_Auth Alarm_Messages Schema
begin

section \<open>Configuration and start of the API\<close>

text \<open>
  \<open>app/common/config.py\<close>, \<open>app/api/main.py\<close> and the cookies of \<open>app/api/routes/auth.py\<close>: the settings and what each
  service takes of them, what the API refuses to start with, the attributes of its cookies and which requests carry
  them, and what is mounted behind the routes. Reading the environment is left to pydantic; the path
  matching of cookies is that of RFC 6265, of routes and mounts that of Starlette.
\<close>

subsection \<open>Settings\<close>

record settings =
  st_database_url :: string
  st_redis_url :: string
  st_jwt_secret :: "string option"
  st_log_level :: string
  st_retention_days :: int
  st_smtp_host :: "string option"
  st_smtp_port :: int
  st_smtp_user :: "string option"
  st_smtp_password :: "string option"
  st_bacnet_bind_ip :: "string option"
  st_smtp_starttls :: bool
  st_alarm_email_from :: string
  st_alarm_email_to :: string
  st_alarm_digest_threshold :: int
  st_alarm_digest_window_s :: time
  st_cookie_secure :: bool
  st_login_max_failures :: int
  st_login_window_s :: int
  st_login_lock_s :: int
  st_access_token_minutes :: int
  st_refresh_token_days :: int
  st_write_timeout_s :: time
  st_frontend_dir :: "string option"

definition default_settings :: settings where
  "default_settings =
     \<lparr>st_database_url = ''postgresql+asyncpg://supervisor@localhost:5432/supervisor'',
      st_redis_url = ''redis://localhost:6379/0'', st_jwt_secret = None, st_log_level = ''INFO'',
      st_retention_days = 730, st_smtp_host = None, st_smtp_port = 587, st_smtp_user = None,
      st_smtp_password = None, st_bacnet_bind_ip = None, st_smtp_starttls = True,
      st_alarm_email_from = ''supervision@localhost'', st_alarm_email_to = [],
      st_alarm_digest_threshold = 20, st_alarm_digest_window_s = 60, st_cookie_secure = True,
      st_login_max_failures = 5, st_login_window_s = 900, st_login_lock_s = 900,
      st_access_token_minutes = 15, st_refresh_token_days = 7, st_write_timeout_s = 10,
      st_frontend_dir = None\<rparr>"

definition build_notifier :: "settings \<Rightarrow> string set \<times> notifier" where
  "build_notifier st =
     (senders (st_smtp_host st),
      notifier_init (default_email (st_alarm_email_to st)) (st_alarm_digest_threshold st) (st_alarm_digest_window_s st))"

definition login_guard :: "settings \<Rightarrow> guard" where
  "login_guard st =
     \<lparr>gd_max = st_login_max_failures st, gd_window = st_login_window_s st, gd_lock = st_login_lock_s st\<rparr>"

definition auth_settings_of :: "settings \<Rightarrow> auth_settings" where
  "auth_settings_of st =
     \<lparr>as_access_minutes = st_access_token_minutes st, as_refresh_days = st_refresh_token_days st,
      as_guard = login_guard st\<rparr>"

subsection \<open>Start\<close>

definition MIN_JWT_SECRET_LENGTH :: nat where "MIN_JWT_SECRET_LENGTH = 32"

text \<open>\<open>None\<close> is the \<open>RuntimeError\<close>.\<close>

definition jwt_secret :: "settings \<Rightarrow> string option" where
  "jwt_secret st =
     (case st_jwt_secret st of
        None \<Rightarrow> None
      | Some s \<Rightarrow> if length s < MIN_JWT_SECRET_LENGTH then None else Some s)"

text \<open>
  \<open>lifespan\<close>: without a secret the service does not start; a failure of the database while the retention is set
  up is logged and the service starts. The result is \<open>use_time_bucket\<close> and the database.
\<close>

definition lifespan :: "settings \<Rightarrow> bool \<Rightarrow> bool \<Rightarrow> schema \<Rightarrow> (bool \<times> schema) option" where
  "lifespan st look_fails sync_fails db =
     (case jwt_secret st of
        None \<Rightarrow> None
      | Some _ \<Rightarrow>
          Some (if look_fails then (False, db)
                else (has_timescale db, if sync_fails then db else sync_retention (st_retention_days st) db)))"

lemma starts_with_secret:
  "lifespan st look_fails sync_fails db \<noteq> None \<longleftrightarrow> (\<exists>s. st_jwt_secret st = Some s \<and> 32 \<le> length s)"
  by (auto simp: lifespan_def jwt_secret_def MIN_JWT_SECRET_LENGTH_def not_less split: option.splits)

lemma default_settings_refused: "lifespan default_settings look_fails sync_fails db = None"
  by (simp add: lifespan_def jwt_secret_def default_settings_def)

subsection \<open>Cookies\<close>

definition ACCESS_COOKIE :: string where "ACCESS_COOKIE = ''access_token''"
definition REFRESH_COOKIE :: string where "REFRESH_COOKIE = ''refresh_token''"

record cookie =
  ke_name :: string
  ke_max_age :: int
  ke_path :: string
  ke_http_only :: bool
  ke_secure :: bool
  ke_same_site :: string

definition access_cookie :: "settings \<Rightarrow> cookie" where
  "access_cookie st =
     \<lparr>ke_name = ACCESS_COOKIE, ke_max_age = 60 * st_access_token_minutes st, ke_path = ''/api'',
      ke_http_only = True, ke_secure = st_cookie_secure st, ke_same_site = ''strict''\<rparr>"

definition refresh_cookie :: "settings \<Rightarrow> cookie" where
  "refresh_cookie st =
     \<lparr>ke_name = REFRESH_COOKIE, ke_max_age = 86400 * st_refresh_token_days st, ke_path = ''/api/v1/auth'',
      ke_http_only = True, ke_secure = st_cookie_secure st, ke_same_site = ''strict''\<rparr>"

text \<open>\<open>delete_cookie\<close> names a cookie and a path: it removes the cookie set with both.\<close>

definition logout_deletes :: "(string \<times> string) list" where
  "logout_deletes = [(ACCESS_COOKIE, ''/api''), (REFRESH_COOKIE, ''/api/v1/auth'')]"

lemma logout_removes_both:
  "map (\<lambda>c. (ke_name c, ke_path c)) [access_cookie st, refresh_cookie st] = logout_deletes"
  by (simp add: logout_deletes_def access_cookie_def refresh_cookie_def)

text \<open>The path-match of RFC 6265, for a cookie path that does not end with a slash.\<close>

definition path_match :: "string \<Rightarrow> string \<Rightarrow> bool" where
  "path_match cookie_path url \<longleftrightarrow>
     starts_with cookie_path url \<and>
     (length url = length cookie_path \<or> url ! length cookie_path = CHR ''/'')"

subsection \<open>Which requests carry which cookie\<close>

lemma pieces_prefix:
  "pieces c url = pieces c cp @ rest \<Longrightarrow> \<exists>r. url = cp @ r \<and> (r = [] \<or> hd r = c)"
proof (induction cp arbitrary: url)
  case Nil
  then show ?case by (cases url) (auto simp: pieces_once split: list.splits if_splits)
next
  case (Cons x cp)
  have ne: "pieces c cp \<noteq> []" by (simp add: pieces_ne)
  show ?case
  proof (cases url)
    case Nil
    with Cons.prems ne show ?thesis by (auto simp: pieces_once split: list.splits if_splits)
  next
    case (Cons y u)
    obtain p ps where p: "pieces c cp = p # ps" using ne by (cases "pieces c cp") auto
    obtain q qs where q: "pieces c u = q # qs" using pieces_ne [of c u] by (cases "pieces c u") auto
    have "y = x \<and> pieces c u = pieces c cp @ rest"
      using Cons.prems unfolding Cons pieces_once p q by (auto split: if_splits)
    with Cons.IH [of u] Cons show ?thesis by auto
  qed
qed

lemma pieces_split: "pieces c (xs @ c # ys) = pieces c xs @ pieces c ys"
  by (induction xs) (auto simp: pieces_once pieces_ne split: list.splits)

text \<open>The path-match reads the segments.\<close>

lemma path_match_segments: "path_match cp url \<longleftrightarrow> (\<exists>rest. segments url = segments cp @ rest)"
proof
  assume m: "path_match cp url"
  define r where "r = drop (length cp) url"
  have url: "url = cp @ r"
    using m append_take_drop_id [of "length cp" url] by (simp add: path_match_def starts_with_def r_def)
  then have "r = [] \<or> (\<exists>r'. r = CHR ''/'' # r')"
    using m by (cases r) (auto simp: path_match_def)
  with url show "\<exists>rest. segments url = segments cp @ rest" by (auto simp: segments_def pieces_split)
next
  assume "\<exists>rest. segments url = segments cp @ rest"
  then obtain rest where "pieces CHR ''/'' url = pieces CHR ''/'' cp @ rest" unfolding segments_def ..
  from pieces_prefix [OF this] obtain r where "url = cp @ r" "r = [] \<or> hd r = CHR ''/''" by metis
  then show "path_match cp url" by (cases r) (auto simp: path_match_def starts_with_def)
qed

text \<open>The first four segments of the declared routes are literal, and say which cookies reach them.\<close>

definition literal_start :: "api_route \<Rightarrow> string list" where
  "literal_start r = take 4 (segments (API_PREFIX @ rt_path r))"

lemma route_starts:
  "list_all (\<lambda>r. list_all (\<lambda>s. \<not> wildcard s) (literal_start r) \<and> take 2 (literal_start r) = segments ''/api'' \<and>
     (literal_start r = segments ''/api/v1/auth'') = (r \<in> {r_login, r_refresh, r_logout, r_me})) routes"
  by code_simp

lemma matched_start:
  assumes "r \<in> set routes" "matches (API_PREFIX @ rt_path r) url"
  shows "take 4 (segments url) = literal_start r"
proof -
  have "list_all2 (\<lambda>s x. if wildcard s then x \<noteq> [] else s = x) (literal_start r) (take 4 (segments url))"
    using assms(2) unfolding matches_def literal_start_def by (rule list_all2_takeI)
  moreover have "list_all (\<lambda>s. \<not> wildcard s) (literal_start r)"
    using route_starts assms(1) by (simp only: list_all_iff) blast
  ultimately show ?thesis
    by (intro nth_equalityI) (auto simp: list_all2_conv_all_nth list_all_length)
qed

lemma path_match_take:
  "path_match cp url \<longleftrightarrow> take (length (segments cp)) (segments url) = segments cp"
  unfolding path_match_segments by (metis append_eq_conv_conj append_take_drop_id)

text \<open>
  C32. The tokens go where they are needed and nowhere else: whatever the address of a request to a declared
  route, the browser sends it the access token, while the refresh token, which lives for days, only
  reaches the four routes of authentication; both cookies are out of reach of scripts and of
  requests from other sites, and live as long as the token they hold.
\<close>

theorem tokens_reach_routes:
  assumes "r \<in> set routes" "matches (API_PREFIX @ rt_path r) url"
  shows "path_match (ke_path (access_cookie st)) url \<and>
    (path_match (ke_path (refresh_cookie st)) url \<longleftrightarrow> r \<in> {r_login, r_refresh, r_logout, r_me}) \<and>
    list_all (\<lambda>c. ke_http_only c \<and> ke_same_site c = ''strict'') [access_cookie st, refresh_cookie st] \<and>
    map ke_max_age [access_cookie st, refresh_cookie st] =
      [60 * as_access_minutes (auth_settings_of st), 86400 * as_refresh_days (auth_settings_of st)]"
proof -
  have start: "take 2 (literal_start r) = segments ''/api''"
    "literal_start r = segments ''/api/v1/auth'' \<longleftrightarrow> r \<in> {r_login, r_refresh, r_logout, r_me}"
    using route_starts assms(1) unfolding list_all_iff by blast+
  have len: "length (segments ''/api'') = 2" "length (segments ''/api/v1/auth'') = 4" by code_simp+
  have "take 2 (segments url) = take 2 (take 4 (segments url))" by simp
  then have "path_match ''/api'' url" "path_match ''/api/v1/auth'' url \<longleftrightarrow> r \<in> {r_login, r_refresh, r_logout, r_me}"
    unfolding path_match_take len matched_start [OF assms] using start by simp_all
  then show ?thesis by (simp add: access_cookie_def refresh_cookie_def auth_settings_of_def)
qed

theorem tokens_reach_routes_witness:
  "path_match (ke_path (access_cookie default_settings)) ''/api/v1/points/7'' \<and>
   \<not> path_match (ke_path (refresh_cookie default_settings)) ''/api/v1/points/7''"
proof -
  have "r_get_point \<in> set routes" by (simp add: routes_def API_MODULES_def)
  moreover have "matches (API_PREFIX @ rt_path r_get_point) ''/api/v1/points/7''" by code_simp
  moreover have "r_get_point \<notin> {r_login, r_refresh, r_logout, r_me}" by code_simp
  ultimately show ?thesis
    using tokens_reach_routes [of r_get_point "''/api/v1/points/7''" default_settings] by simp
qed

subsection \<open>What is mounted behind the routes\<close>

text \<open>
  \<open>create_app\<close>: the routes under \<open>API_PREFIX\<close>, the state of the services again at the root, then the compiled front
  end, if there is one. The pages of the documentation, which FastAPI adds itself, and the WebSocket are left out.
\<close>

datatype served = Api_Route api_route | Root_Health | Front_End | Not_Found

definition served_by :: "settings \<Rightarrow> (string \<Rightarrow> bool) \<Rightarrow> string \<Rightarrow> string \<Rightarrow> served" where
  "served_by st is_dir m url =
     (case handler_of m url of
        Some r \<Rightarrow> Api_Route r
      | None \<Rightarrow>
          if m = rt_method r_health \<and> matches (rt_path r_health) url then Root_Health
          else (case st_frontend_dir st of
              None \<Rightarrow> Not_Found
            | Some d \<Rightarrow> if d \<noteq> [] \<and> is_dir d then Front_End else Not_Found))"

text \<open>The front end hides no route, wherever it is mounted from.\<close>

lemma front_end_hides_nothing:
  assumes "r \<in> set routes" "matches (API_PREFIX @ rt_path r) url"
  shows "served_by st is_dir (rt_method r) url \<in> {Api_Route r, Api_Route r_points_tree}"
  using route_found [OF assms] by (simp add: served_by_def)

end
