(* ===== verification/Simulator.thy ===== *)
theory Simulator
  imports Collector_Survey Collector_Poller Number_Text
begin

section \<open>The simulated devices\<close>

text \<open>
  \<open>simulator/bacnet_sim\<close>: devices with a chosen number of points, faults that can be injected while
  they run, and the animation of their inputs; then what the collector's driver makes of such a
  device. The BACnet stack that serves the objects and the source of random numbers are parameters:
  random numbers are read from streams, by position.
\<close>

subsection \<open>Faults\<close>

record faults =
  fa_muted :: bool
  fa_latency_s :: time
  fa_error_response :: bool
  fa_no_rpm :: bool
  fa_no_cov :: bool
  fa_no_segmentation :: bool

definition no_faults :: faults where
  "no_faults = \<lparr>fa_muted = False, fa_latency_s = 0, fa_error_response = False, fa_no_rpm = False,
     fa_no_cov = False, fa_no_segmentation = False\<rparr>"

text \<open>A request, as far as the faults look at it.\<close>

datatype sim_request =
    Read_Property object_key string "nat option"
  | Read_Property_Multiple
  | Subscribe_COV
  | Other_Confirmed
  | Unconfirmed_Request

definition confirmed :: "sim_request \<Rightarrow> bool" where
  "confirmed req \<longleftrightarrow> req \<noteq> Unconfirmed_Request"

text \<open>\<open>_faulty_reply\<close>: the classes of \<open>Error\<close>, \<open>RejectPDU\<close> and \<open>AbortPDU\<close> with their reasons.\<close>

definition faulty_reply :: "faults \<Rightarrow> sim_request \<Rightarrow> bacnet_error option" where
  "faulty_reply f req =
     (if fa_error_response f then Some \<lparr>be_class = ''Error'', be_reason = ''operational-problem''\<rparr>
      else if (fa_no_rpm f \<and> req = Read_Property_Multiple) \<or> (fa_no_cov f \<and> req = Subscribe_COV)
      then Some \<lparr>be_class = ''RejectPDU'', be_reason = ''unrecognized-service''\<rparr>
      else (case req of
          Read_Property _ prop None \<Rightarrow>
            if fa_no_segmentation f \<and> prop = ''object-list''
            then Some \<lparr>be_class = ''AbortPDU'', be_reason = ''segmentation-not-supported''\<rparr> else None
        | _ \<Rightarrow> None))"

text \<open>
  \<open>indication\<close>: the seconds waited and what becomes of the request. Whether the device is mute is
  looked at when the request arrives (\<open>f0\<close>), the other faults after the wait (\<open>f1\<close>).
\<close>

datatype sim_action = Ignored | Replied bacnet_error | Passed_On

definition indication :: "faults \<Rightarrow> faults \<Rightarrow> sim_request \<Rightarrow> time \<times> sim_action" where
  "indication f0 f1 req =
     (if fa_muted f0 then (0, Ignored)
      else (if fa_latency_s f0 > 0 then fa_latency_s f0 else 0,
            if confirmed req then (case faulty_reply f1 req of Some e \<Rightarrow> Replied e | None \<Rightarrow> Passed_On)
            else Passed_On))"

text \<open>\<open>request\<close>: whether a message of the device (a notification) leaves.\<close>

definition sim_sends :: "faults \<Rightarrow> bool" where
  "sim_sends f = (\<not> fa_muted f)"

definition sim_services :: "faults \<Rightarrow> string list \<Rightarrow> string list" where
  "sim_services f services =
     List.filter (\<lambda>s. \<not> (fa_no_rpm f \<and> s = ''read-property-multiple'') \<and>
       \<not> (fa_no_cov f \<and> s = ''subscribe-cov'')) services"

text \<open>\<open>send_event\<close>: the notification that leaves, none from a mute device.\<close>

definition send_event :: "faults \<Rightarrow> int \<Rightarrow> string \<Rightarrow> int \<Rightarrow> string \<Rightarrow> string \<Rightarrow> event_apdu option" where
  "send_event f inst object_type number to_st from_st =
     (if sim_sends f
      then Some \<lparr>ev_device = inst, ev_object = (object_type, number), ev_to_state = to_st,
                 ev_from_state = Some from_st, ev_message = None\<rparr>
      else None)"

subsection \<open>Points\<close>

definition POINT_MIX :: "(string \<times> int) list" where
  "POINT_MIX =
     [(''analog-input'', 50), (''analog-output'', 20), (''analog-value'', 40), (''binary-input'', 30),
      (''binary-output'', 10), (''binary-value'', 20), (''multi-state-value'', 30)]"

definition mix_for :: "int \<Rightarrow> (string \<times> int) list" where
  "mix_for n =
     (let total = sum_list (map snd POINT_MIX);
          mix = map (\<lambda>(k, m). (k, n * m div total)) POINT_MIX
      in (fst (hd mix), snd (hd mix) + n - sum_list (map snd mix)) # tl mix)"

definition SIM_UNITS :: "string list" where
  "SIM_UNITS = [''degrees-celsius'', ''percent'', ''kilowatts'', ''pascals'', ''percent-relative-humidity'']"

definition STATE_TEXT :: "string list" where
  "STATE_TEXT = [''Arret'', ''Reduit'', ''Confort'', ''Boost'']"

datatype sim_value = V_Text string | V_Number rat | V_Int int | V_Texts "string list" | V_Bits "int list"

record sim_object =
  so_key :: object_key
  so_props :: "(string, sim_value) dict"

text \<open>The animated points: their object and the shape of their wave.\<close>

record sim_point =
  sp_key :: object_key
  sp_base :: rat
  sp_amplitude :: rat
  sp_phase :: rat

definition upper_char :: "char \<Rightarrow> char" where
  "upper_char c = (let n = of_char c :: nat in if 97 \<le> n \<and> n \<le> 122 then char_of (n - 32) else c)"

definition short_of :: "string \<Rightarrow> string" where
  "short_of k = map upper_char (map hd (pieces CHR ''-'' k))"

definition padded :: "nat \<Rightarrow> nat \<Rightarrow> string" where
  "padded w n = replicate (w - length (nat_str n)) CHR ''0'' @ nat_str n"

definition round2 :: "rat \<Rightarrow> rat" where
  "round2 q = of_int (round_even (q * 100)) / 100"

definition uniform :: "(nat \<Rightarrow> rat) \<Rightarrow> nat \<Rightarrow> rat \<Rightarrow> rat \<Rightarrow> rat" where
  "uniform draws i a b = a + (b - a) * draws i"

text \<open>\<open>_make_object\<close>: the object, the point it animates if any, and the position in the stream.\<close>

definition make_object ::
  "int \<Rightarrow> (nat \<Rightarrow> rat) \<Rightarrow> nat \<Rightarrow> string \<Rightarrow> nat \<Rightarrow> sim_object \<times> sim_point list \<times> nat" where
  "make_object inst draws i k n =
     (let key = (k, int n);
          common = [(''object-name'', V_Text (''D'' @ int_str inst @ ''-'' @ short_of k @ ''-'' @ padded 3 n)),
                    (''description'', V_Text (''Point simule '' @ short_of k @ '' '' @ nat_str n)),
                    (''status-flags'', V_Bits [0, 0, 0, 0])]
      in if starts_with ''analog'' k then
           (let base = uniform draws i 10 30;
                ob = \<lparr>so_key = key, so_props = common @
                  [(''units'', V_Text (SIM_UNITS ! ((n - 1) mod length SIM_UNITS))),
                   (''present-value'', V_Number (round2 base)), (''cov-increment'', V_Number (1 / 2))]\<rparr>
            in if k = ''analog-input''
               then (ob, [\<lparr>sp_key = key, sp_base = base, sp_amplitude = uniform draws (i + 1) (1 / 2) 5,
                           sp_phase = uniform draws (i + 2) 0 (628 / 100)\<rparr>], i + 3)
               else (ob, [], i + 1))
         else if starts_with ''binary'' k then
           (\<lparr>so_key = key, so_props = common @ [(''present-value'', V_Text ''inactive'')]\<rparr>,
            if k = ''binary-input'' then [\<lparr>sp_key = key, sp_base = 0, sp_amplitude = 0, sp_phase = 0\<rparr>] else [], i)
         else
           (\<lparr>so_key = key, so_props = common @
              [(''number-of-states'', V_Int (int (length STATE_TEXT))), (''state-text'', V_Texts STATE_TEXT),
               (''present-value'', V_Int 1)]\<rparr>,
            [\<lparr>sp_key = key, sp_base = 0, sp_amplitude = 0, sp_phase = 0\<rparr>], i))"

fun make_objects ::
  "int \<Rightarrow> (nat \<Rightarrow> rat) \<Rightarrow> nat \<Rightarrow> string list \<Rightarrow> (string, nat) dict \<Rightarrow> sim_object list \<times> sim_point list" where
  "make_objects inst draws i [] counters = ([], [])"
| "make_objects inst draws i (k # ks) counters =
     (let n = (case map_of counters k of None \<Rightarrow> 0 | Some m \<Rightarrow> m) + 1;
          (ob, pts, i') = make_object inst draws i k n;
          (obs, pts') = make_objects inst draws i' ks (AList.update k n counters)
      in (ob # obs, pts @ pts'))"

text \<open>The loops of \<open>_build\<close>: a range of a negative length is empty.\<close>

definition build_points :: "int \<Rightarrow> (nat \<Rightarrow> rat) \<Rightarrow> int \<Rightarrow> sim_object list \<times> sim_point list" where
  "build_points inst draws n =
     make_objects inst draws 0 (concat (map (\<lambda>(k, m). replicate (nat m) k) (mix_for n))) []"

text \<open>The objects of the device: itself, its network port, its points.\<close>

definition build :: "int \<Rightarrow> (nat \<Rightarrow> rat) \<Rightarrow> int \<Rightarrow> sim_object list" where
  "build inst draws n =
     [\<lparr>so_key = (''device'', inst), so_props = [(''object-name'', V_Text (''SIM-'' @ int_str inst)),
        (''vendor-identifier'', V_Int 999), (''model-name'', V_Text ''BACnet-Sim'')]\<rparr>,
      \<lparr>so_key = (''network-port'', 1), so_props = [(''object-name'', V_Text ''NetworkPort-1''),
        (''network-number'', V_Int 0), (''network-number-quality'', V_Text ''unknown'')]\<rparr>] @
     fst (build_points inst draws n)"

subsection \<open>Simulators\<close>

record sim_device =
  sd_instance :: int
  sd_address :: string
  sd_objects :: "sim_object list"
  sd_points :: "sim_point list"

definition sim_device_init :: "int \<Rightarrow> string \<Rightarrow> int \<Rightarrow> int \<Rightarrow> (nat \<Rightarrow> rat) \<Rightarrow> sim_device" where
  "sim_device_init inst host port n draws =
     \<lparr>sd_instance = inst, sd_address = host @ '':'' @ int_str port,
      sd_objects = build inst draws n, sd_points = snd (build_points inst draws n)\<rparr>"

text \<open>Each device has its own generator, seeded with its instance.\<close>

definition simulator :: "nat \<Rightarrow> int \<Rightarrow> string \<Rightarrow> int \<Rightarrow> int \<Rightarrow> (int \<Rightarrow> nat \<Rightarrow> rat) \<Rightarrow> sim_device list" where
  "simulator devices n host base_port first_instance seeded =
     map (\<lambda>i. sim_device_init (first_instance + int i) host (base_port + int i) n (seeded (first_instance + int i)))
       [0..<devices]"

subsection \<open>Animation\<close>

text \<open>
  One pass of \<open>animate\<close> over the points. \<open>draws\<close>, \<open>gauss\<close> and \<open>states\<close> are what \<open>random\<close>, \<open>gauss\<close> and
  \<open>randint(1, 4)\<close> return at a position, \<open>sine\<close> is \<open>math.sin\<close>; \<open>values\<close> are the present values.
\<close>

record rng =
  rg_random :: "nat \<Rightarrow> rat"
  rg_gauss :: "nat \<Rightarrow> rat"
  rg_state :: "nat \<Rightarrow> int"

definition animate_point ::
  "rng \<Rightarrow> (rat \<Rightarrow> rat) \<Rightarrow> time \<Rightarrow> sim_point \<Rightarrow> (object_key, sim_value) dict \<times> nat \<Rightarrow>
   (object_key, sim_value) dict \<times> nat" where
  "animate_point rg sine elapsed p st =
     (let (values, i) = st; key = sp_key p; k = fst key in
      if k = ''analog-input'' then
        (AList.update key (V_Number (round2 (sp_base p + sp_amplitude p * sine (elapsed / 30 + sp_phase p) + rg_gauss rg i))) values, i + 1)
      else if k = ''binary-input'' \<and> rg_random rg i < 2 / 100 then
        (AList.update key (V_Text (if map_of values key = Some (V_Text ''active'') then ''inactive'' else ''active'')) values, i + 1)
      else if k = ''binary-input'' then (values, i + 1)
      else if k = ''multi-state-value'' \<and> rg_random rg i < 2 / 100 then
        (AList.update key (V_Int (rg_state rg (i + 1))) values, i + 2)
      else if k = ''multi-state-value'' then (values, i + 1)
      else (values, i))"

definition animate_tick ::
  "rng \<Rightarrow> (rat \<Rightarrow> rat) \<Rightarrow> sim_point list \<Rightarrow> time \<Rightarrow> (object_key, sim_value) dict \<times> nat \<Rightarrow>
   (object_key, sim_value) dict \<times> nat" where
  "animate_tick rg sine ps elapsed st = fold (animate_point rg sine elapsed) ps st"

subsection \<open>The points of a device\<close>

lemma mix_for_kinds: "map fst (mix_for n) = map fst POINT_MIX"
  by (simp add: mix_for_def POINT_MIX_def Let_def)

lemma mix_for_total: "sum_list (map snd (mix_for n)) = n"
  by (simp add: mix_for_def POINT_MIX_def Let_def)

lemma mix_for_nonneg:
  assumes "0 \<le> n" shows "list_all (\<lambda>m. 0 \<le> m) (map snd (mix_for n))"
proof -
  let ?q = "\<lambda>m. n * m div 200"
  have m: "map snd (mix_for n) =
      [?q 50 + n - (?q 50 + (?q 20 + (?q 40 + (?q 30 + (?q 10 + (?q 20 + ?q 30)))))),
       ?q 20, ?q 40, ?q 30, ?q 10, ?q 20, ?q 30]"
    by (simp add: mix_for_def POINT_MIX_def Let_def)
  have q: "0 \<le> ?q m" "200 * ?q m \<le> n * m" if "0 \<le> m" for m
    using assms that by (simp_all add: pos_imp_zdiv_nonneg_iff)
  have "0 \<le> ?q 50 + n - (?q 50 + (?q 20 + (?q 40 + (?q 30 + (?q 10 + (?q 20 + ?q 30))))))"
    using q(2) [of 50] q(2) [of 20] q(2) [of 40] q(2) [of 30] q(2) [of 10] assms by linarith
  then show ?thesis using q(1) by (simp only: m list.pred_inject simp_thms zero_le_numeral)
qed

text \<open>The identifiers of the points, kind by kind, numbered from 1.\<close>

definition sim_keys :: "int \<Rightarrow> object_key list" where
  "sim_keys n = concat (map (\<lambda>(k, m). map (\<lambda>j. (k, int j)) [1..<Suc (nat m)]) (mix_for n))"

fun numbered :: "string list \<Rightarrow> (string, nat) dict \<Rightarrow> object_key list" where
  "numbered [] counters = []"
| "numbered (k # ks) counters =
     (let n = (case map_of counters k of None \<Rightarrow> 0 | Some m \<Rightarrow> m) + 1
      in (k, int n) # numbered ks (AList.update k n counters))"

lemma make_object_key [simp]: "so_key (fst (make_object inst draws i k n)) = (k, int n)"
  by (simp add: make_object_def Let_def)

lemma make_objects_keys: "map so_key (fst (make_objects inst draws i ks counters)) = numbered ks counters"
  by (induction ks arbitrary: i counters) (simp_all add: Let_def split_beta)

lemma numbered_replicate:
  "map_of counters k = (if c = 0 then None else Some c) \<Longrightarrow>
   \<exists>counters'. map_of counters' = (map_of counters)(k := if c + m = 0 then None else Some (c + m)) \<and>
     numbered (replicate m k @ ks) counters = map (\<lambda>j. (k, int j)) [Suc c..<Suc (c + m)] @ numbered ks counters'"
proof (induction m arbitrary: c counters)
  case 0
  then show ?case by (intro exI [of _ counters]) auto
next
  case (Suc m)
  let ?c = "AList.update k (Suc c) counters"
  have "map_of ?c k = (if Suc c = 0 then None else Some (Suc c))" by simp
  from Suc.IH [OF this] obtain counters' where
    "map_of counters' = (map_of ?c)(k := if Suc c + m = 0 then None else Some (Suc c + m))"
    "numbered (replicate m k @ ks) ?c = map (\<lambda>j. (k, int j)) [Suc (Suc c)..<Suc (Suc c + m)] @ numbered ks counters'"
    by blast
  moreover have "numbered (replicate (Suc m) k @ ks) counters =
      (k, int (Suc c)) # numbered (replicate m k @ ks) ?c"
    using Suc.prems by (auto simp: Let_def)
  moreover have "[Suc c..<Suc (c + Suc m)] = Suc c # [Suc (Suc c)..<Suc (Suc c + m)]"
    by (simp add: upt_conv_Cons del: upt_Suc)
  moreover have "(map_of ?c)(k := if Suc c + m = 0 then None else Some (Suc c + m)) =
      (map_of counters)(k := if c + Suc m = 0 then None else Some (c + Suc m))"
    by auto
  ultimately show ?case by (intro exI [of _ counters']) (simp del: upt_Suc)
qed

lemma numbered_mix:
  "distinct (map fst mix) \<Longrightarrow> \<forall>k \<in> set (map fst mix). map_of counters k = None \<Longrightarrow>
   numbered (concat (map (\<lambda>(k, m). replicate (nat m) k) mix)) counters =
     concat (map (\<lambda>(k, m). map (\<lambda>j. (k, int j)) [1..<Suc (nat m)]) mix)"
proof (induction mix arbitrary: counters)
  case (Cons x mix)
  obtain k m where x: "x = (k, m)" by (cases x)
  have "map_of counters k = (if (0 :: nat) = 0 then None else Some 0)" using Cons.prems x by simp
  from numbered_replicate [OF this, of "nat m" "concat (map (\<lambda>(k, m). replicate (nat m) k) mix)"]
  obtain counters' where c: "map_of counters' = (map_of counters)(k := if 0 + nat m = 0 then None else Some (0 + nat m))"
    "numbered (replicate (nat m) k @ concat (map (\<lambda>(k, m). replicate (nat m) k) mix)) counters =
      map (\<lambda>j. (k, int j)) [Suc 0..<Suc (0 + nat m)] @ numbered (concat (map (\<lambda>(k, m). replicate (nat m) k) mix)) counters'"
    by blast
  have "\<forall>k' \<in> set (map fst mix). map_of counters' k' = None" using Cons.prems x c(1) by auto
  then show ?case using Cons.IH [of counters'] Cons.prems c(2) x by simp
qed simp

lemma distinct_kinds: "distinct (map fst (mix_for n))"
  by (simp add: mix_for_kinds) (simp add: POINT_MIX_def)

lemma build_points_keys: "map so_key (fst (build_points inst draws n)) = sim_keys n"
  unfolding build_points_def make_objects_keys sim_keys_def
  by (rule numbered_mix) (simp_all add: distinct_kinds)

lemma length_sim_keys: "0 \<le> n \<Longrightarrow> length (sim_keys n) = nat n"
proof -
  assume "0 \<le> n"
  then have nn: "list_all (\<lambda>m. 0 \<le> m) (map snd (mix_for n))" by (rule mix_for_nonneg)
  have "int (length (concat (map (\<lambda>(k, m). map (\<lambda>j. (k, int j)) [1..<Suc (nat m)]) mix))) = sum_list (map snd mix)"
    if "list_all (\<lambda>m. 0 \<le> m) (map snd mix)" for mix :: "(string \<times> int) list"
    using that by (induction mix) auto
  from this [OF nn] show ?thesis by (simp add: sim_keys_def mix_for_total)
qed

lemma distinct_sim_keys: "distinct (sim_keys n)"
proof -
  have "distinct (concat (map (\<lambda>(k, m). map (\<lambda>j. (k, int j)) [1..<Suc (nat m)]) mix))"
    if "distinct (map fst mix)" for mix :: "(string \<times> int) list"
    using that
  proof (induction mix)
    case (Cons x mix)
    obtain k m where x: "x = (k, m)" by (cases x)
    have "fst key \<in> set (map fst mix)"
      if "key \<in> set (concat (map (\<lambda>(k, m). map (\<lambda>j. (k, int j)) [1..<Suc (nat m)]) mix))" for key
      using that by force
    then have "set (map (\<lambda>j. (k, int j)) [1..<Suc (nat m)]) \<inter>
        set (concat (map (\<lambda>(k, m). map (\<lambda>j. (k, int j)) [1..<Suc (nat m)]) mix)) = {}"
      using Cons.prems x by fastforce
    moreover have "distinct (map (\<lambda>j. (k, int j)) [1..<Suc (nat m)])"
      by (simp add: distinct_map inj_on_def del: upt_Suc)
    ultimately show ?case using Cons x by (simp del: upt_Suc)
  qed simp
  from this [OF distinct_kinds] show ?thesis by (simp add: sim_keys_def)
qed

lemma sim_keys_kinds: "key \<in> set (sim_keys n) \<Longrightarrow> fst key \<in> set (map fst POINT_MIX)"
  unfolding mix_for_kinds [of n, symmetric] by (force simp: sim_keys_def)

lemma sim_keys_imported: "key \<in> set (sim_keys n) \<Longrightarrow> fst key \<in> set IMPORTED_TYPES"
  using sim_keys_kinds [of key n] by (auto simp: POINT_MIX_def IMPORTED_TYPES_def)

subsection \<open>A simulated device behind its faults\<close>

text \<open>
  What the collector receives: nothing in time from a mute device or one slower than its patience,
  the injected error, or what the stack answers.
\<close>

definition behind :: "faults \<Rightarrow> time \<Rightarrow> sim_request \<Rightarrow> 'a net \<Rightarrow> 'a net" where
  "behind f patience req answer =
     (case indication f f req of
        (wait, action) \<Rightarrow>
          if patience \<le> wait then Net_Timeout
          else (case action of Ignored \<Rightarrow> Net_Timeout | Replied e \<Rightarrow> Net_Error e | Passed_On \<Rightarrow> answer))"

definition sim_one :: "faults \<Rightarrow> time \<Rightarrow> read_one \<Rightarrow> read_one" where
  "sim_one f patience one = (\<lambda>key p. behind f patience (Read_Property key p None) (one key p))"

definition sim_rpm :: "faults \<Rightarrow> time \<Rightarrow> read_rpm \<Rightarrow> read_rpm" where
  "sim_rpm f patience rpm = (\<lambda>w. behind f patience Read_Property_Multiple (rpm w))"

definition sim_list ::
  "faults \<Rightarrow> time \<Rightarrow> int \<Rightarrow> object_key list net \<Rightarrow> int net \<Rightarrow> (nat \<Rightarrow> object_key net) \<Rightarrow>
   driver_error + object_key list" where
  "sim_list f patience inst whole count entry =
     object_list (behind f patience (Read_Property (''device'', inst) ''object-list'' None) whole)
       (behind f patience (Read_Property (''device'', inst) ''object-list'' (Some 0)) count)
       (\<lambda>j. behind f patience (Read_Property (''device'', inst) ''object-list'' (Some j)) (entry j))"

text \<open>
  The BACnet stack is not part of the repository. What is relied on: it answers with the properties the
  objects were given (\<open>view\<close> is the driver's view of a value), answers many readings as it answers
  each, and lists the objects it was given.
\<close>

definition stack_serves ::
  "(sim_value \<Rightarrow> prop_value) \<Rightarrow> sim_object list \<Rightarrow> read_one \<Rightarrow> read_rpm \<Rightarrow> object_key list net \<Rightarrow>
   int net \<Rightarrow> (nat \<Rightarrow> object_key net) \<Rightarrow> bool" where
  "stack_serves view objs one rpm whole count entry \<longleftrightarrow>
     (\<forall>v. \<not> pv_error (view v)) \<and>
     (\<forall>ob \<in> set objs. \<forall>p v. map_of (so_props ob) p = Some v \<longrightarrow> one (so_key ob) p = Net_Ok (view v)) \<and>
     (\<forall>w. rpm w = Net_Ok (rpm_answer one w)) \<and>
     whole = Net_Ok (map so_key objs) \<and> count = Net_Ok (int (length objs)) \<and>
     (\<forall>j < length objs. entry (Suc j) = Net_Ok (so_key (objs ! j)))"

definition sim_info :: "(sim_value \<Rightarrow> prop_value) \<Rightarrow> sim_object \<Rightarrow> object_info" where
  "sim_info view ob = object_of (so_key ob) (map (\<lambda>(p, v). (p, view v)) (so_props ob))"

text \<open>An object has exactly the properties an inventory asks of its type.\<close>

definition asked_or_absent :: "sim_object \<Rightarrow> string \<Rightarrow> bool" where
  "asked_or_absent ob p \<longleftrightarrow>
     (p \<in> set (discovery_props (fst (so_key ob))) \<longleftrightarrow> map_of (so_props ob) p \<noteq> None)"

definition sim_props :: "string \<Rightarrow> string list" where
  "sim_props k = [''object-name'', ''description'', ''status-flags''] @
     (if starts_with ''analog'' k then [''units'', ''present-value'', ''cov-increment'']
      else if starts_with ''binary'' k then [''present-value'']
      else [''number-of-states'', ''state-text'', ''present-value''])"

lemma make_object_names: "map fst (so_props (fst (make_object inst draws i k n))) = sim_props k"
  by (simp add: make_object_def Let_def sim_props_def)

lemma sim_props_asked:
  "list_all (\<lambda>k. list_all (\<lambda>p. (p \<in> set (discovery_props k)) = (p \<in> set (sim_props k)))
     [''object-name'', ''description'', ''units'', ''state-text'', ''present-value'', ''status-flags''])
   (map fst POINT_MIX)"
  by code_simp

lemma make_object_props:
  assumes "k \<in> set (map fst POINT_MIX)"
  shows "list_all (asked_or_absent (fst (make_object inst draws i k n)))
    [''object-name'', ''description'', ''units'', ''state-text'', ''present-value'', ''status-flags'']"
proof -
  have "map_of (so_props (fst (make_object inst draws i k n))) p \<noteq> None \<longleftrightarrow> p \<in> set (sim_props k)" for p
    unfolding make_object_names [of inst draws i k n, symmetric] by (simp add: map_of_eq_None_iff)
  then have "asked_or_absent (fst (make_object inst draws i k n)) p \<longleftrightarrow>
      (p \<in> set (discovery_props k)) = (p \<in> set (sim_props k))" for p
    by (simp only: asked_or_absent_def make_object_key fst_conv)
  then have e: "asked_or_absent (fst (make_object inst draws i k n)) =
      (\<lambda>p. (p \<in> set (discovery_props k)) = (p \<in> set (sim_props k)))" by blast
  have "list_all Q xs \<Longrightarrow> x \<in> set xs \<Longrightarrow> Q x" for Q xs and x :: string by (simp add: list_all_iff)
  from this [OF sim_props_asked assms] show ?thesis unfolding e .
qed

lemma make_objects_made:
  "ob \<in> set (fst (make_objects inst draws i ks counters)) \<Longrightarrow>
   \<exists>i k n. ob = fst (make_object inst draws i k n) \<and> k \<in> set ks"
proof (induction ks arbitrary: i counters)
  case (Cons k ks)
  then show ?case by (auto simp: Let_def split_beta) blast+
qed simp

lemma build_points_props:
  assumes "ob \<in> set (fst (build_points inst draws n))"
    "p \<in> {''object-name'', ''description'', ''units'', ''state-text'', ''present-value'', ''status-flags''}"
  shows "p \<in> set (discovery_props (fst (so_key ob))) \<longleftrightarrow> map_of (so_props ob) p \<noteq> None"
proof -
  obtain i k m where ob: "ob = fst (make_object inst draws i k m)"
    "k \<in> set (concat (map (\<lambda>(k, m). replicate (nat m) k) (mix_for n)))"
    using make_objects_made assms(1) unfolding build_points_def by blast
  from ob(2) have "k \<in> set (map fst (mix_for n))" by (force simp: in_set_replicate)
  then have "k \<in> set (map fst POINT_MIX)" by (simp only: mix_for_kinds)
  from make_object_props [OF this, of inst draws i m] assms(2) show ?thesis
    by (auto simp: ob(1) asked_or_absent_def)
qed

lemma discovery_props_known:
  "set (discovery_props k) \<subseteq> {''object-name'', ''description'', ''units'', ''state-text'', ''present-value'', ''status-flags''}"
  by (simp add: discovery_props_def ANALOG_PROPS_def BINARY_PROPS_def MULTISTATE_PROPS_def)

text \<open>The faults that leave a device readable.\<close>

definition answering :: "faults \<Rightarrow> time \<Rightarrow> bool" where
  "answering f patience \<longleftrightarrow> \<not> fa_muted f \<and> \<not> fa_error_response f \<and> fa_latency_s f < patience \<and> 0 < patience"

lemma behind_passed:
  "answering f patience \<Longrightarrow> faulty_reply f req = None \<Longrightarrow> behind f patience req answer = answer"
  by (simp add: answering_def behind_def indication_def)

lemma behind_replied:
  "answering f patience \<Longrightarrow> faulty_reply f req = Some e \<Longrightarrow> req \<noteq> Unconfirmed_Request \<Longrightarrow>
   behind f patience req answer = Net_Error e"
  by (simp add: answering_def behind_def indication_def confirmed_def)

lemma sim_one_answers:
  "answering f patience \<Longrightarrow> p \<noteq> ''object-list'' \<Longrightarrow> sim_one f patience one key p = one key p"
  unfolding sim_one_def by (rule behind_passed) (simp_all add: answering_def faulty_reply_def)

lemma sim_consistent:
  assumes "answering f patience" "\<And>w. rpm w = Net_Ok (rpm_answer one w)"
    and "\<forall>(key, ps) \<in> set w. ''object-list'' \<notin> set ps"
  shows "rpm_consistent (sim_one f patience one) (sim_rpm f patience rpm) w"
proof (cases "fa_no_rpm f")
  case True
  then have "faulty_reply f Read_Property_Multiple =
      Some \<lparr>be_class = ''RejectPDU'', be_reason = ''unrecognized-service''\<rparr>"
    using assms(1) by (simp add: answering_def faulty_reply_def)
  then have "sim_rpm f patience rpm w = Net_Error \<lparr>be_class = ''RejectPDU'', be_reason = ''unrecognized-service''\<rparr>"
    unfolding sim_rpm_def by (rule behind_replied [OF assms(1)]) simp
  moreover have "convert_error \<lparr>be_class = ''RejectPDU'', be_reason = ''unrecognized-service''\<rparr> = Request_Rejected ''reject''"
    by code_simp
  ultimately show ?thesis by (simp add: rpm_consistent_def)
next
  case False
  then have "faulty_reply f Read_Property_Multiple = None"
    using assms(1) by (simp add: answering_def faulty_reply_def)
  then have "sim_rpm f patience rpm w = Net_Ok (rpm_answer one w)"
    using behind_passed [OF assms(1)] assms(2) by (simp add: sim_rpm_def)
  moreover have "rpm_answer (sim_one f patience one) w = rpm_answer one w"
    unfolding rpm_answer_def
  proof (intro arg_cong [where f = concat] map_cong [OF refl])
    fix x assume "x \<in> set w"
    then have "''object-list'' \<notin> set (snd x)" using assms(3) by auto
    then have "sim_one f patience one (fst x) p = one (fst x) p" if "p \<in> set (snd x)" for p
      using sim_one_answers [OF assms(1)] that by metis
    then show "(case x of (key, ps) \<Rightarrow> map (\<lambda>p. (key, p, case sim_one f patience one key p of Net_Ok v \<Rightarrow> v
          | _ \<Rightarrow> \<lparr>pv_error = True, pv_raw = Raw_None, pv_text = [], pv_true = False, pv_items = None, pv_bits = None\<rparr>)) ps) =
        (case x of (key, ps) \<Rightarrow> map (\<lambda>p. (key, p, case one key p of Net_Ok v \<Rightarrow> v
          | _ \<Rightarrow> \<lparr>pv_error = True, pv_raw = Raw_None, pv_text = [], pv_true = False, pv_items = None, pv_bits = None\<rparr>)) ps)"
      by (cases x) simp
  qed
  ultimately show ?thesis by (simp add: rpm_consistent_def)
qed

lemma sim_list_complete:
  assumes "answering f patience" "stack_serves view objs one rpm whole count entry"
  shows "sim_list f patience inst whole count entry = Inr (map so_key objs)"
proof -
  have s: "whole = Net_Ok (map so_key objs)" "count = Net_Ok (int (length objs))"
    "\<And>j. j < length objs \<Longrightarrow> entry (Suc j) = Net_Ok (so_key (objs ! j))"
    using assms(2) by (auto simp: stack_serves_def)
  have i: "behind f patience (Read_Property (''device'', inst) ''object-list'' (Some j)) a = a" for j and a :: "'b net"
    by (rule behind_passed [OF assms(1)]) (use assms(1) in \<open>simp add: answering_def faulty_reply_def\<close>)
  show ?thesis
  proof (cases "fa_no_segmentation f")
    case True
    let ?e = "\<lparr>be_class = ''AbortPDU'', be_reason = ''segmentation-not-supported''\<rparr>"
    have "faulty_reply f (Read_Property (''device'', inst) ''object-list'' None) = Some ?e"
      using assms(1) True by (simp add: answering_def faulty_reply_def)
    then have "behind f patience (Read_Property (''device'', inst) ''object-list'' None) whole = Net_Error ?e"
      by (rule behind_replied [OF assms(1)]) simp
    moreover have "convert_error ?e = Request_Rejected ''abort''" by code_simp
    moreover have "entries_by_index (\<lambda>j. entry j) 1 (length (map so_key objs)) = Inr (map so_key objs)"
      by (rule entries_by_index_all) (simp add: s(3))
    ultimately show ?thesis by (simp add: sim_list_def object_list_def call_def i s(2))
  next
    case False
    then have "faulty_reply f (Read_Property (''device'', inst) ''object-list'' None) = None"
      using assms(1) by (simp add: answering_def faulty_reply_def)
    then have "behind f patience (Read_Property (''device'', inst) ''object-list'' None) whole = whole"
      by (rule behind_passed [OF assms(1)])
    then show ?thesis by (simp add: sim_list_def object_list_def call_def s(1))
  qed
qed

lemma build_keys:
  "map so_key (build inst draws n) = (''device'', inst) # (''network-port'', 1) # sim_keys n"
  by (simp add: build_def build_points_keys)

lemma build_keys_distinct: "distinct (map so_key (build inst draws n))"
proof -
  have "(''device'', i) \<notin> set (sim_keys n)" "(''network-port'', i) \<notin> set (sim_keys n)" for i
    using sim_keys_kinds [of "(''device'', i)" n] sim_keys_kinds [of "(''network-port'', i)" n]
    by (auto simp: POINT_MIX_def)
  then show ?thesis by (simp add: build_keys distinct_sim_keys)
qed

lemma sim_object_info:
  assumes "answering f patience" "stack_serves view (build inst draws n) one rpm whole count entry"
    and "ob \<in> set (fst (build_points inst draws n))"
  shows "object_of (so_key ob) (values_held (sim_one f patience one) (so_key ob) (discovery_props (fst (so_key ob)))) =
    sim_info view ob"
  unfolding sim_info_def
proof (rule object_of_cong)
  fix p :: string
  assume p: "p \<in> {''object-name'', ''description'', ''units'', ''state-text'', ''present-value'', ''status-flags''}"
  have one: "one (so_key ob) p = Net_Ok (view v)" if "map_of (so_props ob) p = Some v" for v
    using assms(2,3) that by (auto simp: stack_serves_def build_def)
  have "p \<noteq> ''object-list''" using p by auto
  then have s: "sim_one f patience one (so_key ob) p = one (so_key ob) p" by (rule sim_one_answers [OF assms(1)])
  have "map_of (map (\<lambda>(p, v). (p, view v)) (so_props ob)) p = map_option view (map_of (so_props ob) p)"
    by (simp add: map_of_map)
  then show "map_of (values_held (sim_one f patience one) (so_key ob) (discovery_props (fst (so_key ob)))) p =
      map_of (map (\<lambda>(p, v). (p, view v)) (so_props ob)) p"
    using build_points_props [OF assms(3) p] one
    by (cases "map_of (so_props ob) p") (auto simp: map_of_values_held held_def s)
qed

text \<open>
  Faults that leave a device readable change nothing of its inventory: whether or not it supports
  reading in bulk and segmentation, and whatever its (tolerable) latency and the size of the batches,
  the driver finds exactly the simulated points, as many as were asked for, each once, with the name,
  unit, texts and value the simulator gave it.
\<close>

theorem simulated_inventory:
  assumes "answering f patience" "stack_serves view (build inst draws n) one rpm whole count entry"
    and "0 < batch" "0 \<le> n"
  shows "fst (describe batch (sim_one f patience one) (sim_rpm f patience rpm)
      (sim_list f patience inst whole count entry) inst unsupported) =
    Inr (map (sim_info view) (fst (build_points inst draws n))) \<and>
    int (length (fst (build_points inst draws n))) = n \<and>
    distinct (map so_key (fst (build_points inst draws n)))"
proof -
  let ?one = "sim_one f patience one" and ?rpm = "sim_rpm f patience rpm"
  let ?ks = "map so_key (build inst draws n)"
  have kinds: "fst ` set (sim_keys n) \<subseteq> set IMPORTED_TYPES" using sim_keys_imported by blast
  have filtered: "List.filter (\<lambda>key. fst key \<in> set IMPORTED_TYPES) ?ks = sim_keys n"
    using kinds by (auto simp: build_keys intro!: filter_True) (auto simp: IMPORTED_TYPES_def)
  have requests: "readable ?one w \<and> rpm_consistent ?one ?rpm w" if "set w \<subseteq> inventory_requests (sim_keys n)" for w
  proof
    have w: "key \<in> set (sim_keys n) \<and> ps = discovery_props (fst key)" if "(key, ps) \<in> set w" for key ps
      using \<open>set w \<subseteq> inventory_requests (sim_keys n)\<close> that by (auto simp: inventory_requests_def)
    have known: "''object-list'' \<notin> set (discovery_props k)" for k
      using discovery_props_known [of k] by auto
    have "\<forall>(key, ps) \<in> set w. ''object-list'' \<notin> set ps" using w known by fastforce
    then show "rpm_consistent ?one ?rpm w"
      using assms(2) by (intro sim_consistent [OF assms(1)]) (simp_all add: stack_serves_def)
    have ok: "\<exists>v. ?one key p = Net_Ok v \<and> \<not> pv_error v" if k: "key \<in> set (sim_keys n)" "p \<in> set (discovery_props (fst key))" for key p
    proof -
      obtain ob where ob: "ob \<in> set (fst (build_points inst draws n))" "key = so_key ob"
        using k(1) unfolding build_points_keys [of inst draws n, symmetric] by auto
      have p: "p \<in> {''object-name'', ''description'', ''units'', ''state-text'', ''present-value'', ''status-flags''}"
        by (rule subsetD [OF discovery_props_known k(2)])
      obtain v where "map_of (so_props ob) p = Some v"
        using build_points_props [OF ob(1) p] k(2) ob(2) by auto
      then have "one key p = Net_Ok (view v)" "\<not> pv_error (view v)"
        using assms(2) ob by (auto simp: stack_serves_def build_def)
      moreover have "?one key p = one key p"
        by (rule sim_one_answers [OF assms(1)]) (use p in auto)
      ultimately show ?thesis by simp
    qed
    show "readable ?one w"
      unfolding readable_def
    proof (intro ballI, clarify)
      fix k i ps p assume "((k, i), ps) \<in> set w" "p \<in> set ps"
      with w [of "(k, i)" ps] ok [of "(k, i)" p] obtain v where "?one (k, i) p = Net_Ok v" "\<not> pv_error v" by auto
      then show "case ?one (k, i) p of Net_Ok v \<Rightarrow> \<not> pv_error v | Net_Timeout \<Rightarrow> False
          | Net_Error e \<Rightarrow> convert_error e \<noteq> Device_Unreachable" by simp
    qed
  qed
  have "fst (describe batch ?one ?rpm (Inr ?ks) inst unsupported) =
      Inr (map (\<lambda>key. object_of key (values_held ?one key (discovery_props (fst key)))) (sim_keys n))"
    using describe_true [of ?ks ?one ?rpm batch inst unsupported] requests build_keys_distinct assms(3)
    unfolding filtered by blast
  moreover have "map (\<lambda>key. object_of key (values_held ?one key (discovery_props (fst key)))) (sim_keys n) =
      map (sim_info view) (fst (build_points inst draws n))"
    unfolding build_points_keys [of inst draws n, symmetric] map_map
    by (rule map_cong [OF refl]) (simp add: sim_object_info [OF assms(1,2)])
  moreover have "int (length (fst (build_points inst draws n))) = n"
    using length_sim_keys [OF assms(4)] assms(4)
    unfolding build_points_keys [of inst draws n, symmetric] by simp
  moreover have "distinct (map so_key (fst (build_points inst draws n)))"
    by (simp only: build_points_keys distinct_sim_keys)
  ultimately show ?thesis by (simp add: sim_list_complete [OF assms(1,2)])
qed

subsection \<open>A mute device\<close>

lemma muted_timeout: "fa_muted f \<Longrightarrow> behind f patience req answer = Net_Timeout"
  by (simp add: behind_def indication_def)

lemma dict_of_empty: "dict_of kvs = [] \<longleftrightarrow> kvs = []"
proof -
  have ne: "fold (\<lambda>(k, v). AList.update k v) kvs d \<noteq> []" if "d \<noteq> []" for d and kvs :: "('a \<times> 'b) list"
    using that by (induction kvs arbitrary: d) (simp_all add: split_beta)
  show ?thesis by (cases kvs) (auto simp: dict_of_def ne)
qed

lemma muted_read:
  assumes "fa_muted f" "refs \<noteq> []" "\<forall>r \<in> set refs. pr_device_instance r = inst"
  shows "fst (driver_read (\<lambda>i. sim_one f patience (one i)) (\<lambda>i. sim_rpm f patience (rpm i)) now refs u) =
    Inl Device_Unreachable"
proof -
  let ?w = "dict_of (map (\<lambda>r. ((pr_object_type r, pr_object_instance r), LIVE_PROPS)) refs)"
  have one: "sim_one f patience (one inst) key p = Net_Timeout" for key p
    by (simp add: sim_one_def muted_timeout [OF assms(1)])
  have rpm: "sim_rpm f patience (rpm inst) w = Net_Timeout" for w
    by (simp add: sim_rpm_def muted_timeout [OF assms(1)])
  have "?w \<noteq> []" using assms(2) by (simp add: dict_of_empty)
  moreover have "snd x = LIVE_PROPS" if "x \<in> set ?w" for x
  proof -
    have "map_of ?w (fst x) = Some (snd x)"
      by (rule map_of_is_SomeI [OF dict_of_wf]) (simp add: that)
    then have "(fst x, snd x) \<in> set (map (\<lambda>r. ((pr_object_type r, pr_object_instance r), LIVE_PROPS)) refs)"
      by (rule dict_of_mem)
    then show ?thesis by auto
  qed
  ultimately obtain key ws where w: "?w = (key, LIVE_PROPS) # ws"
    by (cases ?w) (simp, metis list.set_intros(1) prod.collapse)
  have "fst (read_many (sim_one f patience (one inst)) (sim_rpm f patience (rpm inst)) inst u ?w) = Inl Device_Unreachable"
    unfolding w by (simp add: read_many_def read_multiple_def call_def rpm one LIVE_PROPS_def)
  then obtain u' where m: "read_many (sim_one f patience (one inst)) (sim_rpm f patience (rpm inst)) inst u ?w =
      (Inl Device_Unreachable, u')"
    by (cases "read_many (sim_one f patience (one inst)) (sim_rpm f patience (rpm inst)) inst u ?w") simp
  show ?thesis unfolding driver_read_def by_device_one [OF assms(2,3)] read_devices.simps m by simp
qed

lemma link_lost_cycles:
  assumes "\<And>c. c \<in> set cycles \<Longrightarrow> cycle_outcome (fst c) (chunks (pc_batch_size cfg) (snd (snd c))) = Some Lost"
    and "link (po_reg po) did = Some (k, on)" "on = (k < limit \<and> on)" "limit = pc_offline_after_cycles cfg"
  shows "link (po_reg (fold (\<lambda>(read, (now, now', stamp), points).
      poll_cycle cfg cov n read did now now' stamp points) cycles po)) did =
    Some (k + int (length cycles), on \<and> k + int (length cycles) < limit)"
  using assms
proof (induction cycles arbitrary: po k on)
  case (Cons c cycles)
  obtain read now now' stamp points where c: "c = (read, (now, now', stamp), points)" by (metis surj_pair)
  let ?po = "poll_cycle cfg cov n read did now now' stamp points po"
  have "cycle_outcome read (chunks (pc_batch_size cfg) points) = Some Lost" using Cons.prems(1) [of c] c by simp
  then have "link (po_reg ?po) did = Some (k + 1, on \<and> k + 1 < limit)"
    using cycle_link [OF Cons.prems(2), of cfg cov n read now now' stamp points] Cons.prems(4) by simp
  from Cons.IH [OF _ this] Cons.prems show ?case by (auto simp: c algebra_simps)
qed auto

text \<open>
  C15. A device that falls silent is noticed in time: from the first cycle on during which a device that
  was online without failures is mute, the number of failures is that of the cycles, and the device is
  offline exactly from the configured number of them on, whichever points are due, however the
  device is read, and however its requests would be answered.
\<close>

theorem mute_device_goes_offline:
  assumes "link (po_reg po) did = Some (0, True)" "fa_muted f" "0 < pc_batch_size cfg" "0 < pc_offline_after_cycles cfg"
    and "\<And>pid. pr_device_instance (ref pid) = inst"
    and "\<And>c. c \<in> set cycles \<Longrightarrow> snd (snd c) \<noteq> [] \<and> (\<exists>unsupported. fst c = (\<lambda>pids.
        fst (driver_read (\<lambda>i. sim_one f patience (one i)) (\<lambda>i. sim_rpm f patience (rpm i))
          (fst (fst (snd c))) (map ref pids) unsupported)))"
  shows "link (po_reg (fold (\<lambda>(read, (now, now', stamp), points).
      poll_cycle cfg cov n read did now now' stamp points) cycles po)) did =
    Some (int (length cycles), int (length cycles) < pc_offline_after_cycles cfg)"
proof -
  have "cycle_outcome (fst c) (chunks (pc_batch_size cfg) (snd (snd c))) = Some Lost" if c: "c \<in> set cycles" for c
  proof -
    have "chunks (pc_batch_size cfg) (snd (snd c)) \<noteq> []"
      using assms(3) assms(6) [OF c] by (subst chunks.simps) simp
    then obtain ch chs where ch: "chunks (pc_batch_size cfg) (snd (snd c)) = ch # chs"
      by (cases "chunks (pc_batch_size cfg) (snd (snd c))") simp_all
    then have "ch \<noteq> []" using chunks_length [of ch "pc_batch_size cfg" "snd (snd c)"] by auto
    then have "fst c ch = Inl Device_Unreachable"
      using assms(5) assms(6) [OF c] muted_read [OF assms(2), of "map ref ch" inst] by fastforce
    with ch show ?thesis by simp
  qed
  from link_lost_cycles [where limit = "pc_offline_after_cycles cfg", OF this assms(1)] assms(4) show ?thesis by simp
qed

subsection \<open>What a simulated device says of itself\<close>

text \<open>
  The collector believes a simulated device: when the services it lists are read, it is read in bulk
  exactly if it supports that and subscribed to exactly if it supports subscriptions.
\<close>

theorem simulated_services:
  assumes "answering f patience" "one (''device'', inst) ''protocol-services-supported'' = Net_Ok v"
    and "pieces CHR '';'' (pv_text v) = sim_services f services"
    and "{''read-property-multiple'', ''subscribe-cov''} \<subseteq> set services"
  shows "let d = fst (device_info_of (sim_one f patience one) (sim_rpm f patience rpm) inst address vendor u)
    in di_supports_rpm d = (\<not> fa_no_rpm f) \<and> di_supports_cov d = (\<not> fa_no_cov f)"
proof -
  have "sim_one f patience one (''device'', inst) ''protocol-services-supported'' = Net_Ok v"
    using sim_one_answers [OF assms(1), of "''protocol-services-supported''"] assms(2) by simp
  note d = device_services [of "sim_one f patience one" inst v "sim_rpm f patience rpm" address vendor u, OF this]
  show ?thesis
    using assms(4) by (auto simp: Let_def d assms(3) sim_services_def)
qed

text \<open>Devices do not get in each other's way.\<close>

lemma simulator_instances:
  "map sd_instance (simulator m n host base_port first seeded) = map (\<lambda>i. first + int i) [0..<m]"
  by (simp add: simulator_def sim_device_init_def comp_def)

lemma simulator_addresses:
  "map sd_address (simulator m n host base_port first seeded) = map (\<lambda>i. host @ '':'' @ int_str (base_port + int i)) [0..<m]"
  by (simp add: simulator_def sim_device_init_def comp_def)

subsection \<open>The animation keeps values meaningful\<close>

definition sim_value_ok :: "object_key \<Rightarrow> sim_value \<Rightarrow> bool" where
  "sim_value_ok key v \<longleftrightarrow>
     (if starts_with ''analog'' (fst key) then (case v of V_Number _ \<Rightarrow> True | _ \<Rightarrow> False)
      else if starts_with ''binary'' (fst key) then v = V_Text ''active'' \<or> v = V_Text ''inactive''
      else (case v of V_Int j \<Rightarrow> 1 \<le> j \<and> j \<le> int (length STATE_TEXT) | _ \<Rightarrow> False))"

definition sim_values_ok :: "(object_key, sim_value) dict \<Rightarrow> bool" where
  "sim_values_ok values \<longleftrightarrow> list_all (\<lambda>(key, v). sim_value_ok key v) values"

definition initial_values :: "sim_object list \<Rightarrow> (object_key, sim_value) dict" where
  "initial_values obs = map (\<lambda>ob. (so_key ob, the (map_of (so_props ob) ''present-value''))) obs"

lemma sim_values_update:
  "sim_values_ok vs \<Longrightarrow> sim_value_ok key v \<Longrightarrow> sim_values_ok (AList.update key v vs)"
  by (induction vs) (auto simp: sim_values_ok_def)

lemma animate_point_ok:
  assumes "sim_values_ok (fst st)" "\<And>i. 1 \<le> rg_state rg i \<and> rg_state rg i \<le> int (length STATE_TEXT)"
  shows "sim_values_ok (fst (animate_point rg sine elapsed p st))"
proof -
  have kinds: "starts_with ''analog'' ''analog-input''" "\<not> starts_with ''analog'' ''binary-input''"
    "starts_with ''binary'' ''binary-input''" "\<not> starts_with ''analog'' ''multi-state-value''"
    "\<not> starts_with ''binary'' ''multi-state-value''"
    by (simp_all add: starts_with_def)
  show ?thesis
    using assms by (cases st) (auto simp: animate_point_def Let_def kinds sim_value_ok_def intro!: sim_values_update)
qed

lemma make_object_value: "sim_value_ok (k, i) (the (map_of (so_props (fst (make_object inst draws j k m))) ''present-value''))"
  by (simp add: make_object_def Let_def sim_value_ok_def STATE_TEXT_def)

lemma initial_values_ok: "sim_values_ok (initial_values (fst (build_points inst draws n)))"
proof -
  have "sim_value_ok (so_key ob) (the (map_of (so_props ob) ''present-value''))"
    if "ob \<in> set (fst (build_points inst draws n))" for ob
    using make_objects_made [OF that [unfolded build_points_def]] make_object_value by auto
  then show ?thesis by (auto simp: sim_values_ok_def initial_values_def list_all_iff)
qed

text \<open>
  However long a simulated device is animated, its binary inputs are active or inactive, its
  multi-state values are numbers of one of their texts, and its analog values are numbers.
\<close>

theorem animated_values_valid:
  assumes "\<And>i. 1 \<le> rg_state rg i \<and> rg_state rg i \<le> int (length STATE_TEXT)"
  shows "sim_values_ok (fst (fold (animate_tick rg sine (snd (build_points inst draws n))) ticks
    (initial_values (fst (build_points inst draws n)), 0)))"
proof -
  have tick: "sim_values_ok (fst (animate_tick rg sine ps elapsed st))" if "sim_values_ok (fst st)" for ps elapsed st
    using that animate_point_ok [OF _ assms] unfolding animate_tick_def by (induction ps arbitrary: st) simp_all
  have "sim_values_ok (fst (fold (animate_tick rg sine ps) ticks st))" if "sim_values_ok (fst st)" for ps st
    using that tick by (induction ticks arbitrary: st) simp_all
  then show ?thesis using initial_values_ok by simp
qed

subsection \<open>Examples\<close>

definition example_view :: "sim_value \<Rightarrow> prop_value" where
  "example_view v =
     (case v of
        V_Text s \<Rightarrow> \<lparr>pv_error = False, pv_raw = Raw_None, pv_text = s, pv_true = s \<noteq> [], pv_items = None, pv_bits = None\<rparr>
      | V_Bits bs \<Rightarrow> \<lparr>pv_error = False, pv_raw = Raw_None, pv_text = [], pv_true = True, pv_items = None, pv_bits = Some bs\<rparr>
      | V_Texts ts \<Rightarrow> \<lparr>pv_error = False, pv_raw = Raw_None, pv_text = [], pv_true = True, pv_items = Some ts, pv_bits = None\<rparr>
      | V_Int j \<Rightarrow> \<lparr>pv_error = False, pv_raw = Raw_Int j, pv_text = int_str j, pv_true = j \<noteq> 0, pv_items = None, pv_bits = None\<rparr>
      | V_Number q \<Rightarrow> \<lparr>pv_error = False, pv_raw = Raw_None, pv_text = [], pv_true = q \<noteq> 0, pv_items = None, pv_bits = None\<rparr>)"

definition example_stack :: "sim_object list \<Rightarrow> read_one" where
  "example_stack objs = (\<lambda>key p.
     case List.find (\<lambda>ob. so_key ob = key) objs of
       None \<Rightarrow> Net_Error \<lparr>be_class = ''ErrorPDU'', be_reason = ''unknown-object''\<rparr>
     | Some ob \<Rightarrow>
         (case map_of (so_props ob) p of
            None \<Rightarrow> Net_Error \<lparr>be_class = ''ErrorPDU'', be_reason = ''unknown-property''\<rparr>
          | Some v \<Rightarrow> Net_Ok (example_view v)))"

lemma example_stack_serves:
  assumes "distinct (map so_key objs)"
  shows "stack_serves example_view objs (example_stack objs) (\<lambda>w. Net_Ok (rpm_answer (example_stack objs) w))
    (Net_Ok (map so_key objs)) (Net_Ok (int (length objs))) (\<lambda>j. Net_Ok (so_key (objs ! (j - 1))))"
proof -
  have "List.find (\<lambda>x. so_key x = so_key ob) objs = Some ob" if "ob \<in> set objs" for ob
    using assms that by (induction objs) (auto simp: rev_image_eqI)
  then show ?thesis
    by (auto simp: stack_serves_def example_stack_def example_view_def split: sim_value.splits)
qed

definition stubborn :: faults where
  "stubborn = no_faults\<lparr>fa_latency_s := 1 / 10, fa_no_rpm := True, fa_no_cov := True, fa_no_segmentation := True\<rparr>"

theorem simulated_inventory_witness:
  "int (length (fst (build_points 1001 (\<lambda>_. 1 / 2) 20))) = 20 \<and>
   (let objs = build 1001 (\<lambda>_. 1 / 2) 20; one = example_stack objs
    in fst (describe 10 (sim_one stubborn 5 one) (sim_rpm stubborn 5 (\<lambda>w. Net_Ok (rpm_answer one w)))
        (sim_list stubborn 5 1001 (Net_Ok (map so_key objs)) (Net_Ok (int (length objs)))
          (\<lambda>j. Net_Ok (so_key (objs ! (j - 1))))) 1001 []) =
      Inr (map (sim_info example_view) (fst (build_points 1001 (\<lambda>_. 1 / 2) 20))))"
proof -
  have "answering stubborn 5" by (simp add: answering_def stubborn_def no_faults_def)
  from simulated_inventory [OF this example_stack_serves [OF build_keys_distinct], of 10 20 1001 "\<lambda>_. 1 / 2" "[]"]
  show ?thesis by (simp add: Let_def)
qed

theorem mute_device_goes_offline_witness:
  "link (po_reg (fold (\<lambda>(read, (now, now', stamp), points).
      poll_cycle default_polling default_cov 500 read 2 now now' stamp points)
      (map (\<lambda>now. (\<lambda>pids. fst (driver_read (\<lambda>i. sim_one (no_faults\<lparr>fa_muted := True\<rparr>) 5 example_one)
          (\<lambda>i. sim_rpm (no_faults\<lparr>fa_muted := True\<rparr>) 5 example_rpm) now (map (\<lambda>pid. example_ref\<lparr>pr_point_id := pid\<rparr>) pids) []),
        (now, now + 3, now), [3])) [10, 20, 30]) (example_poller 0))) 2 = Some (3, False)"
proof -
  let ?cycles = "map (\<lambda>now. (\<lambda>pids. fst (driver_read (\<lambda>i. sim_one (no_faults\<lparr>fa_muted := True\<rparr>) 5 example_one)
      (\<lambda>i. sim_rpm (no_faults\<lparr>fa_muted := True\<rparr>) 5 example_rpm) now (map (\<lambda>pid. example_ref\<lparr>pr_point_id := pid\<rparr>) pids) []),
    (now, now + 3, now :: rat), [3 :: nat])) [10, 20, 30]"
  have "link (po_reg (example_poller 0)) 2 = Some (0, True)"
    by (simp add: example_poller_def example_device_def recorder_init_def link_def)
  moreover have "fa_muted (no_faults\<lparr>fa_muted := True\<rparr>)" by simp
  moreover have "0 < pc_batch_size default_polling" "0 < pc_offline_after_cycles default_polling"
    by (simp_all add: default_polling_def)
  moreover have "pr_device_instance (example_ref\<lparr>pr_point_id := pid\<rparr>) = 100" for pid
    by (simp add: example_ref_def)
  moreover have "snd (snd c) \<noteq> [] \<and> (\<exists>unsupported. fst c = (\<lambda>pids.
      fst (driver_read (\<lambda>i. sim_one (no_faults\<lparr>fa_muted := True\<rparr>) 5 example_one)
        (\<lambda>i. sim_rpm (no_faults\<lparr>fa_muted := True\<rparr>) 5 example_rpm)
        (fst (fst (snd c))) (map (\<lambda>pid. example_ref\<lparr>pr_point_id := pid\<rparr>) pids) unsupported)))"
    if "c \<in> set ?cycles" for c
    using that by auto
  ultimately show ?thesis
    using mute_device_goes_offline [of "example_poller 0" 2 "no_faults\<lparr>fa_muted := True\<rparr>" default_polling
        "\<lambda>pid. example_ref\<lparr>pr_point_id := pid\<rparr>" 100 ?cycles 5 "\<lambda>_. example_one" "\<lambda>_. example_rpm" default_cov 500]
    by (simp add: default_polling_def)
qed

theorem simulated_services_witness:
  "(let d = fst (device_info_of (sim_one stubborn 5 (\<lambda>_ _. Net_Ok (example_view (V_Text ''read-property''))))
      (sim_rpm stubborn 5 (\<lambda>_. Net_Timeout)) 1001 ''10.0.0.2'' ''999'' [])
    in \<not> di_supports_rpm d \<and> \<not> di_supports_cov d)"
proof -
  have "answering stubborn 5" by (simp add: answering_def stubborn_def no_faults_def)
  moreover have "pieces CHR '';'' (pv_text (example_view (V_Text ''read-property''))) =
      sim_services stubborn [''read-property'', ''read-property-multiple'', ''subscribe-cov'']"
    by code_simp
  ultimately show ?thesis
    using simulated_services [of stubborn 5 "\<lambda>_ _. Net_Ok (example_view (V_Text ''read-property''))" 1001
        "example_view (V_Text ''read-property'')" "[''read-property'', ''read-property-multiple'', ''subscribe-cov'']"
        "\<lambda>_. Net_Timeout" "''10.0.0.2''" "''999''" "[]"]
    by (simp add: Let_def stubborn_def no_faults_def)
qed

theorem animated_values_valid_witness:
  "sim_values_ok (fst (fold (animate_tick \<lparr>rg_random = (\<lambda>_. 0), rg_gauss = (\<lambda>_. 0), rg_state = (\<lambda>_. 4)\<rparr> (\<lambda>_. 1)
     (snd (build_points 1001 (\<lambda>_. 1 / 2) 20))) [2, 4] (initial_values (fst (build_points 1001 (\<lambda>_. 1 / 2) 20)), 0)))"
  by (rule animated_values_valid) (simp add: STATE_TEXT_def)

end
