(* ===== verification/Site.thy ===== *)
theory Site
  imports Alarm_Messages Simulator Api_Points Api_Realtime Collector_Writer Collector_Cov
begin

section \<open>The services together\<close>

text \<open>
  What holds across the services, over the messages they exchange: an event of a device up to the
  rules of the alarm service, a reading up to the clients, the rules and the table, the settings of a point from the API to the collector, a write from
  the API to the device.
\<close>

subsection \<open>From an event of a device to the rules\<close>

text \<open>
  An event reaches the rules: what a device notifies is handed by the alarm service to the rules on
  events of this device and object with the state the device reported; a mute device notifies nothing.
\<close>

theorem event_reaches_rules:
  "case send_event f inst object_type number to_st from_st of
     None \<Rightarrow> fa_muted f
   | Some a \<Rightarrow> \<not> fa_muted f \<and>
       dispatched rp clock wall CHANNEL_BACNET_EVENT (Some (event_json (on_event a))) en =
         on_bacnet_event clock wall inst object_type number to_st en"
  by (simp add: send_event_def sim_sends_def on_event_def event_json_def dispatched_def dispatch_def
      CHANNEL_BACNET_EVENT_def CHANNEL_DEVICE_STATUS_def VALUE_PREFIX_def starts_with_def)

subsection \<open>From a reading to the screens, the rules and the table\<close>

text \<open>\<open>Recorder._publish\<close>: the payload on the channel of the point.\<close>

definition reading_json :: "(time \<Rightarrow> string) \<Rightarrow> reading \<Rightarrow> json" where
  "reading_json isot r =
     JObj [(''ts'', JStr (isot (rd_ts r))), (''value'', json_opt (rd_value r)),
       (''status'', JStr (point_status_value (rd_status r)))]"

definition latest_of :: "reading \<Rightarrow> latest_row" where
  "latest_of r = \<lparr>pl_ts = rd_ts r, pl_value = rd_value r, pl_status = rd_status r\<rparr>"

text \<open>
  C16. A reading is the same everywhere: published by the collector for a point a connection follows, it arrives on a
  channel the connection listens to and is sent to the client as the message that reading the row of the
  last value would give; the alarm service hands its value to the rules of this point; and written to
  the table, unless a more recent reading is there, it is the last value of the point.
\<close>

theorem reading_seen_everywhere:
  assumes "listens c" "rd_point_id r \<in> set (cn_points c)" "cn_open c" "cn_relaying c" "now < tc_expires_at claims"
    and "case map_of ls (rd_point_id r) of None \<Rightarrow> True | Some old \<Rightarrow> pl_ts old \<le> rd_ts r"
  shows "point_value_channel (rd_point_id r) \<in> set (cn_channels c) \<and>
    cn_sent (ws_step rp isot claims
        (From_Redis now (Some (point_value_channel (rd_point_id r), Some (reading_json isot r)))) c) =
      cn_sent c @ [value_message isot (rd_point_id r, latest_of r)] \<and>
    dispatched rp clock wall (point_value_channel (rd_point_id r)) (Some (reading_json isot r)) en =
      on_value clock wall (rd_point_id r) (rd_value r) en \<and>
    map_of (upsert_latest (row_of r) ls) (rd_point_id r) = Some (latest_of r)"
proof -
  let ?pid = "rd_point_id r"
  have small: "?pid < 2 ^ 128" and listen: "point_value_channel ?pid \<in> set (cn_channels c)"
    using assms(1,2) by (auto simp: listens_def list_all_iff)
  have prefix: "starts_with VALUE_PREFIX (point_value_channel ?pid)"
    "drop (length VALUE_PREFIX) (point_value_channel ?pid) = uuid_str ?pid"
    by (simp_all add: starts_with_def point_value_channel_def)
  have "cn_sent (ws_step rp isot claims
        (From_Redis now (Some (point_value_channel ?pid, Some (reading_json isot r)))) c) =
      cn_sent c @ [value_message isot (?pid, latest_of r)]"
    using assms(3-5) by (simp add: ws_pump_def alarm_channel_other prefix reading_json_def merged_def
        value_message_def latest_of_def not_le)
  moreover have "dispatched rp clock wall (point_value_channel ?pid) (Some (reading_json isot r)) en =
      on_value clock wall ?pid (rd_value r) en"
    unfolding reading_json_def by (rule value_dispatched [OF small]) (simp add: json_opt_def)
  moreover have "map_of (upsert_latest (row_of r) ls) ?pid = Some (latest_of r)"
    using assms(6) by (auto simp: upsert_latest_def Let_def row_of_def latest_of_def split: option.splits)
  ultimately show ?thesis using listen by blast
qed

subsection \<open>From the API to the settings of the collector\<close>

text \<open>The settings the collector works with are those of the table.\<close>

definition in_step :: "time \<Rightarrow> database \<Rightarrow> registry \<Rightarrow> uuid \<Rightarrow> bool" where
  "in_step dflt db reg pid \<longleftrightarrow>
     (\<forall>did p row. registry_point reg pid = Some (did, p) \<longrightarrow> map_of (db_points db) pid = Some row \<longrightarrow>
        ps_deadband p = pt_deadband row \<and> ps_max_interval_s p = pt_max_interval_s row \<and>
        ps_poll_interval_s p = poll_interval dflt (pt_poll_interval_s row))"

definition sites_ok :: "time \<Rightarrow> database \<times> registry \<Rightarrow> bool" where
  "sites_ok dflt s \<longleftrightarrow> registry_wf (snd s) \<and> (\<forall>pid < 2 ^ 128. in_step dflt (fst s) (snd s) pid)"

text \<open>A request on a point at the API, then the message it sends, if it does, handled by the collector.\<close>

definition settings_step ::
  "(time \<Rightarrow> string \<Rightarrow> token_payload option) \<Rightarrow> (string \<Rightarrow> string) \<Rightarrow> time \<Rightarrow>
   time \<times> request \<times> string option \<times> uuid \<times> point_update \<Rightarrow> database \<times> registry \<Rightarrow> database \<times> registry" where
  "settings_step jwt_decode stamp_of dflt c s =
     (let (now, rq, cookie, pid, body) = c;
          (_, db', tells) = point_route jwt_decode stamp_of (rq, cookie, pid, body) (fst s)
      in (db', if tells
               then config_message dflt now db' (Some (JObj [(''point_id'', JStr (uuid_str pid))])) (snd s)
               else snd s))"

lemma json_neq_text: "\<not> json_neq (JFloat a) (json_opt (Some b)) \<Longrightarrow> a = b"
  by (cases a; cases b) (auto simp: json_neq_def json_opt_def)

lemma requested_members:
  "pu_deadband b = Some x \<Longrightarrow> (''deadband'', JFloat (pt_deadband p), json_opt x) \<in> set (requested b p)"
  "pu_max_interval_s b = Some i \<Longrightarrow> (''max_interval_s'', JInt (pt_max_interval_s p), json_int i) \<in> set (requested b p)"
  "pu_poll_interval_s b = Some j \<Longrightarrow> (''poll_interval_s'', json_int (pt_poll_interval_s p), json_int j) \<in> set (requested b p)"
  by (simp_all add: requested_def)

lemma json_int_inj: "json_int a = json_int b \<longleftrightarrow> a = b"
  by (auto simp: json_int_def split: option.splits)

text \<open>What a request changes of the points, and when the collector is told.\<close>

lemma update_point_changes:
  assumes "update_point rq user pid body db = (ans, db', tells)"
  shows "db_points db' = db_points db \<and> \<not> tells \<or>
    (\<exists>p. map_of (db_points db) pid = Some p \<and>
      db_points db' = AList.update pid (set_requested body p) (db_points db) \<and>
      (tells \<or> pt_deadband (set_requested body p) = pt_deadband p \<and>
        pt_max_interval_s (set_requested body p) = pt_max_interval_s p \<and>
        pt_poll_interval_s (set_requested body p) = pt_poll_interval_s p))"
proof (cases "map_of (db_points db) pid")
  case None
  with assms show ?thesis by (auto simp: update_point_def split: if_splits)
next
  case (Some p)
  let ?changes = "List.filter (\<lambda>(name, old, new). json_neq old new) (requested body p)"
  let ?after = "map (\<lambda>(name, old, new). (name, new)) ?changes @
    (case tag_change body pid db of None \<Rightarrow> [] | Some (cur, want) \<Rightarrow> [(''tags'', JList (map JStr want))])"
  let ?told = "list_ex (\<lambda>kv. fst kv \<in> {''deadband'', ''max_interval_s'', ''poll_interval_s''}) ?after"
  have told: "?told" if "(name, old, new) \<in> set (requested body p)" "json_neq old new"
    "name \<in> {''deadband'', ''max_interval_s'', ''poll_interval_s''}" for name old new
    using that by (force simp: list_ex_iff)
  have quiet: "pt_deadband (set_requested body p) = pt_deadband p \<and>
      pt_max_interval_s (set_requested body p) = pt_max_interval_s p \<and>
      pt_poll_interval_s (set_requested body p) = pt_poll_interval_s p" if "\<not> ?told"
  proof (intro conjI)
    show "pt_deadband (set_requested body p) = pt_deadband p"
    proof (cases "\<exists>v. pu_deadband body = Some (Some v)")
      case True
      then obtain v where v: "pu_deadband body = Some (Some v)" by blast
      have "\<not> json_neq (JFloat (pt_deadband p)) (json_opt (Some v))"
        using told [OF requested_members(1) [OF v]] that by blast
      with v json_neq_text show ?thesis by (auto simp: set_requested_def)
    next
      case False
      then show ?thesis by (simp add: set_requested_def split: option.splits)
    qed
    show "pt_max_interval_s (set_requested body p) = pt_max_interval_s p"
    proof (cases "\<exists>v. pu_max_interval_s body = Some (Some v)")
      case True
      then obtain v where v: "pu_max_interval_s body = Some (Some v)" by blast
      have "\<not> json_neq (JInt (pt_max_interval_s p)) (json_int (Some v))"
        using told [OF requested_members(2) [OF v]] that by blast
      with v show ?thesis by (simp add: set_requested_def json_neq_def json_int_def)
    next
      case False
      then show ?thesis by (simp add: set_requested_def split: option.splits)
    qed
    show "pt_poll_interval_s (set_requested body p) = pt_poll_interval_s p"
    proof (cases "pu_poll_interval_s body")
      case None
      then show ?thesis by (simp add: set_requested_def)
    next
      case (Some v)
      have "\<not> json_neq (json_int (pt_poll_interval_s p)) (json_int v)"
        using told [OF requested_members(3) [OF Some]] that by blast
      then have "json_int (pt_poll_interval_s p) = json_int v"
        by (auto simp: json_neq_def json_int_def split: option.splits)
      with Some show ?thesis by (simp add: set_requested_def json_int_inj)
    qed
  qed
  have "db_points db' = db_points db \<and> \<not> tells \<or>
      db_points db' = AList.update pid (set_requested body p) (db_points db) \<and> tells = ?told"
  proof -
    have c: "commit rows d = Some d' \<Longrightarrow> db_points d' = db_points d" for rows d d'
      by (auto simp: commit_Some)
    show ?thesis
      using assms Some unfolding update_point_def Let_def
      by (simp split: if_splits option.splits) (auto dest!: c)
  qed
  with quiet Some show ?thesis by blast
qed

lemma point_route_changes:
  assumes "point_route jwt_decode stamp_of (rq, cookie, pid, body) db = (ans, db', tells)"
  shows "db_points db' = db_points db \<and> \<not> tells \<or>
    (\<exists>p. map_of (db_points db) pid = Some p \<and>
      db_points db' = AList.update pid (set_requested body p) (db_points db) \<and>
      (tells \<or> pt_deadband (set_requested body p) = pt_deadband p \<and>
        pt_max_interval_s (set_requested body p) = pt_max_interval_s p \<and>
        pt_poll_interval_s (set_requested body p) = pt_poll_interval_s p))"
  using assms unfolding point_route_def prod.case
  by (rule guarded_cases) (use update_point_changes in auto)

lemma reload_point:
  assumes "registry_wf reg" "pid < 2 ^ 128"
  shows "registry_wf (config_message dflt now db (Some (JObj [(''point_id'', JStr (uuid_str pid))])) reg)"
    "registry_point (config_message dflt now db (Some (JObj [(''point_id'', JStr (uuid_str pid))])) reg) q =
     (case (registry_point reg q, get_point_settings db pid) of
        (Some (did, p), Some st) \<Rightarrow> Some (did, if q = pid then apply_settings dflt now st p else p)
      | (r, _) \<Rightarrow> r)"
proof -
  have u: "uuid_of_str (uuid_str pid) = Some pid" by (rule uuid_str_roundtrip [OF assms(2)])
  let ?reg = "config_message dflt now db (Some (JObj [(''point_id'', JStr (uuid_str pid))])) reg"
  have m: "?reg = snd (config_reload dflt now db pid reg)" by (simp add: config_message_def u)
  show "registry_wf ?reg" unfolding m
    using assms(1) by (auto simp: config_reload_def split: option.splits)
  show "registry_point ?reg q =
     (case (registry_point reg q, get_point_settings db pid) of
        (Some (did, p), Some st) \<Rightarrow> Some (did, if q = pid then apply_settings dflt now st p else p)
      | (r, _) \<Rightarrow> r)"
    unfolding m using registry_point_set_point [OF assms(1)]
    by (auto simp: config_reload_def split: option.splits)
qed

lemma settings_step_ok:
  assumes "sites_ok dflt s" "pid < 2 ^ 128"
  shows "sites_ok dflt (settings_step jwt_decode stamp_of dflt (now, rq, cookie, pid, body) s)"
proof -
  obtain db reg where s: "s = (db, reg)" by (cases s)
  obtain ans db' tells where r: "point_route jwt_decode stamp_of (rq, cookie, pid, body) db = (ans, db', tells)"
    by (metis prod_cases3)
  have wf: "registry_wf reg" and ok: "q < 2 ^ 128 \<Longrightarrow> in_step dflt db reg q" for q
    using assms s by (simp_all add: sites_ok_def)
  have step: "settings_step jwt_decode stamp_of dflt (now, rq, cookie, pid, body) s =
      (db', if tells then config_message dflt now db' (Some (JObj [(''point_id'', JStr (uuid_str pid))])) reg else reg)"
    by (simp add: settings_step_def s r)
  show ?thesis
  proof (rule disjE [OF point_route_changes [OF r]])
    assume "db_points db' = db_points db \<and> \<not> tells"
    then show ?thesis using wf ok by (simp add: step sites_ok_def in_step_def)
  next
    assume "\<exists>p. map_of (db_points db) pid = Some p \<and>
      db_points db' = AList.update pid (set_requested body p) (db_points db) \<and>
      (tells \<or> pt_deadband (set_requested body p) = pt_deadband p \<and>
        pt_max_interval_s (set_requested body p) = pt_max_interval_s p \<and>
        pt_poll_interval_s (set_requested body p) = pt_poll_interval_s p)"
    then obtain p where p: "map_of (db_points db) pid = Some p"
      "db_points db' = AList.update pid (set_requested body p) (db_points db)"
      and told: "tells \<or> pt_deadband (set_requested body p) = pt_deadband p \<and>
        pt_max_interval_s (set_requested body p) = pt_max_interval_s p \<and>
        pt_poll_interval_s (set_requested body p) = pt_poll_interval_s p"
      by blast
    let ?row = "set_requested body p"
    have rows: "map_of (db_points db') q = (if q = pid then Some ?row else map_of (db_points db) q)" for q
      by (simp add: p(2))
    show ?thesis
    proof (cases tells)
      case True
      define st where "st = \<lparr>st_deadband = pt_deadband ?row, st_max_interval_s = pt_max_interval_s ?row,
        st_poll_interval_s = pt_poll_interval_s ?row, st_path = pt_path ?row\<rparr>"
      have st: "get_point_settings db' pid = Some st" by (simp add: get_point_settings_def rows st_def)
      note m = reload_point [OF wf assms(2), of dflt now db']
      have "in_step dflt db' (config_message dflt now db' (Some (JObj [(''point_id'', JStr (uuid_str pid))])) reg) q"
        if "q < 2 ^ 128" for q
        using ok [OF that]
        by (auto simp: in_step_def m(2) st rows apply_settings_def st_def Let_def split: option.splits if_splits)
      then show ?thesis using True m(1) by (simp add: step sites_ok_def)
    next
      case False
      have "in_step dflt db' reg q" if "q < 2 ^ 128" for q
        using ok [OF that] told False p(1) by (auto simp: in_step_def rows)
      then show ?thesis using False wf by (simp add: step sites_ok_def)
    qed
  qed
qed

text \<open>
  C18. The collector works with the settings in force: when it does at the start, then after any requests
  on points, from anybody and accepted or not, each message being handled before the next request, the
  dead band and the intervals of every point it follows are those of the table.
\<close>

theorem collector_settings_in_force:
  assumes "sites_ok dflt (db, reg)" "list_all (\<lambda>(now, rq, cookie, pid, body). pid < 2 ^ 128) calls"
    and "fold (settings_step jwt_decode stamp_of dflt) calls (db, reg) = (db', reg')"
    and "registry_point reg' pid = Some (did, p)" "map_of (db_points db') pid = Some row" "pid < 2 ^ 128"
  shows "ps_deadband p = pt_deadband row \<and> ps_max_interval_s p = pt_max_interval_s row \<and>
    ps_poll_interval_s p = poll_interval dflt (pt_poll_interval_s row)"
proof -
  have "sites_ok dflt (fold (settings_step jwt_decode stamp_of dflt) calls s)" if "sites_ok dflt s" for s
    using assms(2) that
  proof (induction calls arbitrary: s)
    case (Cons c calls)
    obtain now rq cookie pid body where c: "c = (now, rq, cookie, pid, body)" by (metis prod_cases5)
    have "sites_ok dflt (settings_step jwt_decode stamp_of dflt c s)"
      unfolding c by (rule settings_step_ok [OF Cons.prems(2)]) (use Cons.prems(1) c in simp)
    then show ?case using Cons.IH Cons.prems(1) by simp
  qed simp
  from this [OF assms(1)] assms(3-6) show ?thesis by (auto simp: sites_ok_def in_step_def)
qed

subsection \<open>From a write request to the device\<close>

text \<open>What \<open>process\<close> of the writer publishes for a command; \<open>text_of\<close> is the text of a refusal.\<close>

definition write_reply :: "(write_refusal \<Rightarrow> string) \<Rightarrow> string \<times> (write_refusal + unit) option \<Rightarrow> json" where
  "write_reply text_of answer =
     JObj [(''command_id'', JStr (fst answer)),
       (''status'', JStr (if snd answer = Some (Inr ()) then ''ok'' else ''error'')),
       (''message'', case snd answer of
          Some (Inr _) \<Rightarrow> JNull | Some (Inl e) \<Rightarrow> JStr (text_of e) | None \<Rightarrow> JStr ''commande invalide'')]"

text \<open>A command given to a collector that is waiting for it: the reply and what it has become.\<close>

definition collect ::
  "(json \<Rightarrow> string) \<Rightarrow> (write_refusal \<Rightarrow> string) \<Rightarrow> (write_request \<Rightarrow> write_result option) \<Rightarrow> rat \<Rightarrow> json \<Rightarrow> write_app \<Rightarrow>
   waited \<times> write_app" where
  "collect rp text_of dw max_age command a =
     (let (answer, a') = command_result rp (write_execute rp text_of dw max_age) (Some command) a
      in (Reply (write_reply text_of answer), a'))"

lemma authenticated_role:
  "authenticate jwt_decode stamp_of now cookie db = Inr user \<Longrightarrow> user_role db (cu_id user) = Some (cu_role user)"
  by (auto simp: authenticate_Inr load_user_Some user_role_def)

lemma check_accepts:
  assumes "refusal target vl priority (Some u) (get_user_role (wa_db a) u) = None" "wa_faults a = []"
    and "json_get c ''issued_at'' = Some (JFloat (Fin t))" "now - t \<le> max_age"
  shows "check_command max_age now c target vl priority (Some u) a = (Some None, a)"
  using assms by (simp add: check_command_def wa_io_def py_float_def not_less)

text \<open>A command the checks accept is written, once, and answered by what the driver answers.\<close>

lemma execute_accepted:
  assumes "command_fields rp c = Some (pid, vl, priority, Some u)" "wa_faults a = []"
    and "refusal (get_write_target (wa_db a) pid) vl priority (Some u) (get_user_role (wa_db a) u) = None"
    and "json_get c ''issued_at'' = Some (JFloat (Fin t))" "wa_now a - t \<le> max_age"
    and "get_write_target (wa_db a) pid = Some tg"
    and x: "write_execute rp text_of dw max_age c a = (res, a')"
  shows "wa_writes a' = wa_writes a @ [(wt_ref tg, vl, priority)] \<and>
    (res = Some (Inr ()) \<longleftrightarrow> (\<exists>r. dw (wt_ref tg, vl, priority) = Some r \<and> wr_ok r \<and>
      audit_accepted (wa_db a) (audit_of (wa_now a) pid (Some tg) vl priority (Some u) ''ok'')))"
proof -
  let ?a0 = "a\<lparr>wa_clock := tl (wa_clock a)\<rparr>"
  have io: "wa_io ?a0 = (False, ?a0)" using assms(2) by (simp add: wa_io_def)
  have "check_command max_age (wa_now a) c (Some tg) vl priority (Some u) ?a0 = (Some None, ?a0)"
    using assms by (intro check_accepts) simp_all
  note steps = x [unfolded write_execute_def Let_def assms(1) option.case prod.case io, simplified, simplified assms(6) this, simplified]
  show ?thesis
  proof (cases "dw (wt_ref tg, vl, priority)")
    case None
    with steps assms(6) show ?thesis by auto
  next
    case (Some r)
    with steps assms(2,6) show ?thesis
      by (auto simp: add_audit_def wa_io_def Let_def split: if_splits option.splits)
  qed
qed


subsection \<open>Examples\<close>

definition example_collector :: "database \<Rightarrow> write_app" where
  "example_collector db = \<lparr>wa_db = db, wa_clock = [22], wa_faults = [], wa_writes = [], wa_reads = []\<rparr>"


definition example_settings_site :: database where
  "example_settings_site = (example_site ''engineer'')\<lparr>db_points := [(3, example_setpoint\<lparr>pt_deadband := Fin (1 / 2)\<rparr>)]\<rparr>"

definition wider :: point_update where
  "wider = \<lparr>pu_path = None, pu_deadband = Some (Some (Fin 2)), pu_max_interval_s = None, pu_poll_interval_s = None,
     pu_write_min = None, pu_write_max = None, pu_tags = None\<rparr>"

lemma example_in_step: "sites_ok 30 (example_settings_site, example_registry)"
  by (simp add: sites_ok_def in_step_def example_registry_wf example_registry_point example_settings_site_def
      example_point_def example_setpoint_def poll_interval_def)

lemma example_widened:
  "\<exists>ans db'. point_route plain_decode id (\<lparr>rq_now = 20, rq_ip = None\<rparr>, op_cookie, 3, wider) example_settings_site =
     (ans, db', True) \<and> map_of (db_points db') 3 = Some (example_setpoint\<lparr>pt_deadband := Fin 2\<rparr>)"
proof -
  have "authenticate plain_decode id 20 op_cookie example_settings_site = Inr \<lparr>cu_id = 6, cu_login = ''op'', cu_role = ''engineer'', cu_stamp = ''x''\<rparr>"
  proof -
    have "load_user id (db\<lparr>db_points := x\<rparr>) u st = load_user id db u st" for db x u st
      by (simp add: load_user_def cong: option.case_cong if_cong)
    then have "authenticate plain_decode id 20 op_cookie (db\<lparr>db_points := x\<rparr>) =
        authenticate plain_decode id 20 op_cookie db" for db x
      by (simp add: authenticate_def cong: option.case_cong)
    then show ?thesis by (simp add: example_settings_site_def op_authenticated)
  qed
  moreover have "has_role ''engineer'' ENGINEER" by code_simp
  ultimately show ?thesis
    by (simp add: point_route_def guarded_def require_role_def update_point_def wider_def valid_point_update_def
        example_settings_site_def requested_def json_neq_def json_opt_def set_requested_def limits_crossed_def
        example_setpoint_def tag_change_def commit_def audit_accepted_def record_audit_def fits_def fits_opt_def
        jsonb_opt_def point_label_def example_site_def Let_def)
qed

theorem collector_settings_in_force_witness:
  "\<exists>p. registry_point (snd (fold (settings_step plain_decode id 30)
       [(21, \<lparr>rq_now = 20, rq_ip = None\<rparr>, op_cookie, 3, wider)] (example_settings_site, example_registry))) 3 = Some (2, p) \<and>
     ps_deadband p = Fin 2"
proof -
  let ?calls = "[(21, \<lparr>rq_now = 20, rq_ip = None\<rparr>, op_cookie, 3 :: nat, wider)]"
  obtain ans db' where r: "point_route plain_decode id (\<lparr>rq_now = 20, rq_ip = None\<rparr>, op_cookie, 3, wider) example_settings_site =
      (ans, db', True)" "map_of (db_points db') 3 = Some (example_setpoint\<lparr>pt_deadband := Fin 2\<rparr>)"
    using example_widened by blast
  let ?reg = "config_message 30 21 db' (Some (JObj [(''point_id'', JStr (uuid_str 3))])) example_registry"
  have f: "fold (settings_step plain_decode id 30) ?calls (example_settings_site, example_registry) = (db', ?reg)"
    by (simp add: settings_step_def r(1))
  have "registry_point ?reg 3 = Some (2, apply_settings 30 21 (the (get_point_settings db' 3)) example_point)"
    using reload_point(2) [OF example_registry_wf, of 3 30 21 db' 3]
    by (simp add: example_registry_point get_point_settings_def r(2))
  moreover note collector_settings_in_force [OF example_in_step _ f this r(2)]
  ultimately show ?thesis unfolding f by simp
qed

definition example_follower :: connection where
  "example_follower = ws_open\<lparr>cn_points := [3], cn_channels := [CHANNEL_ALARM_EVENT, point_value_channel 3]\<rparr>"

theorem reading_seen_everywhere_witness:
  "point_value_channel 3 \<in> set (cn_channels example_follower) \<and>
   map_of (upsert_latest (row_of (example_reading 7 20)) []) 3 = Some (latest_of (example_reading 7 20))"
proof -
  have id: "rd_point_id (example_reading 7 20) = 3" by (simp add: example_reading_def)
  have "listens example_follower"
    by (auto simp: listens_def example_follower_def ws_open_def MAX_SUBSCRIPTIONS_def)
  from reading_seen_everywhere [OF this, of "example_reading 7 20" 0 example_claims "[]"] show ?thesis
    by (simp add: id) (simp add: example_follower_def ws_open_def example_claims_def)
qed

end
